(* ===== verification/RP_Prelude.thy ===== *)
theory RP_Prelude
  imports Main "HOL-Library.Word" "HOL-Library.AList" "HOL-Library.Sublist"
begin

text \<open>
  Shared vocabulary of the development: the machine types of the Go sources, Go strings and
  byte slices (a \<open>char\<close> is one byte), the string helpers of the Go standard library that the
  sources call (\<open>strings.Split\<close>, \<open>binary.BigEndian.PutUint64\<close>), Go maps as association
  lists, and the generic lemmas that the component theories rely on.
\<close>

section \<open>Machine types\<close>

text \<open>\<open>uint64\<close> is a 64-bit word; Go strings and \<open>[]byte\<close> are lists of bytes.\<close>

type_synonym u64 = "64 word"
type_synonym bytes = string

text \<open>
  \<open>time.Time\<close> is the number of nanoseconds since the zero time of the \<open>time\<close> package
  (year 1), so that \<open>Time.IsZero\<close> is equality with 0 and \<open>Time.Before\<close> is the order;
  \<open>time.Duration\<close> is a number of nanoseconds.
\<close>

type_synonym gtime = int
type_synonym duration = int

abbreviation is_zero_time :: "gtime \<Rightarrow> bool" where
  "is_zero_time t \<equiv> t = 0"

text \<open>\<open>int64\<close> is an integer whose increment wraps at \<open>2^63\<close>, written out.\<close>

definition i64_wrap :: "int \<Rightarrow> int" where
  "i64_wrap x = (x + 2 ^ 63) mod 2 ^ 64 - 2 ^ 63"

definition i64_succ :: "int \<Rightarrow> int" where
  "i64_succ x = i64_wrap (x + 1)"

definition i64_max :: int where
  "i64_max = 2 ^ 63 - 1"

named_theorems go_simps \<open>unfolding of the Go-level helpers\<close>
named_theorems state_simps \<open>projections of the component states after an operation\<close>

lemma i64_succ_below [simp]: "0 \<le> x \<Longrightarrow> x < i64_max \<Longrightarrow> i64_succ x = x + 1"
  by (simp add: i64_succ_def i64_wrap_def i64_max_def)

lemma i64_wrap_id: "- (2 ^ 63) \<le> x \<Longrightarrow> x < 2 ^ 63 \<Longrightarrow> i64_wrap x = x"
  by (simp add: i64_wrap_def)

section \<open>Strings\<close>

text \<open>\<open>strings.Split\<close> with a one-byte separator: always at least one part.\<close>

fun split_on :: "char \<Rightarrow> string \<Rightarrow> string list" where
  "split_on c [] = [[]]"
| "split_on c (x # xs) =
     (if x = c then [] # split_on c xs
      else (case split_on c xs of [] \<Rightarrow> [[x]] | p # ps \<Rightarrow> (x # p) # ps))"

fun join_with :: "string \<Rightarrow> string list \<Rightarrow> string" where
  "join_with sep [] = []"
| "join_with sep [p] = p"
| "join_with sep (p # q # ps) = p @ sep @ join_with sep (q # ps)"

abbreviation dot :: char where
  "dot \<equiv> CHR ''.''"

text \<open>A subject token: a part that \<open>strings.Split(_, ".")\<close> returns whole.\<close>

definition no_dot :: "string \<Rightarrow> bool" where
  "no_dot s \<longleftrightarrow> dot \<notin> set s"

definition no_slash :: "string \<Rightarrow> bool" where
  "no_slash s \<longleftrightarrow> CHR ''/'' \<notin> set s"

lemma split_on_nonempty [simp]: "split_on c s \<noteq> []"
  by (cases s) (auto split: list.splits)

lemma split_on_Cons_neq:
  "x \<noteq> c \<Longrightarrow> split_on c (x # xs) = (x # hd (split_on c xs)) # tl (split_on c xs)"
  by (cases "split_on c xs") auto

lemma split_on_no_sep: "c \<notin> set s \<Longrightarrow> split_on c s = [s]"
  by (induction s) auto

lemma split_on_append_sep: "c \<notin> set p \<Longrightarrow> split_on c (p @ c # s) = p # split_on c s"
  by (induction p) auto

lemma split_on_parts: "p \<in> set (split_on c s) \<Longrightarrow> c \<notin> set p"
proof (induction s arbitrary: p)
  case Nil
  then show ?case by simp
next
  case (Cons x xs)
  then show ?case
    by (cases "split_on c xs") (auto split: if_splits)
qed

lemma join_split: "join_with [c] (split_on c s) = s"
proof (induction s)
  case Nil
  then show ?case by simp
next
  case (Cons x xs)
  obtain p ps where "split_on c xs = p # ps"
    by (cases "split_on c xs") auto
  with Cons show ?case
    by (cases ps) auto
qed

lemma split_join:
  "ps \<noteq> [] \<Longrightarrow> (\<And>p. p \<in> set ps \<Longrightarrow> c \<notin> set p) \<Longrightarrow> split_on c (join_with [c] ps) = ps"
proof (induction ps)
  case Nil
  then show ?case by simp
next
  case (Cons p ps)
  then show ?case
    by (cases ps) (simp_all add: split_on_no_sep split_on_append_sep)
qed

lemma append_sep_inject:
  "c \<notin> set p \<Longrightarrow> c \<notin> set q \<Longrightarrow> p @ c # s = q @ c # t \<longleftrightarrow> p = q \<and> s = t"
proof (induction p arbitrary: q)
  case Nil
  then show ?case by (cases q) auto
next
  case (Cons x p)
  then show ?case by (cases q) auto
qed

section \<open>Go maps as association lists\<close>

text \<open>
  A Go map that is iterated or whose length is read is an association list with distinct keys;
  the list order stands for one iteration order, on which no theorem depends. Lookup is
  \<open>map_of\<close>, assignment \<open>AList.update\<close>, \<open>delete\<close> is \<open>AList.delete\<close>.
\<close>

abbreviation keys :: "('k \<times> 'v) list \<Rightarrow> 'k list" where
  "keys m \<equiv> map fst m"

abbreviation wf_map :: "('k \<times> 'v) list \<Rightarrow> bool" where
  "wf_map m \<equiv> distinct (keys m)"

lemma map_of_update [simp]: "map_of (AList.update k v m) = (map_of m)(k \<mapsto> v)"
  by (simp add: update_conv')

lemma map_of_alist_delete [simp]: "map_of (AList.delete k m) = (map_of m)(k := None)"
  by (simp add: delete_conv')

lemma keys_delete: "keys (AList.delete k m) = filter (\<lambda>x. x \<noteq> k) (keys m)"
  by (induction m) (auto simp: AList.delete_eq)

lemma keys_update:
  "keys (AList.update k v m) = (if k \<in> set (keys m) then keys m else keys m @ [k])"
  by (induction m) auto

lemma length_update:
  "length (AList.update k v m) = (if k \<in> set (keys m) then length m else Suc (length m))"
  by (induction m) auto

lemma delete_absent: "k \<notin> set (keys m) \<Longrightarrow> AList.delete k m = m"
  by (induction m) auto

lemma length_delete_distinct:
  "wf_map m \<Longrightarrow> length (AList.delete k m) = (if k \<in> set (keys m) then length m - 1 else length m)"
proof (induction m)
  case Nil
  then show ?case by simp
next
  case (Cons a m)
  show ?case
  proof (cases "fst a = k")
    case True
    with Cons.prems have "AList.delete k m = m"
      by (intro delete_absent) auto
    with True show ?thesis by (cases a) simp
  next
    case False
    with Cons show ?thesis
      by (cases a; cases m) auto
  qed
qed

lemma set_delete_subset: "set (AList.delete k m) \<subseteq> set m"
  by (auto simp: AList.delete_eq)

lemma set_update_subset: "set (AList.update k v m) \<subseteq> insert (k, v) (set m)"
  by (induction m) auto

lemma map_of_None_keys: "map_of m k = None \<longleftrightarrow> k \<notin> set (keys m)"
  by (simp add: map_of_eq_None_iff)

lemma map_of_Some_keys: "map_of m k = Some v \<Longrightarrow> k \<in> set (keys m)"
  by (metis map_of_None_keys option.distinct(1))

section \<open>Prefixes of append-only lists\<close>

lemma prefix_snoc_cases: "prefix p (l @ [x]) \<longleftrightarrow> p = l @ [x] \<or> prefix p l"
  by (rule prefix_snoc)

lemma prefix_set: "prefix p l \<Longrightarrow> set p \<subseteq> set l"
  by (rule set_mono_prefix)

end
