(* ===== verification/Wire.thy ===== *)
theory Wire
  imports RP_Prelude
begin

text \<open>
  The wire contract of the signaling core (\<open>gen/go/relaypoint/interaction/v1/interaction.pb.go\<close>
  and its aliases in \<open>internal/signaling/envelope.go\<close>): the \<open>.log\<close> fact, the command, its
  result and the feed-control marker, as records whose selectors are the generated getters
  (a getter on a nil message returns the zero value, which is the value of an absent field).
  Timestamps are optional, as the pointer field is.
\<close>

record event =
  ev_schema :: string
  ev_type :: string
  ev_id :: string
  ev_seq :: int
  ev_occurred_at :: "gtime option"
  ev_tenant :: string
  ev_actor :: string
  ev_medium :: string
  ev_command_id :: string
  ev_payload_hash :: string
  ev_caused_by :: string
  ev_ref_id :: string
  ev_data :: bytes
  ev_commanded_by :: string
  ev_reason :: string
  ev_request_id :: string

record command =
  cmd_id :: string
  cmd_tenant :: string
  cmd_actor :: string
  cmd_type :: string
  cmd_medium :: string
  cmd_ref_id :: string
  cmd_data :: bytes

datatype cmd_status = STATUS_UNSPECIFIED | STATUS_ACCEPTED | STATUS_REJECTED

record cmd_result =
  res_command_id :: string
  res_status :: cmd_status
  res_caused_by :: string
  res_reason :: string

record feed_control =
  fc_schema :: string
  fc_control :: string
  fc_interaction_id :: string
  fc_at_sequence :: int

definition SchemaV1 :: string where
  "SchemaV1 = ''relaypoint.interaction.v1''"

abbreviation T_started :: string where "T_started \<equiv> ''interaction.started''"
abbreviation T_ended :: string where "T_ended \<equiv> ''interaction.ended''"
abbreviation T_joined :: string where "T_joined \<equiv> ''participant.joined''"
abbreviation T_left :: string where "T_left \<equiv> ''participant.left''"

text \<open>A result value with only some fields set, as the Go composite literals build it.\<close>

definition accepted_result :: "string \<Rightarrow> string \<Rightarrow> cmd_result" where
  "accepted_result cid caused =
     \<lparr>res_command_id = cid, res_status = STATUS_ACCEPTED, res_caused_by = caused, res_reason = ''''\<rparr>"

definition rejected_result :: "string \<Rightarrow> string \<Rightarrow> cmd_result" where
  "rejected_result cid reason =
     \<lparr>res_command_id = cid, res_status = STATUS_REJECTED, res_caused_by = '''', res_reason = reason\<rparr>"

lemma result_status [simp]:
  "res_status (accepted_result c b) = STATUS_ACCEPTED"
  "res_status (rejected_result c r) = STATUS_REJECTED"
  by (simp_all add: accepted_result_def rejected_result_def)

lemma result_command_id [simp]:
  "res_command_id (accepted_result c b) = c"
  "res_command_id (rejected_result c r) = c"
  by (simp_all add: accepted_result_def rejected_result_def)

end
