(* ===== verification/Identity.thy ===== *)
theory Identity
  imports Wire
begin

text \<open>
  \<open>internal/signaling/identity.go\<close> (roles, capabilities, the authenticated identity), the subject
  grammar of commands and logs (\<open>parseCmdSubject\<close>, \<open>logSubjectFor\<close> of \<open>router.go\<close>) and the
  identity the router binary derives from a delivery subject (\<open>cmd/router/main.go\<close>).
\<close>

section \<open>Identity\<close>

abbreviation RoleAgent :: string where "RoleAgent \<equiv> ''agent''"
abbreviation RoleTrustedBackend :: string where "RoleTrustedBackend \<equiv> ''trusted-backend''"
abbreviation RoleVisitor :: string where "RoleVisitor \<equiv> ''visitor''"
abbreviation CapabilityAgentFeed :: string where "CapabilityAgentFeed \<equiv> ''agent-feed''"
abbreviation CapabilityAgentFeedAdminOperationObserver :: string where
  "CapabilityAgentFeedAdminOperationObserver \<equiv> ''agent-feed-admin-operation-observer''"

record identity =
  id_tenant :: string
  id_user :: string
  id_role :: string
  id_capability :: string
  id_conversation :: string
  id_expires_at :: gtime

definition no_identity :: identity where
  "no_identity = \<lparr>id_tenant = '''', id_user = '''', id_role = '''', id_capability = '''',
                  id_conversation = '''', id_expires_at = 0\<rparr>"

definition RoleOf :: "identity \<Rightarrow> string" where
  "RoleOf i = id_role i"

definition IsSubscriberCapability :: "string \<Rightarrow> bool" where
  "IsSubscriberCapability c \<longleftrightarrow>
     c = CapabilityAgentFeed \<or> c = CapabilityAgentFeedAdminOperationObserver"

definition isAuthenticated :: "identity \<Rightarrow> bool" where
  "isAuthenticated i \<longleftrightarrow> id_user i \<noteq> '''' \<or> id_role i \<noteq> '''' \<or> id_capability i \<noteq> ''''"

section \<open>Subjects\<close>

definition logSubjectFor :: "string \<Rightarrow> string \<Rightarrow> string" where
  "logSubjectFor tenant iid = ''tenant.'' @ tenant @ ''.interaction.'' @ iid @ ''.log''"

definition parseCmdSubject :: "string \<Rightarrow> (string \<times> string \<times> string) option" where
  "parseCmdSubject s =
     (let p = split_on dot s
      in if length p \<noteq> 6 \<or> p ! 0 \<noteq> ''tenant'' \<or> p ! 2 \<noteq> ''interaction'' \<or> p ! 4 \<noteq> ''cmd'' then None
         else if p ! 1 = '''' \<or> p ! 3 = '''' \<or> p ! 5 = '''' then None
         else Some (p ! 1, p ! 3, p ! 5))"

text \<open>The stream that keeps the logs (\<open>LogStreamName\<close> of \<open>store.go\<close>).\<close>

definition LogStreamName :: string where
  "LogStreamName = ''INTERACTION_LOGS''"

text \<open>The subject a client publishes a command on.\<close>

definition cmd_subject :: "string \<Rightarrow> string \<Rightarrow> string \<Rightarrow> string" where
  "cmd_subject tenant iid self =
     ''tenant.'' @ tenant @ ''.interaction.'' @ iid @ ''.cmd.'' @ self"

lemma cmd_subject_join:
  "cmd_subject t i u = join_with [dot] [''tenant'', t, ''interaction'', i, ''cmd'', u]"
  by (simp add: cmd_subject_def)

lemma split_cmd_subject:
  assumes "no_dot t" "no_dot i" "no_dot u"
  shows "split_on dot (cmd_subject t i u) = [''tenant'', t, ''interaction'', i, ''cmd'', u]"
  unfolding cmd_subject_join by (rule split_join) (use assms in \<open>auto simp: no_dot_def\<close>)

lemma length_6_conv:
  "length p = 6 \<longleftrightarrow> (\<exists>a b c d e f. p = [a, b, c, d, e, f])"
  by (auto simp: eval_nat_numeral length_Suc_conv)

lemma parseCmdSubject_Some:
  "parseCmdSubject s = Some (t, i, u) \<longleftrightarrow>
     s = cmd_subject t i u \<and> no_dot t \<and> no_dot i \<and> no_dot u \<and> t \<noteq> '''' \<and> i \<noteq> '''' \<and> u \<noteq> ''''"
proof
  assume p: "parseCmdSubject s = Some (t, i, u)"
  then have len: "length (split_on dot s) = 6"
    by (auto simp: parseCmdSubject_def Let_def split: if_splits)
  with p have sp: "split_on dot s = [''tenant'', t, ''interaction'', i, ''cmd'', u]"
      and ne: "t \<noteq> ''''" "i \<noteq> ''''" "u \<noteq> ''''"
    by (auto simp: parseCmdSubject_def Let_def length_6_conv split: if_splits)
  have "s = cmd_subject t i u"
    using join_split [of dot s] by (simp add: sp cmd_subject_join)
  moreover have "no_dot t" "no_dot i" "no_dot u"
    using split_on_parts [of _ dot s] by (auto simp: sp no_dot_def)
  ultimately show "s = cmd_subject t i u \<and> no_dot t \<and> no_dot i \<and> no_dot u \<and>
      t \<noteq> '''' \<and> i \<noteq> '''' \<and> u \<noteq> ''''"
    using ne by simp
next
  assume r: "s = cmd_subject t i u \<and> no_dot t \<and> no_dot i \<and> no_dot u \<and>
      t \<noteq> '''' \<and> i \<noteq> '''' \<and> u \<noteq> ''''"
  then have "split_on dot s = [''tenant'', t, ''interaction'', i, ''cmd'', u]"
    by (simp add: split_cmd_subject)
  with r show "parseCmdSubject s = Some (t, i, u)"
    by (simp add: parseCmdSubject_def Let_def)
qed

lemma split_logSubjectFor:
  assumes "no_dot a" "no_dot b"
  shows "split_on dot (logSubjectFor a b) = [''tenant'', a, ''interaction'', b, ''log'']"
proof -
  have join: "logSubjectFor a b = join_with [dot] [''tenant'', a, ''interaction'', b, ''log'']"
    by (simp add: logSubjectFor_def)
  show ?thesis
    unfolding join by (rule split_join) (use assms in \<open>auto simp: no_dot_def\<close>)
qed

lemma logSubjectFor_inject:
  assumes "no_dot t" "no_dot t'" "no_dot i" "no_dot i'"
    and "logSubjectFor t i = logSubjectFor t' i'"
  shows "t = t' \<and> i = i'"
proof -
  from assms have "[''tenant'', t, ''interaction'', i, ''log''] = [''tenant'', t', ''interaction'', i', ''log'']"
    by (metis split_logSubjectFor)
  then show ?thesis by simp
qed

section \<open>The router binary's identity\<close>

text \<open>
  \<open>strings.TrimSpace\<close> on ASCII input: the six ASCII white-space bytes are dropped at both ends
  (the two non-ASCII code points that Go also trims are outside the modelled alphabet).
\<close>

definition is_space :: "char \<Rightarrow> bool" where
  "is_space c \<longleftrightarrow> c \<in> set [CHR 0x09, CHR 0x0A, CHR 0x0B, CHR 0x0C, CHR 0x0D, CHR '' '']"

definition trim_space :: "string \<Rightarrow> string" where
  "trim_space s = rev (dropWhile is_space (rev (dropWhile is_space s)))"

definition trustedSet :: "string \<Rightarrow> string set" where
  "trustedSet csv = {x \<in> set (map trim_space (split_on (CHR '','') csv)). x \<noteq> ''''}"

definition identityFromSubject :: "string \<Rightarrow> string set \<Rightarrow> identity" where
  "identityFromSubject subject trusted =
     (let p = split_on dot subject
      in if length p \<noteq> 6 \<or> p ! 1 = '''' \<or> p ! 5 = '''' then no_identity
         else if p ! 5 \<in> trusted
         then no_identity\<lparr>id_tenant := p ! 1, id_user := p ! 5, id_role := RoleTrustedBackend\<rparr>
         else no_identity\<lparr>id_tenant := p ! 1, id_user := p ! 5, id_capability := CapabilityAgentFeed\<rparr>)"

definition devTrustedIdentity :: "string \<Rightarrow> string set \<Rightarrow> identity" where
  "devTrustedIdentity subject trusted =
     (let p = split_on dot subject
      in if length p \<noteq> 6 \<or> p ! 1 = '''' \<or> p ! 5 = '''' \<or> p ! 5 \<notin> trusted then no_identity
         else no_identity\<lparr>id_tenant := p ! 1, id_user := p ! 5, id_role := RoleTrustedBackend\<rparr>)"

lemma identityFromSubject_cmd:
  assumes "parseCmdSubject s = Some (t, i, u)"
  shows "identityFromSubject s trusted =
    (if u \<in> trusted then no_identity\<lparr>id_tenant := t, id_user := u, id_role := RoleTrustedBackend\<rparr>
     else no_identity\<lparr>id_tenant := t, id_user := u, id_capability := CapabilityAgentFeed\<rparr>)"
  using assms by (auto simp: identityFromSubject_def parseCmdSubject_def Let_def split: if_splits)

end
