(* ===== verification/Log_Store.thy ===== *)
theory Log_Store
  imports Identity
begin

text \<open>
  The \<open>LogStore\<close> port of \<open>internal/signaling/store.go\<close>: the only infrastructure the router core
  depends on. The port is a record of its two operations over an abstract store state, so that
  what other routers and the broker do between two calls can live in that state; the in-memory
  store of the repository's unit tests is the executable provider. What the router relies on is
  the locale \<open>log_store\<close> of the theory \<open>Router_Log\<close>.
\<close>

section \<open>The port\<close>

text \<open>
  A stream sequence is a \<open>uint64\<close> the broker assigns; the router stores it and hands it back as the
  expected value of the next append, it never computes with it. It is a natural number here.
\<close>

type_synonym stream_seq = nat

datatype append_err = ErrOCCConflict | AppendFailed string

record ('s, 'b) log_port =
  lp_append :: "'s \<Rightarrow> string \<Rightarrow> 'b \<Rightarrow> string \<Rightarrow> stream_seq \<Rightarrow> (append_err + bool \<times> stream_seq) \<times> 's"
  lp_replay :: "'s \<Rightarrow> string \<Rightarrow> (string + event list \<times> stream_seq) \<times> 's"

section \<open>The in-memory store of the unit tests\<close>

text \<open>
  \<open>fakeStore\<close> of \<open>router_unit_test.go\<close>. The wire codec is third-party code: its decoder is the
  parameter \<open>unm\<close>; a payload that does not decode leaves the zero event, as the ignored error of
  \<open>proto.Unmarshal\<close> does.
\<close>

record fake_store =
  fs_facts :: "(string \<times> event list) list"
  fs_dedup :: "string list"
  fs_stream_seq :: stream_seq
  fs_last_seq :: "(string \<times> stream_seq) list"

definition zero_event :: event where
  "zero_event = \<lparr>ev_schema = '''', ev_type = '''', ev_id = '''', ev_seq = 0, ev_occurred_at = None,
     ev_tenant = '''', ev_actor = '''', ev_medium = '''', ev_command_id = '''',
     ev_payload_hash = '''', ev_caused_by = '''', ev_ref_id = '''', ev_data = '''',
     ev_commanded_by = '''', ev_reason = '''', ev_request_id = ''''\<rparr>"

definition newFakeStore :: fake_store where
  "newFakeStore = \<lparr>fs_facts = [], fs_dedup = [], fs_stream_seq = 0, fs_last_seq = []\<rparr>"

definition map_get :: "'v \<Rightarrow> ('k \<times> 'v) list \<Rightarrow> 'k \<Rightarrow> 'v" where
  "map_get zero m k = (case map_of m k of None \<Rightarrow> zero | Some v \<Rightarrow> v)"

definition fake_append ::
  "('b \<Rightarrow> event option) \<Rightarrow> fake_store \<Rightarrow> string \<Rightarrow> 'b \<Rightarrow> string \<Rightarrow> stream_seq \<Rightarrow>
     (append_err + bool \<times> stream_seq) \<times> fake_store" where
  "fake_append unm s subject data dedupID expected =
     (if dedupID \<in> set (fs_dedup s) then (Inr (True, map_get 0 (fs_last_seq s) subject), s)
      else if map_get 0 (fs_last_seq s) subject \<noteq> expected then (Inl ErrOCCConflict, s)
      else let n = fs_stream_seq s + 1;
               e = (case unm data of None \<Rightarrow> zero_event | Some e \<Rightarrow> e)
           in (Inr (False, n),
               s\<lparr>fs_dedup := dedupID # fs_dedup s, fs_stream_seq := n,
                 fs_last_seq := AList.update subject n (fs_last_seq s),
                 fs_facts := AList.update subject (map_get [] (fs_facts s) subject @ [e]) (fs_facts s)\<rparr>))"

definition fake_replay :: "fake_store \<Rightarrow> string \<Rightarrow> (string + event list \<times> stream_seq) \<times> fake_store" where
  "fake_replay s subject =
     (Inr (map_get [] (fs_facts s) subject, map_get 0 (fs_last_seq s) subject), s)"

definition fake_port :: "('b \<Rightarrow> event option) \<Rightarrow> (fake_store, 'b) log_port" where
  "fake_port unm = \<lparr>lp_append = fake_append unm, lp_replay = fake_replay\<rparr>"

end
