(* ===== verification/Participation_View.thy ===== *)
theory Participation_View
  imports Wire
begin

text \<open>
  \<open>internal/signaling/participation.go\<close>: the membership view folded from the \<open>.log\<close>, shared by
  the router's write gate and the projector's fan-out. A view maps each agent to its membership
  intervals; \<open>participant.joined\<close> opens one, \<open>participant.left\<close> closes the last open one. The
  reference definition \<open>member_after\<close> reads membership off the fact list directly; the lemmas
  show that the interval bookkeeping computes it, now and retrospectively.
\<close>

section \<open>The view and its operations\<close>

record interval =
  join_seq :: int
  left_seq :: int
  left_open :: bool

type_synonym view = "(string \<times> interval list) list"

definition view_get :: "view \<Rightarrow> string \<Rightarrow> interval list" where
  "view_get v agent = (case map_of v agent of None \<Rightarrow> [] | Some ivs \<Rightarrow> ivs)"

definition NewParticipationView :: view where
  "NewParticipationView = []"

definition view_open :: "view \<Rightarrow> string \<Rightarrow> int \<Rightarrow> view" where
  "view_open v agent s =
     (let cur = view_get v agent
      in if cur \<noteq> [] \<and> left_open (last cur) then v
         else AList.update agent (cur @ [\<lparr>join_seq = s, left_seq = 0, left_open = True\<rparr>]) v)"

text \<open>The loop of \<open>close\<close> walks the slice from its end: recursion over the reversed list.\<close>

fun close_rev :: "int \<Rightarrow> interval list \<Rightarrow> interval list" where
  "close_rev s [] = []"
| "close_rev s (iv # ivs) =
     (if left_open iv then iv\<lparr>left_seq := s, left_open := False\<rparr> # ivs
      else iv # close_rev s ivs)"

definition view_close :: "view \<Rightarrow> string \<Rightarrow> int \<Rightarrow> view" where
  "view_close v agent s =
     (case map_of v agent of
        None \<Rightarrow> v
      | Some cur \<Rightarrow> AList.update agent (rev (close_rev s (rev cur))) v)"

definition ApplyFact :: "view \<Rightarrow> event \<Rightarrow> view" where
  "ApplyFact v e =
     (if ev_type e = T_joined then view_open v (ev_actor e) (ev_seq e)
      else if ev_type e = T_left then view_close v (ev_actor e) (ev_seq e)
      else v)"

definition FoldParticipation :: "event list \<Rightarrow> view" where
  "FoldParticipation facts = foldl ApplyFact NewParticipationView facts"

definition Agents :: "view \<Rightarrow> string list" where
  "Agents v = keys v"

definition SetIntervals :: "view \<Rightarrow> string \<Rightarrow> interval list \<Rightarrow> view" where
  "SetIntervals v agent ivs = (if ivs = [] then v else AList.update agent ivs v)"

definition IsParticipantNow :: "view \<Rightarrow> string \<Rightarrow> bool" where
  "IsParticipantNow v agent =
     (let cur = view_get v agent in if cur \<noteq> [] then left_open (last cur) else False)"

definition Intervals :: "view \<Rightarrow> string \<Rightarrow> interval list" where
  "Intervals v agent = view_get v agent"

section \<open>Reference semantics\<close>

text \<open>The last participation fact of an agent decides whether it is a member.\<close>

definition concerns :: "string \<Rightarrow> event \<Rightarrow> bool" where
  "concerns a e \<longleftrightarrow> (ev_type e = T_joined \<or> ev_type e = T_left) \<and> ev_actor e = a"

definition member_after :: "event list \<Rightarrow> string \<Rightarrow> bool" where
  "member_after facts a =
     (case filter (concerns a) facts of [] \<Rightarrow> False | es \<Rightarrow> ev_type (last es) = T_joined)"

definition covers :: "interval list \<Rightarrow> int \<Rightarrow> bool" where
  "covers ivs s \<longleftrightarrow> (\<exists>iv \<in> set ivs. join_seq iv \<le> s \<and> (left_open iv \<or> s \<le> left_seq iv))"

text \<open>Only the last interval of an agent may be open.\<close>

definition ivs_ok :: "interval list \<Rightarrow> bool" where
  "ivs_ok ivs \<longleftrightarrow> (\<forall>iv \<in> set (butlast ivs). \<not> left_open iv)"

definition view_ok :: "view \<Rightarrow> bool" where
  "view_ok v \<longleftrightarrow> wf_map v \<and> (\<forall>a. ivs_ok (view_get v a))"

section \<open>Lemmas on the operations\<close>

lemma close_rev_closed: "\<forall>iv \<in> set ivs. \<not> left_open iv \<Longrightarrow> close_rev s ivs = ivs"
  by (induction ivs) auto

lemma close_snoc:
  assumes "ivs_ok (ivs @ [iv])"
  shows "rev (close_rev s (rev (ivs @ [iv]))) =
           ivs @ [if left_open iv then iv\<lparr>left_seq := s, left_open := False\<rparr> else iv]"
  using assms close_rev_closed [of "rev ivs" s] by (auto simp: ivs_ok_def)

lemma view_get_update [simp]:
  "view_get (AList.update a ivs v) b = (if b = a then ivs else view_get v b)"
  by (simp add: view_get_def)

lemma view_get_empty [simp]: "view_get [] a = []"
  by (simp add: view_get_def)

lemma view_get_open:
  "view_get (view_open v a s) b =
     (if b = a \<and> \<not> IsParticipantNow v a
      then view_get v a @ [\<lparr>join_seq = s, left_seq = 0, left_open = True\<rparr>] else view_get v b)"
  by (auto simp: view_open_def IsParticipantNow_def Let_def)

lemma view_get_close:
  assumes "ivs_ok (view_get v a)"
  shows "view_get (view_close v a s) b =
     (if b = a \<and> IsParticipantNow v a
      then butlast (view_get v a) @ [(last (view_get v a))\<lparr>left_seq := s, left_open := False\<rparr>]
      else view_get v b)"
proof (cases "map_of v a")
  case None
  then show ?thesis by (auto simp: view_close_def IsParticipantNow_def view_get_def)
next
  case (Some cur)
  then have cur: "view_get v a = cur" by (simp add: view_get_def)
  show ?thesis
  proof (cases cur rule: rev_cases)
    case Nil
    with Some cur show ?thesis by (auto simp: view_close_def IsParticipantNow_def)
  next
    case (snoc ivs iv)
    with assms cur Some show ?thesis
      using close_snoc [of ivs iv s] by (auto simp: view_close_def IsParticipantNow_def)
  qed
qed

lemma wf_map_open: "wf_map v \<Longrightarrow> wf_map (view_open v a s)"
  by (simp add: view_open_def Let_def distinct_update)

lemma wf_map_close: "wf_map v \<Longrightarrow> wf_map (view_close v a s)"
  by (simp add: view_close_def distinct_update split: option.splits)

lemma view_ok_empty [simp]: "view_ok NewParticipationView"
  by (simp add: view_ok_def NewParticipationView_def ivs_ok_def)

lemma view_ok_open: "view_ok v \<Longrightarrow> view_ok (view_open v a s)"
proof -
  assume v: "view_ok v"
  have "ivs_ok (view_get (view_open v a s) b)" for b
  proof (cases "b = a \<and> \<not> IsParticipantNow v a")
    case True
    with v have "\<forall>iv \<in> set (view_get v a). \<not> left_open iv"
      by (cases "view_get v a" rule: rev_cases)
         (auto simp: view_ok_def ivs_ok_def IsParticipantNow_def Let_def dest: spec [of _ a])
    with True show ?thesis by (simp add: view_get_open ivs_ok_def)
  next
    case False
    with v show ?thesis by (auto simp: view_get_open view_ok_def)
  qed
  with v show ?thesis by (simp add: view_ok_def wf_map_open)
qed

lemma view_ok_close: "view_ok v \<Longrightarrow> view_ok (view_close v a s)"
proof -
  assume v: "view_ok v"
  then have "ivs_ok (view_get (view_close v a s) b)" for b
    by (auto simp: view_ok_def view_get_close ivs_ok_def)
  with v show ?thesis by (simp add: view_ok_def wf_map_close)
qed

lemma view_ok_ApplyFact: "view_ok v \<Longrightarrow> view_ok (ApplyFact v e)"
  by (simp add: ApplyFact_def view_ok_open view_ok_close)

lemma FoldParticipation_snoc [simp]:
  "FoldParticipation (fs @ [e]) = ApplyFact (FoldParticipation fs) e"
  by (simp add: FoldParticipation_def)

lemma FoldParticipation_Nil [simp]: "FoldParticipation [] = NewParticipationView"
  by (simp add: FoldParticipation_def)

lemma view_ok_fold: "view_ok (FoldParticipation fs)"
  by (induction fs rule: rev_induct) (simp_all add: view_ok_ApplyFact)

lemma ivs_ok_fold: "ivs_ok (view_get (FoldParticipation fs) a)"
  using view_ok_fold [of fs] by (simp add: view_ok_def)

lemma ApplyFact_other:
  "ev_type e \<noteq> T_joined \<Longrightarrow> ev_type e \<noteq> T_left \<Longrightarrow> ApplyFact v e = v"
  by (simp add: ApplyFact_def)

lemma IsParticipantNow_ApplyFact:
  assumes "view_ok v"
  shows "IsParticipantNow (ApplyFact v e) a =
           (if concerns a e then ev_type e = T_joined else IsParticipantNow v a)"
proof -
  from assms have ok: "\<And>b. ivs_ok (view_get v b)" by (simp add: view_ok_def)
  show ?thesis
    by (auto simp: ApplyFact_def concerns_def IsParticipantNow_def [of "view_open _ _ _"]
        IsParticipantNow_def [of "view_close _ _ _"] view_get_open view_get_close [OF ok] Let_def)
       (auto simp: IsParticipantNow_def Let_def)
qed

lemma member_after_snoc:
  "member_after (fs @ [e]) a = (if concerns a e then ev_type e = T_joined else member_after fs a)"
  by (cases "filter (concerns a) fs") (auto simp: member_after_def)

lemma member_after_Nil [simp]: "\<not> member_after [] a"
  by (simp add: member_after_def)

lemma IsParticipantNow_fold: "IsParticipantNow (FoldParticipation fs) a = member_after fs a"
  by (induction fs rule: rev_induct)
     (simp_all add: IsParticipantNow_ApplyFact view_ok_fold member_after_snoc,
      simp add: IsParticipantNow_def NewParticipationView_def)

section \<open>Retrospective coverage\<close>

text \<open>The facts carry strictly increasing sequence numbers, as the router writes them.\<close>

definition seq_increasing :: "event list \<Rightarrow> bool" where
  "seq_increasing fs \<longleftrightarrow> sorted_wrt (<) (map ev_seq fs)"

definition below :: "interval list \<Rightarrow> int \<Rightarrow> bool" where
  "below ivs s \<longleftrightarrow> (\<forall>iv \<in> set ivs. join_seq iv < s \<and> (left_open iv \<or> left_seq iv < s))"

lemma seq_increasing_snoc:
  "seq_increasing (fs @ [e]) \<longleftrightarrow> seq_increasing fs \<and> (\<forall>x \<in> set fs. ev_seq x < ev_seq e)"
  by (auto simp: seq_increasing_def sorted_wrt_append)

lemma below_fold:
  "(\<And>x. x \<in> set fs \<Longrightarrow> ev_seq x < s) \<Longrightarrow> below (view_get (FoldParticipation fs) a) s"
proof (induction fs rule: rev_induct)
  case Nil
  then show ?case by (simp add: below_def NewParticipationView_def)
next
  case (snoc e fs)
  let ?v = "FoldParticipation fs"
  have IH: "below (view_get ?v a) s" and e: "ev_seq e < s"
    using snoc by auto
  have last_in: "view_get ?v a \<noteq> [] \<Longrightarrow> last (view_get ?v a) \<in> set (view_get ?v a)" by simp
  show ?case
    using IH e last_in
    by (auto simp: ApplyFact_def view_get_open view_get_close [OF ivs_ok_fold] below_def
        IsParticipantNow_def Let_def dest: in_set_butlastD split: if_splits)
qed

text \<open>A later fact never changes which agents an earlier sequence number covers.\<close>

lemma covers_ApplyFact_earlier:
  assumes ok: "view_ok v" and s: "s < ev_seq e"
  shows "covers (view_get (ApplyFact v e) a) s = covers (view_get v a) s"
proof (cases "ev_type e = T_joined \<or> ev_type e = T_left")
  case False
  then show ?thesis by (simp add: ApplyFact_def)
next
  case True
  from ok have ivs: "\<And>b. ivs_ok (view_get v b)" by (simp add: view_ok_def)
  show ?thesis
  proof (cases "view_get v a" rule: rev_cases)
    case Nil
    with s show ?thesis
      by (auto simp: ApplyFact_def view_get_open view_get_close [OF ivs] covers_def
          IsParticipantNow_def Let_def)
  next
    case (snoc ivs' iv)
    with s show ?thesis
      by (auto simp: ApplyFact_def view_get_open view_get_close [OF ivs] covers_def
          IsParticipantNow_def Let_def)
  qed
qed

text \<open>The newest fact covers the members before it and the members after it.\<close>

lemma covers_newest:
  assumes "\<And>x. x \<in> set fs \<Longrightarrow> ev_seq x < ev_seq e"
  shows "covers (view_get (FoldParticipation (fs @ [e])) a) (ev_seq e) \<longleftrightarrow>
           member_after fs a \<or> member_after (fs @ [e]) a"
proof -
  let ?v = "FoldParticipation fs"
  let ?ivs = "view_get ?v a"
  have below: "below ?ivs (ev_seq e)" using assms by (rule below_fold)
  have cov: "covers ?ivs (ev_seq e) = IsParticipantNow ?v a"
  proof (cases ?ivs rule: rev_cases)
    case Nil
    then show ?thesis by (simp add: covers_def IsParticipantNow_def)
  next
    case (snoc ivs' iv)
    with below ivs_ok_fold [of fs a] show ?thesis
      by (fastforce simp: covers_def IsParticipantNow_def below_def ivs_ok_def)
  qed
  have mem: "member_after fs a = IsParticipantNow ?v a" by (simp add: IsParticipantNow_fold)
  show ?thesis
  proof (cases "concerns a e")
    case False
    then have "view_get (ApplyFact ?v e) a = ?ivs"
      by (auto simp: ApplyFact_def view_get_open view_get_close [OF ivs_ok_fold] concerns_def)
    with False cov mem show ?thesis by (simp add: member_after_snoc)
  next
    case True
    show ?thesis
    proof (cases "ev_type e = T_joined")
      case True
      with \<open>concerns a e\<close> cov show ?thesis
        by (auto simp: member_after_snoc ApplyFact_def view_get_open concerns_def covers_def)
    next
      case False
      with \<open>concerns a e\<close> have t: "ev_type e = T_left" "ev_actor e = a" by (auto simp: concerns_def)
      show ?thesis
      proof (cases "IsParticipantNow ?v a")
        case True
        then have ne: "?ivs \<noteq> []"
          by (auto simp: IsParticipantNow_def Let_def)
        have "join_seq (last ?ivs) < ev_seq e"
          using below last_in_set [OF ne] unfolding below_def by blast
        then have "join_seq (last ?ivs) \<le> ev_seq e" by simp
        with t True mem show ?thesis
          by (auto simp: ApplyFact_def view_get_close [OF ivs_ok_fold] covers_def)
      next
        case False
        with t \<open>concerns a e\<close> cov mem show ?thesis
          by (simp add: ApplyFact_def view_get_close [OF ivs_ok_fold] member_after_snoc)
      qed
    qed
  qed
qed

lemma covers_retrospective:
  assumes "seq_increasing (pre @ e # post)"
  shows "covers (view_get (FoldParticipation (pre @ e # post)) a) (ev_seq e) \<longleftrightarrow>
           member_after pre a \<or> member_after (pre @ [e]) a"
  using assms
proof (induction post rule: rev_induct)
  case Nil
  then show ?case
    using covers_newest [of pre e a] by (simp add: seq_increasing_snoc)
next
  case (snoc x post)
  have split: "pre @ e # post @ [x] = (pre @ e # post) @ [x]" by simp
  have inc: "seq_increasing (pre @ e # post)" and lt: "ev_seq e < ev_seq x"
    using snoc.prems unfolding split seq_increasing_snoc by auto
  have "covers (view_get (FoldParticipation (pre @ e # post @ [x])) a) (ev_seq e) =
          covers (view_get (FoldParticipation (pre @ e # post)) a) (ev_seq e)"
    unfolding split FoldParticipation_snoc
    by (rule covers_ApplyFact_earlier [OF view_ok_fold lt])
  with snoc.IH [OF inc] show ?case by simp
qed

text \<open>Applying a redelivered participation fact again changes nothing.\<close>

lemma ApplyFact_idem_get:
  assumes "view_ok v"
  shows "view_get (ApplyFact (ApplyFact v e) e) a = view_get (ApplyFact v e) a"
proof -
  have ok: "view_ok (ApplyFact v e)" using assms by (rule view_ok_ApplyFact)
  then have ivs: "\<And>b. ivs_ok (view_get (ApplyFact v e) b)" by (simp add: view_ok_def)
  have now: "IsParticipantNow (ApplyFact v e) b =
      (if concerns b e then ev_type e = T_joined else IsParticipantNow v b)" for b
    using assms by (rule IsParticipantNow_ApplyFact)
  show ?thesis
    using now [of "ev_actor e"]
    by (auto simp: ApplyFact_def [of "ApplyFact v e"] view_get_open view_get_close [OF ivs]
        concerns_def)
qed

end
