(* ===== verification/Go_Bytes.thy ===== *)
theory Go_Bytes
  imports RP_Prelude
begin

text \<open>
  \<open>binary.BigEndian.PutUint64\<close> and the framing that every hash of the sources uses: each part is written
  behind its length in eight bytes. A list of parts is determined by its framed bytes.
\<close>

definition be64 :: "int \<Rightarrow> bytes" where
  "be64 n = map (\<lambda>k. char_of (n div 256 ^ k mod 256)) [7, 6, 5, 4, 3, 2, 1, 0]"

definition be64_value :: "bytes \<Rightarrow> int" where
  "be64_value b = foldl (\<lambda>acc c. acc * 256 + of_char c) 0 b"

lemma digit_step: "(x :: int) mod (256 * m) = (x div m mod 256) * m + x mod m" if "0 < m"
proof -
  have "x mod (m * 256) = m * (x div m mod 256) + x mod m"
    using that by (simp add: zmod_zmult2_eq)
  then show ?thesis by (simp add: mult.commute)
qed

lemma be64_value_Cons: "be64_value (c # b) = of_char c * 256 ^ length b + be64_value b"
proof -
  have "foldl (\<lambda>acc c. acc * 256 + of_char c) a b = a * 256 ^ length b + be64_value b" for a :: int
  proof (induction b arbitrary: a)
    case (Cons x b)
    show ?case
      using Cons.IH [of "a * 256 + of_char x"] Cons.IH [of "of_char x"]
      by (simp add: be64_value_def algebra_simps)
  qed (simp add: be64_value_def)
  from this [of "of_char c"] show ?thesis by (simp add: be64_value_def)
qed

lemma digits_value:
  "be64_value (map (\<lambda>k. char_of (x div 256 ^ k mod 256)) (rev [0..<n])) = x mod 256 ^ n"
proof (induction n)
  case (Suc n)
  have "x mod 256 ^ Suc n = (x div 256 ^ n mod 256) * 256 ^ n + x mod 256 ^ n"
    using digit_step [of "256 ^ n" x] by simp
  with Suc show ?case by (simp add: be64_value_Cons)
qed (simp add: be64_value_def)

lemma be64_value_be64: "be64_value (be64 x) = x mod 2 ^ 64"
proof -
  have "[7, 6, 5, 4, 3, 2, 1, 0] = rev [0..<8]" by (simp add: upt_rec)
  then show ?thesis unfolding be64_def using digits_value [of x 8] by simp
qed

lemma length_be64 [simp]: "length (be64 x) = 8"
  by (simp add: be64_def)

lemma be64_inject: "0 \<le> x \<Longrightarrow> x < 2 ^ 64 \<Longrightarrow> 0 \<le> y \<Longrightarrow> y < 2 ^ 64 \<Longrightarrow> be64 x = be64 y \<Longrightarrow> x = y"
  by (metis be64_value_be64 mod_pos_pos_trivial)

definition sized :: "bytes \<Rightarrow> bytes" where
  "sized b = be64 (int (length b) mod 2 ^ 64) @ b"

lemma sized_inject:
  assumes "int (length b) < 2 ^ 64" "int (length b') < 2 ^ 64"
  shows "sized b @ xs = sized b' @ ys \<longleftrightarrow> b = b' \<and> xs = ys"
proof
  have md: "int (length b) mod 2 ^ 64 = int (length b)" "int (length b') mod 2 ^ 64 = int (length b')"
    by (rule mod_pos_pos_trivial; use assms in \<open>simp only: of_nat_0_le_iff\<close>)+
  assume eq: "sized b @ xs = sized b' @ ys"
  then have split: "be64 (int (length b)) @ b @ xs = be64 (int (length b')) @ b' @ ys"
    by (simp only: sized_def md append_assoc)
  have "length (be64 (int (length b))) = length (be64 (int (length b')))" by (simp only: length_be64)
  then have "be64 (int (length b)) = be64 (int (length b')) \<and> b @ xs = b' @ ys"
    by (intro iffD1 [OF append_eq_append_conv split] disjI1)
  then have heads: "be64 (int (length b)) = be64 (int (length b'))" and rest: "b @ xs = b' @ ys" by blast+
  have "int (length b) = be64_value (be64 (int (length b)))" by (simp only: be64_value_be64 md)
  also have "\<dots> = int (length b')" by (simp only: heads be64_value_be64 md)
  finally show "b = b' \<and> xs = ys" using rest by simp
qed simp

lemma concat_sized_inject:
  assumes "length bs = length cs" "\<forall>b \<in> set bs. int (length b) < 2 ^ 64" "\<forall>b \<in> set cs. int (length b) < 2 ^ 64"
    "concat (map sized bs) = concat (map sized cs)"
  shows "bs = cs"
  using assms
proof (induction bs cs rule: list_induct2)
  case (Cons b bs c cs)
  then have "b = c \<and> concat (map sized bs) = concat (map sized cs)"
    using sized_inject [of b c] by simp
  with Cons show ?case by simp
qed simp

end
