(* ===== verification/Router_State.thy ===== *)
theory Router_State
  imports Log_Store Participation_View Go_Bytes
begin

text \<open>
  The router's in-process state (\<open>internal/signaling/router.go\<close>, first half): the cached
  per-interaction state with its bounded dedup cache, the legal transitions of an interaction,
  the payload hash, the rebuild of a state from the durable log, and the idle/LRU-bounded map of
  cached states.

  What the router calls but does not define is a parameter in \<open>router_cfg\<close>: the protobuf codec
  (\<open>c_marshal\<close>, \<open>c_unmarshal_cmd\<close>), the digest (\<open>c_digest\<close> is hex of SHA-256, and every theorem
  holds for any function), the JSON decoder of the participation payload, the clock readings and
  the generated ids (\<open>c_now\<close> and \<open>c_new_id\<close> give the n-th reading).
\<close>

section \<open>Configuration and state\<close>

record participation_data =
  pd_agent :: string
  pd_from :: string
  pd_reason :: string
  pd_request_id :: string

record 'b router_cfg =
  c_devMode :: bool
  c_maxInter :: nat
  c_maxResults :: nat
  c_idleTTL :: duration
  c_maxRefold :: nat
  c_marshal :: "event \<Rightarrow> 'b"
  c_unmarshal_cmd :: "bytes \<Rightarrow> command option"
  c_digest :: "bytes \<Rightarrow> string"
  c_json :: "bytes \<Rightarrow> participation_data option"
  c_now :: "nat \<Rightarrow> gtime"
  c_new_id :: "nat \<Rightarrow> string"

text \<open>The defaults of \<open>NewRouter\<close> and the option \<open>WithStateLimits\<close>, which keeps a default for
  a non-positive value.\<close>

definition defaultMaxInter :: nat where "defaultMaxInter = 4096"
definition defaultMaxResults :: nat where "defaultMaxResults = 1024"
definition defaultIdleTTL :: duration where "defaultIdleTTL = 30 * 60 * 1000000000"
definition defaultMaxRefold :: nat where "defaultMaxRefold = 32"

definition WithStateLimits :: "int \<Rightarrow> int \<Rightarrow> duration \<Rightarrow> 'b router_cfg \<Rightarrow> 'b router_cfg" where
  "WithStateLimits maxInter maxResults idleTTL cfg =
     (let c1 = (if 0 < maxInter then cfg\<lparr>c_maxInter := nat maxInter\<rparr> else cfg);
          c2 = (if 0 < maxResults then c1\<lparr>c_maxResults := nat maxResults\<rparr> else c1)
      in if 0 < idleTTL then c2\<lparr>c_idleTTL := idleTTL\<rparr> else c2)"

definition WithDevMode :: "'b router_cfg \<Rightarrow> 'b router_cfg" where
  "WithDevMode cfg = cfg\<lparr>c_devMode := True\<rparr>"

definition with_defaults :: "'b router_cfg \<Rightarrow> 'b router_cfg" where
  "with_defaults cfg = cfg\<lparr>c_devMode := False, c_maxInter := defaultMaxInter,
     c_maxResults := defaultMaxResults, c_idleTTL := defaultIdleTTL, c_maxRefold := defaultMaxRefold\<rparr>"

record stored_result =
  sr_hash :: string
  sr_result :: cmd_result

text \<open>
  \<open>interactionState\<close>. The Go value is shared by pointer; \<open>is_oid\<close> is its identity, so that a
  handler that still holds an evicted object does not write into its successor.
\<close>

record istate =
  is_oid :: nat
  is_seq :: int
  is_stream_seq :: stream_seq
  is_status :: string
  is_results :: "(string \<times> stored_result) list"
  is_order :: "string list"
  is_part :: "view option"
  is_parents :: "string \<rightharpoonup> string set"
  is_poisoned :: bool
  is_last_used :: gtime

record router =
  rt_inter :: "(string \<times> istate) list"
  rt_ticks :: nat
  rt_ids :: nat
  rt_next_oid :: nat

definition NewRouter :: router where
  "NewRouter = \<lparr>rt_inter = [], rt_ticks = 0, rt_ids = 0, rt_next_oid = 0\<rparr>"

section \<open>The bounded dedup cache\<close>

text \<open>
  The eviction loop of \<open>putResult\<close>. \<open>resultOrder[0]\<close> on an empty slice would panic; the order
  list always holds the keys of the map (\<open>cache_ok\<close> below), so that case is never reached.
\<close>

function evict_oldest ::
  "nat \<Rightarrow> string list \<Rightarrow> (string \<times> stored_result) list \<Rightarrow>
     string list \<times> (string \<times> stored_result) list" where
  "evict_oldest mx order results =
     (if mx > 0 \<and> length results > mx then
        (case order of
           [] \<Rightarrow> (order, results)
         | oldest # rest \<Rightarrow> evict_oldest mx rest (AList.delete oldest results))
      else (order, results))"
  by pat_completeness auto
termination
  by (relation "measure (\<lambda>(mx, order, results). length order)") auto

declare evict_oldest.simps [simp del]

definition putResult :: "istate \<Rightarrow> string \<Rightarrow> stored_result \<Rightarrow> nat \<Rightarrow> istate" where
  "putResult st cid sr mx =
     (let order = (if map_of (is_results st) cid = None then is_order st @ [cid] else is_order st);
          (order', results') = evict_oldest mx order (AList.update cid sr (is_results st))
      in st\<lparr>is_order := order', is_results := results'\<rparr>)"

fun copy_missing :: "istate \<Rightarrow> string list \<Rightarrow> (string \<times> stored_result) list \<Rightarrow> nat \<Rightarrow> istate" where
  "copy_missing st [] fresh mx = st"
| "copy_missing st (cid # ids) fresh mx =
     (case map_of fresh cid of
        None \<Rightarrow> copy_missing st ids fresh mx
      | Some sr \<Rightarrow>
          copy_missing (if map_of (is_results st) cid = None then putResult st cid sr mx else st)
            ids fresh mx)"

definition copyMissingResults :: "istate \<Rightarrow> istate \<Rightarrow> nat \<Rightarrow> istate" where
  "copyMissingResults st fresh mx = copy_missing st (is_order fresh) (is_results fresh) mx"

section \<open>Transitions and hashing\<close>

definition legalTransition :: "string \<Rightarrow> string \<Rightarrow> bool" where
  "legalTransition status cmdType =
     (if cmdType = T_started then status = ''''
      else if cmdType = T_ended then status = ''started''
      else status = ''started'')"

definition next_status :: "string \<Rightarrow> string \<Rightarrow> string" where
  "next_status status cmdType =
     (if cmdType = T_started then ''started''
      else if cmdType = T_ended then ''ended''
      else status)"

definition applyTransition :: "istate \<Rightarrow> string \<Rightarrow> istate" where
  "applyTransition st cmdType = st\<lparr>is_status := next_status (is_status st) cmdType\<rparr>"

text \<open>The length-prefixed write of \<open>put\<close>.\<close>

definition put_part :: "bytes \<Rightarrow> bytes" where
  "put_part b = be64 (int (length b) mod 2 ^ 64) @ b"

definition payload_preimage :: "command \<Rightarrow> bytes" where
  "payload_preimage c =
     concat (map put_part [cmd_tenant c, cmd_actor c, cmd_type c, cmd_medium c, cmd_ref_id c, cmd_data c])"

definition hashPayload :: "'b router_cfg \<Rightarrow> command \<Rightarrow> string" where
  "hashPayload cfg c = c_digest cfg (payload_preimage c)"

definition isParticipationCommand :: "string \<Rightarrow> bool" where
  "isParticipationCommand t \<longleftrightarrow>
     t = ''participant.assign'' \<or> t = ''participant.unassign'' \<or> t = ''participant.transfer''"

definition isParticipationFact :: "string \<Rightarrow> bool" where
  "isParticipationFact t \<longleftrightarrow> t = T_joined \<or> t = T_left"

definition recordedSubsetOf :: "string set \<Rightarrow> string set \<Rightarrow> bool" where
  "recordedSubsetOf recorded want = (\<forall>k \<in> recorded. k \<in> want)"

definition orDefault :: "string \<Rightarrow> string \<Rightarrow> string" where
  "orDefault v d = (if v = '''' then d else v)"

section \<open>Rebuild from the durable log\<close>

definition empty_istate :: "nat \<Rightarrow> stream_seq \<Rightarrow> event list \<Rightarrow> istate" where
  "empty_istate oid lastSubjSeq facts =
     \<lparr>is_oid = oid, is_seq = 0, is_stream_seq = lastSubjSeq, is_status = '''', is_results = [],
      is_order = [], is_part = Some (FoldParticipation facts), is_parents = Map.empty,
      is_poisoned = False, is_last_used = 0\<rparr>"

definition add_parent :: "(string \<rightharpoonup> string set) \<Rightarrow> string \<Rightarrow> string \<Rightarrow> (string \<rightharpoonup> string set)" where
  "add_parent parents parent sub =
     parents(parent \<mapsto> insert sub (case parents parent of None \<Rightarrow> {} | Some b \<Rightarrow> b))"

definition rebuild_fact :: "nat \<Rightarrow> istate \<Rightarrow> event \<Rightarrow> istate" where
  "rebuild_fact mx st e =
     (let st1 = (if ev_seq e > is_seq st then st\<lparr>is_seq := ev_seq e\<rparr> else st);
          st2 = applyTransition st1 (ev_type e);
          st3 = (if ev_command_id e \<noteq> ''''
                 then putResult st2 (ev_command_id e)
                        \<lparr>sr_hash = ev_payload_hash e,
                         sr_result = accepted_result (ev_command_id e) (ev_command_id e)\<rparr> mx
                 else st2)
      in if isParticipationFact (ev_type e) \<and> ev_caused_by e \<noteq> ''''
         then st3\<lparr>is_parents := add_parent (is_parents st3) (ev_caused_by e) (ev_command_id e)\<rparr>
         else st3)"

definition state_of_log :: "nat \<Rightarrow> nat \<Rightarrow> event list \<Rightarrow> stream_seq \<Rightarrow> istate" where
  "state_of_log mx oid facts lastSubjSeq =
     foldl (rebuild_fact mx) (empty_istate oid lastSubjSeq facts) facts"

definition rebuild ::
  "'b router_cfg \<Rightarrow> ('s, 'b) log_port \<Rightarrow> string \<Rightarrow> string \<Rightarrow> router \<Rightarrow> 's \<Rightarrow>
     (string + istate) \<times> router \<times> 's" where
  "rebuild cfg lp tenant iid r s =
     (case lp_replay lp s (logSubjectFor tenant iid) of
        (Inl err, s') \<Rightarrow> (Inl err, r, s')
      | (Inr (facts, lastSubjSeq), s') \<Rightarrow>
          (Inr (state_of_log (c_maxResults cfg) (rt_next_oid r) facts lastSubjSeq),
           r\<lparr>rt_next_oid := Suc (rt_next_oid r)\<rparr>, s'))"

section \<open>The cached states\<close>

definition state_key :: "string \<Rightarrow> string \<Rightarrow> string" where
  "state_key tenant iid = tenant @ ''/'' @ iid"

definition now :: "'b router_cfg \<Rightarrow> router \<Rightarrow> gtime \<times> router" where
  "now cfg r = (c_now cfg (rt_ticks r), r\<lparr>rt_ticks := Suc (rt_ticks r)\<rparr>)"

definition new_id :: "'b router_cfg \<Rightarrow> router \<Rightarrow> string \<times> router" where
  "new_id cfg r = (c_new_id cfg (rt_ids r), r\<lparr>rt_ids := Suc (rt_ids r)\<rparr>)"

text \<open>The scan of \<open>pruneLocked\<close> for the least recently used key.\<close>

fun lru_scan :: "(string \<times> istate) list \<Rightarrow> string \<Rightarrow> gtime \<Rightarrow> string" where
  "lru_scan [] lruKey lruAt = lruKey"
| "lru_scan ((k, st) # m) lruKey lruAt =
     (if lruKey = '''' \<or> is_last_used st < lruAt then lru_scan m k (is_last_used st)
      else lru_scan m lruKey lruAt)"

definition lru_key :: "(string \<times> istate) list \<Rightarrow> string" where
  "lru_key m = lru_scan m '''' 0"

lemma lru_scan_in: "lru_scan m k t = k \<or> lru_scan m k t \<in> set (keys m)"
  by (induction m k t rule: lru_scan.induct) auto

lemma lru_key_in:
  assumes "m \<noteq> []"
  shows "lru_key m \<in> set (keys m)"
proof -
  from assms obtain k st m' where "m = (k, st) # m'" by (cases m) auto
  then show ?thesis using lru_scan_in [of m' k "is_last_used st"] by (auto simp: lru_key_def)
qed

lemma length_delete_in: "k \<in> set (keys m) \<Longrightarrow> length (AList.delete k m) < length m"
proof (induction m)
  case Nil
  then show ?case by simp
next
  case (Cons a m)
  have "length (AList.delete k m) \<le> length m"
    by (simp add: AList.delete_eq)
  with Cons show ?case by (cases a) auto
qed

function prune_lru :: "nat \<Rightarrow> (string \<times> istate) list \<Rightarrow> (string \<times> istate) list" where
  "prune_lru mx m =
     (if mx > 0 \<and> length m > mx then prune_lru mx (AList.delete (lru_key m) m) else m)"
  by pat_completeness auto
termination
  by (relation "measure (\<lambda>(mx, m). length m)") (auto intro!: length_delete_in lru_key_in)

declare prune_lru.simps [simp del]

definition pruneLocked :: "'b router_cfg \<Rightarrow> router \<Rightarrow> router" where
  "pruneLocked cfg r =
     (if c_idleTTL cfg > 0 then
        (let (t, r1) = now cfg r;
             cutoff = t - c_idleTTL cfg
         in r1\<lparr>rt_inter := prune_lru (c_maxInter cfg)
                 (filter (\<lambda>(k, st). \<not> is_last_used st < cutoff) (rt_inter r1))\<rparr>)
      else r\<lparr>rt_inter := prune_lru (c_maxInter cfg) (rt_inter r)\<rparr>)"

text \<open>
  \<open>getState\<close>: a hit refreshes the access stamp; a miss rebuilds (the singleflight collapses
  concurrent misses of one key into the one rebuild modelled here), inserts and prunes.
\<close>

definition getState ::
  "'b router_cfg \<Rightarrow> ('s, 'b) log_port \<Rightarrow> string \<Rightarrow> string \<Rightarrow> router \<Rightarrow> 's \<Rightarrow>
     (string + istate) \<times> router \<times> 's" where
  "getState cfg lp tenant iid r s =
     (let key = state_key tenant iid
      in case map_of (rt_inter r) key of
           Some st \<Rightarrow>
             (let (t, r1) = now cfg r;
                  st1 = st\<lparr>is_last_used := t\<rparr>
              in (Inr st1, r1\<lparr>rt_inter := AList.update key st1 (rt_inter r1)\<rparr>, s))
         | None \<Rightarrow>
             (case rebuild cfg lp tenant iid r s of
                (Inl err, r1, s1) \<Rightarrow> (Inl err, r1, s1)
              | (Inr built, r1, s1) \<Rightarrow>
                  (let (t, r2) = now cfg r1;
                       built1 = built\<lparr>is_last_used := t\<rparr>
                   in (Inr built1,
                       pruneLocked cfg (r2\<lparr>rt_inter := AList.update key built1 (rt_inter r2)\<rparr>), s1))))"

definition evict :: "string \<Rightarrow> string \<Rightarrow> router \<Rightarrow> router" where
  "evict tenant iid r = r\<lparr>rt_inter := AList.delete (state_key tenant iid) (rt_inter r)\<rparr>"

text \<open>The \<open>Nats-Msg-Id\<close> of a command's append.\<close>

definition dedup_id :: "string \<Rightarrow> string \<Rightarrow> string \<Rightarrow> string" where
  "dedup_id tenant iid cid = tenant @ ''.'' @ iid @ ''.'' @ cid"

text \<open>The object a handler holds, as seen through the map afterwards.\<close>

definition write_back :: "string \<Rightarrow> istate \<Rightarrow> router \<Rightarrow> router" where
  "write_back key st r =
     (case map_of (rt_inter r) key of
        Some cur \<Rightarrow> (if is_oid cur = is_oid st then r\<lparr>rt_inter := AList.update key st (rt_inter r)\<rparr> else r)
      | None \<Rightarrow> r)"

end
