(* ===== verification/Router_Log.thy ===== *)
theory Router_Log
  imports Router_State
begin

text \<open>
  The contract between the router and its log. A log may only be extended by \<open>legal_append\<close>s: the
  next dense sequence number, a transition the lifecycle allows, a named command. \<open>evolves\<close> is
  both what the router guarantees of its own appends and what it may rely on of the other routers.
  The locale \<open>log_store\<close> states what the port promises (per-subject optimistic concurrency, dedup,
  complete replay, acknowledgements that may be lost) up to a relation \<open>rely\<close> on what other routers
  may do in between.
\<close>

section \<open>Legal logs\<close>

definition status_of :: "event list \<Rightarrow> string" where
  "status_of facts = foldl next_status '''' (map ev_type facts)"

definition legal_append :: "event list \<Rightarrow> event \<Rightarrow> bool" where
  "legal_append L e \<longleftrightarrow>
     legalTransition (status_of L) (ev_type e) \<and>
     (int (length L) < i64_max \<longrightarrow> ev_seq e = int (length L) + 1) \<and>
     ev_command_id e \<noteq> ''''"

inductive evolves :: "event list \<Rightarrow> event list \<Rightarrow> bool" where
  evolves_refl: "evolves L L"
| evolves_step: "evolves L M \<Longrightarrow> legal_append M e \<Longrightarrow> evolves L (M @ [e])"

definition log_ok :: "event list \<Rightarrow> bool" where
  "log_ok L \<longleftrightarrow> evolves [] L"

lemma status_of_Nil [simp]: "status_of [] = ''''"
  by (simp add: status_of_def)

lemma status_of_snoc [simp]: "status_of (L @ [e]) = next_status (status_of L) (ev_type e)"
  by (simp add: status_of_def)

lemma evolves_trans: "evolves L M \<Longrightarrow> evolves K L \<Longrightarrow> evolves K M"
  by (induction rule: evolves.induct) (auto intro: evolves.intros)

lemma evolves_prefix: "evolves L M \<Longrightarrow> prefix L M"
  by (induction rule: evolves.induct) auto

lemma log_ok_evolves: "log_ok L \<Longrightarrow> evolves L M \<Longrightarrow> log_ok M"
  unfolding log_ok_def using evolves_trans by blast

lemma log_ok_Nil [simp]: "log_ok []"
  by (simp add: log_ok_def evolves_refl)

lemma log_ok_snoc: "log_ok (L @ [e]) \<longleftrightarrow> log_ok L \<and> legal_append L e"
proof
  assume "log_ok (L @ [e])"
  then show "log_ok L \<and> legal_append L e"
    unfolding log_ok_def by (cases rule: evolves.cases) auto
qed (simp add: log_ok_def evolves_step)

lemma log_ok_prefix: "log_ok (P @ Q) \<Longrightarrow> log_ok P"
  by (induction Q rule: rev_induct) (auto simp: log_ok_snoc simp flip: append_assoc)

lemma log_ok_induct [consumes 1, case_names Nil snoc]:
  assumes "log_ok L" and "Q []"
    and "\<And>M e. log_ok M \<Longrightarrow> legal_append M e \<Longrightarrow> Q M \<Longrightarrow> Q (M @ [e])"
  shows "Q L"
  using assms(1) by (induction L rule: rev_induct) (auto simp: log_ok_snoc assms)

subsection \<open>What a legal log looks like\<close>

lemma log_ok_dense:
  assumes "log_ok L" "int (length L) \<le> i64_max"
  shows "map ev_seq L = map int [1..<Suc (length L)]"
  using assms by (induction rule: log_ok_induct) (simp_all add: legal_append_def)

lemma log_ok_status:
  assumes "log_ok L"
  shows "status_of L = (if L = [] then '''' else if ev_type (last L) = T_ended then ''ended'' else ''started'')"
  using assms
  by (induction rule: log_ok_induct) (auto simp: legal_append_def legalTransition_def next_status_def)

lemma log_ok_lifecycle:
  assumes "log_ok L" "L \<noteq> []"
  shows "ev_type (hd L) = T_started \<and> T_started \<notin> ev_type ` set (tl L) \<and>
         T_ended \<notin> ev_type ` set (butlast L)"
  using assms
proof (induction rule: log_ok_induct)
  case Nil
  then show ?case by simp
next
  case (snoc M e)
  note st = log_ok_status [OF snoc.hyps(1)]
  show ?case
  proof (cases "M = []")
    case True
    with snoc.hyps show ?thesis by (auto simp: legal_append_def legalTransition_def split: if_splits)
  next
    case False
    from False st snoc.hyps have *: "ev_type e \<noteq> T_started" "ev_type (last M) \<noteq> T_ended"
      by (auto simp: legal_append_def legalTransition_def split: if_splits)
    from False have "set M = insert (last M) (set (butlast M))"
      by (metis append_butlast_last_id list.set(1) list.simps(15) set_append sup_bot.right_neutral
          Un_insert_right)
    with False snoc.IH * show ?thesis by auto
  qed
qed

section \<open>The port's contract\<close>

text \<open>
  \<open>hist s subj\<close> is the log of a subject; \<open>stamped s subj t P\<close> says that \<open>t\<close> is the stream sequence
  the subject had when its log was \<open>P\<close>. \<open>grows\<close> is the most that the environment may do between
  two steps of a router (every log evolves, stamps stay valid), \<open>untouched\<close> the least.
\<close>

definition grows ::
  "('s \<Rightarrow> string \<Rightarrow> event list) \<Rightarrow> ('s \<Rightarrow> string \<Rightarrow> stream_seq \<Rightarrow> event list \<Rightarrow> bool) \<Rightarrow> 's \<Rightarrow> 's \<Rightarrow> bool" where
  "grows hist stamped s s' \<longleftrightarrow>
     (\<forall>subj. evolves (hist s subj) (hist s' subj)) \<and>
     (\<forall>subj t P. stamped s subj t P \<longrightarrow> stamped s' subj t P)"

definition untouched ::
  "('s \<Rightarrow> string \<Rightarrow> event list) \<Rightarrow> ('s \<Rightarrow> string \<Rightarrow> stream_seq \<Rightarrow> event list \<Rightarrow> bool) \<Rightarrow> 's \<Rightarrow> 's \<Rightarrow> bool" where
  "untouched hist stamped s s' \<longleftrightarrow>
     hist s' = hist s \<and> (\<forall>subj t P. stamped s subj t P \<longrightarrow> stamped s' subj t P)"

text \<open>A command is durable when the log holds a fact of it.\<close>

definition durable :: "event list \<Rightarrow> string \<Rightarrow> bool" where
  "durable L cid \<longleftrightarrow> (\<exists>e \<in> set L. ev_command_id e = cid)"

lemma durable_prefix: "durable L c \<Longrightarrow> prefix L M \<Longrightarrow> durable M c"
  unfolding durable_def using set_mono_prefix by blast

lemma durable_snoc [simp]: "durable (L @ [e]) c \<longleftrightarrow> durable L c \<or> ev_command_id e = c"
  by (auto simp: durable_def)

lemma durable_Nil [simp]: "\<not> durable [] c"
  by (simp add: durable_def)

text \<open>
  The fact \<open>e\<close> became the new end of the subject's log, which the expected stamps denote. When the
  broker's duplicate window covers the whole log (\<open>once\<close>), its command was not there yet.
\<close>

definition written ::
  "bool \<Rightarrow> ('s \<Rightarrow> string \<Rightarrow> event list) \<Rightarrow> ('s \<Rightarrow> string \<Rightarrow> stream_seq \<Rightarrow> event list \<Rightarrow> bool) \<Rightarrow> string \<Rightarrow> event \<Rightarrow>
     (event list \<Rightarrow> bool) \<Rightarrow> 's \<Rightarrow> 's \<Rightarrow> bool" where
  "written once hist stamped subj e expected m s' \<longleftrightarrow>
     hist s' = (hist m)(subj := hist m subj @ [e]) \<and>
     (\<forall>P. expected P \<longrightarrow> P = hist m subj) \<and>
     (once \<longrightarrow> \<not> durable (hist m subj) (ev_command_id e)) \<and>
     (\<forall>j t P. stamped m j t P \<longrightarrow> stamped s' j t P)"

text \<open>
  What an append may have done: a clean acknowledgement means that the expected sequence was the
  current one when the broker processed it and that the fact is the new end, at the acknowledged
  sequence; a duplicate one that the command is already in the log; a conflict that nothing was
  written; any other error leaves open whether the fact was written.
\<close>

definition append_outcome ::
  "bool \<Rightarrow> ('s \<Rightarrow> string \<Rightarrow> event list) \<Rightarrow> ('s \<Rightarrow> string \<Rightarrow> stream_seq \<Rightarrow> event list \<Rightarrow> bool) \<Rightarrow>
     ('s \<Rightarrow> 's \<Rightarrow> bool) \<Rightarrow> string \<Rightarrow> event \<Rightarrow> stream_seq \<Rightarrow> 's \<Rightarrow>
     append_err + bool \<times> stream_seq \<Rightarrow> 's \<Rightarrow> bool" where
  "append_outcome once hist stamped rely subj e t s out s' =
     (case out of
        Inr (False, n) \<Rightarrow>
          (\<exists>m. rely s m \<and> written once hist stamped subj e (stamped s subj t) m s') \<and> stamped s' subj n (hist s' subj)
      | Inr (True, n) \<Rightarrow> rely s s' \<and> durable (hist s' subj) (ev_command_id e)
      | Inl ErrOCCConflict \<Rightarrow> rely s s'
      | Inl (AppendFailed _) \<Rightarrow>
          rely s s' \<or> (\<exists>m. rely s m \<and> written once hist stamped subj e (stamped s subj t) m s'))"

locale log_store =
  fixes lp :: "('s, 'b) log_port"
    and mar :: "event \<Rightarrow> 'b"
    and hist :: "'s \<Rightarrow> string \<Rightarrow> event list"
    and stamped :: "'s \<Rightarrow> string \<Rightarrow> stream_seq \<Rightarrow> event list \<Rightarrow> bool"
    and rely :: "'s \<Rightarrow> 's \<Rightarrow> bool"
    and inv :: "'s \<Rightarrow> bool"
    and once :: bool
  assumes rely_refl: "rely s s"
    and rely_grows: "rely s s' \<Longrightarrow> grows hist stamped s s'"
    and rely_trans: "rely s1 s2 \<Longrightarrow> rely s2 s3 \<Longrightarrow> rely s1 s3"
    and replay_law: "\<And>s subj out s'. inv s \<Longrightarrow> lp_replay lp s subj = (out, s') \<Longrightarrow>
      inv s' \<and> rely s s' \<and>
      (\<forall>facts t. out = Inr (facts, t) \<longrightarrow> facts = hist s' subj \<and> stamped s' subj t facts)"
    and append_law: "\<And>s tenant iid e t out s'. inv s \<Longrightarrow> no_dot tenant \<Longrightarrow> no_dot iid \<Longrightarrow>
      lp_append lp s (logSubjectFor tenant iid) (mar e) (dedup_id tenant iid (ev_command_id e)) t = (out, s') \<Longrightarrow>
      inv s' \<and> append_outcome once hist stamped rely (logSubjectFor tenant iid) e t s out s'"

lemma grows_refl [simp]: "grows hist stamped s s"
  by (simp add: grows_def evolves_refl)

lemma grows_trans:
  "grows hist stamped s1 s2 \<Longrightarrow> grows hist stamped s2 s3 \<Longrightarrow> grows hist stamped s1 s3"
  unfolding grows_def using evolves_trans by blast

lemma untouched_grows: "untouched hist stamped s s' \<Longrightarrow> grows hist stamped s s'"
  by (simp add: untouched_def grows_def evolves_refl)

lemma untouched_refl [simp]: "untouched hist stamped s s"
  by (simp add: untouched_def)

lemma untouched_trans:
  "untouched hist stamped s1 s2 \<Longrightarrow> untouched hist stamped s2 s3 \<Longrightarrow> untouched hist stamped s1 s3"
  by (simp add: untouched_def)

lemma written_grows:
  assumes "written once hist stamped subj e expected m s'" "legal_append (hist m subj) e"
  shows "grows hist stamped m s'"
proof -
  have "evolves (hist m j) (hist s' j)" for j
    using assms evolves_step [OF evolves_refl assms(2)] by (cases "j = subj") (auto simp: written_def evolves_refl)
  with assms show ?thesis by (simp add: grows_def written_def)
qed

end
