(* ===== verification/Go_Text.thy ===== *)
theory Go_Text
  imports RP_Prelude
begin

text \<open>
  The decimal rendering of integers by \<open>fmt.Sprintf("%d", n)\<close>, with which the sources build
  dedup ids and subjects, and its injectivity; names built by joining tokens with dots; and the
  quoting of strings by \<open>%q\<close>.
\<close>

definition digit :: "nat \<Rightarrow> char" where
  "digit n = char_of (48 + n)"

fun dec_nat :: "nat \<Rightarrow> string" where
  "dec_nat n = (if n < 10 then [digit n] else dec_nat (n div 10) @ [digit (n mod 10)])"

declare dec_nat.simps [simp del]

definition go_itoa :: "int \<Rightarrow> string" where
  "go_itoa n = (if n < 0 then CHR ''-'' # dec_nat (nat (- n)) else dec_nat (nat n))"

definition dec_value :: "string \<Rightarrow> nat" where
  "dec_value s = foldl (\<lambda>acc c. acc * 10 + (of_char c - 48)) 0 s"

lemma digit_value: "n < 10 \<Longrightarrow> of_char (digit n) = 48 + n"
  by (simp add: digit_def)

lemma digit_range: "n < 10 \<Longrightarrow> 48 \<le> (of_char (digit n) :: nat) \<and> (of_char (digit n) :: nat) < 58"
  by (simp add: digit_value)

lemma dec_value_dec_nat: "dec_value (dec_nat n) = n"
proof (induction n rule: dec_nat.induct)
  case (1 n)
  show ?case
  proof (cases "n < 10")
    case True
    then show ?thesis by (simp add: dec_nat.simps [of n] dec_value_def digit_value)
  next
    case False
    then have "dec_value (dec_nat n) = dec_value (dec_nat (n div 10)) * 10 + n mod 10"
      by (simp add: dec_nat.simps [of n] dec_value_def digit_value)
    with 1 False show ?thesis by simp
  qed
qed

lemma dec_nat_inject [simp]: "dec_nat m = dec_nat n \<longleftrightarrow> m = n"
  by (metis dec_value_dec_nat)

lemma dec_nat_chars: "c \<in> set (dec_nat n) \<Longrightarrow> 48 \<le> (of_char c :: nat) \<and> (of_char c :: nat) < 58"
proof (induction n rule: dec_nat.induct)
  case (1 n)
  then show ?case
    by (subst (asm) (2) dec_nat.simps)
       (auto simp: digit_range digit_value split: if_splits)
qed

lemma dec_nat_no_minus: "dec_nat n \<noteq> CHR ''-'' # s"
proof
  assume "dec_nat n = CHR ''-'' # s"
  then have "CHR ''-'' \<in> set (dec_nat n)" by simp
  then show False by (drule_tac dec_nat_chars) simp
qed

lemma go_itoa_inject [simp]: "go_itoa m = go_itoa n \<longleftrightarrow> m = n"
proof
  assume eq: "go_itoa m = go_itoa n"
  show "m = n"
    by (cases "m < 0"; cases "n < 0")
       (use eq dec_nat_no_minus [of "nat m"] dec_nat_no_minus [of "nat n"] in \<open>simp_all add: go_itoa_def\<close>,
        metis dec_nat_no_minus)
qed simp

lemma no_dot_go_itoa [simp]: "no_dot (go_itoa n)"
  by (auto simp: no_dot_def go_itoa_def dest: dec_nat_chars)

lemma dec_nat_nonempty [simp]: "dec_nat n \<noteq> []"
  by (subst dec_nat.simps) simp

lemma go_itoa_nonempty [simp]: "go_itoa n \<noteq> ''''"
  by (simp add: go_itoa_def)

text \<open>Names joined from dot-free tokens are equal exactly when their tokens are.\<close>

lemma join_dots_inject:
  assumes "ps \<noteq> []" "qs \<noteq> []" "\<forall>p \<in> set ps. no_dot p" "\<forall>q \<in> set qs. no_dot q"
  shows "join_with [dot] ps = join_with [dot] qs \<longleftrightarrow> ps = qs"
proof
  assume eq: "join_with [dot] ps = join_with [dot] qs"
  have "ps = split_on dot (join_with [dot] ps)"
    using split_join [of ps dot] assms(1,3) by (simp add: no_dot_def)
  also have "\<dots> = qs" unfolding eq
    using split_join [of qs dot] assms(2,4) by (simp add: no_dot_def)
  finally show "ps = qs" .
qed simp

section \<open>Quoting\<close>

text \<open>
  \<open>%q\<close> of \<open>fmt.Sprintf\<close> (\<open>strconv.Quote\<close>) on the ASCII range: quotes, backslashes and control
  bytes are escaped. Bytes from 0x80 on are copied, as they are for printable UTF-8 text (Go escapes
  the unprintable runes and the invalid sequences, which needs the Unicode tables).
\<close>

definition hex_digit :: "int \<Rightarrow> char" where
  "hex_digit n = char_of (if n < 10 then 48 + n else 87 + n)"

definition quote_byte :: "char \<Rightarrow> string" where
  "quote_byte c =
     (let n = of_char c :: int
      in if n = 0x22 \<or> n = 0x5C then [CHR 0x5C, c]
         else if n = 7 then CHR 0x5C # ''a'' else if n = 8 then CHR 0x5C # ''b''
         else if n = 9 then CHR 0x5C # ''t'' else if n = 10 then CHR 0x5C # ''n''
         else if n = 11 then CHR 0x5C # ''v'' else if n = 12 then CHR 0x5C # ''f''
         else if n = 13 then CHR 0x5C # ''r''
         else if n < 32 \<or> n = 127
         then CHR 0x5C # CHR ''x'' # [hex_digit (n div 16), hex_digit (n mod 16)]
         else [c])"

definition go_quote :: "string \<Rightarrow> string" where
  "go_quote s = [CHR 0x22] @ concat (map quote_byte s) @ [CHR 0x22]"

end
