(* ===== verification/Router_Command.thy ===== *)
theory Router_Command
  imports Router_Log Go_Text
begin

text \<open>
  \<open>Router.HandleCommand\<close> of \<open>internal/signaling/router.go\<close>, in the order of the code: the checks
  against the authenticated identity, the dispatch, one attempt of the append loop, the loop, and
  the commit. Every early return of the Go function is a branch here. The structured log line of
  the deferred function is not modelled (it has no effect on the result or the state).
\<close>

section \<open>Reasons\<close>

text \<open>The em dash of the Go messages, in UTF-8.\<close>

definition em_dash :: string where
  "em_dash = [CHR 0xE2, CHR 0x80, CHR 0x94]"

definition reason_illegal :: "string \<Rightarrow> string \<Rightarrow> string" where
  "reason_illegal t status = ''illegal transition '' @ go_quote t @ '' from state '' @ go_quote status"

definition reason_conflict :: string where
  "reason_conflict = ''conflict: command_id reused with a different payload''"

definition reason_unavailable :: string where
  "reason_unavailable = ''state unavailable (log replay failed) '' @ em_dash @ '' retry''"

definition reason_poisoned :: string where
  "reason_poisoned = ''state unavailable '' @ em_dash @ '' retry''"

definition reason_lost :: string where
  "reason_lost = ''lost concurrent append '' @ em_dash @ '' retry''"

definition reason_append :: string where
  "reason_append = ''log append failed '' @ em_dash @ '' retry''"

section \<open>Validation\<close>

text \<open>
  The checks before any state is touched: subject grammar, payload, authentication, tenant and
  actor binding. The right value carries tenant, interaction, the subject suffix (\<open>self\<close>) and the decoded command.
\<close>

definition hc_validate ::
  "'b router_cfg \<Rightarrow> identity \<Rightarrow> string \<Rightarrow> bytes \<Rightarrow>
     cmd_result + string \<times> string \<times> string \<times> command" where
  "hc_validate cfg i subject data =
     (case parseCmdSubject subject of
        None \<Rightarrow> Inl (rejected_result '''' ''bad subject'')
      | Some (tenant, iid, self) \<Rightarrow>
          (case c_unmarshal_cmd cfg data of
             None \<Rightarrow> Inl (rejected_result '''' ''bad payload'')
           | Some cmd \<Rightarrow>
               if \<not> isAuthenticated i \<and> \<not> c_devMode cfg
               then Inl (rejected_result (cmd_id cmd) ''unauthenticated'')
               else
                 let authTenant = (if id_tenant i = '''' then tenant else id_tenant i)
                 in if cmd_id cmd = '''' then Inl (rejected_result (cmd_id cmd) ''missing command_id'')
                    else if tenant \<noteq> authTenant
                    then Inl (rejected_result (cmd_id cmd) ''subject tenant != authenticated tenant'')
                    else if cmd_tenant cmd \<noteq> authTenant
                    then Inl (rejected_result (cmd_id cmd) ''payload tenant_id != authenticated tenant'')
                    else if RoleOf i \<noteq> RoleTrustedBackend \<and> cmd_actor cmd = ''''
                    then Inl (rejected_result (cmd_id cmd) ''missing actor_id'')
                    else if RoleOf i \<noteq> RoleTrustedBackend \<and> cmd_actor cmd \<noteq> self
                    then Inl (rejected_result (cmd_id cmd) ''actor_mismatch'')
                    else if RoleOf i \<noteq> RoleTrustedBackend \<and> id_user i \<noteq> '''' \<and> self \<noteq> id_user i
                    then Inl (rejected_result (cmd_id cmd) ''actor_id != authenticated user'')
                    else Inr (tenant, iid, self, cmd)))"

section \<open>One attempt of the append loop\<close>

datatype attempt_out = Again | Return cmd_result | Committed bool stream_seq

text \<open>The fields a loser takes over from the re-folded state (the dedup entries are merged).\<close>

definition adopt :: "istate \<Rightarrow> istate \<Rightarrow> nat \<Rightarrow> istate" where
  "adopt st fresh mx =
     copyMissingResults
       (st\<lparr>is_seq := is_seq fresh, is_stream_seq := is_stream_seq fresh, is_status := is_status fresh,
           is_part := is_part fresh, is_parents := is_parents fresh\<rparr>) fresh mx"

definition poison :: "istate \<Rightarrow> istate" where
  "poison st = st\<lparr>is_poisoned := True\<rparr>"

definition command_event ::
  "'b router_cfg \<Rightarrow> string \<Rightarrow> command \<Rightarrow> string \<Rightarrow> istate \<Rightarrow> router \<Rightarrow> event \<times> router" where
  "command_event cfg tenant cmd ph st r =
     (let (eid, r1) = new_id cfg r;
          (t, r2) = now cfg r1
      in (\<lparr>ev_schema = SchemaV1, ev_type = cmd_type cmd, ev_id = eid, ev_seq = i64_succ (is_seq st),
           ev_occurred_at = Some t, ev_tenant = tenant, ev_actor = cmd_actor cmd,
           ev_medium = orDefault (cmd_medium cmd) ''chat'', ev_command_id = cmd_id cmd,
           ev_payload_hash = ph, ev_caused_by = cmd_id cmd, ev_ref_id = cmd_ref_id cmd,
           ev_data = cmd_data cmd, ev_commanded_by = '''', ev_reason = '''', ev_request_id = ''''\<rparr>, r2))"

text \<open>
  The append of one attempt and what each outcome does: a lost race re-folds and retries up to
  \<open>maxRefold\<close> times; any other append error reconciles from the log (the append may have
  committed before its acknowledgement was lost) and otherwise poisons the state.
\<close>

definition hc_append ::
  "'b router_cfg \<Rightarrow> ('s, 'b) log_port \<Rightarrow> string \<Rightarrow> string \<Rightarrow> command \<Rightarrow> string \<Rightarrow> nat \<Rightarrow>
     istate \<Rightarrow> router \<Rightarrow> 's \<Rightarrow> attempt_out \<times> istate \<times> router \<times> 's" where
  "hc_append cfg lp tenant iid cmd ph attempt st r s =
     (let (ev, r1) = command_event cfg tenant cmd ph st r
      in case lp_append lp s (logSubjectFor tenant iid) (c_marshal cfg ev)
                (dedup_id tenant iid (cmd_id cmd)) (is_stream_seq st) of
           (Inl ErrOCCConflict, s1) \<Rightarrow>
             (case rebuild cfg lp tenant iid r1 s1 of
                (Inl _, r2, s2) \<Rightarrow>
                  (Return (rejected_result (cmd_id cmd) reason_lost), poison st, evict tenant iid r2, s2)
              | (Inr fresh, r2, s2) \<Rightarrow>
                  if attempt \<ge> c_maxRefold cfg
                  then (Return (rejected_result (cmd_id cmd) reason_lost), poison st, evict tenant iid r2, s2)
                  else (Again, adopt st fresh (c_maxResults cfg), r2, s2))
         | (Inl (AppendFailed _), s1) \<Rightarrow>
             (case rebuild cfg lp tenant iid r1 s1 of
                (Inr fresh, r2, s2) \<Rightarrow>
                  (case map_of (is_results fresh) (cmd_id cmd) of
                     Some prev \<Rightarrow>
                       (Return (sr_result prev),
                        st\<lparr>is_seq := is_seq fresh, is_stream_seq := is_stream_seq fresh,
                           is_status := is_status fresh\<rparr>, r2, s2)
                   | None \<Rightarrow>
                       (Return (rejected_result (cmd_id cmd) reason_append), poison st, evict tenant iid r2, s2))
              | (Inl _, r2, s2) \<Rightarrow>
                  (Return (rejected_result (cmd_id cmd) reason_append), poison st, evict tenant iid r2, s2))
         | (Inr (dup, cseq), s1) \<Rightarrow> (Committed dup cseq, st, r1, s1))"

definition hc_gate ::
  "'b router_cfg \<Rightarrow> ('s, 'b) log_port \<Rightarrow> string \<Rightarrow> string \<Rightarrow> string \<Rightarrow> bool \<Rightarrow> command \<Rightarrow> string \<Rightarrow> nat \<Rightarrow>
     istate \<Rightarrow> router \<Rightarrow> 's \<Rightarrow> attempt_out \<times> istate \<times> router \<times> 's" where
  "hc_gate cfg lp tenant iid self gate cmd ph attempt st r s =
     (if gate \<and> (case is_part st of None \<Rightarrow> True | Some v \<Rightarrow> \<not> IsParticipantNow v self)
      then (Return (rejected_result (cmd_id cmd) ''not_a_participant''), st, r, s)
      else if \<not> legalTransition (is_status st) (cmd_type cmd)
      then (let res = rejected_result (cmd_id cmd) (reason_illegal (cmd_type cmd) (is_status st))
            in (Return res,
                putResult st (cmd_id cmd) \<lparr>sr_hash = ph, sr_result = res\<rparr> (c_maxResults cfg), r, s))
      else hc_append cfg lp tenant iid cmd ph attempt st r s)"

definition hc_attempt ::
  "'b router_cfg \<Rightarrow> ('s, 'b) log_port \<Rightarrow> string \<Rightarrow> string \<Rightarrow> string \<Rightarrow> bool \<Rightarrow> command \<Rightarrow> string \<Rightarrow> nat \<Rightarrow>
     istate \<Rightarrow> router \<Rightarrow> 's \<Rightarrow> attempt_out \<times> istate \<times> router \<times> 's" where
  "hc_attempt cfg lp tenant iid self gate cmd ph attempt st r s =
     (case map_of (is_results st) (cmd_id cmd) of
        Some prev \<Rightarrow>
          if sr_hash prev = '''' then (Return (sr_result prev), st, r, s)
          else if sr_hash prev \<noteq> ph
          then (Return (rejected_result (cmd_id cmd) reason_conflict), st, r, s)
          else if res_status (sr_result prev) = STATUS_ACCEPTED then (Return (sr_result prev), st, r, s)
          else hc_gate cfg lp tenant iid self gate cmd ph attempt st r s
      | None \<Rightarrow> hc_gate cfg lp tenant iid self gate cmd ph attempt st r s)"

section \<open>The loop\<close>

lemma hc_attempt_Again:
  "hc_attempt cfg lp tenant iid self gate cmd ph attempt st r s = (Again, x) \<Longrightarrow>
     attempt < c_maxRefold cfg"
  by (auto simp: hc_attempt_def hc_gate_def hc_append_def Let_def
      split: option.splits if_splits prod.splits sum.splits append_err.splits)

function hc_loop ::
  "'b router_cfg \<Rightarrow> ('s, 'b) log_port \<Rightarrow> string \<Rightarrow> string \<Rightarrow> string \<Rightarrow> bool \<Rightarrow> command \<Rightarrow> string \<Rightarrow> nat \<Rightarrow>
     istate \<Rightarrow> router \<Rightarrow> 's \<Rightarrow> attempt_out \<times> istate \<times> router \<times> 's" where
  "hc_loop cfg lp tenant iid self gate cmd ph attempt st r s =
     (case hc_attempt cfg lp tenant iid self gate cmd ph attempt st r s of
        (Again, st', r', s') \<Rightarrow> hc_loop cfg lp tenant iid self gate cmd ph (Suc attempt) st' r' s'
      | out \<Rightarrow> out)"
  by pat_completeness auto
termination
  by (relation "measure (\<lambda>(cfg, lp, tenant, iid, self, gate, cmd, ph, attempt, st, r, s).
        Suc (c_maxRefold cfg) - attempt)")
     (auto dest!: sym [THEN hc_attempt_Again])

declare hc_loop.simps [simp del]

section \<open>Commit\<close>

text \<open>After the loop: a duplicate acknowledgement reconciles with the log, a clean one advances.\<close>

definition hc_commit ::
  "'b router_cfg \<Rightarrow> ('s, 'b) log_port \<Rightarrow> string \<Rightarrow> string \<Rightarrow> command \<Rightarrow> string \<Rightarrow> bool \<Rightarrow> stream_seq \<Rightarrow>
     istate \<Rightarrow> router \<Rightarrow> 's \<Rightarrow> cmd_result \<times> istate \<times> router \<times> 's" where
  "hc_commit cfg lp tenant iid cmd ph dup committedSeq st r s =
     (let res = accepted_result (cmd_id cmd) (cmd_id cmd)
      in if dup then
           (case rebuild cfg lp tenant iid r s of
              (Inl _, r1, s1) \<Rightarrow> (res, poison st, evict tenant iid r1, s1)
            | (Inr fresh, r1, s1) \<Rightarrow>
                (let st1 = adopt st fresh (c_maxResults cfg)
                 in case map_of (is_results st1) (cmd_id cmd) of
                      Some committed \<Rightarrow>
                        if sr_hash committed \<noteq> '''' \<and> sr_hash committed \<noteq> ph
                        then (rejected_result (cmd_id cmd) reason_conflict, st1, r1, s1)
                        else (sr_result committed, st1, r1, s1)
                    | None \<Rightarrow>
                        (res, putResult st1 (cmd_id cmd) \<lparr>sr_hash = ph, sr_result = res\<rparr> (c_maxResults cfg),
                         r1, s1)))
         else
           (let st1 = st\<lparr>is_seq := i64_succ (is_seq st), is_stream_seq := committedSeq\<rparr>;
                st2 = applyTransition st1 (cmd_type cmd);
                st3 = putResult st2 (cmd_id cmd) \<lparr>sr_hash = ph, sr_result = res\<rparr> (c_maxResults cfg)
            in (res, st3, (if is_status st3 = ''ended'' then evict tenant iid r else r), s)))"

text \<open>The critical section under the state's lock.\<close>

definition hc_locked ::
  "'b router_cfg \<Rightarrow> ('s, 'b) log_port \<Rightarrow> string \<Rightarrow> string \<Rightarrow> string \<Rightarrow> bool \<Rightarrow> command \<Rightarrow>
     istate \<Rightarrow> router \<Rightarrow> 's \<Rightarrow> cmd_result \<times> istate \<times> router \<times> 's" where
  "hc_locked cfg lp tenant iid self gate cmd st r s =
     (if is_poisoned st then (rejected_result (cmd_id cmd) reason_poisoned, st, r, s)
      else let ph = hashPayload cfg cmd
           in case hc_loop cfg lp tenant iid self gate cmd ph 0 st r s of
                (Return res, st1, r1, s1) \<Rightarrow> (res, st1, r1, s1)
              | (Committed dup cseq, st1, r1, s1) \<Rightarrow> hc_commit cfg lp tenant iid cmd ph dup cseq st1 r1 s1
              | (Again, st1, r1, s1) \<Rightarrow> (rejected_result (cmd_id cmd) reason_lost, st1, r1, s1))"

text \<open>The loop never ends by asking for another attempt; the last branch above is not reached.\<close>

lemma hc_loop_not_Again: "fst (hc_loop cfg lp tenant iid self gate cmd ph attempt st r s) \<noteq> Again"
proof (induction cfg lp tenant iid self gate cmd ph attempt st r s rule: hc_loop.induct)
  case (1 cfg lp tenant iid self gate cmd ph attempt st r s)
  show ?case
    by (subst hc_loop.simps)
       (use 1 in \<open>auto split: prod.splits attempt_out.splits\<close>)
qed

text \<open>The path of an ordinary (non-participation) command after validation and dispatch.\<close>

definition hc_ordinary ::
  "'b router_cfg \<Rightarrow> ('s, 'b) log_port \<Rightarrow> identity \<Rightarrow> string \<Rightarrow> string \<Rightarrow> string \<Rightarrow> command \<Rightarrow>
     router \<Rightarrow> 's \<Rightarrow> cmd_result \<times> router \<times> 's" where
  "hc_ordinary cfg lp i tenant iid self cmd r s =
     (if isParticipationFact (cmd_type cmd)
      then (rejected_result (cmd_id cmd) ''participation fact requires a privileged command'', r, s)
      else if isAuthenticated i \<and> RoleOf i \<noteq> RoleTrustedBackend \<and> \<not> IsSubscriberCapability (id_capability i)
      then (rejected_result (cmd_id cmd) ''capability_denied'', r, s)
      else
        let gate = (isAuthenticated i \<and> RoleOf i \<noteq> RoleTrustedBackend \<and> cmd_type cmd \<noteq> T_started)
        in case getState cfg lp tenant iid r s of
             (Inl _, r1, s1) \<Rightarrow> (rejected_result (cmd_id cmd) reason_unavailable, r1, s1)
           | (Inr st, r1, s1) \<Rightarrow>
               (case hc_locked cfg lp tenant iid self gate cmd st r1 s1 of
                  (res, st2, r2, s2) \<Rightarrow> (res, write_back (state_key tenant iid) st2 r2, s2)))"

end
