(* ===== verification/Router_Participation.thy ===== *)
theory Router_Participation
  imports Router_Command
begin

text \<open>
  The privileged participation commands of \<open>internal/signaling/router.go\<close>:
  \<open>handleParticipation\<close> turns an assign, unassign or transfer of a trusted backend into one or two
  participation facts (a transfer writes joined(new) before left(old)), \<open>appendParticipationFact\<close>
  appends one of them under the same optimistic concurrency as ordinary commands. \<open>HandleCommand\<close>
  is the whole entry point.
\<close>

section \<open>Appending one participation fact\<close>

definition participation_event ::
  "'b router_cfg \<Rightarrow> string \<Rightarrow> string \<Rightarrow> string \<Rightarrow> participation_data \<Rightarrow> command \<Rightarrow> string \<Rightarrow>
     istate \<Rightarrow> router \<Rightarrow> event \<times> router" where
  "participation_event cfg tenant commandedBy parentID pd fcmd ph st r =
     (let (eid, r1) = new_id cfg r;
          (t, r2) = now cfg r1
      in (\<lparr>ev_schema = SchemaV1, ev_type = cmd_type fcmd, ev_id = eid, ev_seq = i64_succ (is_seq st),
           ev_occurred_at = Some t, ev_tenant = tenant, ev_actor = cmd_actor fcmd,
           ev_medium = orDefault (cmd_medium fcmd) ''chat'', ev_command_id = cmd_id fcmd,
           ev_payload_hash = ph, ev_caused_by = parentID, ev_ref_id = '''', ev_data = '''',
           ev_commanded_by = commandedBy, ev_reason = pd_reason pd, ev_request_id = pd_request_id pd\<rparr>, r2))"

text \<open>
  One iteration of the loop: \<open>None\<close> asks for another attempt. The acknowledgement's duplicate
  flag is dropped, as in the code.
\<close>

definition apf_append ::
  "'b router_cfg \<Rightarrow> ('s, 'b) log_port \<Rightarrow> string \<Rightarrow> string \<Rightarrow> string \<Rightarrow> string \<Rightarrow> participation_data \<Rightarrow>
     command \<Rightarrow> string \<Rightarrow> nat \<Rightarrow> istate \<Rightarrow> router \<Rightarrow> 's \<Rightarrow> cmd_result option \<times> istate \<times> router \<times> 's" where
  "apf_append cfg lp tenant iid commandedBy parentID pd fcmd ph attempt st r s =
     (let (ev, r1) = participation_event cfg tenant commandedBy parentID pd fcmd ph st r
      in case lp_append lp s (logSubjectFor tenant iid) (c_marshal cfg ev)
                (dedup_id tenant iid (cmd_id fcmd)) (is_stream_seq st) of
           (Inl ErrOCCConflict, s1) \<Rightarrow>
             (case rebuild cfg lp tenant iid r1 s1 of
                (Inl _, r2, s2) \<Rightarrow>
                  (Some (rejected_result (cmd_id fcmd) reason_lost), poison st, evict tenant iid r2, s2)
              | (Inr fresh, r2, s2) \<Rightarrow>
                  if attempt \<ge> c_maxRefold cfg
                  then (Some (rejected_result (cmd_id fcmd) reason_lost), poison st, evict tenant iid r2, s2)
                  else (None, adopt st fresh (c_maxResults cfg), r2, s2))
         | (Inl (AppendFailed _), s1) \<Rightarrow>
             (Some (rejected_result (cmd_id fcmd) reason_append), poison st, evict tenant iid r1, s1)
         | (Inr (_, cseq), s1) \<Rightarrow>
             (let st1 = st\<lparr>is_seq := i64_succ (is_seq st), is_stream_seq := cseq\<rparr>;
                  st2 = applyTransition st1 (cmd_type fcmd);
                  st3 = st2\<lparr>is_part := map_option (\<lambda>v. ApplyFact v ev) (is_part st2)\<rparr>;
                  res = accepted_result (cmd_id fcmd) (cmd_id fcmd);
                  st4 = putResult st3 (cmd_id fcmd) \<lparr>sr_hash = ph, sr_result = res\<rparr> (c_maxResults cfg)
              in (Some res, st4, (if is_status st4 = ''ended'' then evict tenant iid r1 else r1), s1)))"

definition apf_try ::
  "'b router_cfg \<Rightarrow> ('s, 'b) log_port \<Rightarrow> string \<Rightarrow> string \<Rightarrow> string \<Rightarrow> string \<Rightarrow> participation_data \<Rightarrow>
     command \<Rightarrow> string \<Rightarrow> nat \<Rightarrow> istate \<Rightarrow> router \<Rightarrow> 's \<Rightarrow> cmd_result option \<times> istate \<times> router \<times> 's" where
  "apf_try cfg lp tenant iid commandedBy parentID pd fcmd ph attempt st r s =
     (if \<not> legalTransition (is_status st) (cmd_type fcmd)
      then (Some (rejected_result (cmd_id fcmd) (reason_illegal (cmd_type fcmd) (is_status st))), st, r, s)
      else apf_append cfg lp tenant iid commandedBy parentID pd fcmd ph attempt st r s)"

definition apf_attempt ::
  "'b router_cfg \<Rightarrow> ('s, 'b) log_port \<Rightarrow> string \<Rightarrow> string \<Rightarrow> string \<Rightarrow> string \<Rightarrow> participation_data \<Rightarrow>
     command \<Rightarrow> string \<Rightarrow> nat \<Rightarrow> istate \<Rightarrow> router \<Rightarrow> 's \<Rightarrow> cmd_result option \<times> istate \<times> router \<times> 's" where
  "apf_attempt cfg lp tenant iid commandedBy parentID pd fcmd ph attempt st r s =
     (case map_of (is_results st) (cmd_id fcmd) of
        Some prev \<Rightarrow>
          if sr_hash prev \<noteq> '''' \<and> sr_hash prev \<noteq> ph
          then (Some (rejected_result (cmd_id fcmd) reason_conflict), st, r, s)
          else if res_status (sr_result prev) = STATUS_ACCEPTED
          then (Some (sr_result prev), st, (if is_status st = ''ended'' then evict tenant iid r else r), s)
          else apf_try cfg lp tenant iid commandedBy parentID pd fcmd ph attempt st r s
      | None \<Rightarrow> apf_try cfg lp tenant iid commandedBy parentID pd fcmd ph attempt st r s)"

lemma apf_attempt_None:
  "apf_attempt cfg lp tenant iid commandedBy parentID pd fcmd ph attempt st r s = (None, x) \<Longrightarrow>
     attempt < c_maxRefold cfg"
  by (auto simp: apf_attempt_def apf_try_def apf_append_def Let_def
      split: option.splits if_splits prod.splits sum.splits append_err.splits)

function apf_loop ::
  "'b router_cfg \<Rightarrow> ('s, 'b) log_port \<Rightarrow> string \<Rightarrow> string \<Rightarrow> string \<Rightarrow> string \<Rightarrow> participation_data \<Rightarrow>
     command \<Rightarrow> string \<Rightarrow> nat \<Rightarrow> istate \<Rightarrow> router \<Rightarrow> 's \<Rightarrow> cmd_result \<times> istate \<times> router \<times> 's" where
  "apf_loop cfg lp tenant iid commandedBy parentID pd fcmd ph attempt st r s =
     (case apf_attempt cfg lp tenant iid commandedBy parentID pd fcmd ph attempt st r s of
        (None, st', r', s') \<Rightarrow>
          apf_loop cfg lp tenant iid commandedBy parentID pd fcmd ph (Suc attempt) st' r' s'
      | (Some res, st', r', s') \<Rightarrow> (res, st', r', s'))"
  by pat_completeness auto
termination
  by (relation "measure (\<lambda>(cfg, lp, tenant, iid, commandedBy, parentID, pd, fcmd, ph, attempt, st, r, s).
        Suc (c_maxRefold cfg) - attempt)")
     (auto dest!: sym [THEN apf_attempt_None])

declare apf_loop.simps [simp del]

definition appendParticipationFact ::
  "'b router_cfg \<Rightarrow> ('s, 'b) log_port \<Rightarrow> string \<Rightarrow> string \<Rightarrow> string \<Rightarrow> string \<Rightarrow> participation_data \<Rightarrow>
     command \<Rightarrow> router \<Rightarrow> 's \<Rightarrow> cmd_result \<times> router \<times> 's" where
  "appendParticipationFact cfg lp tenant iid commandedBy parentID pd fcmd r s =
     (case getState cfg lp tenant iid r s of
        (Inl _, r1, s1) \<Rightarrow> (rejected_result (cmd_id fcmd) reason_unavailable, r1, s1)
      | (Inr st, r1, s1) \<Rightarrow>
          if is_poisoned st then (rejected_result (cmd_id fcmd) reason_poisoned, r1, s1)
          else (case apf_loop cfg lp tenant iid commandedBy parentID pd fcmd (hashPayload cfg fcmd) 0 st r1 s1 of
                  (res, st2, r2, s2) \<Rightarrow> (res, write_back (state_key tenant iid) st2 r2, s2)))"

section \<open>The privileged command\<close>

text \<open>The facts a command lands as, in order, or the reason it is refused.\<close>

definition participation_facts ::
  "string \<Rightarrow> participation_data \<Rightarrow> string + (string \<times> string) list" where
  "participation_facts t pd =
     (if t = ''participant.assign'' then
        (if pd_agent pd = '''' then Inl ''missing agent'' else Inr [(T_joined, pd_agent pd)])
      else if t = ''participant.unassign'' then
        (if pd_agent pd = '''' then Inl ''missing agent'' else Inr [(T_left, pd_agent pd)])
      else if t = ''participant.transfer'' then
        (if pd_agent pd = '''' \<or> pd_from pd = '''' then Inl ''missing from/agent''
         else Inr [(T_joined, pd_agent pd), (T_left, pd_from pd)])
      else Inr [])"

definition zero_participation_data :: participation_data where
  "zero_participation_data = \<lparr>pd_agent = '''', pd_from = '''', pd_reason = '''', pd_request_id = ''''\<rparr>"

definition decode_participation ::
  "'b router_cfg \<Rightarrow> bytes \<Rightarrow> participation_data option" where
  "decode_participation cfg data =
     (if data = '''' then Some zero_participation_data else c_json cfg data)"

definition sub_id :: "string \<Rightarrow> string \<times> string \<Rightarrow> string" where
  "sub_id cid f = cid @ '':'' @ fst f @ '':'' @ snd f"

definition fact_command :: "string \<Rightarrow> command \<Rightarrow> string \<times> string \<Rightarrow> command" where
  "fact_command tenant cmd f =
     \<lparr>cmd_id = sub_id (cmd_id cmd) f, cmd_tenant = tenant, cmd_actor = snd f, cmd_type = fst f,
      cmd_medium = cmd_medium cmd, cmd_ref_id = '''', cmd_data = ''''\<rparr>"

text \<open>
  The loop over the facts; \<open>first\<close> says whether this is the first one. \<open>Some res\<close> is the early
  return of a fact that was not accepted.
\<close>

fun land_facts ::
  "'b router_cfg \<Rightarrow> ('s, 'b) log_port \<Rightarrow> string \<Rightarrow> string \<Rightarrow> string \<Rightarrow> participation_data \<Rightarrow> command \<Rightarrow>
     bool \<Rightarrow> (string \<times> string) list \<Rightarrow> router \<Rightarrow> 's \<Rightarrow> cmd_result option \<times> router \<times> 's" where
  "land_facts cfg lp tenant iid actor pd cmd first [] r s = (None, r, s)"
| "land_facts cfg lp tenant iid actor pd cmd first (f # fs) r s =
     (case appendParticipationFact cfg lp tenant iid actor (cmd_id cmd) pd (fact_command tenant cmd f) r s of
        (res, r1, s1) \<Rightarrow>
          if res_status res \<noteq> STATUS_ACCEPTED then
            (Some (res\<lparr>res_reason := (if first then res_reason res
                                      else ''transfer partially applied ('' @ res_reason res @ '')''),
                      res_command_id := cmd_id cmd\<rparr>), r1, s1)
          else land_facts cfg lp tenant iid actor pd cmd False fs r1 s1)"

definition bind_parent :: "string \<Rightarrow> nat \<Rightarrow> string \<Rightarrow> string set \<Rightarrow> router \<Rightarrow> router" where
  "bind_parent key oid cid subs r =
     (case map_of (rt_inter r) key of
        Some cur \<Rightarrow>
          if is_oid cur = oid then
            r\<lparr>rt_inter := AList.update key
                (cur\<lparr>is_parents := (is_parents cur)(cid \<mapsto>
                   (case is_parents cur cid of None \<Rightarrow> {} | Some b \<Rightarrow> b) \<union> subs)\<rparr>) (rt_inter r)\<rparr>
          else r
      | None \<Rightarrow> r)"

definition handleParticipation ::
  "'b router_cfg \<Rightarrow> ('s, 'b) log_port \<Rightarrow> string \<Rightarrow> string \<Rightarrow> string \<Rightarrow> string \<Rightarrow> command \<Rightarrow>
     router \<Rightarrow> 's \<Rightarrow> cmd_result \<times> router \<times> 's" where
  "handleParticipation cfg lp tenant iid actor role cmd r s =
     (if role \<noteq> RoleTrustedBackend
      then (rejected_result (cmd_id cmd) ''privileged command requires trusted-backend actor'', r, s)
      else case decode_participation cfg (cmd_data cmd) of
        None \<Rightarrow> (rejected_result (cmd_id cmd) ''bad participation payload'', r, s)
      | Some pd \<Rightarrow>
          (case participation_facts (cmd_type cmd) pd of
             Inl reason \<Rightarrow> (rejected_result (cmd_id cmd) reason, r, s)
           | Inr facts \<Rightarrow>
               (let subIDs = map (sub_id (cmd_id cmd)) facts
                in case getState cfg lp tenant iid r s of
                     (Inl _, r1, s1) \<Rightarrow> (rejected_result (cmd_id cmd) reason_unavailable, r1, s1)
                   | (Inr st, r1, s1) \<Rightarrow>
                       if (case is_parents st (cmd_id cmd) of
                             None \<Rightarrow> False
                           | Some b \<Rightarrow> \<not> recordedSubsetOf b (set subIDs))
                       then (rejected_result (cmd_id cmd) reason_conflict, r1, s1)
                       else (case land_facts cfg lp tenant iid actor pd cmd True facts r1 s1 of
                               (Some res, r2, s2) \<Rightarrow> (res, r2, s2)
                             | (None, r2, s2) \<Rightarrow>
                                 (accepted_result (cmd_id cmd) (cmd_id cmd),
                                  bind_parent (state_key tenant iid) (is_oid st) (cmd_id cmd)
                                    (set subIDs) r2, s2)))))"

section \<open>The entry point\<close>

definition HandleCommand ::
  "'b router_cfg \<Rightarrow> ('s, 'b) log_port \<Rightarrow> identity \<Rightarrow> string \<Rightarrow> bytes \<Rightarrow> router \<Rightarrow> 's \<Rightarrow>
     cmd_result \<times> router \<times> 's" where
  "HandleCommand cfg lp i subject data r s =
     (case hc_validate cfg i subject data of
        Inl res \<Rightarrow> (res, r, s)
      | Inr (tenant, iid, self, cmd) \<Rightarrow>
          if isParticipationCommand (cmd_type cmd)
          then handleParticipation cfg lp tenant iid self (RoleOf i) cmd r s
          else hc_ordinary cfg lp i tenant iid self cmd r s)"

end
