(* ===== verification/Router_Cache.thy ===== *)
theory Router_Cache
  imports Router_Log
begin

text \<open>
  The invariants of one cached interaction state and of its dedup cache: the FIFO order lists
  exactly the cached ids (so the eviction loop never indexes an empty slice), the cache never
  exceeds its bound, a cached acceptance is always backed by a fact of the log, and a state
  folded from a legal log agrees with it.
\<close>

section \<open>The dedup cache\<close>

definition cache_ok :: "istate \<Rightarrow> bool" where
  "cache_ok st \<longleftrightarrow> wf_map (is_results st) \<and> distinct (is_order st) \<and>
     set (is_order st) = set (keys (is_results st))"

definition cache_bounded :: "nat \<Rightarrow> istate \<Rightarrow> bool" where
  "cache_bounded mx st \<longleftrightarrow> (0 < mx \<longrightarrow> length (is_results st) \<le> mx)"

lemma evict_oldest_stop:
  "\<not> (0 < mx \<and> mx < length results) \<Longrightarrow> evict_oldest mx order results = (order, results)"
  by (subst evict_oldest.simps) auto

lemma evict_oldest_more:
  "0 < mx \<Longrightarrow> mx < length results \<Longrightarrow>
     evict_oldest mx (oldest # rest) results = evict_oldest mx rest (AList.delete oldest results)"
  by (subst evict_oldest.simps) simp

lemma evict_oldest_ok:
  assumes "wf_map results" "distinct order" "set order = set (keys results)"
    "evict_oldest mx order results = (order', results')"
  shows "wf_map results' \<and> distinct order' \<and> set order' = set (keys results') \<and>
    (0 < mx \<longrightarrow> length results' \<le> mx) \<and> suffix order' order \<and>
    (\<forall>c. map_of results' c = (if c \<in> set order' then map_of results c else None))"
  using assms
proof (induction mx order results rule: evict_oldest.induct)
  case (1 mx order results)
  show ?case
  proof (cases "mx > 0 \<and> length results > mx")
    case False
    with 1(2-) show ?thesis
      by (auto simp: evict_oldest_stop map_of_None_keys)
  next
    case True
    then obtain oldest rest where order: "order = oldest # rest"
      using 1(4) by (cases order) auto
    have ih: "wf_map results' \<and> distinct order' \<and> set order' = set (keys results') \<and>
      (0 < mx \<longrightarrow> length results' \<le> mx) \<and> suffix order' rest \<and>
      (\<forall>c. map_of results' c = (if c \<in> set order' then map_of (AList.delete oldest results) c else None))"
      using 1(2-) True order
      by (intro 1(1)) (auto simp: distinct_delete keys_delete evict_oldest_more)
    moreover have "oldest \<notin> set order'"
      using ih 1(3) order by (auto dest: set_mono_suffix)
    ultimately show ?thesis
      using order by (auto simp: map_of_alist_delete suffix_ConsI)
  qed
qed

lemma putResult_fields [simp]:
  "is_oid (putResult st c sr mx) = is_oid st"
  "is_seq (putResult st c sr mx) = is_seq st"
  "is_stream_seq (putResult st c sr mx) = is_stream_seq st"
  "is_status (putResult st c sr mx) = is_status st"
  "is_part (putResult st c sr mx) = is_part st"
  "is_parents (putResult st c sr mx) = is_parents st"
  "is_poisoned (putResult st c sr mx) = is_poisoned st"
  "is_last_used (putResult st c sr mx) = is_last_used st"
  by (simp_all add: putResult_def Let_def split: prod.splits)

lemma putResult_ok:
  assumes "cache_ok st"
  shows "cache_ok (putResult st c sr mx) \<and> cache_bounded mx (putResult st c sr mx) \<and>
    (\<forall>d. map_of (is_results (putResult st c sr mx)) d =
       (if d \<in> set (is_order (putResult st c sr mx))
        then (if d = c then Some sr else map_of (is_results st) d) else None)) \<and>
    suffix (is_order (putResult st c sr mx))
      (if map_of (is_results st) c = None then is_order st @ [c] else is_order st)"
proof -
  define order where "order = (if map_of (is_results st) c = None then is_order st @ [c] else is_order st)"
  obtain order' results' where ev: "evict_oldest mx order (AList.update c sr (is_results st)) = (order', results')"
    by (cases "evict_oldest mx order (AList.update c sr (is_results st))")
  have pr: "putResult st c sr mx = st\<lparr>is_order := order', is_results := results'\<rparr>"
    using ev by (simp add: putResult_def order_def Let_def)
  have pre: "wf_map (AList.update c sr (is_results st))" "distinct order"
    "set order = set (keys (AList.update c sr (is_results st)))"
    using assms by (auto simp: cache_ok_def order_def distinct_update map_of_None_keys keys_update)
  show ?thesis
    using evict_oldest_ok [OF pre ev] unfolding pr order_def cache_ok_def cache_bounded_def by auto
qed

text \<open>The entry just written is never the one evicted.\<close>

lemma putResult_newest:
  assumes "cache_ok st" "cache_bounded mx st"
  shows "map_of (is_results (putResult st c sr mx)) c = Some sr"
proof -
  let ?st = "putResult st c sr mx"
  note p = putResult_ok [OF assms(1), of c sr mx]
  have "c \<in> set (is_order ?st)"
  proof (cases "map_of (is_results st) c")
    case None
    let ?res = "AList.update c sr (is_results st)"
    have len: "length ?res = Suc (length (is_results st))"
      using None by (simp add: length_update map_of_None_keys)
    have wf: "wf_map ?res" using assms(1) by (simp add: cache_ok_def distinct_update)
    have "snd (evict_oldest mx (is_order st @ [c]) ?res) = is_results ?st"
      "fst (evict_oldest mx (is_order st @ [c]) ?res) = is_order ?st"
      using None by (simp_all add: putResult_def split: prod.splits)
    moreover have "c \<in> set (fst (evict_oldest mx (is_order st @ [c]) ?res))"
    proof (cases "0 < mx \<and> mx < length ?res")
      case False
      then show ?thesis by (simp add: evict_oldest_stop)
    next
      case True
      then have full: "length (is_results st) = mx" "0 < mx"
        using assms(2) len by (auto simp: cache_bounded_def)
      then have "set (is_order st) \<noteq> {}" using assms(1) by (cases "is_results st") (auto simp: cache_ok_def)
      then obtain o1 rest where o: "is_order st = o1 # rest" by (cases "is_order st") auto
      then have "o1 \<in> set (keys ?res)" using assms(1) by (auto simp: cache_ok_def keys_update)
      then have "length (AList.delete o1 ?res) = mx"
        using wf len full by (simp add: length_delete_distinct)
      then show ?thesis using True o by (simp add: evict_oldest_more evict_oldest_stop)
    qed
    ultimately show ?thesis by simp
  next
    case (Some x)
    then have "length (AList.update c sr (is_results st)) = length (is_results st)"
      using map_of_Some_keys [OF Some] by (simp add: length_update)
    then have "is_order ?st = is_order st"
      using Some assms(2) by (auto simp: putResult_def evict_oldest_stop cache_bounded_def)
    then show ?thesis using map_of_Some_keys [OF Some] assms(1) by (auto simp: cache_ok_def)
  qed
  then show ?thesis using p by simp
qed

section \<open>Cached acceptances are backed by the log\<close>


definition backed :: "event list \<Rightarrow> string \<Rightarrow> stored_result \<Rightarrow> bool" where
  "backed L cid sr \<longleftrightarrow> (res_status (sr_result sr) = STATUS_ACCEPTED \<longrightarrow> durable L cid)"

definition res_ok :: "event list \<Rightarrow> istate \<Rightarrow> bool" where
  "res_ok L st \<longleftrightarrow> (\<forall>cid sr. map_of (is_results st) cid = Some sr \<longrightarrow> backed L cid sr)"


lemma res_ok_prefix: "res_ok L st \<Longrightarrow> prefix L M \<Longrightarrow> res_ok M st"
  unfolding res_ok_def backed_def using durable_prefix by blast

lemma res_ok_putResult:
  "cache_ok st \<Longrightarrow> res_ok L st \<Longrightarrow> backed L c sr \<Longrightarrow> res_ok L (putResult st c sr mx)"
  using putResult_ok [of st c sr mx] by (auto simp: res_ok_def split: if_splits)

text \<open>The cache part of the invariant.\<close>

definition cached_ok :: "nat \<Rightarrow> event list \<Rightarrow> istate \<Rightarrow> bool" where
  "cached_ok mx L st \<longleftrightarrow> cache_ok st \<and> cache_bounded mx st \<and> res_ok L st"

lemma cached_ok_prefix: "cached_ok mx L st \<Longrightarrow> prefix L M \<Longrightarrow> cached_ok mx M st"
  unfolding cached_ok_def using res_ok_prefix by blast

lemma cached_ok_putResult:
  "cached_ok mx L st \<Longrightarrow> backed L c sr \<Longrightarrow> cached_ok mx L (putResult st c sr mx)"
  unfolding cached_ok_def using putResult_ok res_ok_putResult by blast

lemma cached_ok_cong:
  "is_results st' = is_results st \<Longrightarrow> is_order st' = is_order st \<Longrightarrow> cached_ok mx L st' = cached_ok mx L st"
  by (simp add: cached_ok_def cache_ok_def cache_bounded_def res_ok_def)

lemma backed_rejected [simp]: "backed L c \<lparr>sr_hash = h, sr_result = rejected_result c r\<rparr>"
  by (simp add: backed_def)

lemma backed_durable: "durable L c \<Longrightarrow> backed L c sr"
  by (simp add: backed_def)

lemma copy_missing_fields [simp]:
  "is_oid (copy_missing st ids fresh mx) = is_oid st"
  "is_seq (copy_missing st ids fresh mx) = is_seq st"
  "is_stream_seq (copy_missing st ids fresh mx) = is_stream_seq st"
  "is_status (copy_missing st ids fresh mx) = is_status st"
  "is_part (copy_missing st ids fresh mx) = is_part st"
  "is_parents (copy_missing st ids fresh mx) = is_parents st"
  "is_poisoned (copy_missing st ids fresh mx) = is_poisoned st"
  by (induction st ids fresh mx rule: copy_missing.induct) (auto split: option.splits)

lemma cached_ok_copy_missing:
  assumes "cached_ok mx L st" "\<And>c sr. map_of fresh c = Some sr \<Longrightarrow> backed L c sr"
  shows "cached_ok mx L (copy_missing st ids fresh mx)"
  using assms
  by (induction st ids fresh mx rule: copy_missing.induct) (auto split: option.splits simp: cached_ok_putResult)

section \<open>States folded from the log\<close>

text \<open>
  \<open>agrees pc P st\<close>: the sequence number, the status and (when \<open>pc\<close>) the membership view of \<open>st\<close>
  are those of the log \<open>P\<close>. The sequence number is exact as long as it fits an \<open>int64\<close>.
\<close>

definition agrees :: "bool \<Rightarrow> event list \<Rightarrow> istate \<Rightarrow> bool" where
  "agrees pc P st \<longleftrightarrow>
     (int (length P) \<le> i64_max \<longrightarrow> is_seq st = int (length P)) \<and> is_status st = status_of P \<and>
     (pc \<longrightarrow> is_part st = Some (FoldParticipation P))"

lemma rebuild_fact_fields [simp]:
  "is_seq (rebuild_fact mx st e) = max (is_seq st) (ev_seq e)"
  "is_status (rebuild_fact mx st e) = next_status (is_status st) (ev_type e)"
  "is_stream_seq (rebuild_fact mx st e) = is_stream_seq st"
  "is_part (rebuild_fact mx st e) = is_part st"
  "is_oid (rebuild_fact mx st e) = is_oid st"
  "is_poisoned (rebuild_fact mx st e) = is_poisoned st"
  by (auto simp: rebuild_fact_def Let_def applyTransition_def)

lemma rebuild_fact_cached:
  assumes "cached_ok mx L st"
  shows "cached_ok mx (L @ [e]) (rebuild_fact mx st e)"
proof -
  have "cached_ok mx (L @ [e]) st" using assms by (rule cached_ok_prefix) simp
  then show ?thesis
    by (auto simp: rebuild_fact_def Let_def applyTransition_def backed_def
        cong: cached_ok_cong intro!: cached_ok_putResult)
qed

lemma cached_ok_empty: "cached_ok mx L (empty_istate oid t facts)"
  by (simp add: cached_ok_def cache_ok_def cache_bounded_def res_ok_def empty_istate_def)

lemma foldl_rebuild:
  assumes "cached_ok mx [] st0" "is_seq st0 = 0" "is_status st0 = ''''"
  shows "cached_ok mx facts (foldl (rebuild_fact mx) st0 facts)"
    and "is_status (foldl (rebuild_fact mx) st0 facts) = status_of facts"
    and "log_ok facts \<Longrightarrow> int (length facts) \<le> i64_max \<Longrightarrow>
           is_seq (foldl (rebuild_fact mx) st0 facts) = int (length facts)"
  using assms
  by (induction facts rule: rev_induct)
     (auto simp: rebuild_fact_cached log_ok_snoc legal_append_def)

lemma foldl_rebuild_kept [simp]:
  "is_stream_seq (foldl (rebuild_fact mx) st0 facts) = is_stream_seq st0"
  "is_part (foldl (rebuild_fact mx) st0 facts) = is_part st0"
  "is_oid (foldl (rebuild_fact mx) st0 facts) = is_oid st0"
  "is_poisoned (foldl (rebuild_fact mx) st0 facts) = is_poisoned st0"
  by (induction facts rule: rev_induct) simp_all

lemma state_of_log_ok:
  shows "cached_ok mx facts (state_of_log mx oid facts t)"
    and "log_ok facts \<Longrightarrow> agrees pc facts (state_of_log mx oid facts t)"
    and "is_stream_seq (state_of_log mx oid facts t) = t"
    and "\<not> is_poisoned (state_of_log mx oid facts t)"
    and "is_oid (state_of_log mx oid facts t) = oid"
proof -
  note f = foldl_rebuild [of mx "empty_istate oid t facts" facts, OF cached_ok_empty]
  show "cached_ok mx facts (state_of_log mx oid facts t)"
    unfolding state_of_log_def by (rule f) (simp_all add: empty_istate_def)
  show "agrees pc facts (state_of_log mx oid facts t)" if "log_ok facts"
    using f that unfolding state_of_log_def agrees_def by (simp add: empty_istate_def)
qed (simp_all add: state_of_log_def empty_istate_def)

end
