(* ===== verification/Raced_Store.thy ===== *)
theory Raced_Store
  imports Router_Log
begin

text \<open>
  The providers of the log contract: the in-memory store of the unit tests, and the same store
  under an adversary that follows a script. Before each call the scripted foreign routers append
  (only what is legal, which is what every router guarantees), and the call itself may be lost on
  its way in or on its way out.
\<close>

section \<open>The in-memory store keeps the contract\<close>

definition fake_hist :: "fake_store \<Rightarrow> string \<Rightarrow> event list" where
  "fake_hist s subj = map_get [] (fs_facts s) subj"

definition fake_tok :: "fake_store \<Rightarrow> string \<Rightarrow> stream_seq" where
  "fake_tok s subj = map_get 0 (fs_last_seq s) subj"

definition fake_stamped :: "fake_store \<Rightarrow> string \<Rightarrow> stream_seq \<Rightarrow> event list \<Rightarrow> bool" where
  "fake_stamped s subj t P \<longleftrightarrow>
     P = fake_hist s subj \<and> t = fake_tok s subj \<or> strict_prefix P (fake_hist s subj) \<and> t < fake_tok s subj"

definition dedup_known :: "fake_store \<Rightarrow> string \<Rightarrow> bool" where
  "dedup_known s did \<longleftrightarrow>
     (\<exists>tenant iid e. no_dot tenant \<and> no_dot iid \<and> did = dedup_id tenant iid (ev_command_id e) \<and>
        e \<in> set (fake_hist s (logSubjectFor tenant iid)))"

definition fake_inv :: "fake_store \<Rightarrow> bool" where
  "fake_inv s \<longleftrightarrow> (\<forall>subj. fake_tok s subj \<le> fs_stream_seq s) \<and> (\<forall>did. did \<in> set (fs_dedup s) \<longleftrightarrow> dedup_known s did)"

lemma map_get_update [simp]:
  "map_get z (AList.update k v m) j = (if j = k then v else map_get z m j)"
  by (simp add: map_get_def)

lemma dedup_id_inject:
  assumes "no_dot t" "no_dot i" "no_dot t'" "no_dot i'"
  shows "dedup_id t i c = dedup_id t' i' c' \<longleftrightarrow> t = t' \<and> i = i' \<and> c = c'"
proof -
  have "dedup_id t i c = t @ dot # i @ dot # c" for t i c by (simp add: dedup_id_def)
  with assms show ?thesis using append_sep_inject [of dot] unfolding no_dot_def by metis
qed

lemma fake_inv_new [simp]: "fake_inv newFakeStore"
  by (simp add: fake_inv_def newFakeStore_def fake_tok_def map_get_def dedup_known_def fake_hist_def)

lemma fake_append_cases:
  fixes s :: fake_store
  assumes "fake_append unm s subj data did t = (out, s')"
  obtains
    (dup) "did \<in> set (fs_dedup s)" "out = Inr (True, fake_tok s subj)" "s' = s"
  | (conflict) "did \<notin> set (fs_dedup s)" "fake_tok s subj \<noteq> t" "out = Inl ErrOCCConflict" "s' = s"
  | (stored) "did \<notin> set (fs_dedup s)" "fake_tok s subj = t" "out = Inr (False, fs_stream_seq s + 1)"
      "\<And>j. fake_hist s' j = (if j = subj then fake_hist s subj @ [case unm data of None \<Rightarrow> zero_event | Some e \<Rightarrow> e]
                             else fake_hist s j)"
      "\<And>j. fake_tok s' j = (if j = subj then fs_stream_seq s + 1 else fake_tok s j)"
      "fs_dedup s' = did # fs_dedup s" "fs_stream_seq s' = fs_stream_seq s + 1"
proof -
  consider "did \<in> set (fs_dedup s)" | "did \<notin> set (fs_dedup s)" "fake_tok s subj \<noteq> t"
    | "did \<notin> set (fs_dedup s)" "fake_tok s subj = t" by blast
  then show thesis
  proof cases
    case 1
    with assms show thesis by (intro dup) (auto simp: fake_append_def fake_tok_def)
  next
    case 2
    with assms show thesis by (intro conflict) (auto simp: fake_append_def fake_tok_def)
  next
    case 3
    with assms have "out = Inr (False, fs_stream_seq s + 1)"
      "s' = s\<lparr>fs_dedup := did # fs_dedup s, fs_stream_seq := fs_stream_seq s + 1,
         fs_last_seq := AList.update subj (fs_stream_seq s + 1) (fs_last_seq s),
         fs_facts := AList.update subj (fake_hist s subj @ [case unm data of None \<Rightarrow> zero_event | Some e \<Rightarrow> e]) (fs_facts s)\<rparr>"
      by (simp_all add: fake_append_def fake_tok_def fake_hist_def Let_def)
    with 3 show thesis by (intro stored) (simp_all add: fake_tok_def fake_hist_def)
  qed
qed

lemma fake_stored:
  assumes inv: "fake_inv s" and nd: "no_dot tenant" "no_dot iid"
    and hist: "\<And>j. fake_hist s' j =
      (if j = logSubjectFor tenant iid then fake_hist s j @ [e] else fake_hist s j)"
    and tok: "\<And>j. fake_tok s' j = (if j = logSubjectFor tenant iid then fs_stream_seq s + 1 else fake_tok s j)"
    and dd: "fs_dedup s' = dedup_id tenant iid (ev_command_id e) # fs_dedup s"
    and sq: "fs_stream_seq s' = fs_stream_seq s + 1"
  shows "fake_inv s'" and "fake_stamped s subj t P \<Longrightarrow> fake_stamped s' subj t P"
proof -
  have le: "fake_tok s j \<le> fs_stream_seq s" for j using inv by (simp add: fake_inv_def)
  have mem: "e' \<in> set (fake_hist s' (logSubjectFor t i)) \<longleftrightarrow>
      e' \<in> set (fake_hist s (logSubjectFor t i)) \<or> t = tenant \<and> i = iid \<and> e' = e"
    if "no_dot t" "no_dot i" for t i e'
    using logSubjectFor_inject [OF that(1) nd(1) that(2) nd(2)] hist [of "logSubjectFor t i"] by auto
  have "dedup_known s' did \<longleftrightarrow> dedup_known s did \<or> did = dedup_id tenant iid (ev_command_id e)" for did
    unfolding dedup_known_def using mem nd by blast
  then show "fake_inv s'"
    using inv tok dd sq le by (auto simp: fake_inv_def le_SucI)
  show "fake_stamped s' subj t P" if "fake_stamped s subj t P"
    using that hist [of subj] tok [of subj] le [of subj] by (auto simp: fake_stamped_def strict_prefix_def)
qed

lemma fake_stamped_hist [simp]: "fake_stamped s subj (fake_tok s subj) (fake_hist s subj)"
  by (simp add: fake_stamped_def)

lemma fake_stamped_unique: "fake_stamped s subj (fake_tok s subj) P \<Longrightarrow> P = fake_hist s subj"
  by (auto simp: fake_stamped_def)

lemma fake_dup_known:
  assumes "fake_inv s" "no_dot tenant" "no_dot iid" "dedup_id tenant iid c \<in> set (fs_dedup s)"
  shows "durable (fake_hist s (logSubjectFor tenant iid)) c"
proof -
  from assms obtain t i e where "no_dot t" "no_dot i" "dedup_id tenant iid c = dedup_id t i (ev_command_id e)"
    "e \<in> set (fake_hist s (logSubjectFor t i))"
    unfolding fake_inv_def dedup_known_def by blast
  with assms show ?thesis by (auto simp: dedup_id_inject durable_def)
qed

lemma fake_fresh:
  assumes "fake_inv s" "no_dot tenant" "no_dot iid" "dedup_id tenant iid c \<notin> set (fs_dedup s)"
  shows "\<not> durable (fake_hist s (logSubjectFor tenant iid)) c"
  using assms by (auto simp: fake_inv_def dedup_known_def durable_def)

text \<open>One append of the in-memory store keeps the contract, with no one in between.\<close>

abbreviation fake_untouched :: "fake_store \<Rightarrow> fake_store \<Rightarrow> bool" where
  "fake_untouched \<equiv> untouched fake_hist fake_stamped"

lemma fake_append_contract:
  assumes inv: "fake_inv s" and nd: "no_dot tenant" "no_dot iid" and dec: "unm data = Some e"
    and app: "fake_append unm s (logSubjectFor tenant iid) data (dedup_id tenant iid (ev_command_id e)) t = (out, s')"
  shows "fake_inv s' \<and>
    append_outcome True fake_hist fake_stamped fake_untouched (logSubjectFor tenant iid) e t s out s'"
  using app
proof (cases rule: fake_append_cases)
  case dup
  with inv nd show ?thesis by (simp add: append_outcome_def fake_dup_known)
next
  case conflict
  with inv show ?thesis by (simp add: append_outcome_def)
next
  case stored
  have hist: "fake_hist s' j = (if j = logSubjectFor tenant iid then fake_hist s j @ [e] else fake_hist s j)" for j
    using stored(4) dec by simp
  note kept = fake_stored [OF inv nd hist stored(5-7)]
  have "written True fake_hist fake_stamped (logSubjectFor tenant iid) e
      (fake_stamped s (logSubjectFor tenant iid) t) s s'"
    using hist kept stored(2) fake_fresh [OF inv nd stored(1)]
    by (auto simp: written_def dest: fake_stamped_unique)
  moreover have "fake_stamped s' (logSubjectFor tenant iid) (fs_stream_seq s + 1) (fake_hist s' (logSubjectFor tenant iid))"
    using fake_stamped_hist [of s' "logSubjectFor tenant iid"] stored(5) by simp
  ultimately show ?thesis
    using kept(1) stored(3) by (auto simp: append_outcome_def intro!: exI [of _ s])
qed

text \<open>The wire codec is any pair of inverse functions.\<close>

lemma fake_log_store:
  assumes codec: "\<And>e. unm (mar e) = Some e"
  shows "log_store (fake_port unm) mar fake_hist fake_stamped fake_untouched fake_inv True"
proof
  fix s tenant iid e t out s'
  assume inv: "fake_inv s" and nd: "no_dot tenant" "no_dot iid"
    and "lp_append (fake_port unm) s (logSubjectFor tenant iid) (mar e) (dedup_id tenant iid (ev_command_id e)) t = (out, s')"
  then have "fake_append unm s (logSubjectFor tenant iid) (mar e) (dedup_id tenant iid (ev_command_id e)) t = (out, s')"
    by (simp add: fake_port_def)
  then show "fake_inv s' \<and>
      append_outcome True fake_hist fake_stamped fake_untouched (logSubjectFor tenant iid) e t s out s'"
    by (rule fake_append_contract [where unm = unm and data = "mar e", OF inv nd codec [of e]])
next
  fix s1 s2 s3
  assume "fake_untouched s1 s2" "fake_untouched s2 s3"
  then show "fake_untouched s1 s3" by (rule untouched_trans)
next
  fix s subj out s'
  assume "fake_inv s" "lp_replay (fake_port unm) s subj = (out, s')"
  then show "fake_inv s' \<and> fake_untouched s s' \<and>
    (\<forall>facts t. out = Inr (facts, t) \<longrightarrow> facts = fake_hist s' subj \<and> fake_stamped s' subj t facts)"
    by (auto simp: fake_port_def fake_replay_def fake_stamped_def fake_hist_def fake_tok_def)
qed (simp_all add: untouched_grows)

interpretation fake: log_store "fake_port Some" "\<lambda>e. e" fake_hist fake_stamped fake_untouched fake_inv True
  by (rule fake_log_store) simp

section \<open>The raced store\<close>

datatype fault = NoFault | AckLost | NotSent

record race_store =
  rs_store :: fake_store
  rs_script :: "((string \<times> string \<times> event) list \<times> fault) list"

text \<open>One foreign append: another router at the current end of the log.\<close>

definition foreign_append :: "fake_store \<Rightarrow> string \<times> string \<times> event \<Rightarrow> fake_store" where
  "foreign_append s w =
     (case w of (tenant, iid, e) \<Rightarrow>
        let subj = logSubjectFor tenant iid
        in if no_dot tenant \<and> no_dot iid \<and> legal_append (fake_hist s subj) e
           then snd (fake_append Some s subj e (dedup_id tenant iid (ev_command_id e)) (fake_tok s subj))
           else s)"

definition race_step :: "race_store \<Rightarrow> fault \<times> race_store" where
  "race_step rs =
     (case rs_script rs of
        [] \<Rightarrow> (NoFault, rs)
      | (ws, f) # rest \<Rightarrow> (f, \<lparr>rs_store = foldl foreign_append (rs_store rs) ws, rs_script = rest\<rparr>))"

definition race_append ::
  "('b \<Rightarrow> event option) \<Rightarrow> race_store \<Rightarrow> string \<Rightarrow> 'b \<Rightarrow> string \<Rightarrow> stream_seq \<Rightarrow>
     (append_err + bool \<times> stream_seq) \<times> race_store" where
  "race_append unm rs subj data did t =
     (case race_step rs of
        (NotSent, rs1) \<Rightarrow> (Inl (AppendFailed ''nats: timeout''), rs1)
      | (f, rs1) \<Rightarrow>
          (case fake_append unm (rs_store rs1) subj data did t of
             (out, s') \<Rightarrow> (if f = AckLost then Inl (AppendFailed ''nats: timeout'') else out,
                          rs1\<lparr>rs_store := s'\<rparr>)))"

definition race_replay :: "race_store \<Rightarrow> string \<Rightarrow> (string + event list \<times> stream_seq) \<times> race_store" where
  "race_replay rs subj =
     (case race_step rs of
        (NoFault, rs1) \<Rightarrow> (fst (fake_replay (rs_store rs1) subj), rs1)
      | (_, rs1) \<Rightarrow> (Inl ''nats: timeout'', rs1))"

definition race_port :: "('b \<Rightarrow> event option) \<Rightarrow> (race_store, 'b) log_port" where
  "race_port unm = \<lparr>lp_append = race_append unm, lp_replay = race_replay\<rparr>"

abbreviation race_hist :: "race_store \<Rightarrow> string \<Rightarrow> event list" where
  "race_hist rs \<equiv> fake_hist (rs_store rs)"

abbreviation race_stamped :: "race_store \<Rightarrow> string \<Rightarrow> stream_seq \<Rightarrow> event list \<Rightarrow> bool" where
  "race_stamped rs \<equiv> fake_stamped (rs_store rs)"

abbreviation race_inv :: "race_store \<Rightarrow> bool" where
  "race_inv rs \<equiv> fake_inv (rs_store rs)"

lemma foreign_append_grows:
  assumes "fake_inv s"
  shows "fake_inv (foreign_append s w) \<and> grows fake_hist fake_stamped s (foreign_append s w)"
proof -
  obtain tenant iid e where w: "w = (tenant, iid, e)" by (cases w)
  let ?subj = "logSubjectFor tenant iid"
  show ?thesis
  proof (cases "no_dot tenant \<and> no_dot iid \<and> legal_append (fake_hist s ?subj) e")
    case False
    with w assms show ?thesis by (auto simp: foreign_append_def)
  next
    case True
    obtain out s' where app:
      "fake_append Some s ?subj e (dedup_id tenant iid (ev_command_id e)) (fake_tok s ?subj) = (out, s')"
      by (cases "fake_append Some s ?subj e (dedup_id tenant iid (ev_command_id e)) (fake_tok s ?subj)")
    with True w have s': "foreign_append s w = s'" by (simp add: foreign_append_def)
    have w: "grows fake_hist fake_stamped s s'"
      if "fake_untouched s m" "written True fake_hist fake_stamped ?subj e E m s'" for m E
      using that True written_grows [OF that(2)] untouched_grows [OF that(1)]
      by (auto simp: untouched_def intro: grows_trans)
    have "fake_inv s' \<and> append_outcome True fake_hist fake_stamped fake_untouched ?subj e (fake_tok s ?subj) s out s'"
      using fake_append_contract [OF assms _ _ _ app] True by simp
    then show ?thesis unfolding s'
      using w untouched_grows [of fake_hist fake_stamped s s']
      by (auto simp: append_outcome_def split: sum.splits append_err.splits prod.splits bool.splits)
  qed
qed

lemma foreign_appends_grow:
  "fake_inv s \<Longrightarrow> fake_inv (foldl foreign_append s ws) \<and> grows fake_hist fake_stamped s (foldl foreign_append s ws)"
proof (induction ws arbitrary: s)
  case (Cons w ws)
  with foreign_append_grows [of s w] show ?case by (auto intro: grows_trans)
qed simp

lemma race_step_grows:
  assumes "race_inv rs" "race_step rs = (f, rs1)"
  shows "race_inv rs1 \<and> grows race_hist race_stamped rs rs1"
  using assms foreign_appends_grow
  by (fastforce simp: race_step_def grows_def evolves_refl split: list.splits)

text \<open>An outcome seen from before the foreign appends, and one whose acknowledgement got lost.\<close>

lemma append_outcome_race:
  assumes "append_outcome True fake_hist fake_stamped fake_untouched subj e t (rs_store rs1) out s'"
    and "grows race_hist race_stamped rs rs1"
  shows "append_outcome True race_hist race_stamped (grows race_hist race_stamped) subj e t rs out (rs1\<lparr>rs_store := s'\<rparr>)"
proof -
  have g: "grows race_hist race_stamped rs (rs1\<lparr>rs_store := s''\<rparr>)" if "fake_untouched (rs_store rs1) s''" for s''
    using that assms(2) by (auto simp: grows_def untouched_def)
  have w: "\<exists>m'. grows race_hist race_stamped rs m' \<and>
      written True race_hist race_stamped subj e (race_stamped rs subj t) m' (rs1\<lparr>rs_store := s'\<rparr>)"
    if "fake_untouched (rs_store rs1) m" "written True fake_hist fake_stamped subj e (fake_stamped (rs_store rs1) subj t) m s'" for m
    using g [OF that(1)] that(2) assms(2)
    by (intro exI [of _ "rs1\<lparr>rs_store := m\<rparr>"]) (simp add: written_def grows_def)
  show ?thesis
    using assms(1) g w
    by (simp add: append_outcome_def split: sum.splits append_err.splits prod.splits bool.splits) blast+
qed

lemma append_outcome_lost:
  assumes "append_outcome once hist stamped rely subj e t s out s'"
  shows "append_outcome once hist stamped rely subj e t s (Inl (AppendFailed msg)) s'"
  using assms by (auto simp: append_outcome_def split: sum.splits append_err.splits prod.splits bool.splits)

lemma race_log_store:
  assumes codec: "\<And>e. unm (mar e) = Some e"
  shows "log_store (race_port unm) mar race_hist race_stamped (grows race_hist race_stamped) race_inv True"
proof
  fix rs subj out rs'
  assume inv: "race_inv rs" and rep: "lp_replay (race_port unm) rs subj = (out, rs')"
  obtain f rs1 where st: "race_step rs = (f, rs1)" by (cases "race_step rs")
  with rep have "rs' = rs1" by (auto simp: race_port_def race_replay_def split: fault.splits)
  with rep st race_step_grows [OF inv st]
  show "race_inv rs' \<and> grows race_hist race_stamped rs rs' \<and>
    (\<forall>facts t. out = Inr (facts, t) \<longrightarrow> facts = race_hist rs' subj \<and> race_stamped rs' subj t facts)"
    by (auto simp: race_port_def race_replay_def fake_replay_def fake_stamped_def fake_hist_def
        fake_tok_def split: fault.splits)
next
  fix rs tenant iid e t out rs'
  let ?subj = "logSubjectFor tenant iid"
  assume inv: "race_inv rs" and nd: "no_dot tenant" "no_dot iid"
    and app: "lp_append (race_port unm) rs ?subj (mar e) (dedup_id tenant iid (ev_command_id e)) t = (out, rs')"
  obtain f rs1 where st: "race_step rs = (f, rs1)" by (cases "race_step rs")
  note g = race_step_grows [OF inv st]
  show "race_inv rs' \<and> append_outcome True race_hist race_stamped (grows race_hist race_stamped) ?subj e t rs out rs'"
  proof (cases "f = NotSent")
    case True
    with app st g show ?thesis by (auto simp: race_port_def race_append_def append_outcome_def)
  next
    case False
    obtain o1 s1 where fa:
      "fake_append unm (rs_store rs1) ?subj (mar e) (dedup_id tenant iid (ev_command_id e)) t = (o1, s1)"
      by (cases "fake_append unm (rs_store rs1) ?subj (mar e) (dedup_id tenant iid (ev_command_id e)) t")
    with app st False have rs': "rs' = rs1\<lparr>rs_store := s1\<rparr>"
      and out: "out = (if f = AckLost then Inl (AppendFailed ''nats: timeout'') else o1)"
      by (auto simp: race_port_def race_append_def split: fault.splits)
    from fake_append_contract [OF _ nd codec [of e] fa] g
    have "race_inv rs'" "append_outcome True race_hist race_stamped (grows race_hist race_stamped) ?subj e t rs o1 rs'"
      unfolding rs' by (auto intro: append_outcome_race)
    then show ?thesis unfolding out by (auto intro: append_outcome_lost)
  qed
next
  fix s1 s2 s3
  assume "grows race_hist race_stamped s1 s2" "grows race_hist race_stamped s2 s3"
  then show "grows race_hist race_stamped s1 s3" by (rule grows_trans)
qed simp_all

interpretation race: log_store "race_port Some" "\<lambda>e. e" race_hist race_stamped
  "grows race_hist race_stamped" race_inv True
  by (rule race_log_store) simp

end
