(* ===== verification/Router_Safety.thy ===== *)
theory Router_Safety
  imports Router_Participation Router_Cache Raced_Store
begin

text \<open>
  What the router guarantees of its log, proved once against the \<open>log_store\<close> contract. Every cached
  state is a faithful summary of a prefix of its log, and the optimistic-concurrency token pins
  which one: so whatever a stale router appends lands on exactly the log it was checked against.
\<close>

section \<open>The invariant\<close>

definition logs_ok :: "('s \<Rightarrow> string \<Rightarrow> event list) \<Rightarrow> 's \<Rightarrow> bool" where
  "logs_ok hist s \<longleftrightarrow> (\<forall>subj. log_ok (hist s subj))"

text \<open>
  One cached state: its token stamps a prefix \<open>P\<close> of the log that it agrees with (in its
  membership view too, when \<open>pc\<close>), and its cached acceptances are backed by the log.
\<close>

definition st_ok ::
  "('s \<Rightarrow> string \<Rightarrow> event list) \<Rightarrow> ('s \<Rightarrow> string \<Rightarrow> stream_seq \<Rightarrow> event list \<Rightarrow> bool) \<Rightarrow>
     bool \<Rightarrow> nat \<Rightarrow> 's \<Rightarrow> string \<Rightarrow> istate \<Rightarrow> bool" where
  "st_ok hist stamped pc mx s subj st \<longleftrightarrow>
     (\<exists>P. stamped s subj (is_stream_seq st) P \<and> agrees pc P st) \<and> cached_ok mx (hist s subj) st"

text \<open>A port that never answers an append with an error other than a conflict.\<close>

definition reliable :: "('s, 'b) log_port \<Rightarrow> bool" where
  "reliable lp \<longleftrightarrow> (\<forall>s subj b d t m s'. lp_append lp s subj b d t \<noteq> (Inl (AppendFailed m), s'))"

text \<open>
  What a call may contribute to the logs between what the environment does before and after: at
  most one fact, legal where it lands and satisfying \<open>Q\<close> of the log it lands on.
\<close>

definition contributes ::
  "('s \<Rightarrow> string \<Rightarrow> event list) \<Rightarrow> ('s \<Rightarrow> 's \<Rightarrow> bool) \<Rightarrow> string \<Rightarrow>
     (event list \<Rightarrow> event \<Rightarrow> bool) \<Rightarrow> 's \<Rightarrow> 's \<Rightarrow> bool" where
  "contributes hist rely subj Q s s' \<longleftrightarrow>
     rely s s' \<or>
     (\<exists>m m' e. rely s m \<and> hist m' = (hist m)(subj := hist m subj @ [e]) \<and>
        legal_append (hist m subj) e \<and> Q (hist m subj) e \<and> rely m' s')"

text \<open>The fact an ordinary command lands as.\<close>

definition command_fact :: "string \<Rightarrow> command \<Rightarrow> string \<Rightarrow> event \<Rightarrow> bool" where
  "command_fact tenant cmd ph e \<longleftrightarrow>
     ev_schema e = SchemaV1 \<and> ev_type e = cmd_type cmd \<and> ev_tenant e = tenant \<and>
     ev_actor e = cmd_actor cmd \<and> ev_medium e = orDefault (cmd_medium cmd) ''chat'' \<and>
     ev_command_id e = cmd_id cmd \<and> ev_payload_hash e = ph \<and> ev_caused_by e = cmd_id cmd \<and>
     ev_ref_id e = cmd_ref_id cmd \<and> ev_data e = cmd_data cmd"

definition admitted ::
  "bool \<Rightarrow> bool \<Rightarrow> bool \<Rightarrow> string \<Rightarrow> string \<Rightarrow> command \<Rightarrow> string \<Rightarrow> event list \<Rightarrow> event \<Rightarrow> bool" where
  "admitted once pc gate self tenant cmd ph P e \<longleftrightarrow>
     command_fact tenant cmd ph e \<and> (once \<longrightarrow> \<not> durable P (cmd_id cmd)) \<and> (pc \<and> gate \<longrightarrow> member_after P self)"

text \<open>What one attempt of the append loop has established when it ends.\<close>

definition attempt_post ::
  "('s \<Rightarrow> string \<Rightarrow> event list) \<Rightarrow> ('s \<Rightarrow> string \<Rightarrow> stream_seq \<Rightarrow> event list \<Rightarrow> bool) \<Rightarrow> ('s \<Rightarrow> 's \<Rightarrow> bool) \<Rightarrow>
     bool \<Rightarrow> nat \<Rightarrow> string \<Rightarrow> (event list \<Rightarrow> event \<Rightarrow> bool) \<Rightarrow> command \<Rightarrow> 's \<Rightarrow> attempt_out \<Rightarrow> istate \<Rightarrow> 's \<Rightarrow> bool" where
  "attempt_post hist stamped rely pc mx subj Q cmd s out st' s' \<longleftrightarrow>
     grows hist stamped s s' \<and>
     (case out of
        Again \<Rightarrow> rely s s' \<and> st_ok hist stamped pc mx s' subj st'
      | Return res \<Rightarrow>
          contributes hist rely subj Q s s' \<and> st_ok hist stamped pc mx s' subj st' \<and>
          (res_status res = STATUS_ACCEPTED \<longrightarrow> durable (hist s' subj) (cmd_id cmd))
      | Committed dup n \<Rightarrow>
          if dup then rely s s' \<and> st_ok hist stamped pc mx s' subj st' \<and> durable (hist s' subj) (cmd_id cmd)
          else \<exists>m e. rely s m \<and> hist s' = (hist m)(subj := hist m subj @ [e]) \<and>
                 legal_append (hist m subj) e \<and> Q (hist m subj) e \<and>
                 ev_command_id e = cmd_id cmd \<and> ev_type e = cmd_type cmd \<and>
                 stamped s' subj n (hist s' subj) \<and> agrees pc (hist m subj) st' \<and>
                 cached_ok mx (hist m subj) st')"

text \<open>What a critical section has established when it releases the state's lock.\<close>

definition locked_post ::
  "('s \<Rightarrow> string \<Rightarrow> event list) \<Rightarrow> ('s \<Rightarrow> string \<Rightarrow> stream_seq \<Rightarrow> event list \<Rightarrow> bool) \<Rightarrow> ('s \<Rightarrow> 's \<Rightarrow> bool) \<Rightarrow>
     ('s \<Rightarrow> bool) \<Rightarrow> bool \<Rightarrow> nat \<Rightarrow> string \<Rightarrow> (event list \<Rightarrow> event \<Rightarrow> bool) \<Rightarrow> string \<Rightarrow> 's \<Rightarrow> router \<Rightarrow>
     cmd_result \<times> istate \<times> router \<times> 's \<Rightarrow> bool" where
  "locked_post hist stamped rely sinv pc mx subj Q cid s r out \<longleftrightarrow>
     (case out of (res, st', r', s') \<Rightarrow>
        sinv s' \<and> grows hist stamped s s' \<and> contributes hist rely subj Q s s' \<and>
        st_ok hist stamped pc mx s' subj st' \<and>
        (res_status res = STATUS_ACCEPTED \<longrightarrow> durable (hist s' subj) cid) \<and>
        set (rt_inter r') \<subseteq> set (rt_inter r))"

lemma command_event_fact:
  assumes "command_event cfg tenant cmd ph st r = (ev, r')"
  shows "command_fact tenant cmd ph ev" "ev_seq ev = i64_succ (is_seq st)" "rt_inter r' = rt_inter r"
  using assms by (auto simp: command_event_def command_fact_def new_id_def now_def)

lemma agrees_legal:
  assumes "agrees pc P st" "legalTransition (is_status st) (ev_type e)" "ev_seq e = i64_succ (is_seq st)"
    "ev_command_id e \<noteq> ''''"
  shows "legal_append P e"
  using assms by (auto simp: agrees_def legal_append_def)

lemma agrees_adopt:
  assumes "agrees pc L fresh" "cached_ok mx L fresh" "cached_ok mx L st"
  shows "agrees pc L (adopt st fresh mx)" "cached_ok mx L (adopt st fresh mx)"
    "is_stream_seq (adopt st fresh mx) = is_stream_seq fresh"
proof -
  show "cached_ok mx L (adopt st fresh mx)"
    unfolding adopt_def copyMissingResults_def
    using assms(2,3) by (intro cached_ok_copy_missing) (auto simp: cached_ok_def res_ok_def cache_ok_def cache_bounded_def)
qed (use assms(1) in \<open>auto simp: adopt_def copyMissingResults_def agrees_def\<close>)

lemma st_ok_poison [simp]: "st_ok hist stamped pc mx s subj (poison st) = st_ok hist stamped pc mx s subj st"
  by (simp add: st_ok_def poison_def agrees_def cached_ok_def cache_ok_def cache_bounded_def res_ok_def)

lemma st_ok_grows:
  assumes "st_ok hist stamped pc mx s subj st" "grows hist stamped s s'"
  shows "st_ok hist stamped pc mx s' subj st"
  using assms unfolding st_ok_def grows_def by (blast intro: cached_ok_prefix evolves_prefix)

lemma logs_ok_grows: "logs_ok hist s \<Longrightarrow> grows hist stamped s s' \<Longrightarrow> logs_ok hist s'"
  unfolding logs_ok_def grows_def using log_ok_evolves by blast

lemma evict_inter [simp]: "rt_inter (evict tenant iid r) = AList.delete (state_key tenant iid) (rt_inter r)"
  by (simp add: evict_def)

text \<open>
  The map of cached states. A key is \<open>tenant/interaction\<close>; it names one interaction as long as the
  tenants contain no slash.
\<close>


definition router_ok ::
  "('s \<Rightarrow> string \<Rightarrow> event list) \<Rightarrow> ('s \<Rightarrow> string \<Rightarrow> stream_seq \<Rightarrow> event list \<Rightarrow> bool) \<Rightarrow>
     bool \<Rightarrow> nat \<Rightarrow> 's \<Rightarrow> router \<Rightarrow> bool" where
  "router_ok hist stamped pc mx s r \<longleftrightarrow>
     (\<forall>tenant iid st. (state_key tenant iid, st) \<in> set (rt_inter r) \<longrightarrow> no_slash tenant \<longrightarrow>
        st_ok hist stamped pc mx s (logSubjectFor tenant iid) st)"

lemma state_key_inject:
  assumes "no_slash t" "no_slash t'"
  shows "state_key t i = state_key t' i' \<longleftrightarrow> t = t' \<and> i = i'"
proof -
  have "state_key t i = t @ CHR ''/'' # i" for t i by (simp add: state_key_def)
  with assms show ?thesis using append_sep_inject [of "CHR ''/''"] unfolding no_slash_def by metis
qed

lemma router_ok_subset:
  "router_ok hist stamped pc mx s r \<Longrightarrow> set (rt_inter r') \<subseteq> set (rt_inter r) \<Longrightarrow> router_ok hist stamped pc mx s r'"
  unfolding router_ok_def by blast

lemma router_ok_grows:
  "router_ok hist stamped pc mx s r \<Longrightarrow> grows hist stamped s s' \<Longrightarrow> router_ok hist stamped pc mx s' r"
  unfolding router_ok_def by (auto intro: st_ok_grows)


lemma router_ok_update:
  assumes "router_ok hist stamped pc mx s r" "no_slash tenant" "st_ok hist stamped pc mx s (logSubjectFor tenant iid) st"
    "rt_inter r' = AList.update (state_key tenant iid) st (rt_inter r)"
  shows "router_ok hist stamped pc mx s r'"
  unfolding router_ok_def
proof (intro allI impI)
  fix t i x
  assume "(state_key t i, x) \<in> set (rt_inter r')" "no_slash t"
  with assms(4) set_update_subset [of "state_key tenant iid" st "rt_inter r"]
  consider "state_key t i = state_key tenant iid" "x = st" | "(state_key t i, x) \<in> set (rt_inter r)" by auto
  then show "st_ok hist stamped pc mx s (logSubjectFor t i) x"
    using assms \<open>no_slash t\<close> by cases (auto simp: state_key_inject router_ok_def)
qed

lemma prune_lru_subset: "set (prune_lru mx m) \<subseteq> set m"
proof (induction mx m rule: prune_lru.induct)
  case (1 mx m)
  show ?case
    by (subst prune_lru.simps) (use 1 set_delete_subset [of "lru_key m" m] in auto)
qed

lemma pruneLocked_subset: "set (rt_inter (pruneLocked cfg r)) \<subseteq> set (rt_inter r)"
proof -
  have "set (prune_lru (c_maxInter cfg) (filter Q m)) \<subseteq> set m" for Q m
    using prune_lru_subset [of "c_maxInter cfg" "filter Q m"] by auto
  then show ?thesis using prune_lru_subset by (simp add: pruneLocked_def now_def)
qed

lemma write_back_router_ok:
  assumes "router_ok hist stamped pc mx s r" "no_slash tenant" "st_ok hist stamped pc mx s (logSubjectFor tenant iid) st"
  shows "router_ok hist stamped pc mx s (write_back (state_key tenant iid) st r)"
  using assms router_ok_update [OF assms]
  by (auto simp: write_back_def split: option.splits)

lemma st_ok_last_used [simp]:
  "st_ok hist stamped pc mx s subj (st\<lparr>is_last_used := t\<rparr>) = st_ok hist stamped pc mx s subj st"
  by (simp add: st_ok_def agrees_def cached_ok_def cache_ok_def cache_bounded_def res_ok_def)

section \<open>Steps of the handlers\<close>

context log_store
begin

lemma rebuild_spec:
  assumes "inv s" "logs_ok hist s" "rebuild cfg lp tenant iid r s = (out, r', s')"
  shows "inv s'" "rely s s'" "rt_inter r' = rt_inter r"
    "\<And>fresh. out = Inr fresh \<Longrightarrow>
       stamped s' (logSubjectFor tenant iid) (is_stream_seq fresh) (hist s' (logSubjectFor tenant iid)) \<and>
       agrees pc (hist s' (logSubjectFor tenant iid)) fresh \<and>
       cached_ok (c_maxResults cfg) (hist s' (logSubjectFor tenant iid)) fresh"
proof -
  obtain o1 s1 where rep: "lp_replay lp s (logSubjectFor tenant iid) = (o1, s1)"
    by (cases "lp_replay lp s (logSubjectFor tenant iid)")
  note law = replay_law [OF assms(1) rep]
  have s': "s' = s1" "rt_inter r' = rt_inter r"
    using assms(3) rep by (auto simp: rebuild_def split: sum.splits)
  with law show "inv s'" "rely s s'" "rt_inter r' = rt_inter r" by auto
  have ok: "log_ok (hist s' (logSubjectFor tenant iid))"
    using logs_ok_grows [OF assms(2) rely_grows [OF \<open>rely s s'\<close>]] by (simp add: logs_ok_def)
  fix fresh
  assume "out = Inr fresh"
  then obtain facts t where "o1 = Inr (facts, t)"
    and fresh: "fresh = state_of_log (c_maxResults cfg) (rt_next_oid r) facts t"
    using assms(3) rep by (auto simp: rebuild_def split: sum.splits)
  then have "facts = hist s' (logSubjectFor tenant iid)" "stamped s' (logSubjectFor tenant iid) t facts"
    using law s' by auto
  with ok show "stamped s' (logSubjectFor tenant iid) (is_stream_seq fresh) (hist s' (logSubjectFor tenant iid)) \<and>
       agrees pc (hist s' (logSubjectFor tenant iid)) fresh \<and>
       cached_ok (c_maxResults cfg) (hist s' (logSubjectFor tenant iid)) fresh"
    unfolding fresh by (simp add: state_of_log_ok)
qed

lemma contributes_rely: "rely s s' \<Longrightarrow> contributes hist rely subj Q s s'"
  by (simp add: contributes_def)

lemma contributes_written:
  assumes "rely s m" "written once hist stamped subj e E m m'" "legal_append (hist m subj) e" "Q (hist m subj) e"
    "rely m' s'"
  shows "contributes hist rely subj Q s s'"
  using assms unfolding contributes_def written_def by blast

lemma contributes_before: "rely s1 s2 \<Longrightarrow> contributes hist rely subj Q s2 s3 \<Longrightarrow> contributes hist rely subj Q s1 s3"
  unfolding contributes_def using rely_trans by blast

lemma contributes_after: "contributes hist rely subj Q s1 s2 \<Longrightarrow> rely s2 s3 \<Longrightarrow> contributes hist rely subj Q s1 s3"
  unfolding contributes_def using rely_trans by blast

text \<open>
  An append on behalf of a coherent state: whatever the answer, the stores keep their invariant and
  the log only grew legally; a written fact landed on the very log that the state agrees with.
\<close>

lemma append_spec:
  assumes "inv s" "no_dot tenant" "no_dot iid" "subj = logSubjectFor tenant iid"
    and st: "stamped s subj (is_stream_seq st) P" "agrees pc P st"
    and legal: "legalTransition (is_status st) (ev_type e)" "ev_seq e = i64_succ (is_seq st)" "ev_command_id e \<noteq> ''''"
    and app: "lp_append lp s subj (mar e) (dedup_id tenant iid (ev_command_id e)) (is_stream_seq st) = (out, s')"
  shows "inv s'" "grows hist stamped s s'"
    "\<And>n. out = Inr (False, n) \<Longrightarrow> \<exists>m. rely s m \<and> hist m subj = P \<and> hist s' = (hist m)(subj := P @ [e]) \<and>
       legal_append P e \<and> stamped s' subj n (P @ [e]) \<and> (once \<longrightarrow> \<not> durable P (ev_command_id e))"
    "\<And>n. out = Inr (True, n) \<Longrightarrow> rely s s' \<and> durable (hist s' subj) (ev_command_id e)"
    "out = Inl ErrOCCConflict \<Longrightarrow> rely s s'"
    "\<And>msg. out = Inl (AppendFailed msg) \<Longrightarrow>
       rely s s' \<or> (\<exists>m. rely s m \<and> hist m subj = P \<and> hist s' = (hist m)(subj := P @ [e]) \<and> legal_append P e \<and>
         (once \<longrightarrow> \<not> durable P (ev_command_id e)))"
proof -
  have law: "inv s'" "append_outcome once hist stamped rely subj e (is_stream_seq st) s out s'"
    using append_law [OF assms(1-3)] app assms(4) by auto
  show "inv s'" by (fact law)
  have lg: "legal_append P e" using agrees_legal [OF st(2) legal] .
  have w: "hist m subj = P \<and> hist s' = (hist m)(subj := P @ [e]) \<and> grows hist stamped s s' \<and>
      (once \<longrightarrow> \<not> durable P (ev_command_id e))"
    if "rely s m" "written once hist stamped subj e (stamped s subj (is_stream_seq st)) m s'" for m
  proof -
    have P: "hist m subj = P" using that(2) st(1) by (auto simp: written_def)
    then have "grows hist stamped m s'" using written_grows [OF that(2)] lg by simp
    with P show ?thesis using that grows_trans [OF rely_grows [OF that(1)]] by (simp add: written_def)
  qed
  show "grows hist stamped s s'"
    using law(2) w rely_grows
    by (auto simp: append_outcome_def split: sum.splits append_err.splits prod.splits bool.splits)
  show "\<exists>m. rely s m \<and> hist m subj = P \<and> hist s' = (hist m)(subj := P @ [e]) \<and>
       legal_append P e \<and> stamped s' subj n (P @ [e]) \<and> (once \<longrightarrow> \<not> durable P (ev_command_id e))" if "out = Inr (False, n)" for n
    using law(2) w lg that by (fastforce simp: append_outcome_def)
  show "rely s s' \<or> (\<exists>m. rely s m \<and> hist m subj = P \<and> hist s' = (hist m)(subj := P @ [e]) \<and> legal_append P e \<and>
      (once \<longrightarrow> \<not> durable P (ev_command_id e)))"
    if "out = Inl (AppendFailed msg)" for msg
    using law(2) w lg that by (fastforce simp: append_outcome_def)
  show "rely s s' \<and> durable (hist s' subj) (ev_command_id e)" if "out = Inr (True, n)" for n
    using law(2) that by (auto simp: append_outcome_def durable_def)
  show "rely s s'" if "out = Inl ErrOCCConflict"
    using law(2) that by (simp add: append_outcome_def)
qed

lemma hc_append_spec:
  assumes mar: "c_marshal cfg = mar" and "inv s" "logs_ok hist s" "no_dot tenant" "no_dot iid"
    and subj: "subj = logSubjectFor tenant iid"
    and st: "st_ok hist stamped pc (c_maxResults cfg) s subj st"
    and legal: "legalTransition (is_status st) (cmd_type cmd)" and cid: "cmd_id cmd \<noteq> ''''"
    and gate: "gate \<Longrightarrow> \<exists>v. is_part st = Some v \<and> IsParticipantNow v self"
    and rel: "pc \<longrightarrow> reliable lp"
    and run: "hc_append cfg lp tenant iid cmd ph attempt st r s = (out, st', r', s')"
  shows "inv s' \<and> attempt_post hist stamped rely pc (c_maxResults cfg) subj
      (admitted once pc gate self tenant cmd ph) cmd s out st' s' \<and>
    set (rt_inter r') \<subseteq> set (rt_inter r)"
proof -
  obtain ev r1 where ev: "command_event cfg tenant cmd ph st r = (ev, r1)"
    by (cases "command_event cfg tenant cmd ph st r")
  note evf = command_event_fact [OF ev]
  from st obtain P where P: "stamped s subj (is_stream_seq st) P" "agrees pc P st"
    and cached: "cached_ok (c_maxResults cfg) (hist s subj) st"
    by (auto simp: st_ok_def)
  have evc: "ev_command_id ev = cmd_id cmd" "ev_type ev = cmd_type cmd"
    using evf(1) by (auto simp: command_fact_def)
  obtain o1 s1 where app: "lp_append lp s subj (mar ev) (dedup_id tenant iid (ev_command_id ev)) (is_stream_seq st) = (o1, s1)"
    by (cases "lp_append lp s subj (mar ev) (dedup_id tenant iid (ev_command_id ev)) (is_stream_seq st)")
  note a = append_spec [OF assms(2,4,5) subj P _ evf(2) _ app]
  have a1: "inv s1" "grows hist stamped s s1" using a(1,2) legal cid evc by auto
  have ok1: "logs_ok hist s1" using logs_ok_grows assms(3) a1(2) .
  have app': "lp_append lp s (logSubjectFor tenant iid) (c_marshal cfg ev) (dedup_id tenant iid (cmd_id cmd)) (is_stream_seq st) = (o1, s1)"
    using app evc mar subj by simp
  have adm: "admitted once pc gate self tenant cmd ph P ev" if "once \<longrightarrow> \<not> durable P (ev_command_id ev)"
    using that gate P(2) evf(1) evc by (auto simp: admitted_def agrees_def IsParticipantNow_fold)
  have keep: "st_ok hist stamped pc (c_maxResults cfg) s' subj st" if "grows hist stamped s s'" for s'
    using st that by (rule st_ok_grows)
  show ?thesis
  proof (cases o1)
    case (Inr q)
    obtain dup n where q: "q = (dup, n)" by (cases q)
    have run': "out = Committed dup n" "st' = st" "s' = s1" "rt_inter r' = rt_inter r"
      using run evf(3) by (auto simp: hc_append_def ev app' Inr q)
    show ?thesis
    proof (cases dup)
      case True
      then show ?thesis
        using run' a(4) Inr q legal cid evc a1 keep by (auto simp: attempt_post_def)
    next
      case False
      then obtain m where "rely s m" "hist m subj = P" "hist s' = (hist m)(subj := P @ [ev])"
        "legal_append P ev" "stamped s' subj n (P @ [ev])" "once \<longrightarrow> \<not> durable P (ev_command_id ev)"
        using run' a(3) Inr q legal cid evc by auto
      moreover have "cached_ok (c_maxResults cfg) (hist m subj) st"
        using cached_ok_prefix [OF cached] rely_grows [OF \<open>rely s m\<close>] evolves_prefix by (auto simp: grows_def)
      ultimately show ?thesis
        using run' False P adm a1 evc by (auto simp: attempt_post_def intro!: exI [of _ m] exI [of _ ev])
    qed
  next
    case (Inl err)
    obtain o2 r2 s2 where rb: "rebuild cfg lp tenant iid r1 s1 = (o2, r2, s2)"
      by (cases "rebuild cfg lp tenant iid r1 s1")
    note b = rebuild_spec(1-3) [OF a1(1) ok1 rb] rebuild_spec(4) [OF a1(1) ok1 rb, where pc = pc, folded subj]
    have g2: "grows hist stamped s s2" by (rule grows_trans [OF a1(2) rely_grows [OF b(2)]])
    have s': "s' = s2" and r': "set (rt_inter r') \<subseteq> set (rt_inter r)"
      using run evf(3) b(3) set_delete_subset [of "state_key tenant iid" "rt_inter r"]
      by (auto simp: hc_append_def ev app' Inl rb split: append_err.splits sum.splits option.splits if_splits)
    show ?thesis
    proof (cases err)
      case ErrOCCConflict
      then have "rely s s2" using a(5) Inl legal cid evc b(2) rely_trans by auto
      moreover have "st_ok hist stamped pc (c_maxResults cfg) s2 subj (adopt st fresh (c_maxResults cfg))"
        if "o2 = Inr fresh" for fresh
        using b(4) [OF that] agrees_adopt [of pc "hist s2 subj" fresh "c_maxResults cfg" st] keep [OF g2]
        unfolding st_ok_def by auto
      ultimately show ?thesis
        using run b(1) r' s' g2 keep [OF g2]
        by (auto simp: hc_append_def ev app' Inl rb ErrOCCConflict attempt_post_def contributes_rely
            split: sum.splits if_splits)
    next
      case (AppendFailed msg)
      then have "\<not> pc" using rel app Inl by (auto simp: reliable_def)
      have "contributes hist rely subj (admitted once pc gate self tenant cmd ph) s s2"
      proof (cases "rely s s1")
        case True
        then show ?thesis using b(2) rely_trans by (blast intro: contributes_rely)
      next
        case False
        then obtain m where "rely s m" "hist m subj = P" "hist s1 = (hist m)(subj := P @ [ev])" "legal_append P ev"
          "once \<longrightarrow> \<not> durable P (ev_command_id ev)"
          using a(6) Inl AppendFailed legal cid evc by auto
        then show ?thesis using adm b(2) unfolding contributes_def by metis
      qed
      moreover have "st_ok hist stamped pc (c_maxResults cfg) s2 subj
          (st\<lparr>is_seq := is_seq fresh, is_stream_seq := is_stream_seq fresh, is_status := is_status fresh\<rparr>)"
        if "o2 = Inr fresh" for fresh
        using b(4) [OF that] keep [OF g2] \<open>\<not> pc\<close>
        unfolding st_ok_def by (auto simp: agrees_def cached_ok_def cache_ok_def cache_bounded_def res_ok_def)
      moreover have "durable (hist s2 subj) (cmd_id cmd)"
        if "o2 = Inr fresh" "map_of (is_results fresh) (cmd_id cmd) = Some prev" "res_status (sr_result prev) = STATUS_ACCEPTED" for fresh prev
        using b(4) [OF that(1)] that(2,3) by (auto simp: cached_ok_def res_ok_def backed_def)
      ultimately show ?thesis
        using run b(1) r' s' g2 keep [OF g2]
        by (auto simp: hc_append_def ev app' Inl rb AppendFailed attempt_post_def split: sum.splits option.splits)
    qed
  qed
qed

lemma st_ok_putResult:
  assumes "st_ok hist stamped pc mx s subj st" "backed (hist s subj) c sr"
  shows "st_ok hist stamped pc mx s subj (putResult st c sr mx)"
  using assms cached_ok_putResult by (auto simp: st_ok_def agrees_def)

lemma attempt_post_rely:
  assumes "rely s s'" "st_ok hist stamped pc mx s' subj st'"
    "res_status res = STATUS_ACCEPTED \<Longrightarrow> durable (hist s' subj) (cmd_id cmd)"
  shows "attempt_post hist stamped rely pc mx subj Q cmd s (Return res) st' s'"
  using assms rely_grows by (simp add: attempt_post_def contributes_rely)

lemma attempt_post_before:
  assumes "rely s s1" "attempt_post hist stamped rely pc mx subj Q cmd s1 out st' s'"
  shows "attempt_post hist stamped rely pc mx subj Q cmd s out st' s'"
proof -
  have "grows hist stamped s s'"
    using assms grows_trans [OF rely_grows [OF assms(1)]] by (simp add: attempt_post_def)
  with assms show ?thesis
    unfolding attempt_post_def
    by (cases out) (auto intro: rely_trans [OF assms(1)] contributes_before [OF assms(1)] split: if_splits)
qed

lemma hc_gate_spec:
  assumes "c_marshal cfg = mar" "inv s" "logs_ok hist s" "no_dot tenant" "no_dot iid"
    "subj = logSubjectFor tenant iid" "st_ok hist stamped pc (c_maxResults cfg) s subj st"
    "cmd_id cmd \<noteq> ''''" "pc \<longrightarrow> reliable lp"
    and run: "hc_gate cfg lp tenant iid self gate cmd ph attempt st r s = (out, st', r', s')"
  shows "inv s' \<and> attempt_post hist stamped rely pc (c_maxResults cfg) subj
      (admitted once pc gate self tenant cmd ph) cmd s out st' s' \<and> set (rt_inter r') \<subseteq> set (rt_inter r)"
proof -
  let ?barred = "gate \<and> (case is_part st of None \<Rightarrow> True | Some v \<Rightarrow> \<not> IsParticipantNow v self)"
  consider "?barred" | "\<not> ?barred" "\<not> legalTransition (is_status st) (cmd_type cmd)"
    | "\<not> ?barred" "legalTransition (is_status st) (cmd_type cmd)" by blast
  then show ?thesis
  proof cases
    case 1
    with run assms show ?thesis by (auto simp: hc_gate_def intro!: attempt_post_rely rely_refl)
  next
    case 2
    with run assms show ?thesis
      by (auto simp: hc_gate_def Let_def intro!: attempt_post_rely rely_refl st_ok_putResult)
  next
    case 3
    then have "hc_append cfg lp tenant iid cmd ph attempt st r s = (out, st', r', s')"
      using run by (simp only: hc_gate_def if_False not_True_eq_False if_True simp_thms)
    moreover have "\<exists>v. is_part st = Some v \<and> IsParticipantNow v self" if gate
      using 3(1) that by (cases "is_part st") auto
    ultimately show ?thesis using hc_append_spec [OF assms(1-7) 3(2) assms(8)] assms(9) by blast
  qed
qed

lemma hc_attempt_spec:
  assumes "c_marshal cfg = mar" "inv s" "logs_ok hist s" "no_dot tenant" "no_dot iid"
    "subj = logSubjectFor tenant iid" "st_ok hist stamped pc (c_maxResults cfg) s subj st"
    "cmd_id cmd \<noteq> ''''" "pc \<longrightarrow> reliable lp"
    and run: "hc_attempt cfg lp tenant iid self gate cmd ph attempt st r s = (out, st', r', s')"
  shows "inv s' \<and> attempt_post hist stamped rely pc (c_maxResults cfg) subj
      (admitted once pc gate self tenant cmd ph) cmd s out st' s' \<and> set (rt_inter r') \<subseteq> set (rt_inter r)"
proof (cases "hc_gate cfg lp tenant iid self gate cmd ph attempt st r s = (out, st', r', s')")
  case True
  then show ?thesis by (rule hc_gate_spec [OF assms(1-9)])
next
  case False
  with run obtain prev where prev: "map_of (is_results st) (cmd_id cmd) = Some prev" 
    by (cases "map_of (is_results st) (cmd_id cmd)") (simp_all add: hc_attempt_def)
  then have "res_status (sr_result prev) = STATUS_ACCEPTED \<Longrightarrow> durable (hist s subj) (cmd_id cmd)"
    using assms(7) by (auto simp: st_ok_def cached_ok_def res_ok_def backed_def)
  with False run prev assms(2,7) show ?thesis
    by (auto simp: hc_attempt_def intro!: attempt_post_rely rely_refl split: if_splits)
qed

lemma hc_loop_spec:
  assumes "c_marshal cfg = mar" "inv s" "logs_ok hist s" "no_dot tenant" "no_dot iid"
    "subj = logSubjectFor tenant iid" "st_ok hist stamped pc (c_maxResults cfg) s subj st"
    "cmd_id cmd \<noteq> ''''" "pc \<longrightarrow> reliable lp"
    and run: "hc_loop cfg lp tenant iid self gate cmd ph attempt st r s = (out, st', r', s')"
  shows "inv s' \<and> attempt_post hist stamped rely pc (c_maxResults cfg) subj
      (admitted once pc gate self tenant cmd ph) cmd s out st' s' \<and> set (rt_inter r') \<subseteq> set (rt_inter r)"
  using assms(2,3,7) run
proof (induction "Suc (c_maxRefold cfg) - attempt" arbitrary: attempt st r s rule: less_induct)
  case less
  obtain o1 st1 r1 s1 where at: "hc_attempt cfg lp tenant iid self gate cmd ph attempt st r s = (o1, st1, r1, s1)"
    by (cases "hc_attempt cfg lp tenant iid self gate cmd ph attempt st r s")
  note a = hc_attempt_spec [OF assms(1) less.prems(1,2) assms(4-6) less.prems(3) assms(8,9) at]
  show ?case
  proof (cases "o1 = Again")
    case False
    with less.prems(4) at have "(out, st', r', s') = (o1, st1, r1, s1)"
      by (subst (asm) hc_loop.simps) (auto split: attempt_out.splits)
    with a show ?thesis by simp
  next
    case True
    with less.prems(4) at have run: "hc_loop cfg lp tenant iid self gate cmd ph (Suc attempt) st1 r1 s1 = (out, st', r', s')"
      by (subst (asm) hc_loop.simps) simp
    have rs: "rely s s1" "st_ok hist stamped pc (c_maxResults cfg) s1 subj st1"
      using a True by (auto simp: attempt_post_def)
    have lt: "Suc (c_maxRefold cfg) - Suc attempt < Suc (c_maxRefold cfg) - attempt"
      using hc_attempt_Again at True by fastforce
    have "logs_ok hist s1" using logs_ok_grows [OF less.prems(2) rely_grows [OF rs(1)]] .
    from less.hyps [OF lt _ this rs(2) run] a show ?thesis
      using attempt_post_before [OF rs(1)] by blast
  qed
qed

lemma hc_commit_spec:
  assumes "inv s" "logs_ok hist s" "subj = logSubjectFor tenant iid" "\<not> isParticipationFact (cmd_type cmd)"
    and post: "attempt_post hist stamped rely pc (c_maxResults cfg) subj Q cmd s0 (Committed dup n) st s"
    and run: "hc_commit cfg lp tenant iid cmd ph dup n st r s = (res, st', r', s')"
  shows "locked_post hist stamped rely inv pc (c_maxResults cfg) subj Q (cmd_id cmd) s0 r (res, st', r', s')"
proof (cases dup)
  case True
  have rs: "rely s0 s" "st_ok hist stamped pc (c_maxResults cfg) s subj st" "durable (hist s subj) (cmd_id cmd)"
    using post True by (auto simp: attempt_post_def)
  obtain o2 r2 s2 where rb: "rebuild cfg lp tenant iid r s = (o2, r2, s2)"
    by (cases "rebuild cfg lp tenant iid r s")
  note b = rebuild_spec(1-3) [OF assms(1,2) rb] rebuild_spec(4) [OF assms(1,2) rb, where pc = pc, folded assms(3)]
  have g: "grows hist stamped s s2" by (rule rely_grows [OF b(2)])
  have ok2: "st_ok hist stamped pc (c_maxResults cfg) s2 subj st" using st_ok_grows [OF rs(2) g] .
  have d2: "durable (hist s2 subj) (cmd_id cmd)"
    using rs(3) g durable_prefix evolves_prefix by (fastforce simp: grows_def)
  have r02: "rely s0 s2" using rely_trans rs(1) b(2) .
  have ad: "st_ok hist stamped pc (c_maxResults cfg) s2 subj (adopt st fresh (c_maxResults cfg))"
    if "o2 = Inr fresh" for fresh
    using b(4) [OF that] agrees_adopt [of pc "hist s2 subj" fresh "c_maxResults cfg" st] ok2
    unfolding st_ok_def by auto
  have "s' = s2" "set (rt_inter r') \<subseteq> set (rt_inter r)" "st_ok hist stamped pc (c_maxResults cfg) s2 subj st'"
    using run True b(3) ad ok2 d2 set_delete_subset [of "state_key tenant iid" "rt_inter r"]
    by (auto simp: hc_commit_def rb Let_def intro!: st_ok_putResult backed_durable
        split: sum.splits option.splits if_splits)
  with b(1) r02 d2 show ?thesis
    by (simp add: locked_post_def contributes_rely rely_grows)
next
  case False
  then obtain m e where e: "rely s0 m" "hist s = (hist m)(subj := hist m subj @ [e])" "legal_append (hist m subj) e"
    "Q (hist m subj) e" "ev_command_id e = cmd_id cmd" "ev_type e = cmd_type cmd"
    "stamped s subj n (hist s subj)" "agrees pc (hist m subj) st" "cached_ok (c_maxResults cfg) (hist m subj) st"
    and g: "grows hist stamped s0 s"
    using post by (auto simp: attempt_post_def)
  let ?sr = "\<lparr>sr_hash = ph, sr_result = accepted_result (cmd_id cmd) (cmd_id cmd)\<rparr>"
  let ?st1 = "applyTransition (st\<lparr>is_seq := i64_succ (is_seq st), is_stream_seq := n\<rparr>) (cmd_type cmd)"
  have h: "hist s subj = hist m subj @ [e]" using e(2) by simp
  have d: "durable (hist s subj) (cmd_id cmd)" using h e(5) by simp
  have "cached_ok (c_maxResults cfg) (hist s subj) ?st1"
    using cached_ok_prefix [OF e(9), of "hist s subj"] h
    by (simp add: applyTransition_def cached_ok_def cache_ok_def cache_bounded_def res_ok_def)
  moreover have "agrees pc (hist s subj) ?st1"
    unfolding h using e(6,8) assms(4)
    by (auto simp: agrees_def applyTransition_def isParticipationFact_def ApplyFact_other)
  ultimately have "st_ok hist stamped pc (c_maxResults cfg) s subj (putResult ?st1 (cmd_id cmd) ?sr (c_maxResults cfg))"
    using e(7) d by (intro st_ok_putResult backed_durable) (auto simp: st_ok_def applyTransition_def)
  moreover have "s' = s" "st' = putResult ?st1 (cmd_id cmd) ?sr (c_maxResults cfg)" "set (rt_inter r') \<subseteq> set (rt_inter r)"
    using run False set_delete_subset [of "state_key tenant iid" "rt_inter r"]
    by (auto simp: hc_commit_def Let_def split: if_splits)
  moreover have "contributes hist rely subj Q s0 s"
    unfolding contributes_def using e rely_refl by blast
  ultimately show ?thesis using assms(1) g d by (simp add: locked_post_def)
qed

lemma hc_locked_spec:
  assumes "c_marshal cfg = mar" "inv s" "logs_ok hist s" "no_dot tenant" "no_dot iid"
    "subj = logSubjectFor tenant iid" "st_ok hist stamped pc (c_maxResults cfg) s subj st"
    "cmd_id cmd \<noteq> ''''" "pc \<longrightarrow> reliable lp" "\<not> isParticipationFact (cmd_type cmd)"
    and run: "hc_locked cfg lp tenant iid self gate cmd st r s = (res, st', r', s')"
  shows "locked_post hist stamped rely inv pc (c_maxResults cfg) subj
      (admitted once pc gate self tenant cmd (hashPayload cfg cmd)) (cmd_id cmd) s r (res, st', r', s')"
proof (cases "is_poisoned st")
  case True
  with run assms(2,7) rely_refl show ?thesis
    by (auto simp: hc_locked_def locked_post_def contributes_rely)
next
  case False
  obtain o1 st1 r1 s1 where lo: "hc_loop cfg lp tenant iid self gate cmd (hashPayload cfg cmd) 0 st r s = (o1, st1, r1, s1)"
    by (cases "hc_loop cfg lp tenant iid self gate cmd (hashPayload cfg cmd) 0 st r s")
  note l = hc_loop_spec [OF assms(1-9) lo]
  have not: "o1 \<noteq> Again"
    using hc_loop_not_Again [of cfg lp tenant iid self gate cmd "hashPayload cfg cmd" 0 st r s] lo by simp
  have ok1: "logs_ok hist s1" using l logs_ok_grows [OF assms(3)] by (auto simp: attempt_post_def)
  show ?thesis
  proof (cases o1)
    case Again
    with not show ?thesis by simp
  next
    case (Return res1)
    with run False lo l show ?thesis by (auto simp: hc_locked_def locked_post_def attempt_post_def)
  next
    case (Committed dup n)
    with run False lo have c: "hc_commit cfg lp tenant iid cmd (hashPayload cfg cmd) dup n st1 r1 s1 = (res, st', r', s')"
      by (simp add: hc_locked_def)
    from l Committed have "attempt_post hist stamped rely pc (c_maxResults cfg) subj
      (admitted once pc gate self tenant cmd (hashPayload cfg cmd)) cmd s (Committed dup n) st1 s1" "inv s1"
      "set (rt_inter r1) \<subseteq> set (rt_inter r)" by auto
    with hc_commit_spec [OF _ ok1 assms(6,10) _ c] show ?thesis by (fastforce simp: locked_post_def)
  qed
qed

lemma getState_spec:
  assumes "inv s" "logs_ok hist s" "router_ok hist stamped pc (c_maxResults cfg) s r" "no_slash tenant"
    and run: "getState cfg lp tenant iid r s = (out, r', s')"
  shows "inv s'" "rely s s'" "router_ok hist stamped pc (c_maxResults cfg) s' r'"
    "\<And>st. out = Inr st \<Longrightarrow> st_ok hist stamped pc (c_maxResults cfg) s' (logSubjectFor tenant iid) st"
proof -
  have *: "inv s' \<and> rely s s' \<and> router_ok hist stamped pc (c_maxResults cfg) s' r' \<and>
    (\<forall>st. out = Inr st \<longrightarrow> st_ok hist stamped pc (c_maxResults cfg) s' (logSubjectFor tenant iid) st)"
  proof (cases "map_of (rt_inter r) (state_key tenant iid)")
    case (Some st)
    let ?t = "c_now cfg (rt_ticks r)"
    have st: "st_ok hist stamped pc (c_maxResults cfg) s (logSubjectFor tenant iid) (st\<lparr>is_last_used := ?t\<rparr>)"
      using map_of_SomeD [OF Some] assms(3,4) by (simp add: router_ok_def)
    have "s' = s" "out = Inr (st\<lparr>is_last_used := ?t\<rparr>)"
      "rt_inter r' = AList.update (state_key tenant iid) (st\<lparr>is_last_used := ?t\<rparr>) (rt_inter r)"
      using run Some by (auto simp: getState_def now_def Let_def)
    with st assms(1) rely_refl show ?thesis using router_ok_update [OF assms(3,4) st] by simp
  next
    case None
    obtain o1 r1 s1 where rb: "rebuild cfg lp tenant iid r s = (o1, r1, s1)"
      by (cases "rebuild cfg lp tenant iid r s")
    note b = rebuild_spec(1-3) [OF assms(1,2) rb] rebuild_spec(4) [OF assms(1,2) rb, where pc = pc]
    have ok1: "router_ok hist stamped pc (c_maxResults cfg) s1 r1"
      using router_ok_subset [OF router_ok_grows [OF assms(3) rely_grows [OF b(2)]], of r1] b(3) by simp
    show ?thesis
    proof (cases o1)
      case (Inl err)
      with run None rb b(1,2) ok1 show ?thesis by (auto simp: getState_def)
    next
      case (Inr built)
      let ?b = "built\<lparr>is_last_used := c_now cfg (rt_ticks r1)\<rparr>"
      let ?r = "r1\<lparr>rt_ticks := Suc (rt_ticks r1), rt_inter := AList.update (state_key tenant iid) ?b (rt_inter r1)\<rparr>"
      have st: "st_ok hist stamped pc (c_maxResults cfg) s1 (logSubjectFor tenant iid) ?b"
        using b(4) [OF Inr] by (auto simp: st_ok_def agrees_def cached_ok_def cache_ok_def cache_bounded_def res_ok_def)
      have "s' = s1" "out = Inr ?b" "r' = pruneLocked cfg ?r"
        using run None rb Inr by (auto simp: getState_def now_def Let_def)
      moreover have "router_ok hist stamped pc (c_maxResults cfg) s1 ?r"
        using ok1 assms(4) st by (rule router_ok_update) simp
      ultimately show ?thesis
        using b st router_ok_subset [OF _ pruneLocked_subset] by auto
    qed
  qed
  then show "inv s'" "rely s s'" "router_ok hist stamped pc (c_maxResults cfg) s' r'"
    "\<And>st. out = Inr st \<Longrightarrow> st_ok hist stamped pc (c_maxResults cfg) s' (logSubjectFor tenant iid) st" by auto
qed

text \<open>The whole path of an ordinary command.\<close>

lemma hc_ordinary_spec:
  assumes "c_marshal cfg = mar" "inv s" "logs_ok hist s" "router_ok hist stamped pc (c_maxResults cfg) s r"
    "no_dot tenant" "no_dot iid" "no_slash tenant" "subj = logSubjectFor tenant iid"
    "cmd_id cmd \<noteq> ''''" "pc \<longrightarrow> reliable lp"
    and gate: "gate \<longleftrightarrow> isAuthenticated i \<and> RoleOf i \<noteq> RoleTrustedBackend \<and> cmd_type cmd \<noteq> T_started"
    and run: "hc_ordinary cfg lp i tenant iid self cmd r s = (res, r', s')"
  shows "inv s' \<and> grows hist stamped s s' \<and> router_ok hist stamped pc (c_maxResults cfg) s' r' \<and>
    contributes hist rely subj (admitted once pc gate self tenant cmd (hashPayload cfg cmd)) s s' \<and>
    (res_status res = STATUS_ACCEPTED \<longrightarrow> durable (hist s' subj) (cmd_id cmd))"
proof (cases "isParticipationFact (cmd_type cmd) \<or>
    isAuthenticated i \<and> RoleOf i \<noteq> RoleTrustedBackend \<and> \<not> IsSubscriberCapability (id_capability i)")
  case True
  with run have "s' = s" "r' = r" "res_status res = STATUS_REJECTED"
    by (auto simp: hc_ordinary_def split: if_splits)
  with assms rely_refl show ?thesis by (simp add: contributes_rely)
next
  case False
  obtain o1 r1 s1 where gs: "getState cfg lp tenant iid r s = (o1, r1, s1)"
    by (cases "getState cfg lp tenant iid r s")
  note g = getState_spec [OF assms(2-4,7) gs]
  have ok1: "logs_ok hist s1" using logs_ok_grows [OF assms(3) rely_grows [OF g(2)]] .
  show ?thesis
  proof (cases o1)
    case (Inl err)
    with run False gs have "s' = s1" "r' = r1" "res_status res = STATUS_REJECTED"
      by (auto simp: hc_ordinary_def)
    with g rely_grows show ?thesis by (simp add: contributes_rely)
  next
    case (Inr st)
    obtain res1 st2 r2 s2 where lk: "hc_locked cfg lp tenant iid self gate cmd st r1 s1 = (res1, st2, r2, s2)"
      by (cases "hc_locked cfg lp tenant iid self gate cmd st r1 s1")
    with run False gs Inr gate have out: "res = res1" "r' = write_back (state_key tenant iid) st2 r2" "s' = s2"
      by (auto simp: hc_ordinary_def Let_def)
    have "locked_post hist stamped rely inv pc (c_maxResults cfg) subj
      (admitted once pc gate self tenant cmd (hashPayload cfg cmd)) (cmd_id cmd) s1 r1 (res1, st2, r2, s2)"
      using hc_locked_spec [OF assms(1) g(1) ok1 assms(5,6,8) _ assms(9,10) _ lk] g(4) [OF Inr] assms(8) False by blast
    then have l: "inv s2" "grows hist stamped s1 s2" "st_ok hist stamped pc (c_maxResults cfg) s2 (logSubjectFor tenant iid) st2"
      "contributes hist rely subj (admitted once pc gate self tenant cmd (hashPayload cfg cmd)) s1 s2"
      "res_status res1 = STATUS_ACCEPTED \<longrightarrow> durable (hist s2 subj) (cmd_id cmd)" "set (rt_inter r2) \<subseteq> set (rt_inter r1)"
      using assms(8) by (auto simp: locked_post_def)
    have "router_ok hist stamped pc (c_maxResults cfg) s2 r2"
      using router_ok_subset [OF router_ok_grows [OF g(3) l(2)] l(6)] .
    then have "router_ok hist stamped pc (c_maxResults cfg) s' r'"
      unfolding out using assms(7) l(3) by (rule write_back_router_ok)
    with l out g(2) show ?thesis
      using grows_trans [OF rely_grows [OF g(2)]] contributes_before [OF g(2)] by simp
  qed
qed

end

end
