(* ===== verification/Router_Part_Safety.thy ===== *)
theory Router_Part_Safety
  imports Router_Safety
begin

text \<open>
  The privileged path against the same contract. The lemmas are about a command whose sub-facts
  are not in the log yet, on a port that nobody else writes during the call: then every accepted
  sub-fact is the next legal fact of the log, in order, and the cached state follows it. (When a
  sub-fact is already in the log and forgotten by the dedup cache, the code ignores the
  duplicate flag of the acknowledgement; see the findings.)
\<close>

definition participation_fact ::
  "string \<Rightarrow> string \<Rightarrow> string \<Rightarrow> participation_data \<Rightarrow> command \<Rightarrow> string \<Rightarrow> event \<Rightarrow> bool" where
  "participation_fact tenant commandedBy parentID pd fcmd ph e \<longleftrightarrow>
     ev_schema e = SchemaV1 \<and> ev_type e = cmd_type fcmd \<and> ev_tenant e = tenant \<and> ev_actor e = cmd_actor fcmd \<and>
     ev_medium e = orDefault (cmd_medium fcmd) ''chat'' \<and> ev_command_id e = cmd_id fcmd \<and>
     ev_payload_hash e = ph \<and> ev_caused_by e = parentID \<and> ev_commanded_by e = commandedBy \<and>
     ev_reason e = pd_reason pd \<and> ev_request_id e = pd_request_id pd"

text \<open>The outcome of appending one fresh participation fact with no one else writing.\<close>

definition fact_post ::
  "('s \<Rightarrow> string \<Rightarrow> event list) \<Rightarrow> string \<Rightarrow> (event \<Rightarrow> bool) \<Rightarrow> 's \<Rightarrow> cmd_result \<Rightarrow> 's \<Rightarrow> bool" where
  "fact_post hist subj F s res s' \<longleftrightarrow>
     (if res_status res = STATUS_ACCEPTED
      then \<exists>e. hist s' = (hist s)(subj := hist s subj @ [e]) \<and> legal_append (hist s subj) e \<and> F e
      else hist s' = hist s)"

text \<open>The facts of a privileged command, as the events \<open>es\<close> they landed as, in order.\<close>

definition landed ::
  "'b router_cfg \<Rightarrow> string \<Rightarrow> string \<Rightarrow> participation_data \<Rightarrow> command \<Rightarrow> (string \<times> string) list \<Rightarrow> event list \<Rightarrow> bool" where
  "landed cfg tenant actor pd cmd facts es \<longleftrightarrow>
     list_all2 (\<lambda>f e. participation_fact tenant actor (cmd_id cmd) pd (fact_command tenant cmd f)
                        (hashPayload cfg (fact_command tenant cmd f)) e) facts es"

lemma landed_simps [simp]:
  "landed cfg tenant actor pd cmd [] es \<longleftrightarrow> es = []"
  "landed cfg tenant actor pd cmd (f # fs) (e # es) \<longleftrightarrow>
     participation_fact tenant actor (cmd_id cmd) pd (fact_command tenant cmd f)
       (hashPayload cfg (fact_command tenant cmd f)) e \<and> landed cfg tenant actor pd cmd fs es"
  by (auto simp: landed_def)

lemma sub_id_nonempty [simp]: "sub_id c f \<noteq> ''''"
  by (simp add: sub_id_def)

lemma fact_command_simps [simp]:
  "cmd_id (fact_command tenant cmd f) = sub_id (cmd_id cmd) f" "cmd_type (fact_command tenant cmd f) = fst f"
  "cmd_actor (fact_command tenant cmd f) = snd f" "cmd_tenant (fact_command tenant cmd f) = tenant"
  by (simp_all add: fact_command_def)

lemma participation_event_fact:
  assumes "participation_event cfg tenant commandedBy parentID pd fcmd ph st r = (ev, r')"
  shows "participation_fact tenant commandedBy parentID pd fcmd ph ev" "ev_seq ev = i64_succ (is_seq st)"
    "rt_inter r' = rt_inter r"
  using assms by (auto simp: participation_event_def participation_fact_def new_id_def now_def)

context log_store
begin

lemma apf_append_spec:
  assumes solo: "\<forall>a b. rely a b \<longrightarrow> hist b = hist a" and "reliable lp"
    and mar: "c_marshal cfg = mar" and "inv s" "logs_ok hist s" "no_dot tenant" "no_dot iid"
    and subj: "subj = logSubjectFor tenant iid"
    and st: "st_ok hist stamped pc (c_maxResults cfg) s subj st"
    and cid: "cmd_id fcmd \<noteq> ''''" and fresh: "\<not> durable (hist s subj) (cmd_id fcmd)"
    and legal: "legalTransition (is_status st) (cmd_type fcmd)"
    and run: "apf_append cfg lp tenant iid commandedBy parentID pd fcmd ph attempt st r s = (out, st', r', s')"
  shows "inv s' \<and> grows hist stamped s s' \<and> st_ok hist stamped pc (c_maxResults cfg) s' subj st' \<and>
    set (rt_inter r') \<subseteq> set (rt_inter r) \<and>
    (case out of None \<Rightarrow> rely s s'
     | Some res \<Rightarrow> fact_post hist subj (participation_fact tenant commandedBy parentID pd fcmd ph) s res s')"
proof -
  obtain ev r1 where ev: "participation_event cfg tenant commandedBy parentID pd fcmd ph st r = (ev, r1)"
    by (cases "participation_event cfg tenant commandedBy parentID pd fcmd ph st r")
  note evf = participation_event_fact [OF ev]
  have evc: "ev_command_id ev = cmd_id fcmd" "ev_type ev = cmd_type fcmd"
    using evf(1) by (auto simp: participation_fact_def)
  from st obtain P where P: "stamped s subj (is_stream_seq st) P" "agrees pc P st"
    and cached: "cached_ok (c_maxResults cfg) (hist s subj) st"
    by (auto simp: st_ok_def)
  obtain o1 s1 where app: "lp_append lp s subj (mar ev) (dedup_id tenant iid (ev_command_id ev)) (is_stream_seq st) = (o1, s1)"
    by (cases "lp_append lp s subj (mar ev) (dedup_id tenant iid (ev_command_id ev)) (is_stream_seq st)")
  note a = append_spec [OF assms(4,6,7) subj P _ evf(2) _ app]
  have a1: "inv s1" "grows hist stamped s s1" using a(1,2) legal cid evc by auto
  have ok1: "logs_ok hist s1" using logs_ok_grows assms(5) a1(2) .
  have app': "lp_append lp s (logSubjectFor tenant iid) (c_marshal cfg ev) (dedup_id tenant iid (cmd_id fcmd)) (is_stream_seq st) = (o1, s1)"
    using app evc mar subj by simp
  have keep: "st_ok hist stamped pc (c_maxResults cfg) s' subj st" if "grows hist stamped s s'" for s'
    using st that by (rule st_ok_grows)
  show ?thesis
  proof (cases o1)
    case (Inl err)
    then have err: "err = ErrOCCConflict" using assms(2) app' by (cases err) (auto simp: reliable_def)
    obtain o2 r2 s2 where rb: "rebuild cfg lp tenant iid r1 s1 = (o2, r2, s2)"
      by (cases "rebuild cfg lp tenant iid r1 s1")
    note b = rebuild_spec(1-3) [OF a1(1) ok1 rb] rebuild_spec(4) [OF a1(1) ok1 rb, where pc = pc, folded subj]
    have rl: "rely s s2" using a(5) Inl err legal cid evc b(2) rely_trans by auto
    note g2 = rely_grows [OF rl]
    have "st_ok hist stamped pc (c_maxResults cfg) s2 subj (adopt st fresh (c_maxResults cfg))"
      if "o2 = Inr fresh" for fresh
      using b(4) [OF that] agrees_adopt [of pc "hist s2 subj" fresh "c_maxResults cfg" st] keep [OF g2]
      unfolding st_ok_def by auto
    then show ?thesis
      using run b(1) b(3) g2 keep [OF g2] rl solo [rule_format, OF rl] evf(3) set_delete_subset [of "state_key tenant iid" "rt_inter r"]
      by (auto simp: apf_append_def ev app' Inl rb err fact_post_def split: sum.splits if_splits)
  next
    case (Inr q)
    obtain dup n where q: "q = (dup, n)" by (cases q)
    have "\<not> dup"
    proof
      assume dup
      with a(4) Inr q legal cid evc have "rely s s1" "durable (hist s1 subj) (cmd_id fcmd)" by auto
      with solo [rule_format, of s s1] fresh show False by simp
    qed
    with a(3) Inr q legal cid evc obtain m where m: "rely s m" "hist m subj = P" "hist s1 = (hist m)(subj := P @ [ev])"
      "legal_append P ev" "stamped s1 subj n (P @ [ev])" by auto
    have P': "P = hist s subj" "hist s1 = (hist s)(subj := hist s subj @ [ev])" using solo [rule_format, OF m(1)] m by auto
    let ?res = "accepted_result (cmd_id fcmd) (cmd_id fcmd)"
    let ?st1 = "applyTransition (st\<lparr>is_seq := i64_succ (is_seq st), is_stream_seq := n\<rparr>) (cmd_type fcmd)"
    let ?st3 = "?st1\<lparr>is_part := map_option (\<lambda>v. ApplyFact v ev) (is_part ?st1)\<rparr>"
    have "cached_ok (c_maxResults cfg) (hist s1 subj) ?st3"
      using cached_ok_prefix [OF cached, of "hist s1 subj"] P'
      by (simp add: applyTransition_def cached_ok_def cache_ok_def cache_bounded_def res_ok_def)
    moreover have "agrees pc (hist s1 subj) ?st3"
      using P(2) P' evc by (auto simp: agrees_def applyTransition_def)
    ultimately have "st_ok hist stamped pc (c_maxResults cfg) s1 subj
        (putResult ?st3 (cmd_id fcmd) \<lparr>sr_hash = ph, sr_result = ?res\<rparr> (c_maxResults cfg))"
      using m(5) P' evc by (intro st_ok_putResult backed_durable) (auto simp: st_ok_def applyTransition_def)
    then show ?thesis
      using run a1 P' m(4) evf(1,3) set_delete_subset [of "state_key tenant iid" "rt_inter r"]
      by (auto simp: apf_append_def ev app' Inr q Let_def fact_post_def split: if_splits)
  qed
qed

lemma apf_attempt_spec:
  assumes solo: "\<forall>a b. rely a b \<longrightarrow> hist b = hist a" and "reliable lp" "c_marshal cfg = mar"
    "inv s" "logs_ok hist s" "no_dot tenant" "no_dot iid" "subj = logSubjectFor tenant iid"
    "st_ok hist stamped pc (c_maxResults cfg) s subj st"
    "cmd_id fcmd \<noteq> ''''" "\<not> durable (hist s subj) (cmd_id fcmd)"
    and run: "apf_attempt cfg lp tenant iid commandedBy parentID pd fcmd ph attempt st r s = (out, st', r', s')"
  shows "inv s' \<and> grows hist stamped s s' \<and> st_ok hist stamped pc (c_maxResults cfg) s' subj st' \<and>
    set (rt_inter r') \<subseteq> set (rt_inter r) \<and>
    (case out of None \<Rightarrow> rely s s'
     | Some res \<Rightarrow> fact_post hist subj (participation_fact tenant commandedBy parentID pd fcmd ph) s res s')"
proof (cases "apf_append cfg lp tenant iid commandedBy parentID pd fcmd ph attempt st r s = (out, st', r', s') \<and>
    legalTransition (is_status st) (cmd_type fcmd)")
  case True
  then show ?thesis using apf_append_spec [OF solo assms(2-11)] by blast
next
  case False
  have "res_status (sr_result prev) \<noteq> STATUS_ACCEPTED" if "map_of (is_results st) (cmd_id fcmd) = Some prev" for prev
    using assms(9,11) that by (auto simp: st_ok_def cached_ok_def res_ok_def backed_def)
  with run False have "s' = s" "st' = st" "r' = r" "\<exists>reason. out = Some (rejected_result (cmd_id fcmd) reason)"
    by (auto simp: apf_attempt_def apf_try_def split: option.splits if_splits)
  with assms(4,9) show ?thesis by (auto simp: fact_post_def)
qed

lemma apf_loop_spec:
  assumes solo: "\<forall>a b. rely a b \<longrightarrow> hist b = hist a" and "reliable lp" "c_marshal cfg = mar"
    "inv s" "logs_ok hist s" "no_dot tenant" "no_dot iid" "subj = logSubjectFor tenant iid"
    "st_ok hist stamped pc (c_maxResults cfg) s subj st"
    "cmd_id fcmd \<noteq> ''''" "\<not> durable (hist s subj) (cmd_id fcmd)"
    and run: "apf_loop cfg lp tenant iid commandedBy parentID pd fcmd ph attempt st r s = (res, st', r', s')"
  shows "inv s' \<and> grows hist stamped s s' \<and> st_ok hist stamped pc (c_maxResults cfg) s' subj st' \<and>
    set (rt_inter r') \<subseteq> set (rt_inter r) \<and>
    fact_post hist subj (participation_fact tenant commandedBy parentID pd fcmd ph) s res s'"
  using assms(4,5,9,11) run
proof (induction "Suc (c_maxRefold cfg) - attempt" arbitrary: attempt st r s rule: less_induct)
  case less
  obtain o1 st1 r1 s1 where at: "apf_attempt cfg lp tenant iid commandedBy parentID pd fcmd ph attempt st r s = (o1, st1, r1, s1)"
    by (cases "apf_attempt cfg lp tenant iid commandedBy parentID pd fcmd ph attempt st r s")
  note a = apf_attempt_spec [OF solo assms(2,3) less.prems(1,2) assms(6-8) less.prems(3) assms(10) less.prems(4) at]
  show ?case
  proof (cases o1)
    case (Some res1)
    with less.prems(5) at have "(res, st', r', s') = (res1, st1, r1, s1)"
      by (subst (asm) apf_loop.simps) simp
    with a Some show ?thesis by simp
  next
    case None
    with less.prems(5) at have run: "apf_loop cfg lp tenant iid commandedBy parentID pd fcmd ph (Suc attempt) st1 r1 s1 = (res, st', r', s')"
      by (subst (asm) apf_loop.simps) simp
    have rl: "rely s s1" using a None by simp
    have lt: "Suc (c_maxRefold cfg) - Suc attempt < Suc (c_maxRefold cfg) - attempt"
      using apf_attempt_None at None by fastforce
    have ok: "logs_ok hist s1" "\<not> durable (hist s1 subj) (cmd_id fcmd)"
      using logs_ok_grows [OF less.prems(2) rely_grows [OF rl]] solo [rule_format, OF rl] less.prems(4) by simp_all
    have "inv s1" "st_ok hist stamped pc (c_maxResults cfg) s1 subj st1" using a by auto
    note ih = less.hyps [OF lt this(1) ok(1) this(2) ok(2) run]
    then show ?thesis
      using a grows_trans [OF rely_grows [OF rl]] solo [rule_format, OF rl] by (auto simp: fact_post_def)
  qed
qed

lemma appendParticipationFact_spec:
  assumes solo: "\<forall>a b. rely a b \<longrightarrow> hist b = hist a" and "reliable lp" "c_marshal cfg = mar"
    "inv s" "logs_ok hist s" "router_ok hist stamped pc (c_maxResults cfg) s r"
    "no_dot tenant" "no_dot iid" "no_slash tenant" "subj = logSubjectFor tenant iid"
    "cmd_id fcmd \<noteq> ''''" "\<not> durable (hist s subj) (cmd_id fcmd)"
    and run: "appendParticipationFact cfg lp tenant iid commandedBy parentID pd fcmd r s = (res, r', s')"
  shows "inv s' \<and> grows hist stamped s s' \<and> router_ok hist stamped pc (c_maxResults cfg) s' r' \<and>
    fact_post hist subj (participation_fact tenant commandedBy parentID pd fcmd (hashPayload cfg fcmd)) s res s'"
proof -
  obtain o1 r1 s1 where gs: "getState cfg lp tenant iid r s = (o1, r1, s1)"
    by (cases "getState cfg lp tenant iid r s")
  note g = getState_spec [OF assms(4-6,9) gs]
  have s1: "hist s1 = hist s" "logs_ok hist s1" "grows hist stamped s s1"
    using solo [rule_format, OF g(2)] logs_ok_grows [OF assms(5) rely_grows [OF g(2)]] rely_grows [OF g(2)] by auto
  show ?thesis
  proof (cases "\<exists>st. o1 = Inr st \<and> \<not> is_poisoned st")
    case False
    with run gs have "s' = s1" "r' = r1" "res_status res = STATUS_REJECTED"
      by (auto simp: appendParticipationFact_def split: sum.splits if_splits)
    with g s1 show ?thesis by (simp add: fact_post_def)
  next
    case True
    then obtain st where st: "o1 = Inr st" "\<not> is_poisoned st" by blast
    obtain res1 st2 r2 s2 where lo: "apf_loop cfg lp tenant iid commandedBy parentID pd fcmd (hashPayload cfg fcmd) 0 st r1 s1
        = (res1, st2, r2, s2)"
      by (cases "apf_loop cfg lp tenant iid commandedBy parentID pd fcmd (hashPayload cfg fcmd) 0 st r1 s1")
    with run gs st have out: "res = res1" "r' = write_back (state_key tenant iid) st2 r2" "s' = s2"
      by (auto simp: appendParticipationFact_def)
    have "\<not> durable (hist s1 subj) (cmd_id fcmd)" using s1(1) assms(12) by simp
    note l = apf_loop_spec [OF solo assms(2,3) g(1) s1(2) assms(7,8,10) _ assms(11) this lo, where pc = pc]
    have l': "inv s2" "grows hist stamped s1 s2" "st_ok hist stamped pc (c_maxResults cfg) s2 (logSubjectFor tenant iid) st2"
      "set (rt_inter r2) \<subseteq> set (rt_inter r1)"
      "fact_post hist subj (participation_fact tenant commandedBy parentID pd fcmd (hashPayload cfg fcmd)) s1 res1 s2"
      using l g(4) [OF st(1)] assms(10) by auto
    have "router_ok hist stamped pc (c_maxResults cfg) s2 r2"
      using router_ok_subset [OF router_ok_grows [OF g(3) l'(2)] l'(4)] .
    then have "router_ok hist stamped pc (c_maxResults cfg) s' r'"
      unfolding out using assms(9) l'(3) by (rule write_back_router_ok)
    with l' s1 out show ?thesis
      using grows_trans [OF s1(3)] by (auto simp: fact_post_def)
  qed
qed

lemma land_facts_spec:
  assumes solo: "\<forall>a b. rely a b \<longrightarrow> hist b = hist a" and "reliable lp" "c_marshal cfg = mar"
    "no_dot tenant" "no_dot iid" "no_slash tenant" "subj = logSubjectFor tenant iid"
    and "inv s" "logs_ok hist s" "router_ok hist stamped pc (c_maxResults cfg) s r"
    and "\<forall>f \<in> set facts. \<not> durable (hist s subj) (sub_id (cmd_id cmd) f)"
    and "distinct (map (sub_id (cmd_id cmd)) facts)"
    and run: "land_facts cfg lp tenant iid actor pd cmd first facts r s = (out, r', s')"
  shows "inv s' \<and> grows hist stamped s s' \<and> router_ok hist stamped pc (c_maxResults cfg) s' r' \<and>
    (\<exists>done es. prefix done facts \<and> landed cfg tenant actor pd cmd done es \<and>
       hist s' = (hist s)(subj := hist s subj @ es) \<and>
       (case out of None \<Rightarrow> done = facts
        | Some res \<Rightarrow> strict_prefix done facts \<and> res_status res \<noteq> STATUS_ACCEPTED))"
  using assms(8-)
proof (induction facts arbitrary: first r s)
  case Nil
  then show ?case by (auto intro!: exI [of _ "[]"])
next
  case (Cons f fs)
  let ?fc = "fact_command tenant cmd f"
  obtain res1 r1 s1 where ap: "appendParticipationFact cfg lp tenant iid actor (cmd_id cmd) pd ?fc r s = (res1, r1, s1)"
    by (cases "appendParticipationFact cfg lp tenant iid actor (cmd_id cmd) pd ?fc r s")
  have "\<not> durable (hist s subj) (cmd_id ?fc)" using Cons.prems(4) by simp
  note a = appendParticipationFact_spec [OF solo assms(2,3) Cons.prems(1-3) assms(4-7) _ this ap]
  have a1: "inv s1" "grows hist stamped s s1" "router_ok hist stamped pc (c_maxResults cfg) s1 r1"
    and fp: "fact_post hist subj (participation_fact tenant actor (cmd_id cmd) pd ?fc (hashPayload cfg ?fc)) s res1 s1"
    using a by auto
  show ?case
  proof (cases "res_status res1 = STATUS_ACCEPTED")
    case False
    with Cons.prems(6) ap have out: "s' = s1" "r' = r1" "\<exists>res. out = Some res \<and> res_status res = res_status res1"
      by auto
    have "hist s1 = hist s" using fp False by (simp add: fact_post_def)
    with out a1 False show ?thesis by (auto intro!: exI [of _ "[]"])
  next
    case True
    then obtain e where e: "hist s1 = (hist s)(subj := hist s subj @ [e])"
      "participation_fact tenant actor (cmd_id cmd) pd ?fc (hashPayload cfg ?fc) e"
      using fp by (auto simp: fact_post_def)
    have run: "land_facts cfg lp tenant iid actor pd cmd False fs r1 s1 = (out, r', s')"
      using Cons.prems(6) ap True by simp
    have "\<forall>g \<in> set fs. \<not> durable (hist s1 subj) (sub_id (cmd_id cmd) g)"
      using Cons.prems(4,5) e by (auto simp: participation_fact_def)
    moreover have "distinct (map (sub_id (cmd_id cmd)) fs)" using Cons.prems(5) by simp
    ultimately obtain don es where ih: "inv s'" "grows hist stamped s1 s'" "router_ok hist stamped pc (c_maxResults cfg) s' r'"
      "prefix don fs" "landed cfg tenant actor pd cmd don es" "hist s' = (hist s1)(subj := hist s1 subj @ es)"
      "case out of None \<Rightarrow> don = fs | Some res \<Rightarrow> strict_prefix don fs \<and> res_status res \<noteq> STATUS_ACCEPTED"
      using Cons.IH [OF a1(1) logs_ok_grows [OF Cons.prems(2) a1(2)] a1(3) _ _ run] by blast
    have "grows hist stamped s s'" using grows_trans a1(2) ih(2) .
    with ih e show ?thesis
      by (intro conjI exI [of _ "f # don"] exI [of _ "e # es"]) (auto split: option.splits)
  qed
qed

lemma bind_parent_router_ok:
  assumes "router_ok hist stamped pc mx s r" "no_slash tenant"
  shows "router_ok hist stamped pc mx s (bind_parent (state_key tenant iid) oid cid subs r)"
proof (cases "map_of (rt_inter r) (state_key tenant iid)")
  case None
  then show ?thesis using assms by (simp add: bind_parent_def)
next
  case (Some cur)
  define cur' where "cur' = cur\<lparr>is_parents := (is_parents cur)(cid \<mapsto>
    (case is_parents cur cid of None \<Rightarrow> {} | Some b \<Rightarrow> b) \<union> subs)\<rparr>"
  have "st_ok hist stamped pc mx s (logSubjectFor tenant iid) cur'"
    using map_of_SomeD [OF Some] assms unfolding cur'_def
    by (auto simp: router_ok_def st_ok_def agrees_def cached_ok_def cache_ok_def cache_bounded_def res_ok_def)
  then have "router_ok hist stamped pc mx s (r\<lparr>rt_inter := AList.update (state_key tenant iid) cur' (rt_inter r)\<rparr>)"
    by (rule router_ok_update [OF assms]) simp
  then show ?thesis using assms(1) Some by (simp add: bind_parent_def cur'_def)
qed

lemma handleParticipation_spec:
  assumes solo: "\<forall>a b. rely a b \<longrightarrow> hist b = hist a" and "reliable lp" "c_marshal cfg = mar"
    "no_dot tenant" "no_dot iid" "no_slash tenant" "subj = logSubjectFor tenant iid"
    and inv: "inv s" "logs_ok hist s" "router_ok hist stamped pc (c_maxResults cfg) s r"
    and fresh: "\<forall>pd facts. decode_participation cfg (cmd_data cmd) = Some pd \<longrightarrow>
      participation_facts (cmd_type cmd) pd = Inr facts \<longrightarrow>
      (\<forall>f \<in> set facts. \<not> durable (hist s subj) (sub_id (cmd_id cmd) f))"
    and run: "handleParticipation cfg lp tenant iid actor role cmd r s = (res, r', s')"
  shows "inv s' \<and> grows hist stamped s s' \<and> router_ok hist stamped pc (c_maxResults cfg) s' r' \<and>
    (hist s' = hist s \<and> res_status res \<noteq> STATUS_ACCEPTED \<or>
     (\<exists>pd facts done es. role = RoleTrustedBackend \<and> decode_participation cfg (cmd_data cmd) = Some pd \<and>
        participation_facts (cmd_type cmd) pd = Inr facts \<and> prefix done facts \<and>
        landed cfg tenant actor pd cmd done es \<and> hist s' = (hist s)(subj := hist s subj @ es) \<and>
        (res_status res = STATUS_ACCEPTED \<longleftrightarrow> done = facts)))"
proof (cases "\<exists>pd facts st r1 s1. role = RoleTrustedBackend \<and> decode_participation cfg (cmd_data cmd) = Some pd \<and>
    participation_facts (cmd_type cmd) pd = Inr facts \<and> getState cfg lp tenant iid r s = (Inr st, r1, s1) \<and>
    (case is_parents st (cmd_id cmd) of None \<Rightarrow> True
     | Some b \<Rightarrow> recordedSubsetOf b (set (map (sub_id (cmd_id cmd)) facts)))")
  case False
  obtain o1 r1 s1 where gs: "getState cfg lp tenant iid r s = (o1, r1, s1)" by (cases "getState cfg lp tenant iid r s")
  note g = getState_spec [OF inv assms(6) gs]
  have "res_status res \<noteq> STATUS_ACCEPTED \<and> (r' = r \<and> s' = s \<or> r' = r1 \<and> s' = s1)"
    using run False gs
    by (auto simp: handleParticipation_def Let_def split: if_splits option.splits sum.splits)
  then show ?thesis using g inv solo [rule_format, OF g(2)] rely_grows [OF g(2)] by auto
next
  case True
  then obtain pd facts st r1 s1 where c: "role = RoleTrustedBackend" "decode_participation cfg (cmd_data cmd) = Some pd"
    "participation_facts (cmd_type cmd) pd = Inr facts" "getState cfg lp tenant iid r s = (Inr st, r1, s1)"
    "case is_parents st (cmd_id cmd) of None \<Rightarrow> True
     | Some b \<Rightarrow> recordedSubsetOf b (set (map (sub_id (cmd_id cmd)) facts))" by blast
  note g = getState_spec [OF inv assms(6) c(4)]
  have s1: "hist s1 = hist s" "logs_ok hist s1" "grows hist stamped s s1"
    using solo [rule_format, OF g(2)] logs_ok_grows [OF inv(2) rely_grows [OF g(2)]] rely_grows [OF g(2)] by auto
  obtain o2 r2 s2 where lf: "land_facts cfg lp tenant iid actor pd cmd True facts r1 s1 = (o2, r2, s2)"
    by (cases "land_facts cfg lp tenant iid actor pd cmd True facts r1 s1")
  have "distinct (map (sub_id (cmd_id cmd)) facts)"
    using c(3) by (auto simp: participation_facts_def sub_id_def split: if_splits)
  moreover have "\<forall>f \<in> set facts. \<not> durable (hist s1 subj) (sub_id (cmd_id cmd) f)" using fresh c s1(1) by auto
  ultimately have l: "inv s2 \<and> grows hist stamped s1 s2 \<and> router_ok hist stamped pc (c_maxResults cfg) s2 r2 \<and>
    (\<exists>done es. prefix done facts \<and> landed cfg tenant actor pd cmd done es \<and>
       hist s2 = (hist s1)(subj := hist s1 subj @ es) \<and>
       (case o2 of None \<Rightarrow> done = facts | Some res \<Rightarrow> strict_prefix done facts \<and> res_status res \<noteq> STATUS_ACCEPTED))"
    using land_facts_spec [OF solo assms(2-7) g(1) s1(2) g(3) _ _ lf] by blast
  have out: "s' = s2" "res_status res = STATUS_ACCEPTED \<longleftrightarrow> o2 = None \<or> (\<exists>x. o2 = Some x \<and> res_status x = STATUS_ACCEPTED)"
    "r' = (if o2 = None then bind_parent (state_key tenant iid) (is_oid st) (cmd_id cmd)
             (set (map (sub_id (cmd_id cmd)) facts)) r2 else r2)"
    using run c lf by (auto simp: handleParticipation_def Let_def split: option.splits)
  have "router_ok hist stamped pc (c_maxResults cfg) s' r'"
    using l out bind_parent_router_ok [OF _ assms(6)] by auto
  moreover have "grows hist stamped s s'" using grows_trans [OF s1(3)] l out by auto
  moreover from l obtain don es where "prefix don facts" "landed cfg tenant actor pd cmd don es"
       "hist s' = (hist s)(subj := hist s subj @ es)"
       "case o2 of None \<Rightarrow> don = facts | Some res \<Rightarrow> strict_prefix don facts \<and> res_status res \<noteq> STATUS_ACCEPTED"
    unfolding out(1) s1(1) by blast
  moreover from this(4) have "res_status res = STATUS_ACCEPTED \<longleftrightarrow> don = facts"
    unfolding out(2) by (cases o2) auto
  ultimately show ?thesis using c l out by blast
qed

end

end
