(* ===== verification/Router_Theorems.thy ===== *)
theory Router_Theorems
  imports Router_Part_Safety
begin

text \<open>
  The theorems about \<open>HandleCommand\<close> as a whole: on the raced store (other routers write during the
  call, acknowledgements get lost), on the in-memory store, and for any number of routers that
  share one log and restart at will.
\<close>

section \<open>Validation\<close>

lemma hc_validate_Inr:
  assumes "hc_validate cfg i subject data = Inr (tenant, iid, self, cmd)"
  shows "parseCmdSubject subject = Some (tenant, iid, self)" "c_unmarshal_cmd cfg data = Some cmd"
    "isAuthenticated i \<or> c_devMode cfg" "cmd_id cmd \<noteq> ''''" "cmd_tenant cmd = tenant"
    "id_tenant i \<noteq> '''' \<longrightarrow> tenant = id_tenant i"
    "RoleOf i \<noteq> RoleTrustedBackend \<longrightarrow> cmd_actor cmd = self \<and> (id_user i \<noteq> '''' \<longrightarrow> self = id_user i)"
proof -
  from assms obtain q where q: "parseCmdSubject subject = Some q"
    by (cases "parseCmdSubject subject") (simp_all add: hc_validate_def)
  obtain t i' u where "q = (t, i', u)" by (cases q)
  with q have p: "parseCmdSubject subject = Some (t, i', u)" by simp
  from assms p obtain c where c: "c_unmarshal_cmd cfg data = Some c"
    by (cases "c_unmarshal_cmd cfg data") (simp_all add: hc_validate_def)
  have auth: "isAuthenticated i \<or> c_devMode cfg"
    using assms unfolding hc_validate_def p c by (cases "isAuthenticated i \<or> c_devMode cfg") simp_all
  note body = assms [unfolded hc_validate_def p c Let_def option.case prod.case]
  show "isAuthenticated i \<or> c_devMode cfg" by (fact auth)
  have "t = tenant \<and> i' = iid \<and> u = self \<and> c = cmd \<and> cmd_id cmd \<noteq> '''' \<and> cmd_tenant cmd = tenant \<and>
    (id_tenant i \<noteq> '''' \<longrightarrow> tenant = id_tenant i) \<and>
    (RoleOf i \<noteq> RoleTrustedBackend \<longrightarrow> cmd_actor cmd = self \<and> (id_user i \<noteq> '''' \<longrightarrow> self = id_user i))"
    using body auth by (simp split: if_split_asm; blast)
  then show "parseCmdSubject subject = Some (tenant, iid, self)" "c_unmarshal_cmd cfg data = Some cmd"
    "cmd_id cmd \<noteq> ''''" "cmd_tenant cmd = tenant" "id_tenant i \<noteq> '''' \<longrightarrow> tenant = id_tenant i"
    "RoleOf i \<noteq> RoleTrustedBackend \<longrightarrow> cmd_actor cmd = self \<and> (id_user i \<noteq> '''' \<longrightarrow> self = id_user i)"
    using p c by simp_all
qed

lemma hc_validate_Inl:
  assumes "hc_validate cfg i subject data = Inl res"
  shows "res_status res = STATUS_REJECTED"
  using assms by (auto simp: hc_validate_def Let_def split: option.splits if_splits)

lemma hc_validate_dots:
  assumes "hc_validate cfg i subject data = Inr (tenant, iid, self, cmd)"
  shows "no_dot tenant" "no_dot iid"
  using hc_validate_Inr(1) [OF assms] by (auto simp: parseCmdSubject_Some)

text \<open>The tenant of a subject has no slash (a slash would make cache keys ambiguous).\<close>

definition clean_tenant :: "string \<Rightarrow> bool" where
  "clean_tenant subject \<longleftrightarrow>
     (case parseCmdSubject subject of None \<Rightarrow> True | Some (tenant, _, _) \<Rightarrow> no_slash tenant)"

text \<open>The type of a command as it is on the wire.\<close>

definition wire_type :: "'b router_cfg \<Rightarrow> bytes \<Rightarrow> string" where
  "wire_type cfg data = (case c_unmarshal_cmd cfg data of None \<Rightarrow> '''' | Some cmd \<Rightarrow> cmd_type cmd)"

definition wire_id :: "'b router_cfg \<Rightarrow> bytes \<Rightarrow> string" where
  "wire_id cfg data = (case c_unmarshal_cmd cfg data of None \<Rightarrow> '''' | Some cmd \<Rightarrow> cmd_id cmd)"

definition log_of :: "string \<Rightarrow> string" where
  "log_of subject = (case parseCmdSubject subject of None \<Rightarrow> '''' | Some (tenant, iid, _) \<Rightarrow> logSubjectFor tenant iid)"

text \<open>
  A participation command is new to the log: none of its sub-facts is there yet. (Ordinary
  commands are not constrained.)
\<close>

definition first_time :: "'b router_cfg \<Rightarrow> event list \<Rightarrow> bytes \<Rightarrow> bool" where
  "first_time cfg L data =
     (case c_unmarshal_cmd cfg data of
        None \<Rightarrow> True
      | Some cmd \<Rightarrow>
          (case decode_participation cfg (cmd_data cmd) of
             None \<Rightarrow> True
           | Some pd \<Rightarrow>
               (case participation_facts (cmd_type cmd) pd of
                  Inl _ \<Rightarrow> True
                | Inr facts \<Rightarrow> list_all (\<lambda>f. \<not> durable L (sub_id (cmd_id cmd) f)) facts)))"

section \<open>Ordinary commands on any port\<close>

context log_store
begin

lemma HandleCommand_ordinary:
  assumes "c_marshal cfg = mar" "inv s" "logs_ok hist s" "router_ok hist stamped pc (c_maxResults cfg) s r"
    "clean_tenant subject" "pc \<longrightarrow> reliable lp" "\<not> isParticipationCommand (wire_type cfg data)"
    and run: "HandleCommand cfg lp i subject data r s = (res, r', s')"
  shows "inv s' \<and> grows hist stamped s s' \<and> router_ok hist stamped pc (c_maxResults cfg) s' r' \<and>
    (res_status res = STATUS_ACCEPTED \<longrightarrow> durable (hist s' (log_of subject)) (wire_id cfg data)) \<and>
    (rely s s' \<or> (\<exists>tenant iid self cmd. hc_validate cfg i subject data = Inr (tenant, iid, self, cmd) \<and>
       contributes hist rely (log_of subject)
         (admitted once pc (isAuthenticated i \<and> RoleOf i \<noteq> RoleTrustedBackend \<and> cmd_type cmd \<noteq> T_started)
            self tenant cmd (hashPayload cfg cmd)) s s'))"
proof (cases "hc_validate cfg i subject data")
  case (Inl res1)
  with run hc_validate_Inl [OF Inl] assms(2,4) rely_refl show ?thesis by (auto simp: HandleCommand_def)
next
  case (Inr q)
  obtain tenant iid self cmd where q: "q = (tenant, iid, self, cmd)" by (cases q)
  note v = Inr [unfolded q]
  have w: "log_of subject = logSubjectFor tenant iid" "no_slash tenant" "wire_id cfg data = cmd_id cmd"
    "\<not> isParticipationCommand (cmd_type cmd)"
    using hc_validate_Inr [OF v] assms(5,7) by (auto simp: log_of_def clean_tenant_def wire_id_def wire_type_def)
  have o: "hc_ordinary cfg lp i tenant iid self cmd r s = (res, r', s')"
    using run v w(4) by (simp add: HandleCommand_def)
  show ?thesis
    using hc_ordinary_spec [OF assms(1-4) hc_validate_dots [OF v] w(2,1) hc_validate_Inr(4) [OF v] assms(6) refl o]
      v w(3) by auto
qed

lemma HandleCommand_participation:
  assumes solo: "\<forall>a b. rely a b \<longrightarrow> hist b = hist a" and "reliable lp" "c_marshal cfg = mar"
    "inv s" "logs_ok hist s" "router_ok hist stamped pc (c_maxResults cfg) s r"
    "clean_tenant subject" "isParticipationCommand (wire_type cfg data)"
    "first_time cfg (hist s (log_of subject)) data"
    and run: "HandleCommand cfg lp i subject data r s = (res, r', s')"
  shows "inv s' \<and> grows hist stamped s s' \<and> router_ok hist stamped pc (c_maxResults cfg) s' r' \<and>
    (hist s' = hist s \<and> res_status res \<noteq> STATUS_ACCEPTED \<or>
     (\<exists>tenant iid self cmd pd facts done es. hc_validate cfg i subject data = Inr (tenant, iid, self, cmd) \<and>
        RoleOf i = RoleTrustedBackend \<and> decode_participation cfg (cmd_data cmd) = Some pd \<and>
        participation_facts (cmd_type cmd) pd = Inr facts \<and> prefix done facts \<and>
        landed cfg tenant self pd cmd done es \<and>
        hist s' = (hist s)(log_of subject := hist s (log_of subject) @ es) \<and>
        (res_status res = STATUS_ACCEPTED \<longleftrightarrow> done = facts)))"
proof (cases "hc_validate cfg i subject data")
  case (Inl res1)
  with run hc_validate_Inl [OF Inl] assms(4,6) show ?thesis by (auto simp: HandleCommand_def)
next
  case (Inr q)
  obtain tenant iid self cmd where q: "q = (tenant, iid, self, cmd)" by (cases q)
  note v = Inr [unfolded q]
  have w: "log_of subject = logSubjectFor tenant iid" "no_slash tenant" "isParticipationCommand (cmd_type cmd)"
    using hc_validate_Inr [OF v] assms(7,8) by (auto simp: log_of_def clean_tenant_def wire_type_def)
  have o: "handleParticipation cfg lp tenant iid self (RoleOf i) cmd r s = (res, r', s')"
    using run v w(3) by (simp add: HandleCommand_def)
  have fresh: "\<forall>pd facts. decode_participation cfg (cmd_data cmd) = Some pd \<longrightarrow>
      participation_facts (cmd_type cmd) pd = Inr facts \<longrightarrow>
      (\<forall>f \<in> set facts. \<not> durable (hist s (log_of subject)) (sub_id (cmd_id cmd) f))"
    using assms(9) hc_validate_Inr(2) [OF v] by (auto simp: first_time_def list_all_iff)
  note h = handleParticipation_spec [OF solo assms(2,3) hc_validate_dots [OF v] w(2,1) assms(4-6) fresh o]
  show ?thesis
  proof (cases "hist s' = hist s \<and> res_status res \<noteq> STATUS_ACCEPTED")
    case True
    with h show ?thesis by simp
  next
    case False
    with h obtain pd facts don es where
      "RoleOf i = RoleTrustedBackend" "decode_participation cfg (cmd_data cmd) = Some pd"
      "participation_facts (cmd_type cmd) pd = Inr facts" "prefix don facts" "landed cfg tenant self pd cmd don es"
      "hist s' = (hist s)(log_of subject := hist s (log_of subject) @ es)" "res_status res = STATUS_ACCEPTED \<longleftrightarrow> don = facts"
      by auto
    moreover from h have "inv s'" "grows hist stamped s s'" "router_ok hist stamped pc (c_maxResults cfg) s' r'"
      by simp_all
    ultimately show ?thesis using v
      by (intro conjI disjI2 exI [of _ tenant] exI [of _ iid] exI [of _ self] exI [of _ cmd] exI [of _ pd]
          exI [of _ facts] exI [of _ don] exI [of _ es])
  qed
qed

end

section \<open>The ids of a log\<close>

definition ids_once :: "event list \<Rightarrow> bool" where
  "ids_once L \<longleftrightarrow> distinct (map ev_command_id L)"

lemma durable_ids: "durable L c \<longleftrightarrow> c \<in> set (map ev_command_id L)"
  by (auto simp: durable_def)

lemma landed_ids:
  "landed cfg tenant actor pd cmd facts es \<Longrightarrow> map ev_command_id es = map (sub_id (cmd_id cmd)) facts"
  unfolding landed_def
  by (induction rule: list_all2_induct) (auto simp: participation_fact_def)

lemma participation_ids_distinct:
  assumes "participation_facts t pd = Inr facts" "prefix part facts"
  shows "distinct (map (sub_id c) part)"
proof -
  have "distinct (map (sub_id c) facts)"
    using assms(1) by (auto simp: participation_facts_def sub_id_def split: if_splits)
  with assms(2) show ?thesis by (auto simp: prefix_def)
qed

lemma fake_reliable: "reliable (fake_port unm)"
  by (auto simp: reliable_def fake_port_def fake_append_def Let_def split: if_splits)

lemma fake_solo: "\<forall>a b. fake_untouched a b \<longrightarrow> fake_hist b = fake_hist a"
  by (simp add: untouched_def)

lemma contributes_untouched:
  assumes "contributes hist (untouched hist stamped) subj Q s s'"
  shows "hist s' = hist s \<or>
    (\<exists>e. hist s' = (hist s)(subj := hist s subj @ [e]) \<and> legal_append (hist s subj) e \<and> Q (hist s subj) e)"
proof (cases "untouched hist stamped s s'")
  case True
  then show ?thesis by (simp add: untouched_def)
next
  case False
  with assms obtain m m' e where "hist m = hist s" "hist m' = (hist m)(subj := hist m subj @ [e])"
    "legal_append (hist m subj) e" "Q (hist m subj) e" "hist s' = hist m'"
    unfolding contributes_def untouched_def by metis
  then show ?thesis by auto
qed

lemma ordinary_fake:
  fixes cfg :: "'b router_cfg"
  assumes codec: "\<And>e. unm (c_marshal cfg e) = Some e"
    and "fake_inv s" "logs_ok fake_hist s" "router_ok fake_hist fake_stamped True (c_maxResults cfg) s r"
    "clean_tenant subject" "\<not> isParticipationCommand (wire_type cfg data)"
    and run: "HandleCommand cfg (fake_port unm) i subject data r s = (res, r', s')"
  shows "fake_inv s' \<and> grows fake_hist fake_stamped s s' \<and>
    router_ok fake_hist fake_stamped True (c_maxResults cfg) s' r' \<and>
    (res_status res = STATUS_ACCEPTED \<longrightarrow> durable (fake_hist s' (log_of subject)) (wire_id cfg data)) \<and>
    (fake_hist s' = fake_hist s \<or>
     (\<exists>tenant iid self cmd e. hc_validate cfg i subject data = Inr (tenant, iid, self, cmd) \<and>
        fake_hist s' = (fake_hist s)(log_of subject := fake_hist s (log_of subject) @ [e]) \<and>
        legal_append (fake_hist s (log_of subject)) e \<and>
        admitted True True (isAuthenticated i \<and> RoleOf i \<noteq> RoleTrustedBackend \<and> cmd_type cmd \<noteq> T_started)
            self tenant cmd (hashPayload cfg cmd) (fake_hist s (log_of subject)) e))"
proof -
  have rel: "True \<longrightarrow> reliable (fake_port unm)" by (simp add: fake_reliable)
  note h = log_store.HandleCommand_ordinary [OF fake_log_store [of unm "c_marshal cfg", OF codec] refl assms(2-5) rel assms(6) run]
  show ?thesis
  proof (cases "fake_untouched s s'")
    case True
    with h show ?thesis by (simp add: untouched_def)
  next
    case False
    with h obtain tenant iid self cmd where v: "hc_validate cfg i subject data = Inr (tenant, iid, self, cmd)"
      and c: "contributes fake_hist fake_untouched (log_of subject)
         (admitted True True (isAuthenticated i \<and> RoleOf i \<noteq> RoleTrustedBackend \<and> cmd_type cmd \<noteq> T_started)
            self tenant cmd (hashPayload cfg cmd)) s s'" by blast
    from contributes_untouched [OF c] v h show ?thesis by blast
  qed
qed

text \<open>One call on the in-memory store keeps every invariant, whatever it is.\<close>

lemma HandleCommand_fake:
  fixes cfg :: "'b router_cfg"
  assumes codec: "\<And>e. unm (c_marshal cfg e) = Some e"
    and "fake_inv s" "logs_ok fake_hist s" "router_ok fake_hist fake_stamped True (c_maxResults cfg) s r"
    "clean_tenant subject" "first_time cfg (fake_hist s (log_of subject)) data"
    and run: "HandleCommand cfg (fake_port unm) i subject data r s = (res, r', s')"
  shows "fake_inv s' \<and> grows fake_hist fake_stamped s s' \<and>
    router_ok fake_hist fake_stamped True (c_maxResults cfg) s' r' \<and>
    ((\<forall>subj. ids_once (fake_hist s subj)) \<longrightarrow> (\<forall>subj. ids_once (fake_hist s' subj)))"
proof (cases "isParticipationCommand (wire_type cfg data)")
  case False
  note h = ordinary_fake [OF codec assms(2-5) False run]
  then have "fake_hist s' = fake_hist s \<or> (\<exists>e. fake_hist s' = (fake_hist s)(log_of subject := fake_hist s (log_of subject) @ [e]) \<and>
      \<not> durable (fake_hist s (log_of subject)) (ev_command_id e))"
    by (auto simp: admitted_def command_fact_def)
  then show ?thesis using h by (auto simp: ids_once_def durable_ids)
next
  case True
  note h = log_store.HandleCommand_participation [OF fake_log_store [of unm "c_marshal cfg", OF codec] fake_solo fake_reliable refl assms(2-5) True assms(6) run]
  have "ids_once (fake_hist s' subj)" if "\<And>subj. ids_once (fake_hist s subj)" for subj
  proof (cases "fake_hist s' = fake_hist s")
    case True
    with that show ?thesis by simp
  next
    case False
    with h obtain tenant iid self cmd pd facts part es where l: "hc_validate cfg i subject data = Inr (tenant, iid, self, cmd)"
      "decode_participation cfg (cmd_data cmd) = Some pd" "participation_facts (cmd_type cmd) pd = Inr facts"
      "prefix part facts" "landed cfg tenant self pd cmd part es"
      "fake_hist s' = (fake_hist s)(log_of subject := fake_hist s (log_of subject) @ es)" by blast
    have fr: "\<forall>f \<in> set part. \<not> durable (fake_hist s (log_of subject)) (sub_id (cmd_id cmd) f)"
      using assms(6) hc_validate_Inr(2) [OF l(1)] l(2-4) by (auto simp: first_time_def list_all_iff dest: set_mono_prefix)
    have "set (map ev_command_id (fake_hist s (log_of subject))) \<inter> set (map ev_command_id es) = {}"
      using fr unfolding landed_ids [OF l(5)] durable_ids set_map [of "sub_id (cmd_id cmd)"] by blast
    then have "ids_once (fake_hist s (log_of subject) @ es)"
      using that [of "log_of subject"] landed_ids [OF l(5)] participation_ids_distinct [OF l(3,4), of "cmd_id cmd"]
      by (simp only: ids_once_def map_append distinct_append simp_thms)
    then show ?thesis using that [of subj] l(6) by simp
  qed
  with h show ?thesis by blast
qed

end
