(* ===== verification/Router_System.thy ===== *)
theory Router_System
  imports Router_Theorems
begin

text \<open>
  Any number of routers over one log: a step is one command handled by one of them, or a restart that
  loses its cache. The routers share nothing but the log, so a router's cache may be
  arbitrarily stale when it handles a command; the optimistic concurrency and the dedup have to
  make up for it.
\<close>

type_synonym fleet = "(nat \<Rightarrow> router) \<times> fake_store"

inductive fleet_step :: "(nat \<Rightarrow> 'b router_cfg) \<Rightarrow> ('b \<Rightarrow> event option) \<Rightarrow> fleet \<Rightarrow> fleet \<Rightarrow> bool"
  for cfgs unm where
  command: "HandleCommand (cfgs k) (fake_port unm) i subject data (rs k) s = (res, r', s') \<Longrightarrow>
     clean_tenant subject \<Longrightarrow> first_time (cfgs k) (fake_hist s (log_of subject)) data \<Longrightarrow>
     fleet_step cfgs unm (rs, s) (rs(k := r'), s')"
| restart: "fleet_step cfgs unm (rs, s) (rs(k := NewRouter), s)"

inductive reachable :: "(nat \<Rightarrow> 'b router_cfg) \<Rightarrow> ('b \<Rightarrow> event option) \<Rightarrow> fleet \<Rightarrow> bool"
  for cfgs unm where
  start: "reachable cfgs unm (\<lambda>_. NewRouter, newFakeStore)"
| step: "reachable cfgs unm f \<Longrightarrow> fleet_step cfgs unm f f' \<Longrightarrow> reachable cfgs unm f'"

definition fleet_ok :: "(nat \<Rightarrow> 'b router_cfg) \<Rightarrow> fleet \<Rightarrow> bool" where
  "fleet_ok cfgs f \<longleftrightarrow>
     fake_inv (snd f) \<and> logs_ok fake_hist (snd f) \<and> (\<forall>subj. ids_once (fake_hist (snd f) subj)) \<and>
     (\<forall>k. router_ok fake_hist fake_stamped True (c_maxResults (cfgs k)) (snd f) (fst f k))"

lemma router_ok_new [simp]: "router_ok hist stamped pc mx s NewRouter"
  by (simp add: router_ok_def NewRouter_def)

lemma fake_hist_new [simp]: "fake_hist newFakeStore subj = []"
  by (simp add: fake_hist_def newFakeStore_def map_get_def)

lemma fleet_ok_start: "fleet_ok cfgs (\<lambda>_. NewRouter, newFakeStore)"
  by (simp add: fleet_ok_def logs_ok_def ids_once_def)

lemma fleet_ok_step:
  assumes "fleet_step cfgs unm f f'" "\<And>k e. unm (c_marshal (cfgs k) e) = Some e" "fleet_ok cfgs f"
  shows "fleet_ok cfgs f'"
  using assms(1)
proof cases
  case (command k i subject data rs s res r' s')
  have ok: "fake_inv s" "logs_ok fake_hist s" "\<forall>subj. ids_once (fake_hist s subj)"
    "\<And>j. router_ok fake_hist fake_stamped True (c_maxResults (cfgs j)) s (rs j)"
    using assms(3) command(1) by (auto simp: fleet_ok_def)
  note h = HandleCommand_fake [OF assms(2) ok(1,2) ok(4) command(4,5,3)]
  have "router_ok fake_hist fake_stamped True (c_maxResults (cfgs j)) s' ((rs(k := r')) j)" for j
    using h router_ok_grows [OF ok(4) [of j]] by (cases "j = k") auto
  moreover have "logs_ok fake_hist s'" using h logs_ok_grows [OF ok(2)] by blast
  ultimately show ?thesis using h ok(3) command(2) by (simp add: fleet_ok_def)
next
  case (restart rs s k)
  with assms(3) show ?thesis by (auto simp: fleet_ok_def)
qed

lemma fleet_ok_reachable:
  assumes "reachable cfgs unm f" "\<And>k e. unm (c_marshal (cfgs k) e) = Some e"
  shows "fleet_ok cfgs f"
  using assms(1) by induction (auto intro: fleet_ok_start fleet_ok_step assms(2))

lemma fleet_ok_parts:
  assumes "fleet_ok cfgs (rs, s)"
  shows "fake_inv s" "logs_ok fake_hist s"
    "router_ok fake_hist fake_stamped True (c_maxResults (cfgs k)) s (rs k)"
  using assms by (simp_all add: fleet_ok_def)

end
