(* ===== verification/Router_Demo.thy ===== *)
theory Router_Demo
  imports Router_System
begin

text \<open>
  A concrete conversation, on which the theorems about the router are exercised: an agent starts an
  interaction, the backend assigns it, the agent writes, the backend transfers it and the new
  agent ends it. The codecs are the simplest functions that have the assumed behaviour: facts
  are stored as they are, and a command is named on the wire by a word.
\<close>

definition demo_command :: "string \<Rightarrow> string \<Rightarrow> string \<Rightarrow> bytes \<Rightarrow> command" where
  "demo_command cid actor typ data =
     \<lparr>cmd_id = cid, cmd_tenant = ''t'', cmd_actor = actor, cmd_type = typ, cmd_medium = '''',
      cmd_ref_id = '''', cmd_data = data\<rparr>"

definition demo_wire :: "bytes \<Rightarrow> command option" where
  "demo_wire data =
     (if data = ''start'' then Some (demo_command ''c1'' ''a'' T_started '''')
      else if data = ''assign'' then Some (demo_command ''c2'' '''' ''participant.assign'' ''a'')
      else if data = ''say'' then Some (demo_command ''c3'' ''a'' ''message.sent'' ''hi'')
      else if data = ''move'' then Some (demo_command ''c4'' '''' ''participant.transfer'' ''ba'')
      else if data = ''end'' then Some (demo_command ''c5'' ''b'' T_ended '''')
      else None)"

definition demo_json :: "bytes \<Rightarrow> participation_data option" where
  "demo_json data =
     Some \<lparr>pd_agent = take 1 data, pd_from = drop 1 data, pd_reason = '''', pd_request_id = ''''\<rparr>"

definition demo_cfg :: "event router_cfg" where
  "demo_cfg = \<lparr>c_devMode = False, c_maxInter = 2, c_maxResults = 8,
     c_idleTTL = defaultIdleTTL, c_maxRefold = 2, c_marshal = (\<lambda>e. e),
     c_unmarshal_cmd = demo_wire, c_digest = (\<lambda>b. b), c_json = demo_json, c_now = int,
     c_new_id = (\<lambda>n. replicate n CHR ''e'')\<rparr>"

definition demo_agent :: "string \<Rightarrow> identity" where
  "demo_agent u = \<lparr>id_tenant = ''t'', id_user = u, id_role = RoleAgent,
     id_capability = CapabilityAgentFeed, id_conversation = '''', id_expires_at = 0\<rparr>"

definition demo_backend :: identity where
  "demo_backend = \<lparr>id_tenant = ''t'', id_user = ''desk'', id_role = RoleTrustedBackend,
     id_capability = '''', id_conversation = '''', id_expires_at = 0\<rparr>"

definition demo_subject :: "string \<Rightarrow> string" where
  "demo_subject u = cmd_subject ''t'' ''i'' u"

definition demo_log :: string where
  "demo_log = logSubjectFor ''t'' ''i''"

definition demo_step :: "identity \<Rightarrow> string \<Rightarrow> router \<times> fake_store \<Rightarrow> router \<times> fake_store" where
  "demo_step i data c =
     snd (HandleCommand demo_cfg (fake_port Some) i (demo_subject (id_user i)) data (fst c) (snd c))"

text \<open>
  The conversation after its first commands. Router 0 starts the interaction, router 1 handles the
  assignment and the message, and router 0, whose cache is stale by then, the transfer.
\<close>

definition demo_started :: "router \<times> fake_store" where
  "demo_started = demo_step (demo_agent ''a'') ''start'' (NewRouter, newFakeStore)"

definition demo_assigned :: "router \<times> fake_store" where
  "demo_assigned = demo_step demo_backend ''assign'' (NewRouter, snd demo_started)"

definition demo_spoken :: "router \<times> fake_store" where
  "demo_spoken = demo_step (demo_agent ''a'') ''say'' demo_assigned"

definition demo_moved :: "router \<times> fake_store" where
  "demo_moved = demo_step demo_backend ''move'' (fst demo_started, snd demo_spoken)"

lemma demo_subject_clean: "clean_tenant (demo_subject ''a'')" "clean_tenant (demo_subject ''desk'')"
  by code_simp+

lemma demo_log_of: "log_of (demo_subject ''a'') = demo_log" "log_of (demo_subject ''desk'') = demo_log"
  by code_simp+

lemma demo_users [simp]: "id_user (demo_agent u) = u" "id_user demo_backend = ''desk''"
  by (simp_all add: demo_agent_def demo_backend_def)

lemma demo_cfg_codec: "Some (c_marshal demo_cfg e) = Some e"
  by (simp add: demo_cfg_def)

lemma demo_first_time:
  "first_time demo_cfg [] ''start''"
  "first_time demo_cfg (fake_hist (snd demo_started) demo_log) ''assign''"
  "first_time demo_cfg (fake_hist (snd demo_assigned) demo_log) ''say''"
  "first_time demo_cfg (fake_hist (snd demo_spoken) demo_log) ''move''"
  by code_simp+

lemma demo_step_run:
  "HandleCommand demo_cfg (fake_port Some) i (demo_subject (id_user i)) data r s =
     (fst (HandleCommand demo_cfg (fake_port Some) i (demo_subject (id_user i)) data r s),
      fst (demo_step i data (r, s)), snd (demo_step i data (r, s)))"
  by (simp add: demo_step_def)

lemma demo_reachable_step:
  assumes "reachable (\<lambda>_. demo_cfg) Some (rs, s)" "clean_tenant (demo_subject (id_user i))"
    "first_time demo_cfg (fake_hist s (log_of (demo_subject (id_user i)))) data"
  shows "reachable (\<lambda>_. demo_cfg) Some
    (rs(k := fst (demo_step i data (rs k, s))), snd (demo_step i data (rs k, s)))"
proof (rule reachable.step [OF assms(1)])
  show "fleet_step (\<lambda>_. demo_cfg) Some (rs, s) (rs(k := fst (demo_step i data (rs k, s))), snd (demo_step i data (rs k, s)))"
    by (rule fleet_step.command [where i = i and data = data and subject = "demo_subject (id_user i)", OF demo_step_run])
      (use assms(2,3) in simp_all)
qed

lemma demo_reachable:
  "reachable (\<lambda>_. demo_cfg) Some ((\<lambda>_. NewRouter)(0 := fst demo_started), snd demo_started)"
  "reachable (\<lambda>_. demo_cfg) Some
     ((\<lambda>_. NewRouter)(0 := fst demo_started, 1 := fst demo_assigned), snd demo_assigned)"
  "reachable (\<lambda>_. demo_cfg) Some
     ((\<lambda>_. NewRouter)(0 := fst demo_started, 1 := fst demo_spoken), snd demo_spoken)"
  "reachable (\<lambda>_. demo_cfg) Some
     ((\<lambda>_. NewRouter)(1 := fst demo_spoken, 0 := fst demo_moved), snd demo_moved)"
proof -
  show 1: "reachable (\<lambda>_. demo_cfg) Some ((\<lambda>_. NewRouter)(0 := fst demo_started), snd demo_started)"
    using demo_reachable_step [OF reachable.start, of "demo_agent ''a''" "''start''" 0]
    by (simp add: demo_subject_clean demo_log_of demo_first_time demo_started_def)
  show 2: "reachable (\<lambda>_. demo_cfg) Some
      ((\<lambda>_. NewRouter)(0 := fst demo_started, 1 := fst demo_assigned), snd demo_assigned)"
    using demo_reachable_step [OF 1, of demo_backend "''assign''" 1]
    by (simp add: demo_subject_clean demo_log_of demo_first_time demo_assigned_def)
  show 3: "reachable (\<lambda>_. demo_cfg) Some
      ((\<lambda>_. NewRouter)(0 := fst demo_started, 1 := fst demo_spoken), snd demo_spoken)"
    using demo_reachable_step [OF 2, of "demo_agent ''a''" "''say''" 1]
    by (simp add: demo_subject_clean demo_log_of demo_first_time demo_spoken_def)
  show "reachable (\<lambda>_. demo_cfg) Some
     ((\<lambda>_. NewRouter)(1 := fst demo_spoken, 0 := fst demo_moved), snd demo_moved)"
    using demo_reachable_step [OF 3, of demo_backend "''move''" 0]
    by (simp add: demo_subject_clean demo_log_of demo_first_time demo_moved_def fun_upd_twist)
qed

end
