(* ===== verification/Router_Claims.thy ===== *)
theory Router_Claims
  imports Router_Demo
begin

text \<open>The properties of the signaling core, each with the conversation of \<open>Router_Demo\<close> as its witness.\<close>

section \<open>The log of a fleet of routers\<close>




section \<open>One command while other routers write and acknowledgements get lost\<close>

text \<open>
  \<^bold>\<open>C2.\<close> Handling an ordinary command against a store that other routers write to between any two of
  its calls, and whose answers may be lost, keeps every log legal: each log only ever grows by facts
  that are numbered next and allowed by the lifecycle. The router's cached states stay faithful to
  a prefix of their logs, and an accepted command is durable: the log holds a fact of it.
\<close>

theorem raced_command_safe:
  assumes "\<And>e. unm (c_marshal cfg e) = Some e"
    and "race_inv s" "logs_ok race_hist s" "router_ok race_hist race_stamped False (c_maxResults cfg) s r"
    and "clean_tenant subject" "\<not> isParticipationCommand (wire_type cfg data)"
    and "HandleCommand cfg (race_port unm) i subject data r s = (res, r', s')"
  shows "race_inv s' \<and> (\<forall>subj. evolves (race_hist s subj) (race_hist s' subj)) \<and> logs_ok race_hist s' \<and>
    router_ok race_hist race_stamped False (c_maxResults cfg) s' r' \<and>
    (res_status res = STATUS_ACCEPTED \<longrightarrow> durable (race_hist s' (log_of subject)) (wire_id cfg data))"
proof -
  have "False \<longrightarrow> reliable (race_port unm)" by simp
  note h = log_store.HandleCommand_ordinary [OF race_log_store [of unm "c_marshal cfg", OF assms(1)] refl
    assms(2-5) this assms(6,7)]
  then show ?thesis using logs_ok_grows [OF assms(3)] by (auto simp: grows_def)
qed

text \<open>
  The agent starts the interaction and the acknowledgement of its append is lost; the router finds
  its fact in the log and accepts.
\<close>

definition demo_raced :: race_store where
  "demo_raced = \<lparr>rs_store = newFakeStore, rs_script = [([], NoFault), ([], AckLost), ([], NoFault)]\<rparr>"

definition demo_race_result :: "cmd_result \<times> router \<times> race_store" where
  "demo_race_result =
     HandleCommand demo_cfg (race_port Some) (demo_agent ''a'') (demo_subject ''a'') ''start'' NewRouter demo_raced"

lemma demo_race_facts:
  "res_status (fst demo_race_result) = STATUS_ACCEPTED"
  "\<not> isParticipationCommand (wire_type demo_cfg ''start'')" "wire_id demo_cfg ''start'' = ''c1''"
  by code_simp+

theorem raced_command_safe_witness:
  "logs_ok race_hist (snd (snd demo_race_result)) \<and>
   durable (race_hist (snd (snd demo_race_result)) demo_log) ''c1''"
proof -
  have run: "HandleCommand demo_cfg (race_port Some) (demo_agent ''a'') (demo_subject ''a'') ''start'' NewRouter demo_raced =
     (fst demo_race_result, fst (snd demo_race_result), snd (snd demo_race_result))"
    by (simp add: demo_race_result_def)
  have "race_inv demo_raced" "logs_ok race_hist demo_raced"
    by (simp_all add: demo_raced_def logs_ok_def)
  from raced_command_safe [OF demo_cfg_codec this router_ok_new demo_subject_clean(1) demo_race_facts(2) run]
  show ?thesis using demo_race_facts by (simp add: demo_log_of)
qed

section \<open>Who may write\<close>









section \<open>Privileged commands\<close>

text \<open>
  \<^bold>\<open>C13.\<close> A first-time transfer that is accepted was sent by a trusted backend and appended exactly two
  facts, \<open>participant.joined\<close> of the new agent before \<open>participant.left\<close> of the old one, both
  attributed to the command and its sender. If the old agent was a participant and is not the new
  one, then at every point of the log from before the transfer to after it one of the two is.
\<close>

theorem transfer_has_no_gap:
  assumes "\<And>e. unm (c_marshal cfg e) = Some e"
    and "fake_inv s" "logs_ok fake_hist s" "router_ok fake_hist fake_stamped True (c_maxResults cfg) s r"
    and "clean_tenant subject" "c_unmarshal_cmd cfg data = Some cmd" "cmd_type cmd = ''participant.transfer''"
    and "first_time cfg (fake_hist s (log_of subject)) data"
    and "HandleCommand cfg (fake_port unm) i subject data r s = (res, r', s')" "res_status res = STATUS_ACCEPTED"
  shows "RoleOf i = RoleTrustedBackend \<and>
    (\<exists>pd e1 e2. decode_participation cfg (cmd_data cmd) = Some pd \<and>
       fake_hist s' = (fake_hist s)(log_of subject := fake_hist s (log_of subject) @ [e1, e2]) \<and>
       ev_type e1 = T_joined \<and> ev_actor e1 = pd_agent pd \<and> ev_type e2 = T_left \<and> ev_actor e2 = pd_from pd \<and>
       ev_caused_by e1 = cmd_id cmd \<and> ev_caused_by e2 = cmd_id cmd \<and>
       (member_after (fake_hist s (log_of subject)) (pd_from pd) \<longrightarrow> pd_agent pd \<noteq> pd_from pd \<longrightarrow>
          (\<forall>P \<in> {fake_hist s (log_of subject), fake_hist s (log_of subject) @ [e1], fake_hist s (log_of subject) @ [e1, e2]}.
             member_after P (pd_from pd) \<or> member_after P (pd_agent pd))))"
proof -
  have ty: "isParticipationCommand (wire_type cfg data)"
    using assms(6,7) by (simp add: wire_type_def isParticipationCommand_def)
  note h = log_store.HandleCommand_participation [OF fake_log_store [of unm "c_marshal cfg", OF assms(1)] fake_solo
    fake_reliable refl assms(2-5) ty assms(8,9)]
  then obtain tenant iid self cmd' pd facts es where v: "hc_validate cfg i subject data = Inr (tenant, iid, self, cmd')"
    and role: "RoleOf i = RoleTrustedBackend" and d: "decode_participation cfg (cmd_data cmd') = Some pd"
    and f: "participation_facts (cmd_type cmd') pd = Inr facts" and l: "landed cfg tenant self pd cmd' facts es"
    and s': "fake_hist s' = (fake_hist s)(log_of subject := fake_hist s (log_of subject) @ es)"
    using assms(10) by blast
  have cmd': "cmd' = cmd" using hc_validate_Inr(2) [OF v] assms(6) by simp
  have "facts = [(T_joined, pd_agent pd), (T_left, pd_from pd)]"
    using f assms(7) cmd' by (auto simp: participation_facts_def split: if_splits)
  with l obtain e1 e2 where es: "es = [e1, e2]"
    and e1: "participation_fact tenant self (cmd_id cmd') pd (fact_command tenant cmd' (T_joined, pd_agent pd))
       (hashPayload cfg (fact_command tenant cmd' (T_joined, pd_agent pd))) e1"
    and e2: "participation_fact tenant self (cmd_id cmd') pd (fact_command tenant cmd' (T_left, pd_from pd))
       (hashPayload cfg (fact_command tenant cmd' (T_left, pd_from pd))) e2"
    by (auto simp: landed_def list_all2_Cons1)
  have c: "ev_type e1 = T_joined" "ev_actor e1 = pd_agent pd" "ev_caused_by e1 = cmd_id cmd"
    "ev_type e2 = T_left" "ev_actor e2 = pd_from pd" "ev_caused_by e2 = cmd_id cmd"
    using e1 e2 cmd' by (auto simp: participation_fact_def)
  have m: "member_after (L @ [e1]) (pd_agent pd)" "pd_agent pd \<noteq> pd_from pd \<longrightarrow> member_after (L @ [e1, e2]) (pd_agent pd)" for L
    using c member_after_snoc [of L e1] member_after_snoc [of "L @ [e1]" e2] by (auto simp: concerns_def)
  show ?thesis
    using role d [unfolded cmd'] s' [unfolded es] c m
    by (intro conjI exI [of _ pd] exI [of _ e1] exI [of _ e2]) auto
qed

lemma demo_move_facts:
  "c_unmarshal_cmd demo_cfg ''move'' = Some (demo_command ''c4'' '''' ''participant.transfer'' ''ba'')"
  "res_status (fst (HandleCommand demo_cfg (fake_port Some) demo_backend (demo_subject ''desk'') ''move''
     (fst demo_started) (snd demo_spoken))) = STATUS_ACCEPTED"
  "decode_participation demo_cfg ''ba'' =
     Some \<lparr>pd_agent = ''b'', pd_from = ''a'', pd_reason = '''', pd_request_id = ''''\<rparr>"
  by code_simp+

lemma demo_spoken_ok:
  "fake_inv (snd demo_spoken)" "logs_ok fake_hist (snd demo_spoken)"
  "router_ok fake_hist fake_stamped True (c_maxResults demo_cfg) (snd demo_spoken) (fst demo_started)"
proof -
  note ok = fleet_ok_parts [OF fleet_ok_reachable [OF demo_reachable(3) demo_cfg_codec]]
  show "fake_inv (snd demo_spoken)" "logs_ok fake_hist (snd demo_spoken)" by (fact ok)+
  show "router_ok fake_hist fake_stamped True (c_maxResults demo_cfg) (snd demo_spoken) (fst demo_started)"
    using ok(3) [of 0] by simp
qed

theorem transfer_has_no_gap_witness:
  "\<exists>e1 e2. fake_hist (snd demo_moved) =
     (fake_hist (snd demo_spoken))(demo_log := fake_hist (snd demo_spoken) demo_log @ [e1, e2]) \<and>
     ev_type e1 = T_joined \<and> ev_actor e1 = ''b'' \<and> ev_type e2 = T_left \<and> ev_actor e2 = ''a''"
proof -
  have run: "HandleCommand demo_cfg (fake_port Some) demo_backend (demo_subject ''desk'') ''move''
      (fst demo_started) (snd demo_spoken) =
     (fst (HandleCommand demo_cfg (fake_port Some) demo_backend (demo_subject ''desk'') ''move''
      (fst demo_started) (snd demo_spoken)), fst demo_moved, snd demo_moved)"
    using demo_step_run [of demo_backend "''move''" "fst demo_started" "snd demo_spoken"] by (simp add: demo_moved_def)
  have ty: "cmd_type (demo_command ''c4'' '''' ''participant.transfer'' ''ba'') = ''participant.transfer''"
    and data: "cmd_data (demo_command ''c4'' '''' ''participant.transfer'' ''ba'') = ''ba''"
    by (simp_all add: demo_command_def)
  have ft: "first_time demo_cfg (fake_hist (snd demo_spoken) (log_of (demo_subject ''desk''))) ''move''"
    using demo_first_time(4) by (simp add: demo_log_of)
  show ?thesis
    using transfer_has_no_gap [OF demo_cfg_codec demo_spoken_ok demo_subject_clean(2) demo_move_facts(1) ty ft run
        demo_move_facts(2)]
    unfolding data demo_move_facts(3) demo_log_of by auto
qed

end
