(* ===== verification/Router_Bounds.thy ===== *)
theory Router_Bounds
  imports Router_Cache Router_Participation
begin

text \<open>
  The bounds of the router's in-process caches, on any port whatever: no law of the store is used, so
  they hold even when the broker misbehaves.
\<close>

definition st_tidy :: "nat \<Rightarrow> istate \<Rightarrow> bool" where
  "st_tidy mx st \<longleftrightarrow> cache_ok st \<and> cache_bounded mx st"

definition router_tidy :: "'b router_cfg \<Rightarrow> router \<Rightarrow> bool" where
  "router_tidy cfg r \<longleftrightarrow>
     wf_map (rt_inter r) \<and> (0 < c_maxInter cfg \<longrightarrow> length (rt_inter r) \<le> c_maxInter cfg) \<and>
     (\<forall>k st. (k, st) \<in> set (rt_inter r) \<longrightarrow> st_tidy (c_maxResults cfg) st)"

lemma tidy_cong: "is_results st' = is_results st \<Longrightarrow> is_order st' = is_order st \<Longrightarrow> st_tidy mx st' = st_tidy mx st"
  by (simp add: st_tidy_def cache_ok_def cache_bounded_def)

lemma tidy_putResult [simp]: "st_tidy mx st \<Longrightarrow> st_tidy mx (putResult st c sr mx)"
  using putResult_ok [of st c sr mx] by (simp add: st_tidy_def)

lemma tidy_copy_missing: "st_tidy mx st \<Longrightarrow> st_tidy mx (copy_missing st ids fresh mx)"
  by (induction st ids fresh mx rule: copy_missing.induct) (auto split: option.splits)

lemma tidy_adopt [simp]: "st_tidy mx st \<Longrightarrow> st_tidy mx (adopt st fresh mx)"
  unfolding adopt_def copyMissingResults_def by (rule tidy_copy_missing) (simp cong: tidy_cong)

lemma tidy_poison [simp]: "st_tidy mx (poison st) = st_tidy mx st"
  by (rule tidy_cong) (simp_all add: poison_def)

lemma tidy_fields [simp]:
  "st_tidy mx (st\<lparr>is_seq := a\<rparr>) = st_tidy mx st" "st_tidy mx (st\<lparr>is_stream_seq := b\<rparr>) = st_tidy mx st"
  "st_tidy mx (st\<lparr>is_status := c\<rparr>) = st_tidy mx st" "st_tidy mx (st\<lparr>is_part := d\<rparr>) = st_tidy mx st"
  "st_tidy mx (st\<lparr>is_last_used := t\<rparr>) = st_tidy mx st" "st_tidy mx (st\<lparr>is_parents := p\<rparr>) = st_tidy mx st"
  "st_tidy mx (applyTransition st ty) = st_tidy mx st"
  by (rule tidy_cong; simp add: applyTransition_def)+

lemma tidy_state_of_log [simp]: "st_tidy mx (state_of_log mx oid facts t)"
  using state_of_log_ok(1) [of mx facts oid t] by (simp add: cached_ok_def st_tidy_def)

lemma rebuild_inter:
  "rebuild cfg lp tenant iid r s = (out, r', s') \<Longrightarrow> rt_inter r' = rt_inter r"
  by (auto simp: rebuild_def split: sum.splits prod.splits)

lemma tidy_rebuild:
  "rebuild cfg lp tenant iid r s = (Inr fresh, r', s') \<Longrightarrow> st_tidy (c_maxResults cfg) fresh"
  by (auto simp: rebuild_def split: sum.splits prod.splits)

lemma router_tidy_cong: "rt_inter r' = rt_inter r \<Longrightarrow> router_tidy cfg r' = router_tidy cfg r"
  by (simp add: router_tidy_def)

lemma router_tidy_evict [simp]: "router_tidy cfg r \<Longrightarrow> router_tidy cfg (evict tenant iid r)"
  using set_delete_subset [of "state_key tenant iid" "rt_inter r"]
  by (auto simp: router_tidy_def evict_def distinct_delete length_delete_distinct)

lemma router_tidy_update:
  assumes "router_tidy cfg r" "map_of (rt_inter r) key = Some cur" "st_tidy (c_maxResults cfg) st"
    "rt_inter r' = AList.update key st (rt_inter r)"
  shows "router_tidy cfg r'"
proof -
  have "length (AList.update key st (rt_inter r)) = length (rt_inter r)"
    using map_of_Some_keys [OF assms(2)] unfolding length_update by (simp only: if_True)
  with assms set_update_subset [of key st "rt_inter r"] show ?thesis
    by (auto simp: router_tidy_def distinct_update)
qed

text \<open>What each handler does to the object it holds and to the map.\<close>

definition keeps_tidy :: "'b router_cfg \<Rightarrow> istate \<Rightarrow> router \<Rightarrow> istate \<Rightarrow> router \<Rightarrow> bool" where
  "keeps_tidy cfg st r st' r' \<longleftrightarrow>
     (st_tidy (c_maxResults cfg) st \<longrightarrow> st_tidy (c_maxResults cfg) st') \<and> (router_tidy cfg r \<longrightarrow> router_tidy cfg r')"

lemma hc_append_tidy:
  assumes "hc_append cfg lp tenant iid cmd ph attempt st r s = (out, st', r', s')"
  shows "keeps_tidy cfg st r st' r'"
proof -
  obtain ev r1 where ev: "command_event cfg tenant cmd ph st r = (ev, r1)"
    by (cases "command_event cfg tenant cmd ph st r")
  then have r1: "rt_inter r1 = rt_inter r" by (auto simp: command_event_def new_id_def now_def)
  obtain o1 s1 where app: "lp_append lp s (logSubjectFor tenant iid) (c_marshal cfg ev)
      (dedup_id tenant iid (cmd_id cmd)) (is_stream_seq st) = (o1, s1)"
    by (cases "lp_append lp s (logSubjectFor tenant iid) (c_marshal cfg ev)
      (dedup_id tenant iid (cmd_id cmd)) (is_stream_seq st)")
  obtain o2 r2 s2 where rb: "rebuild cfg lp tenant iid r1 s1 = (o2, r2, s2)"
    by (cases "rebuild cfg lp tenant iid r1 s1")
  have r2: "router_tidy cfg r2 = router_tidy cfg r" "router_tidy cfg r1 = router_tidy cfg r"
    using rebuild_inter [OF rb] r1 by (simp_all add: router_tidy_def)
  show ?thesis
    using assms r2
    by (auto simp: hc_append_def ev app rb keeps_tidy_def split: sum.splits append_err.splits option.splits if_splits prod.splits)
qed

lemma hc_attempt_tidy:
  assumes "hc_attempt cfg lp tenant iid self gate cmd ph attempt st r s = (out, st', r', s')"
  shows "keeps_tidy cfg st r st' r'"
proof (cases "hc_append cfg lp tenant iid cmd ph attempt st r s = (out, st', r', s')")
  case True
  then show ?thesis by (rule hc_append_tidy)
next
  case False
  with assms show ?thesis
    by (auto simp: hc_attempt_def hc_gate_def Let_def keeps_tidy_def split: option.splits if_splits)
qed

lemma keeps_tidy_trans: "keeps_tidy cfg st r st1 r1 \<Longrightarrow> keeps_tidy cfg st1 r1 st' r' \<Longrightarrow> keeps_tidy cfg st r st' r'"
  by (simp add: keeps_tidy_def)

lemma hc_loop_tidy:
  "hc_loop cfg lp tenant iid self gate cmd ph attempt st r s = (out, st', r', s') \<Longrightarrow> keeps_tidy cfg st r st' r'"
proof (induction cfg lp tenant iid self gate cmd ph attempt st r s arbitrary: out st' r' s' rule: hc_loop.induct)
  case (1 cfg lp tenant iid self gate cmd ph attempt st r s)
  obtain o1 st1 r1 s1 where at: "hc_attempt cfg lp tenant iid self gate cmd ph attempt st r s = (o1, st1, r1, s1)"
    by (cases "hc_attempt cfg lp tenant iid self gate cmd ph attempt st r s")
  note t = hc_attempt_tidy [OF at]
  show ?case
  proof (cases "o1 = Again")
    case True
    with 1(2) at have "hc_loop cfg lp tenant iid self gate cmd ph (Suc attempt) st1 r1 s1 = (out, st', r', s')"
      by (subst (asm) hc_loop.simps) simp
    with 1(1) at True t show ?thesis by (auto intro: keeps_tidy_trans)
  next
    case False
    with 1(2) at have "st' = st1 \<and> r' = r1"
      by (subst (asm) hc_loop.simps) (auto split: attempt_out.splits)
    with t show ?thesis by simp
  qed
qed

lemma hc_commit_tidy:
  assumes "hc_commit cfg lp tenant iid cmd ph dup n st r s = (res, st', r', s')"
  shows "keeps_tidy cfg st r st' r'"
proof -
  obtain o2 r2 s2 where rb: "rebuild cfg lp tenant iid r s = (o2, r2, s2)" by (cases "rebuild cfg lp tenant iid r s")
  have "router_tidy cfg r2 = router_tidy cfg r" using rebuild_inter [OF rb] by (simp add: router_tidy_def)
  with assms show ?thesis
    by (auto simp: hc_commit_def rb Let_def keeps_tidy_def split: if_splits sum.splits option.splits)
qed

lemma hc_locked_tidy:
  assumes "hc_locked cfg lp tenant iid self gate cmd st r s = (res, st', r', s')"
  shows "keeps_tidy cfg st r st' r'"
proof -
  obtain o1 st1 r1 s1 where lo: "hc_loop cfg lp tenant iid self gate cmd (hashPayload cfg cmd) 0 st r s = (o1, st1, r1, s1)"
    by (cases "hc_loop cfg lp tenant iid self gate cmd (hashPayload cfg cmd) 0 st r s")
  note t = hc_loop_tidy [OF lo]
  show ?thesis
  proof (cases "is_poisoned st")
    case True
    with assms show ?thesis by (auto simp: hc_locked_def keeps_tidy_def)
  next
    case False
    with assms lo t show ?thesis
      by (cases o1) (auto simp: hc_locked_def Let_def intro: keeps_tidy_trans [OF t hc_commit_tidy])
  qed
qed

lemma prune_lru_tidy:
  "set (prune_lru mx m) \<subseteq> set m \<and> (wf_map m \<longrightarrow> wf_map (prune_lru mx m)) \<and> (0 < mx \<longrightarrow> length (prune_lru mx m) \<le> mx)"
proof (induction mx m rule: prune_lru.induct)
  case (1 mx m)
  show ?case
  proof (cases "mx > 0 \<and> length m > mx")
    case True
    then have "prune_lru mx m = prune_lru mx (AList.delete (lru_key m) m)" by (subst prune_lru.simps) simp
    with 1 True set_delete_subset [of "lru_key m" m] show ?thesis by (auto simp: distinct_delete)
  next
    case False
    then have "prune_lru mx m = m" by (subst prune_lru.simps) auto
    with False show ?thesis by auto
  qed
qed

lemma getState_tidy:
  assumes "getState cfg lp tenant iid r s = (out, r', s')" "router_tidy cfg r"
  shows "router_tidy cfg r' \<and> (\<forall>st. out = Inr st \<longrightarrow> st_tidy (c_maxResults cfg) st)"
proof (cases "map_of (rt_inter r) (state_key tenant iid)")
  case (Some st)
  have st: "st_tidy (c_maxResults cfg) st" using map_of_SomeD [OF Some] assms(2) by (auto simp: router_tidy_def)
  have out: "out = Inr (st\<lparr>is_last_used := c_now cfg (rt_ticks r)\<rparr>)"
    "rt_inter r' = AList.update (state_key tenant iid) (st\<lparr>is_last_used := c_now cfg (rt_ticks r)\<rparr>) (rt_inter r)"
    using assms(1) Some by (auto simp: getState_def now_def Let_def)
  have "router_tidy cfg r'" by (rule router_tidy_update [OF assms(2) Some _ out(2)]) (simp add: st)
  with out st show ?thesis by simp
next
  case None
  obtain o1 r1 s1 where rb: "rebuild cfg lp tenant iid r s = (o1, r1, s1)" by (cases "rebuild cfg lp tenant iid r s")
  show ?thesis
  proof (cases o1)
    case (Inl err)
    with assms None rb rebuild_inter [OF rb] show ?thesis by (auto simp: getState_def router_tidy_def)
  next
    case (Inr built)
    let ?b = "built\<lparr>is_last_used := c_now cfg (rt_ticks r1)\<rparr>"
    let ?u = "AList.update (state_key tenant iid) ?b (rt_inter r)"
    have b: "st_tidy (c_maxResults cfg) ?b" using tidy_rebuild rb Inr by auto
    have u: "wf_map ?u" "\<And>k st. (k, st) \<in> set ?u \<Longrightarrow> st_tidy (c_maxResults cfg) st"
      using assms(2) b set_update_subset [of "state_key tenant iid" ?b "rt_inter r"]
      by (auto simp: router_tidy_def distinct_update)
    have f: "wf_map (filter Q ?u)" for Q using u(1) by (simp add: distinct_map_filter)
    have out: "out = Inr ?b" "\<exists>Q. rt_inter r' = prune_lru (c_maxInter cfg) (filter Q ?u)"
      using assms(1) None rb Inr rebuild_inter [OF rb]
      by (auto simp: getState_def now_def Let_def pruneLocked_def split: if_splits)
         (rule exI [of _ "\<lambda>_. True"], simp)
    then obtain Q where Q: "rt_inter r' = prune_lru (c_maxInter cfg) (filter Q ?u)" by blast
    from prune_lru_tidy [of "c_maxInter cfg" "filter Q ?u"] u f [of Q] b out(1)
    show ?thesis unfolding router_tidy_def Q by auto
  qed
qed

lemma write_back_tidy:
  assumes "router_tidy cfg r" "st_tidy (c_maxResults cfg) st"
  shows "router_tidy cfg (write_back key st r)"
proof (cases "map_of (rt_inter r) key")
  case (Some cur)
  have "router_tidy cfg (r\<lparr>rt_inter := AList.update key st (rt_inter r)\<rparr>)"
    using assms(1) Some assms(2) by (rule router_tidy_update) simp
  with assms(1) Some show ?thesis by (simp add: write_back_def)
qed (use assms in \<open>simp add: write_back_def\<close>)

lemma hc_ordinary_tidy:
  assumes "hc_ordinary cfg lp i tenant iid self cmd r s = (res, r', s')" "router_tidy cfg r"
  shows "router_tidy cfg r'"
proof -
  obtain o1 r1 s1 where gs: "getState cfg lp tenant iid r s = (o1, r1, s1)" by (cases "getState cfg lp tenant iid r s")
  note g = getState_tidy [OF gs assms(2)]
  show ?thesis
  proof (cases o1)
    case (Inl err)
    with assms gs g show ?thesis by (auto simp: hc_ordinary_def split: if_splits)
  next
    case (Inr st)
    obtain res1 st2 r2 s2 where lk: "hc_locked cfg lp tenant iid self
        (isAuthenticated i \<and> RoleOf i \<noteq> RoleTrustedBackend \<and> cmd_type cmd \<noteq> T_started) cmd st r1 s1 = (res1, st2, r2, s2)"
      by (cases "hc_locked cfg lp tenant iid self
        (isAuthenticated i \<and> RoleOf i \<noteq> RoleTrustedBackend \<and> cmd_type cmd \<noteq> T_started) cmd st r1 s1")
    have "router_tidy cfg (write_back (state_key tenant iid) st2 r2)"
      using hc_locked_tidy [OF lk] g Inr by (intro write_back_tidy) (auto simp: keeps_tidy_def)
    with assms gs Inr lk show ?thesis by (auto simp: hc_ordinary_def Let_def split: if_splits)
  qed
qed

lemma apf_attempt_tidy:
  assumes "apf_attempt cfg lp tenant iid commandedBy parentID pd fcmd ph attempt st r s = (out, st', r', s')"
  shows "keeps_tidy cfg st r st' r'"
proof -
  obtain ev r1 where ev: "participation_event cfg tenant commandedBy parentID pd fcmd ph st r = (ev, r1)"
    by (cases "participation_event cfg tenant commandedBy parentID pd fcmd ph st r")
  then have r1: "rt_inter r1 = rt_inter r" by (auto simp: participation_event_def new_id_def now_def)
  obtain o1 s1 where app: "lp_append lp s (logSubjectFor tenant iid) (c_marshal cfg ev)
      (dedup_id tenant iid (cmd_id fcmd)) (is_stream_seq st) = (o1, s1)"
    by (cases "lp_append lp s (logSubjectFor tenant iid) (c_marshal cfg ev)
      (dedup_id tenant iid (cmd_id fcmd)) (is_stream_seq st)")
  obtain o2 r2 s2 where rb: "rebuild cfg lp tenant iid r1 s1 = (o2, r2, s2)"
    by (cases "rebuild cfg lp tenant iid r1 s1")
  have r2: "router_tidy cfg r2 = router_tidy cfg r" "router_tidy cfg r1 = router_tidy cfg r"
    using rebuild_inter [OF rb] r1 by (simp_all add: router_tidy_def)
  have "keeps_tidy cfg st r st1 r3"
    if "apf_append cfg lp tenant iid commandedBy parentID pd fcmd ph attempt st r s = (o3, st1, r3, s3)" for o3 st1 r3 s3
    using that r2
    by (auto simp: apf_append_def ev app rb keeps_tidy_def Let_def split: sum.splits append_err.splits if_splits prod.splits)
  with assms show ?thesis
    by (auto simp: apf_attempt_def apf_try_def keeps_tidy_def split: option.splits if_splits)
qed

lemma apf_loop_tidy:
  "apf_loop cfg lp tenant iid commandedBy parentID pd fcmd ph attempt st r s = (res, st', r', s') \<Longrightarrow>
     keeps_tidy cfg st r st' r'"
proof (induction cfg lp tenant iid commandedBy parentID pd fcmd ph attempt st r s arbitrary: res st' r' s' rule: apf_loop.induct)
  case (1 cfg lp tenant iid commandedBy parentID pd fcmd ph attempt st r s)
  obtain o1 st1 r1 s1 where at: "apf_attempt cfg lp tenant iid commandedBy parentID pd fcmd ph attempt st r s = (o1, st1, r1, s1)"
    by (cases "apf_attempt cfg lp tenant iid commandedBy parentID pd fcmd ph attempt st r s")
  note t = apf_attempt_tidy [OF at]
  show ?case
  proof (cases o1)
    case None
    with 1(2) at have "apf_loop cfg lp tenant iid commandedBy parentID pd fcmd ph (Suc attempt) st1 r1 s1 = (res, st', r', s')"
      by (subst (asm) apf_loop.simps) simp
    with 1(1) at None t show ?thesis by (auto intro: keeps_tidy_trans)
  next
    case (Some res1)
    with 1(2) at have "st' = st1 \<and> r' = r1" by (subst (asm) apf_loop.simps) simp
    with t show ?thesis by simp
  qed
qed

lemma appendParticipationFact_tidy:
  assumes "appendParticipationFact cfg lp tenant iid commandedBy parentID pd fcmd r s = (res, r', s')" "router_tidy cfg r"
  shows "router_tidy cfg r'"
proof -
  obtain o1 r1 s1 where gs: "getState cfg lp tenant iid r s = (o1, r1, s1)" by (cases "getState cfg lp tenant iid r s")
  note g = getState_tidy [OF gs assms(2)]
  show ?thesis
  proof (cases "\<exists>st. o1 = Inr st \<and> \<not> is_poisoned st")
    case False
    with assms(1) gs g show ?thesis by (auto simp: appendParticipationFact_def split: sum.splits if_splits)
  next
    case True
    then obtain st where st: "o1 = Inr st" "\<not> is_poisoned st" by blast
    obtain res1 st2 r2 s2 where lo: "apf_loop cfg lp tenant iid commandedBy parentID pd fcmd (hashPayload cfg fcmd) 0 st r1 s1
        = (res1, st2, r2, s2)"
      by (cases "apf_loop cfg lp tenant iid commandedBy parentID pd fcmd (hashPayload cfg fcmd) 0 st r1 s1")
    have "router_tidy cfg (write_back (state_key tenant iid) st2 r2)"
      using apf_loop_tidy [OF lo] g st by (intro write_back_tidy) (auto simp: keeps_tidy_def)
    with assms(1) gs st lo show ?thesis by (auto simp: appendParticipationFact_def)
  qed
qed

lemma land_facts_tidy:
  "land_facts cfg lp tenant iid actor pd cmd first facts r s = (out, r', s') \<Longrightarrow> router_tidy cfg r \<Longrightarrow> router_tidy cfg r'"
proof (induction facts arbitrary: first r s)
  case (Cons f fs)
  obtain res1 r1 s1 where ap: "appendParticipationFact cfg lp tenant iid actor (cmd_id cmd) pd (fact_command tenant cmd f) r s = (res1, r1, s1)"
    by (cases "appendParticipationFact cfg lp tenant iid actor (cmd_id cmd) pd (fact_command tenant cmd f) r s")
  with Cons appendParticipationFact_tidy [OF ap] show ?case by (auto split: if_splits)
qed simp

lemma bind_parent_tidy:
  assumes "router_tidy cfg r"
  shows "router_tidy cfg (bind_parent key oid cid subs r)"
proof (cases "map_of (rt_inter r) key")
  case (Some cur)
  define cur' where "cur' = cur\<lparr>is_parents := (is_parents cur)(cid \<mapsto>
    (case is_parents cur cid of None \<Rightarrow> {} | Some b \<Rightarrow> b) \<union> subs)\<rparr>"
  have "st_tidy (c_maxResults cfg) cur'"
    using map_of_SomeD [OF Some] assms by (auto simp: router_tidy_def cur'_def)
  then have "router_tidy cfg (r\<lparr>rt_inter := AList.update key cur' (rt_inter r)\<rparr>)"
    by (rule router_tidy_update [OF assms Some]) simp
  with assms Some show ?thesis by (simp add: bind_parent_def cur'_def)
qed (use assms in \<open>simp add: bind_parent_def\<close>)

lemma HandleCommand_tidy:
  assumes "HandleCommand cfg lp i subject data r s = (res, r', s')" "router_tidy cfg r"
  shows "router_tidy cfg r'"
proof (cases "hc_validate cfg i subject data")
  case (Inl res1)
  with assms show ?thesis by (simp add: HandleCommand_def)
next
  case (Inr q)
  obtain tenant iid self cmd where q: "q = (tenant, iid, self, cmd)" by (cases q)
  show ?thesis
  proof (cases "isParticipationCommand (cmd_type cmd)")
    case False
    with assms Inr q hc_ordinary_tidy show ?thesis by (auto simp: HandleCommand_def)
  next
    case True
    obtain o1 r1 s1 where gs: "getState cfg lp tenant iid r s = (o1, r1, s1)" by (cases "getState cfg lp tenant iid r s")
    note g = getState_tidy [OF gs assms(2)]
    have "handleParticipation cfg lp tenant iid self (RoleOf i) cmd r s = (res, r', s')"
      using assms(1) Inr q True by (simp add: HandleCommand_def)
    then show ?thesis
      using assms(2) g gs
      by (auto simp: handleParticipation_def Let_def dest!: land_facts_tidy intro!: bind_parent_tidy
          split: if_splits option.splits sum.splits prod.splits)
  qed
qed

end
