(* ===== verification/Signaling_Claims.thy ===== *)
theory Signaling_Claims
  imports Router_Bounds Router_Demo
begin

text \<open>
  Properties of the building blocks of the signaling core: the command subject grammar, the payload hash's
  framing, the broker dedup ids, the membership view against its reference definition, and the
  bounds of the router's caches on any port whatever.
\<close>

section \<open>Framing of the hashed payload\<close>

text \<open>The payload fields of a command that the hash covers, and a size that any Go slice has.\<close>

definition hashed_fields :: "command \<Rightarrow> bytes list" where
  "hashed_fields c = [cmd_tenant c, cmd_actor c, cmd_type c, cmd_medium c, cmd_ref_id c, cmd_data c]"

definition sizes_ok :: "command \<Rightarrow> bool" where
  "sizes_ok c \<longleftrightarrow> (\<forall>b \<in> set (hashed_fields c). int (length b) < 2 ^ 64)"

lemma put_part_sized: "put_part = sized"
  by (simp add: put_part_def sized_def fun_eq_iff)

text \<open>
  \<^bold>\<open>C19.\<close> The bytes that \<open>hashPayload\<close> digests determine the payload: two commands whose fields have
  lengths below \<open>2^64\<close> have the same preimage exactly when they agree on tenant, actor, type, medium,
  reference and data. So no two payloads collide by moving bytes between fields.
\<close>

theorem payload_preimage_inject:
  assumes "sizes_ok c" "sizes_ok d"
  shows "payload_preimage c = payload_preimage d \<longleftrightarrow> hashed_fields c = hashed_fields d"
proof
  assume "payload_preimage c = payload_preimage d"
  then have "concat (map sized (hashed_fields c)) = concat (map sized (hashed_fields d))"
    by (simp only: payload_preimage_def hashed_fields_def put_part_sized)
  then show "hashed_fields c = hashed_fields d"
    using concat_sized_inject [of "hashed_fields c" "hashed_fields d"] assms
    by (simp add: sizes_ok_def) (simp add: hashed_fields_def)
qed (simp add: payload_preimage_def hashed_fields_def)

theorem payload_preimage_inject_witness:
  "payload_preimage (demo_command ''c'' ''ab'' ''c'' '''') \<noteq> payload_preimage (demo_command ''c'' ''a'' ''bc'' '''')"
proof -
  have s: "sizes_ok (demo_command ''c'' ''ab'' ''c'' '''')" "sizes_ok (demo_command ''c'' ''a'' ''bc'' '''')"
    by (simp_all add: sizes_ok_def hashed_fields_def demo_command_def)
  have "hashed_fields (demo_command ''c'' ''ab'' ''c'' '''') \<noteq> hashed_fields (demo_command ''c'' ''a'' ''bc'' '''')"
    by (simp add: hashed_fields_def demo_command_def)
  then show ?thesis using payload_preimage_inject [OF s] by blast
qed

section \<open>Names\<close>

text \<open>
  \<^bold>\<open>C20.\<close> \<open>parseCmdSubject\<close> accepts exactly the subjects \<open>tenant.T.interaction.I.cmd.U\<close> whose three
  tokens are non-empty and free of dots, and returns those tokens: parsing and printing are
  inverse, and everything else is a bad subject.
\<close>

theorem parseCmdSubject_inverse:
  "parseCmdSubject s = Some (t, i, u) \<longleftrightarrow>
     s = cmd_subject t i u \<and> no_dot t \<and> no_dot i \<and> no_dot u \<and> t \<noteq> '''' \<and> i \<noteq> '''' \<and> u \<noteq> ''''"
  by (rule parseCmdSubject_Some)

text \<open>
  The ids under which the broker deduplicates appends never collide between interactions or
  commands: for tenants and interactions that are subject tokens, equal ids come from the same
  tenant, interaction and command, even though a command id may itself contain dots.
\<close>

theorem dedup_id_unique:
  assumes "no_dot t" "no_dot i" "no_dot t'" "no_dot i'"
  shows "dedup_id t i c = dedup_id t' i' c' \<longleftrightarrow> t = t' \<and> i = i' \<and> c = c'"
  using assms by (rule dedup_id_inject)

theorem dedup_id_unique_witness:
  "dedup_id ''t'' ''i'' ''x.y'' \<noteq> dedup_id ''t'' ''j'' ''y''"
  using dedup_id_unique [of "''t''" "''i''" "''t''" "''j''" "''x.y''" "''y''"] by (simp add: no_dot_def)

section \<open>Membership\<close>

text \<open>
  \<^bold>\<open>C21.\<close> The interval bookkeeping of \<open>ParticipationView\<close> computes membership: after folding any list
  of facts, an agent is a participant exactly when its last participation fact is a join.
\<close>

theorem view_computes_membership:
  "IsParticipantNow (FoldParticipation facts) a \<longleftrightarrow> member_after facts a"
  by (rule IsParticipantNow_fold)

text \<open>
  \<^bold>\<open>C22.\<close> Membership intervals are exact in retrospect: in the view folded from a whole log with
  increasing sequence numbers, the intervals of an agent cover the number of a fact exactly when the
  agent was a participant right before that fact or right after it, whatever happened later.
\<close>

theorem intervals_retrospective:
  assumes "seq_increasing (pre @ e # post)"
  shows "covers (Intervals (FoldParticipation (pre @ e # post)) a) (ev_seq e) \<longleftrightarrow>
           member_after pre a \<or> member_after (pre @ [e]) a"
  using covers_retrospective [OF assms] by (simp add: Intervals_def)

definition demo_fact :: "string \<Rightarrow> string \<Rightarrow> int \<Rightarrow> event" where
  "demo_fact ty a n = zero_event\<lparr>ev_type := ty, ev_actor := a, ev_seq := n\<rparr>"

theorem intervals_retrospective_witness:
  "covers (Intervals (FoldParticipation [demo_fact T_joined ''a'' 1, demo_fact ''message.sent'' ''a'' 2, demo_fact T_left ''a'' 3]) ''a'') 2"
proof -
  have inc: "seq_increasing ([demo_fact T_joined ''a'' 1] @ demo_fact ''message.sent'' ''a'' 2 # [demo_fact T_left ''a'' 3])"
    by (simp add: seq_increasing_def demo_fact_def)
  have mem: "member_after [demo_fact T_joined ''a'' 1] ''a''" by code_simp
  have sq: "ev_seq (demo_fact ''message.sent'' ''a'' 2) = 2" by (simp add: demo_fact_def)
  show ?thesis using intervals_retrospective [OF inc, of "''a''"] mem by (simp only: sq append.simps simp_thms)
qed

section \<open>Bounds\<close>

text \<open>
  \<^bold>\<open>C23.\<close> The router's memory is bounded whatever the store does: after any command from any caller,
  the map holds at most \<open>maxInter\<close> states and each of them at most \<open>maxResults\<close> dedup entries; and the
  FIFO of each cache lists exactly its entries, so the eviction loop never indexes an empty slice.
\<close>

theorem caches_bounded:
  assumes "router_tidy cfg r" "0 < c_maxInter cfg" "0 < c_maxResults cfg"
    and "HandleCommand cfg lp i subject data r s = (res, r', s')"
  shows "router_tidy cfg r' \<and> length (rt_inter r') \<le> c_maxInter cfg \<and>
    (\<forall>k st. (k, st) \<in> set (rt_inter r') \<longrightarrow>
       length (is_results st) \<le> c_maxResults cfg \<and> set (is_order st) = set (keys (is_results st)))"
  using HandleCommand_tidy [OF assms(4,1)] assms(2,3)
  by (auto simp: router_tidy_def st_tidy_def cache_bounded_def cache_ok_def)

theorem caches_bounded_witness: "length (rt_inter (fst demo_started)) \<le> 2"
proof -
  have "router_tidy demo_cfg NewRouter" by (simp add: router_tidy_def NewRouter_def)
  moreover have "0 < c_maxInter demo_cfg" "0 < c_maxResults demo_cfg" by (simp_all add: demo_cfg_def)
  ultimately show ?thesis
    using caches_bounded [OF _ _ _ demo_step_run [of "demo_agent ''a''" "''start''" NewRouter newFakeStore]]
    by (simp add: demo_started_def demo_cfg_def)
qed

end
