(* ===== verification/Projector_State.thy ===== *)
theory Projector_State
  imports Go_Text Participation_View Log_Store
begin

text \<open>
  The in-memory fold of \<open>internal/projector/projector.go\<close> (\<open>state\<close>, \<open>Snapshot\<close>, \<open>coveredBy\<close>) and
  the \<open>Fact\<close> of \<open>ports.go\<close>. The reference \<open>events_of\<close> picks the facts of one interaction from the
  stream; a state \<open>tracks\<close> a list of stream facts when its view of every interaction is the fold of
  that interaction's facts. The lemmas show that applying a fact, applying a redelivered fact again, and
  restoring a snapshot keep a state on track.
\<close>

section \<open>Facts\<close>

record 'm fact =
  f_event :: "event option"
  f_iid :: string
  f_stream_seq :: stream_seq
  f_traceparent :: string
  f_msg :: 'm

definition NewFact :: "event \<Rightarrow> string \<Rightarrow> stream_seq \<Rightarrow> unit fact" where
  "NewFact e iid streamSeq =
     \<lparr>f_event = Some e, f_iid = iid, f_stream_seq = streamSeq, f_traceparent = '''', f_msg = ()\<rparr>"

definition interactionOf :: "'m fact \<Rightarrow> string" where
  "interactionOf f = f_iid f"

text \<open>What identifies a fact: the delivery handle differs from one delivery of it to the next.\<close>

definition core :: "'m fact \<Rightarrow> unit fact" where
  "core f = \<lparr>f_event = f_event f, f_iid = f_iid f, f_stream_seq = f_stream_seq f, f_traceparent = [], f_msg = ()\<rparr>"

lemma core_simps [simp]:
  "f_event (core f) = f_event f" "f_iid (core f) = f_iid f" "f_stream_seq (core f) = f_stream_seq f"
  by (simp_all add: core_def)

section \<open>State and snapshots\<close>

type_synonym pstate = "(string \<times> view) list"
type_synonym snapshot = "(string \<times> (string \<times> interval list) list) list"

definition newState :: pstate where
  "newState = []"

text \<open>\<open>state.view\<close> creates the missing view; the caller mutates the returned pointer, which is an
  update of the map at that key.\<close>

definition state_view :: "pstate \<Rightarrow> string \<Rightarrow> view \<times> pstate" where
  "state_view s iid =
     (case map_of s iid of
        Some v \<Rightarrow> (v, s)
      | None \<Rightarrow> (NewParticipationView, AList.update iid NewParticipationView s))"

definition state_apply :: "pstate \<Rightarrow> string \<Rightarrow> event \<Rightarrow> pstate" where
  "state_apply s key e = (let (v, s') = state_view s key in AList.update key (ApplyFact v e) s')"

definition state_snapshot :: "pstate \<Rightarrow> snapshot" where
  "state_snapshot s = map (\<lambda>(iid, v). (iid, map (\<lambda>a. (a, Intervals v a)) (Agents v))) s"

definition restore_view :: "pstate \<Rightarrow> string \<times> (string \<times> interval list) list \<Rightarrow> pstate" where
  "restore_view s entry =
     (let (v, s') = state_view s (fst entry)
      in AList.update (fst entry) (foldl (\<lambda>v ai. SetIntervals v (fst ai) (snd ai)) v (snd entry)) s')"

definition restore :: "pstate \<Rightarrow> snapshot option \<Rightarrow> pstate" where
  "restore s snap = (case snap of None \<Rightarrow> s | Some entries \<Rightarrow> foldl restore_view s entries)"

definition coveredBy :: "view \<Rightarrow> int \<Rightarrow> string list" where
  "coveredBy v s =
     filter (\<lambda>a. list_ex (\<lambda>iv. join_seq iv \<le> s \<and> (left_open iv \<or> s \<le> left_seq iv)) (Intervals v a)) (Agents v)"

section \<open>Reference\<close>

definition fact_key :: "event \<Rightarrow> 'm fact \<Rightarrow> string" where
  "fact_key e f = ev_tenant e @ ''/'' @ interactionOf f"

definition events_of :: "'m fact list \<Rightarrow> string \<Rightarrow> string \<Rightarrow> event list" where
  "events_of fs t i =
     [e. f \<leftarrow> fs, e \<leftarrow> (case f_event f of None \<Rightarrow> [] | Some e \<Rightarrow> [e]), ev_tenant e = t \<and> f_iid f = i]"

definition view_at :: "pstate \<Rightarrow> string \<Rightarrow> string \<Rightarrow> string \<Rightarrow> interval list" where
  "view_at s t i a = view_get (fst (state_view s (t @ ''/'' @ i))) a"

text \<open>Stream facts whose tenants contain no slash, so that the map keys are unambiguous.\<close>

lemma fact_key_core [simp]: "fact_key e (core f) = fact_key e f"
  by (simp add: fact_key_def interactionOf_def)

definition keyed :: "'m fact list \<Rightarrow> bool" where
  "keyed fs \<longleftrightarrow> (\<forall>f \<in> set fs. \<forall>e. f_event f = Some e \<longrightarrow> no_slash (ev_tenant e))"

definition real_key :: "string \<Rightarrow> string \<Rightarrow> bool" where
  "real_key t i \<longleftrightarrow> t \<noteq> '''' \<and> i \<noteq> '''' \<and> no_slash t"

definition tracks :: "pstate \<Rightarrow> 'm fact list \<Rightarrow> bool" where
  "tracks s fs \<longleftrightarrow> (\<forall>t i a. real_key t i \<longrightarrow> view_at s t i a = view_get (FoldParticipation (events_of fs t i)) a)"

text \<open>The map invariant: one view per key, each a well-formed view.\<close>

definition state_ok :: "pstate \<Rightarrow> bool" where
  "state_ok s \<longleftrightarrow> wf_map s \<and> (\<forall>v \<in> snd ` set s. view_ok v)"

section \<open>Lemmas\<close>

lemma key_inject:
  assumes "no_slash t" "no_slash t'"
  shows "t @ ''/'' @ i = t' @ ''/'' @ i' \<longleftrightarrow> t = t' \<and> i = i'"
  using assms append_sep_inject [of "CHR ''/''" t t' i i'] by (simp add: no_slash_def)

lemma events_of_append [simp]: "events_of (fs @ gs) t i = events_of fs t i @ events_of gs t i"
  by (simp add: events_of_def)

lemma events_of_Nil [simp]: "events_of [] t i = []"
  by (simp add: events_of_def)

lemma events_of_single:
  "events_of [f] t i = (case f_event f of None \<Rightarrow> [] | Some e \<Rightarrow> if ev_tenant e = t \<and> f_iid f = i then [e] else [])"
  by (auto simp: events_of_def split: option.splits)

lemma fst_state_view: "fst (state_view s k) = (case map_of s k of None \<Rightarrow> NewParticipationView | Some v \<Rightarrow> v)"
  by (simp add: state_view_def split: option.splits)

lemma map_of_state_view: "map_of (snd (state_view s k)) = (map_of s)(k \<mapsto> fst (state_view s k))"
  by (auto simp: state_view_def fun_eq_iff split: option.splits)

lemma wf_map_state_view: "wf_map s \<Longrightarrow> wf_map (snd (state_view s k))"
  by (simp add: state_view_def distinct_update split: option.splits)

lemma map_of_state_apply:
  "map_of (state_apply s k e) = (map_of s)(k \<mapsto> ApplyFact (fst (state_view s k)) e)"
  using map_of_state_view [of s k] by (cases "state_view s k") (simp add: state_apply_def)

lemma view_ok_at: "state_ok s \<Longrightarrow> view_ok (fst (state_view s k))"
  by (auto simp: state_ok_def fst_state_view split: option.splits dest: map_of_SomeD)

lemma state_ok_update: "state_ok s \<Longrightarrow> view_ok v \<Longrightarrow> state_ok (AList.update k v s)"
  using set_update_subset [of k v s] by (fastforce simp: state_ok_def distinct_update)

lemma state_ok_view: "state_ok s \<Longrightarrow> state_ok (snd (state_view s k))"
  by (simp add: state_view_def state_ok_update split: option.splits)

lemma state_ok_apply: "state_ok s \<Longrightarrow> state_ok (state_apply s k e)"
  using view_ok_at [of s k] state_ok_view [of s k]
  by (auto simp: state_apply_def split: prod.splits intro!: state_ok_update view_ok_ApplyFact)

lemma view_at_apply:
  "view_at (state_apply s k e) t i a =
     (if t @ ''/'' @ i = k then view_get (ApplyFact (fst (state_view s k)) e) a else view_at s t i a)"
  by (simp add: view_at_def fst_state_view map_of_state_apply)

text \<open>The fold only depends on what the views say of each agent.\<close>

lemma ApplyFact_cong:
  assumes "view_ok v" "view_ok w" "\<And>a. view_get v a = view_get w a"
  shows "view_get (ApplyFact v e) a = view_get (ApplyFact w e) a"
proof -
  have ivs: "ivs_ok (view_get v b)" "ivs_ok (view_get w b)" for b
    using assms(1,2) by (simp_all add: view_ok_def)
  have now: "IsParticipantNow v b = IsParticipantNow w b" for b
    by (simp add: IsParticipantNow_def assms(3))
  show ?thesis
    by (simp add: ApplyFact_def view_get_open view_get_close [OF ivs(1)] view_get_close [OF ivs(2)]
        now assms(3))
qed

lemma tracks_new [simp]: "tracks newState []"
  by (simp add: tracks_def view_at_def fst_state_view newState_def NewParticipationView_def)

lemma tracks_real:
  assumes "tracks s fs" "real_key t i"
  shows "view_at s t i a = view_get (FoldParticipation (events_of fs t i)) a"
  using assms by (simp add: tracks_def)

lemma tracks_apply:
  assumes "state_ok s" "tracks s fs" "f_event f = Some e" "no_slash (ev_tenant e)"
  shows "tracks (state_apply s (fact_key e f) e) (fs @ [f])"
  unfolding tracks_def
proof (intro allI impI)
  fix t i a
  assume k: "real_key t i"
  have key: "t @ ''/'' @ i = fact_key e f \<longleftrightarrow> ev_tenant e = t \<and> f_iid f = i"
    using k assms(4) key_inject [of t "ev_tenant e" i "f_iid f"]
    by (auto simp: fact_key_def interactionOf_def real_key_def)
  show "view_at (state_apply s (fact_key e f) e) t i a = view_get (FoldParticipation (events_of (fs @ [f]) t i)) a"
  proof (cases "ev_tenant e = t \<and> f_iid f = i")
    case True
    have "view_get (ApplyFact (fst (state_view s (fact_key e f))) e) a =
        view_get (ApplyFact (FoldParticipation (events_of fs t i)) e) a"
      by (rule ApplyFact_cong [OF view_ok_at [OF assms(1)] view_ok_fold])
         (use tracks_real [OF assms(2) k] key True in \<open>simp add: view_at_def\<close>)
    with True key show ?thesis by (simp add: view_at_apply events_of_single assms(3))
  next
    case False
    with key tracks_real [OF assms(2) k] show ?thesis
      by (auto simp: view_at_apply events_of_single assms(3))
  qed
qed

text \<open>A fact that is applied again when it is redelivered leaves the state on track.\<close>

lemma tracks_apply_again:
  assumes "state_ok s" "tracks s (fs @ [f])" "f_event f = Some e" "no_slash (ev_tenant e)"
  shows "tracks (state_apply s (fact_key e f) e) (fs @ [f])"
  unfolding tracks_def
proof (intro allI impI)
  fix t i a
  assume k: "real_key t i"
  have key: "t @ ''/'' @ i = fact_key e f \<longleftrightarrow> ev_tenant e = t \<and> f_iid f = i"
    using k assms(4) key_inject [of t "ev_tenant e" i "f_iid f"]
    by (auto simp: fact_key_def interactionOf_def real_key_def)
  show "view_at (state_apply s (fact_key e f) e) t i a = view_get (FoldParticipation (events_of (fs @ [f]) t i)) a"
  proof (cases "ev_tenant e = t \<and> f_iid f = i")
    case True
    let ?F = "FoldParticipation (events_of fs t i)"
    have "view_get (ApplyFact (fst (state_view s (fact_key e f))) e) a = view_get (ApplyFact (ApplyFact ?F e) e) a"
      by (rule ApplyFact_cong [OF view_ok_at [OF assms(1)] view_ok_ApplyFact [OF view_ok_fold]])
         (use tracks_real [OF assms(2) k] key True in \<open>simp add: view_at_def events_of_single assms(3)\<close>)
    also have "\<dots> = view_get (ApplyFact ?F e) a"
      by (rule ApplyFact_idem_get [OF view_ok_fold])
    finally show ?thesis using True key by (simp add: view_at_apply events_of_single assms(3))
  next
    case False
    with key tracks_real [OF assms(2) k] show ?thesis by (simp add: view_at_apply)
  qed
qed

text \<open>A fact that the projector sets aside as malformed does not count for any interaction.\<close>

definition malformed :: "'m fact \<Rightarrow> bool" where
  "malformed f \<longleftrightarrow> (case f_event f of None \<Rightarrow> True | Some e \<Rightarrow> ev_tenant e = '''' \<or> ev_type e = '''' \<or> f_iid f = '''')"

lemma malformed_core [simp]: "malformed (core f) = malformed f"
  by (simp add: malformed_def split: option.splits)

lemma FoldParticipation_malformed:
  assumes "malformed f" "real_key t i"
  shows "FoldParticipation (events_of (fs @ [f]) t i) = FoldParticipation (events_of fs t i)"
  using assms by (auto simp: malformed_def real_key_def events_of_single ApplyFact_other split: option.splits)

lemma tracks_malformed:
  assumes "malformed f"
  shows "tracks s (fs @ [f]) \<longleftrightarrow> tracks s fs"
  using FoldParticipation_malformed [OF assms] by (simp add: tracks_def del: events_of_append)

section \<open>Recipients\<close>

lemma set_coveredBy: "set (coveredBy v s) = {a. covers (view_get v a) s}"
proof -
  have "covers (view_get v a) s \<Longrightarrow> a \<in> set (keys v)" for a
    by (cases "map_of v a") (auto simp: covers_def view_get_def dest: map_of_SomeD intro: rev_image_eqI)
  then show ?thesis
    by (auto simp: coveredBy_def Agents_def Intervals_def list_ex_iff covers_def)
qed

lemma coveredBy_distinct: "wf_map v \<Longrightarrow> distinct (coveredBy v s)"
  by (simp add: coveredBy_def Agents_def)

section \<open>Snapshots\<close>

lemma view_get_SetIntervals:
  "view_get (SetIntervals v a ivs) b = (if b = a \<and> ivs \<noteq> [] then ivs else view_get v b)"
  by (simp add: SetIntervals_def)

lemma wf_map_SetIntervals: "wf_map v \<Longrightarrow> wf_map (SetIntervals v a ivs)"
  by (simp add: SetIntervals_def distinct_update)

definition set_all :: "view \<Rightarrow> (string \<times> interval list) list \<Rightarrow> view" where
  "set_all v ais = foldl (\<lambda>v ai. SetIntervals v (fst ai) (snd ai)) v ais"

lemma wf_map_set_all: "wf_map v \<Longrightarrow> wf_map (set_all v ais)"
  by (induction ais arbitrary: v) (simp_all add: set_all_def wf_map_SetIntervals)

lemma view_get_set_all:
  "wf_map ais \<Longrightarrow> view_get (set_all v ais) a = (case map_of ais a of Some (x # xs) \<Rightarrow> x # xs | _ \<Rightarrow> view_get v a)"
proof (induction ais rule: rev_induct)
  case (snoc ai ais)
  obtain b ivs where ai: "ai = (b, ivs)" by force
  with snoc.prems have b: "map_of ais b = None" by (auto simp: map_of_None_keys)
  show ?case
    using snoc b
    by (cases ivs; cases "map_of ais a")
       (auto simp: ai set_all_def view_get_SetIntervals map_add_def split: list.splits)
qed (simp add: set_all_def)

lemma view_copy:
  assumes "wf_map v"
  shows "view_get (set_all NewParticipationView (map (\<lambda>a. (a, Intervals v a)) (Agents v))) b = view_get v b"
proof -
  let ?m = "map (\<lambda>a. (a, Intervals v a)) (Agents v)"
  have wf: "wf_map ?m" using assms by (simp add: Agents_def comp_def)
  have out: "b \<notin> set (keys v) \<Longrightarrow> view_get v b = []"
    by (simp add: view_get_def map_of_eq_None_iff [THEN iffD2])
  have "map_of ?m b = (if b \<in> set (keys v) then Some (view_get v b) else None)"
    unfolding map_of_map_restrict by (simp add: Agents_def Intervals_def restrict_map_def)
  then show ?thesis
    unfolding view_get_set_all [OF wf] using out
    by (cases "b \<in> set (keys v)"; cases "view_get v b") (simp_all add: NewParticipationView_def)
qed

lemma view_ok_copy:
  assumes "view_ok v"
  shows "view_ok (set_all NewParticipationView (map (\<lambda>a. (a, Intervals v a)) (Agents v)))"
  using assms view_copy [of v] wf_map_set_all [of NewParticipationView]
  by (simp add: view_ok_def NewParticipationView_def)

lemma map_of_restore_view:
  "map_of (restore_view s (k, ais)) = (map_of s)(k \<mapsto> set_all (fst (state_view s k)) ais)"
  using map_of_state_view [of s k] by (cases "state_view s k") (simp add: restore_view_def set_all_def)

lemma map_of_restore:
  assumes "wf_map entries"
  shows "map_of (foldl restore_view s entries) k =
    (case map_of entries k of None \<Rightarrow> map_of s k | Some ais \<Rightarrow> Some (set_all (fst (state_view s k)) ais))"
  using assms
proof (induction entries arbitrary: k rule: rev_induct)
  case (snoc en entries)
  obtain k' ais where en: "en = (k', ais)" by force
  with snoc.prems have k': "map_of entries k' = None" by (auto simp: map_of_None_keys)
  have "map_of (foldl restore_view s entries) k' = map_of s k'" using snoc k' by simp
  then have "fst (state_view (foldl restore_view s entries) k') = fst (state_view s k')"
    by (simp add: fst_state_view)
  with snoc k' show ?case by (auto simp: en map_of_restore_view split: option.splits)
qed simp

lemma map_of_snapshot:
  "map_of (state_snapshot s) k = map_option (\<lambda>v. map (\<lambda>a. (a, Intervals v a)) (Agents v)) (map_of s k)"
  by (simp add: state_snapshot_def map_of_map)

lemma keys_snapshot [simp]: "keys (state_snapshot s) = keys s"
  by (simp add: state_snapshot_def comp_def case_prod_beta)

lemma wf_map_restore: "wf_map s \<Longrightarrow> wf_map (foldl restore_view s entries)"
proof (induction entries arbitrary: s)
  case (Cons en entries)
  have "wf_map (restore_view s en)"
    using wf_map_state_view [OF Cons.prems, of "fst en"]
    by (cases "state_view s (fst en)") (simp add: restore_view_def distinct_update)
  with Cons.IH show ?case by simp
qed simp

lemma restore_new:
  assumes "state_ok s"
  shows "map_of (restore newState (Some (state_snapshot s))) k =
    map_option (\<lambda>v. set_all NewParticipationView (map (\<lambda>a. (a, Intervals v a)) (Agents v))) (map_of s k)"
  using assms map_of_restore [of "state_snapshot s" newState k]
  by (simp add: restore_def state_ok_def map_of_snapshot newState_def fst_state_view split: option.splits)

lemma view_at_restore:
  assumes "state_ok s"
  shows "view_at (restore newState (Some (state_snapshot s))) t i a = view_at s t i a"
proof (cases "map_of s (t @ ''/'' @ i)")
  case None
  then show ?thesis
    using restore_new [OF assms, of "t @ ''/'' @ i"] by (simp add: view_at_def fst_state_view)
next
  case (Some v)
  with assms have "view_ok v" by (auto simp: state_ok_def dest: map_of_SomeD)
  with Some show ?thesis
    using restore_new [OF assms, of "t @ ''/'' @ i"] view_copy [of v]
    by (simp add: view_at_def fst_state_view view_ok_def)
qed

lemma state_ok_restore:
  assumes "state_ok s"
  shows "state_ok (restore newState (Some (state_snapshot s)))"
proof -
  let ?r = "restore newState (Some (state_snapshot s))"
  have wf: "wf_map ?r" using wf_map_restore [of newState] by (simp add: restore_def newState_def)
  have "view_ok v" if "(k, v) \<in> set ?r" for k v
  proof -
    have "map_of ?r k = Some v" using wf that by simp
    then obtain u where "map_of s k = Some u"
        "v = set_all NewParticipationView (map (\<lambda>a. (a, Intervals u a)) (Agents u))"
      using restore_new [OF assms, of k] by auto
    moreover have "view_ok u" using assms calculation(1) by (auto simp: state_ok_def dest: map_of_SomeD)
    ultimately show ?thesis using view_ok_copy by simp
  qed
  with wf show ?thesis by (auto simp: state_ok_def)
qed

text \<open>A snapshot that was taken of a state on track.\<close>

definition snapshot_of :: "snapshot \<Rightarrow> 'm fact list \<Rightarrow> bool" where
  "snapshot_of snap fs \<longleftrightarrow> (\<exists>s. state_ok s \<and> tracks s fs \<and> snap = state_snapshot s)"

lemma restore_tracks:
  assumes "snapshot_of snap fs"
  shows "state_ok (restore newState (Some snap)) \<and> tracks (restore newState (Some snap)) fs"
  using assms view_at_restore state_ok_restore by (auto simp: snapshot_of_def tracks_def)

end
