(* ===== verification/Projector_Lease.thy ===== *)
theory Projector_Lease
  imports RP_Prelude "HOL-Library.Signed_Division"
begin

text \<open>
  The lease side of \<open>internal/projector/projector.go\<close>: the configuration with its defaults, the
  budget of a lease renewal, and the \<open>fence\<close> through which the renewal loop stops the data loop. A
  context is a number with its cancellation recorded in the fence, a wake-up channel is a
  number with its closing recorded; both loops act on the fence under its mutex, so an
  interleaving is a sequence of the operations below.
\<close>

section \<open>Configuration\<close>

record pconfig =
  MaxDeliver :: int
  SnapshotEvery :: int
  PublishRetry :: int
  RetryBackoff :: duration
  LeaseRenew :: duration
  LeaseTTL :: duration
  HealthAddr :: string
  FanoutConcurrency :: int

definition defaultFanoutConcurrency :: int where "defaultFanoutConcurrency = 32"
definition leaseRenewAttempts :: int where "leaseRenewAttempts = 3"
definition leaseRenewRetryBackoff :: duration where "leaseRenewRetryBackoff = 300 * 1000000"

definition withDefaults :: "pconfig \<Rightarrow> pconfig" where
  "withDefaults c =
     (let renew = (if LeaseRenew c \<le> 0 then 2 * 1000000000 else LeaseRenew c);
          ttl = (if LeaseTTL c \<le> 0 then 5 * 1000000000 else LeaseTTL c)
      in \<lparr>MaxDeliver = (if MaxDeliver c \<le> 0 then 5 else MaxDeliver c),
          SnapshotEvery = (if SnapshotEvery c \<le> 0 then 50 else SnapshotEvery c),
          PublishRetry = (if PublishRetry c \<le> 0 then 4 else PublishRetry c),
          RetryBackoff = (if RetryBackoff c \<le> 0 then 50 * 1000000 else RetryBackoff c),
          LeaseRenew = (if ttl \<le> renew then ttl sdiv 2 else renew),
          LeaseTTL = ttl,
          HealthAddr = (if HealthAddr c = [] then '':8222'' else HealthAddr c),
          FanoutConcurrency =
            (if FanoutConcurrency c \<le> 0 then defaultFanoutConcurrency else FanoutConcurrency c)\<rparr>)"

lemma sdiv_pos: "0 \<le> x \<Longrightarrow> 0 < y \<Longrightarrow> (x :: int) sdiv y = x div y"
  by (cases "x = 0") (simp_all add: signed_divide_int_def)

lemma withDefaults_positive:
  "0 < MaxDeliver (withDefaults c) \<and> 0 < SnapshotEvery (withDefaults c) \<and> 0 < PublishRetry (withDefaults c) \<and>
   0 < RetryBackoff (withDefaults c) \<and> 0 < FanoutConcurrency (withDefaults c)"
  by (simp add: withDefaults_def Let_def defaultFanoutConcurrency_def)

lemma withDefaults_slack:
  "0 \<le> LeaseRenew (withDefaults c) \<and> LeaseRenew (withDefaults c) < LeaseTTL (withDefaults c)"
proof -
  have half: "0 \<le> x sdiv 2 \<and> x sdiv 2 < x" if "0 < x" for x :: int
    using that by (simp add: sdiv_pos)
  define r where "r = (if LeaseRenew c \<le> 0 then 2 * 1000000000 else LeaseRenew c)"
  define t where "t = (if LeaseTTL c \<le> 0 then 5 * 1000000000 else LeaseTTL c)"
  have pos: "0 < r" "0 < t" by (simp_all add: r_def t_def)
  have "LeaseTTL (withDefaults c) = t" "LeaseRenew (withDefaults c) = (if t \<le> r then t sdiv 2 else r)"
    unfolding withDefaults_def Let_def t_def r_def
    by simp_all
  with half [of t] pos show ?thesis by simp
qed

section \<open>Renewal budget\<close>

definition renewBudget :: "duration \<Rightarrow> duration \<Rightarrow> duration \<times> int \<times> duration" where
  "renewBudget ttl renewInterval =
     (let slack = i64_wrap (ttl - renewInterval)
      in if slack \<le> 0 then (1000000, 1, 0)
         else let attempts = leaseRenewAttempts;
                  budget = i64_wrap (slack * 9) sdiv 10;
                  backoff = (if budget \<le> i64_wrap ((attempts - 1) * leaseRenewRetryBackoff)
                             then budget sdiv attempts sdiv 2 else leaseRenewRetryBackoff);
                  perAttempt = i64_wrap (budget - i64_wrap ((attempts - 1) * backoff)) sdiv attempts
              in if perAttempt \<le> 0 then (budget, 1, 0) else (perAttempt, attempts, backoff))"

text \<open>The time that the attempts and the pauses between them can take.\<close>

definition renew_time :: "duration \<times> int \<times> duration \<Rightarrow> duration" where
  "renew_time b = (case b of (perAttempt, attempts, backoff) \<Rightarrow> attempts * perAttempt + (attempts - 1) * backoff)"

lemma renewBudget_fits:
  assumes "renewInterval < ttl" "ttl - renewInterval \<le> i64_max div 9"
  shows "renew_time (renewBudget ttl renewInterval) \<le> (ttl - renewInterval) * 9 div 10"
proof -
  define slack where "slack = ttl - renewInterval"
  have s: "0 < slack" "slack \<le> i64_max div 9" using assms by (simp_all add: slack_def)
  then have s9: "slack * 9 < 2 ^ 63" by (simp add: i64_max_def)
  have w: "i64_wrap slack = slack" "i64_wrap (slack * 9) = slack * 9"
    using s s9 by (auto intro!: i64_wrap_id)
  define budget where "budget = slack * 9 div 10"
  have b: "0 \<le> budget" "budget < 2 ^ 63" using s s9 by (simp_all add: budget_def)
  have bud: "i64_wrap (slack * 9) sdiv 10 = budget" using s by (simp add: w budget_def sdiv_pos)
  define backoff where "backoff = (if budget \<le> 600000000 then budget div 3 div 2 else 300000000)"
  have bo: "0 \<le> backoff" "2 * backoff \<le> budget" using b by (auto simp: backoff_def)
  have wb: "i64_wrap (budget - i64_wrap (2 * backoff)) = budget - 2 * backoff"
  proof -
    have "i64_wrap (2 * backoff) = 2 * backoff" using bo b by (intro i64_wrap_id) auto
    moreover have "i64_wrap (budget - 2 * backoff) = budget - 2 * backoff" using bo b by (intro i64_wrap_id) auto
    ultimately show ?thesis by simp
  qed
  have const: "i64_wrap 600000000 = 600000000" by (simp add: i64_wrap_def)
  have per: "(budget - 2 * backoff) sdiv 3 = (budget - 2 * backoff) div 3"
    using bo by (intro sdiv_pos) auto
  have bb: "(if budget \<le> i64_wrap ((3 - 1) * (300 * 1000000)) then budget sdiv 3 sdiv 2 else 300 * 1000000) = backoff"
    using b by (simp add: const backoff_def sdiv_pos)
  have pa: "i64_wrap (budget - i64_wrap ((3 - 1) * backoff)) sdiv 3 = (budget - 2 * backoff) div 3"
    using wb per by simp
  have "renewBudget ttl renewInterval =
      (if (budget - 2 * backoff) div 3 \<le> 0 then (budget, 1, 0) else ((budget - 2 * backoff) div 3, 3, backoff))"
    using s unfolding renewBudget_def slack_def [symmetric] w(1) Let_def leaseRenewAttempts_def
      leaseRenewRetryBackoff_def bud bb pa by simp
  moreover have "3 * ((budget - 2 * backoff) div 3) \<le> budget - 2 * backoff" by simp
  ultimately show ?thesis by (simp add: renew_time_def slack_def [symmetric] budget_def [symmetric])
qed

section \<open>The fence\<close>

record fence =
  fn_parent_err :: "string option"
  fn_paused :: bool
  fn_lost :: "string option"
  fn_cancel :: "nat option"
  fn_wakeup :: nat
  fn_ctxs :: nat
  fn_cancelled :: "nat set"
  fn_closed :: "nat set"

text \<open>A fence over a live parent context. The fields after \<open>fn_wakeup\<close> record the contexts
  handed out so far, which of them are cancelled, and the channels that are closed.\<close>

definition newFence :: fence where
  "newFence = \<lparr>fn_parent_err = None, fn_paused = False, fn_lost = None, fn_cancel = None,
     fn_wakeup = 0, fn_ctxs = 0, fn_cancelled = {}, fn_closed = {}\<rparr>"

definition call_cancel :: "fence \<Rightarrow> fence" where
  "call_cancel f = (case fn_cancel f of None \<Rightarrow> f | Some n \<Rightarrow> f\<lparr>fn_cancelled := insert n (fn_cancelled f)\<rparr>)"

definition close_wakeup :: "fence \<Rightarrow> fence" where
  "close_wakeup f = f\<lparr>fn_closed := insert (fn_wakeup f) (fn_closed f), fn_wakeup := Suc (fn_wakeup f)\<rparr>"

text \<open>One turn of the loop of \<open>begin\<close>: it returns nil, or a fresh context, or waits on a channel.\<close>

datatype begin_out = BNil | BCtx nat | BWait nat

definition fence_begin :: "fence \<Rightarrow> begin_out \<times> fence" where
  "fence_begin f =
     (if fn_lost f \<noteq> None \<or> fn_parent_err f \<noteq> None then (BNil, f)
      else if \<not> fn_paused f
      then (BCtx (fn_ctxs f), (call_cancel f)\<lparr>fn_cancel := Some (fn_ctxs f), fn_ctxs := Suc (fn_ctxs f)\<rparr>)
      else (BWait (fn_wakeup f), f))"

definition fence_pause :: "fence \<Rightarrow> fence" where
  "fence_pause f =
     (if fn_paused f \<or> fn_lost f \<noteq> None then f else call_cancel (f\<lparr>fn_paused := True\<rparr>))"

definition fence_resume :: "fence \<Rightarrow> fence" where
  "fence_resume f =
     (if \<not> fn_paused f \<or> fn_lost f \<noteq> None then f else close_wakeup (f\<lparr>fn_paused := False\<rparr>))"

definition fence_fail :: "string \<Rightarrow> fence \<Rightarrow> fence" where
  "fence_fail err f =
     (if fn_lost f \<noteq> None then f else close_wakeup (call_cancel (f\<lparr>fn_lost := Some err\<rparr>)))"

definition exitErr :: "fence \<Rightarrow> string option" where
  "exitErr f = (case fn_lost f of Some e \<Rightarrow> Some (''lease lost: '' @ e) | None \<Rightarrow> fn_parent_err f)"

definition errPaused :: string where "errPaused = ''projector: lease renew stalled''"
definition errNotLeader :: string where "errNotLeader = ''projector: not holding lease''"

definition fence_health :: "fence \<Rightarrow> string option" where
  "fence_health f =
     (case fn_lost f of Some e \<Rightarrow> Some (''lease lost: '' @ e)
      | None \<Rightarrow> (case fn_parent_err f of Some e \<Rightarrow> Some e
          | None \<Rightarrow> if fn_paused f then Some errPaused else None))"

definition Ready :: "fence option \<Rightarrow> string option" where
  "Ready fp = (case fp of None \<Rightarrow> Some errNotLeader | Some f \<Rightarrow> fence_health f)"

text \<open>\<open>ctx.Err\<close> of a context handed out by \<open>begin\<close>: its own cancellation, or its parent's error.\<close>

definition ctx_live :: "fence \<Rightarrow> nat \<Rightarrow> bool" where
  "ctx_live f n \<longleftrightarrow> n < fn_ctxs f \<and> n \<notin> fn_cancelled f \<and> fn_parent_err f = None"

section \<open>Interleavings of the two loops\<close>

inductive fence_step :: "fence \<Rightarrow> fence \<Rightarrow> bool" where
  start: "fence_step f (snd (fence_begin f))"
| pause: "fence_step f (fence_pause f)"
| resume: "fence_step f (fence_resume f)"
| fail: "fence_step f (fence_fail e f)"
| parent_done: "fn_parent_err f = None \<Longrightarrow> fence_step f (f\<lparr>fn_parent_err := Some e\<rparr>)"

definition fence_ok :: "fence \<Rightarrow> bool" where
  "fence_ok f \<longleftrightarrow>
     (\<forall>c \<in> fn_closed f. c < fn_wakeup f) \<and>
     (\<forall>n. fn_cancel f = Some n \<longrightarrow> n < fn_ctxs f) \<and>
     (\<forall>n. n < fn_ctxs f \<longrightarrow> n \<in> fn_cancelled f \<or> (fn_cancel f = Some n \<and> \<not> fn_paused f \<and> fn_lost f = None))"

lemmas fence_defs = fence_begin_def fence_pause_def fence_resume_def fence_fail_def call_cancel_def close_wakeup_def

lemma fence_ok_new: "fence_ok newFence"
  by (simp add: fence_ok_def newFence_def)

lemma call_cancel_all:
  assumes "fence_ok f" "n < fn_ctxs f"
  shows "n \<in> fn_cancelled (call_cancel f)"
  using assms by (cases "fn_cancel f") (auto simp: fence_ok_def call_cancel_def)

lemma call_cancel_fields [simp]:
  "fn_paused (call_cancel f) = fn_paused f" "fn_lost (call_cancel f) = fn_lost f"
  "fn_cancel (call_cancel f) = fn_cancel f" "fn_ctxs (call_cancel f) = fn_ctxs f"
  "fn_wakeup (call_cancel f) = fn_wakeup f" "fn_closed (call_cancel f) = fn_closed f"
  by (simp_all add: call_cancel_def split: option.splits)

lemma call_cancel_upd:
  "call_cancel (f\<lparr>fn_paused := b\<rparr>) = (call_cancel f)\<lparr>fn_paused := b\<rparr>"
  "call_cancel (f\<lparr>fn_lost := l\<rparr>) = (call_cancel f)\<lparr>fn_lost := l\<rparr>"
  by (simp_all add: call_cancel_def split: option.splits)

text \<open>Once every context handed out is cancelled, only the bookkeeping of the numbers is left.\<close>

lemma fence_okI:
  assumes "\<forall>c \<in> fn_closed f. c < fn_wakeup f" "\<forall>n. fn_cancel f = Some n \<longrightarrow> n < fn_ctxs f"
    and "\<forall>n. n < fn_ctxs f \<longrightarrow> n \<in> fn_cancelled f"
  shows "fence_ok f"
  using assms by (simp add: fence_ok_def)

lemma fence_ok_begin: "fence_ok f \<Longrightarrow> fence_ok (snd (fence_begin f))"
  using call_cancel_all [of f] by (auto simp: fence_ok_def fence_begin_def less_Suc_eq)

lemma fence_ok_pause: "fence_ok f \<Longrightarrow> fence_ok (fence_pause f)"
  using call_cancel_all [of f] unfolding fence_pause_def
  by (auto simp: call_cancel_upd fence_ok_def [of f] intro!: fence_okI)

lemma fence_ok_resume: "fence_ok f \<Longrightarrow> fence_ok (fence_resume f)"
  by (auto simp: fence_ok_def fence_resume_def close_wakeup_def less_Suc_eq)

lemma fence_ok_fail: "fence_ok f \<Longrightarrow> fence_ok (fence_fail e f)"
  using call_cancel_all [of f] unfolding fence_fail_def close_wakeup_def
  by (auto simp: call_cancel_upd fence_ok_def [of f] less_Suc_eq intro!: fence_okI)

lemma fence_ok_parent: "fence_ok f \<Longrightarrow> fence_ok (f\<lparr>fn_parent_err := e\<rparr>)"
  by (simp add: fence_ok_def)

lemma fence_ok_step: "fence_step f f' \<Longrightarrow> fence_ok f \<Longrightarrow> fence_ok f'"
  by (induction rule: fence_step.induct)
     (simp_all add: fence_ok_begin fence_ok_pause fence_ok_resume fence_ok_fail fence_ok_parent)

lemma fence_ok_steps: "fence_step\<^sup>*\<^sup>* f f' \<Longrightarrow> fence_ok f \<Longrightarrow> fence_ok f'"
  by (induction rule: rtranclp_induct) (auto intro: fence_ok_step)

lemma lost_step: "fence_step f f' \<Longrightarrow> fn_lost f = Some e \<Longrightarrow> fn_lost f' = Some e"
  by (induction rule: fence_step.induct) (auto simp: fence_defs split: option.splits)

lemma lost_sticky: "fence_step\<^sup>*\<^sup>* f f' \<Longrightarrow> fn_lost f = Some e \<Longrightarrow> fn_lost f' = Some e"
  by (induction rule: rtranclp_induct) (auto intro: lost_step)

text \<open>No wake-up is lost: while the channel that a waiter took stays open, the fence stays paused.\<close>

definition waits :: "fence \<Rightarrow> nat \<Rightarrow> bool" where
  "waits f ch \<longleftrightarrow> ch \<in> fn_closed f \<or> (fn_wakeup f = ch \<and> fn_paused f \<and> fn_lost f = None)"

lemma waits_step: "fence_step f f' \<Longrightarrow> waits f ch \<Longrightarrow> waits f' ch"
  by (induction rule: fence_step.induct) (auto simp: waits_def fence_defs split: option.splits)

lemma waits_steps: "fence_step\<^sup>*\<^sup>* f f' \<Longrightarrow> waits f ch \<Longrightarrow> waits f' ch"
  by (induction rule: rtranclp_induct) (auto intro: waits_step)

section \<open>Renewal\<close>

text \<open>What the renewal loop sees of the world: one \<open>Renew\<close> under a timeout, whether the pause
  between two attempts ends by \<open>ctx.Done\<close>, and \<open>ctx.Err\<close>.\<close>

record 'w renew_port =
  rp_renew :: "'w \<Rightarrow> duration \<Rightarrow> string option \<times> 'w"
  rp_wait :: "'w \<Rightarrow> duration \<Rightarrow> string option \<times> 'w"
  rp_ctx_err :: "'w \<Rightarrow> string option \<times> 'w"

fun renew_attempts ::
  "'w renew_port \<Rightarrow> duration \<Rightarrow> duration \<Rightarrow> nat \<Rightarrow> bool \<Rightarrow> string option \<Rightarrow> fence \<Rightarrow> 'w \<Rightarrow>
     string option \<times> fence \<times> 'w" where
  "renew_attempts P per backoff 0 first err f w = (err, f, w)"
| "renew_attempts P per backoff (Suc k) first err f w =
     (let (stop, w1) = (if first then (None, w) else rp_wait P w backoff)
      in case stop of
           Some e \<Rightarrow> (Some e, f, w1)
         | None \<Rightarrow> (case rp_renew P w1 per of
               (None, w2) \<Rightarrow> (None, fence_resume f, w2)
             | (Some e, w2) \<Rightarrow> renew_attempts P per backoff k False (Some e) (fence_pause f) w2))"

definition renewWithRetry :: "'w renew_port \<Rightarrow> pconfig \<Rightarrow> fence \<Rightarrow> 'w \<Rightarrow> string option \<times> fence \<times> 'w" where
  "renewWithRetry P c f w =
     (let (per, attempts, backoff) = renewBudget (LeaseTTL c) (LeaseRenew c)
      in renew_attempts P per backoff (nat attempts) True None f w)"

text \<open>One tick of \<open>renewLoop\<close>; the result says whether the loop goes on.\<close>

definition renew_tick :: "'w renew_port \<Rightarrow> pconfig \<Rightarrow> fence \<Rightarrow> 'w \<Rightarrow> bool \<times> fence \<times> 'w" where
  "renew_tick P c f w =
     (case renewWithRetry P c f w of
        (None, f', w') \<Rightarrow> (True, f', w')
      | (Some e, f', w') \<Rightarrow>
          (case rp_ctx_err P w' of
             (Some _, w'') \<Rightarrow> (False, f', w'')
           | (None, w'') \<Rightarrow> (False, fence_fail e f', w'')))"

lemma renew_attempts_steps:
  "renew_attempts P per backoff k first err f w = (r, f', w') \<Longrightarrow> fence_step\<^sup>*\<^sup>* f f'"
proof (induction k arbitrary: first err f w)
  case (Suc k)
  show ?case
    using Suc.prems Suc.IH fence_step.pause [of f] fence_step.resume [of f]
    by (auto split: prod.splits option.splits intro: converse_rtranclp_into_rtranclp)
qed simp

text \<open>A failed attempt leaves the fence paused or lost: the data loop does not run on an overdue lease.\<close>

lemma pause_effect: "fn_paused (fence_pause f) \<or> fn_lost (fence_pause f) \<noteq> None"
  by (auto simp: fence_defs split: option.splits)

lemma renew_attempts_fenced:
  assumes "renew_attempts P per backoff k first err f w = (Some e, f', w')"
    and "k = 0 \<or> \<not> first \<longrightarrow> fn_paused f \<or> fn_lost f \<noteq> None"
  shows "fn_paused f' \<or> fn_lost f' \<noteq> None"
  using assms
proof (induction k arbitrary: first err f w)
  case (Suc k)
  show ?case
    using Suc.prems Suc.IH [of False _ "fence_pause f"] pause_effect [of f]
    by (auto split: prod.splits option.splits if_splits)
qed auto

lemma renewBudget_attempts: "0 < nat (fst (snd (renewBudget t r)))"
  by (simp add: renewBudget_def Let_def leaseRenewAttempts_def)

lemma renew_tick_fenced:
  assumes "renew_tick P c f w = (False, f', w')"
  shows "fn_paused f' \<or> fn_lost f' \<noteq> None"
proof -
  obtain per n backoff where b: "renewBudget (LeaseTTL c) (LeaseRenew c) = (per, n, backoff)"
    by (cases "renewBudget (LeaseTTL c) (LeaseRenew c)") auto
  have n: "nat n \<noteq> 0" using renewBudget_attempts [of "LeaseTTL c" "LeaseRenew c"] by (simp add: b)
  obtain e g w1 where r: "renew_attempts P per backoff (nat n) True None f w = (Some e, g, w1)"
      and f': "f' = g \<or> f' = fence_fail e g"
    using assms by (auto simp: renew_tick_def renewWithRetry_def b split: prod.splits option.splits)
  have "fn_paused g \<or> fn_lost g \<noteq> None" by (rule renew_attempts_fenced [OF r]) (use n in simp)
  with f' show ?thesis by (auto simp: fence_fail_def close_wakeup_def call_cancel_def split: option.splits)
qed

end
