(* ===== verification/Projector_Core.thy ===== *)
theory Projector_Core
  imports Projector_State Projector_Lease
begin

text \<open>
  The data path of \<open>internal/projector/projector.go\<close>: publishing with retries, the concurrent
  fan-out, the revocation tombstone, the dead-letter path, snapshots, \<open>process\<close>, \<open>Hydrate\<close> and one
  turn of the loop of \<open>Run\<close>. The ports of \<open>ports.go\<close> are functions over an abstract world, in which
  also lives what the data loop can only observe: whether its context is cancelled, how a wait for the
  backoff timer ends, and which of the concurrent publishers runs next. The two ports whose adapters poll
  the broker in a loop may never return, which is \<open>None\<close>.

  A payload is a value of a type parameter, since the protobuf codec is not part of the sources. Logging, metrics and the
  trace header are left out.
\<close>

section \<open>Ports\<close>

record ('w, 'm, 'b) proj_ports =
  pp_deliver :: "'w \<Rightarrow> ((string + 'm fact) \<times> 'w) option"
  pp_ack :: "'w \<Rightarrow> 'm fact \<Rightarrow> string option \<times> 'w"
  pp_nak :: "'w \<Rightarrow> 'm fact \<Rightarrow> string option \<times> 'w"
  pp_delivered :: "'w \<Rightarrow> 'm fact \<Rightarrow> int"
  pp_ack_floor :: "'w \<Rightarrow> (string + stream_seq) \<times> 'w"
  pp_fold_range :: "'w \<Rightarrow> stream_seq \<Rightarrow> stream_seq \<Rightarrow> ((string + 'm fact list) \<times> 'w) option"
  pp_publish :: "'w \<Rightarrow> bool \<Rightarrow> string \<Rightarrow> string \<Rightarrow> string \<Rightarrow> string \<Rightarrow> 'b \<Rightarrow> string option \<times> 'w"
  pp_dlq :: "'w \<Rightarrow> string \<Rightarrow> string \<Rightarrow> string \<Rightarrow> int \<Rightarrow> string option \<times> 'w"
  pp_load :: "'w \<Rightarrow> stream_seq \<Rightarrow> (string + snapshot option \<times> stream_seq) \<times> 'w"
  pp_save :: "'w \<Rightarrow> stream_seq \<Rightarrow> snapshot \<Rightarrow> string option \<times> 'w"
  pp_ctx_err :: "'w \<Rightarrow> string option \<times> 'w"
  pp_backoff :: "'w \<Rightarrow> bool \<Rightarrow> duration \<Rightarrow> string option \<times> 'w"
  pp_schedule :: "'w \<Rightarrow> nat \<times> 'w"
  pp_marshal :: "event \<Rightarrow> string + 'b"
  pp_marshal_control :: "feed_control \<Rightarrow> string + 'b"

record projector =
  pj_st :: pstate
  pj_since_snap :: int
  pj_last_ack_seq :: stream_seq

definition NewProjector :: projector where
  "NewProjector = \<lparr>pj_st = newState, pj_since_snap = 0, pj_last_ack_seq = 0\<rparr>"

section \<open>Publishing\<close>

text \<open>
  One iteration of the loop of \<open>publishWithRetry\<close>, with \<open>attempt\<close> the iterations done: the wait
  before a retry may end by the context (\<open>Stopped\<close>). The flag \<open>grp\<close> tells the port that the publisher's
  group was cancelled by a sibling's error.
\<close>

datatype publish_out = Stopped string | Published | Failed string

definition publish_attempt ::
  "('w, 'm, 'b) proj_ports \<Rightarrow> pconfig \<Rightarrow> bool \<Rightarrow> nat \<Rightarrow> string \<Rightarrow> string \<Rightarrow> string \<Rightarrow> string \<Rightarrow> 'b \<Rightarrow> 'w \<Rightarrow>
     publish_out \<times> 'w" where
  "publish_attempt P c grp attempt tenant agent iid dedup payload w =
     (let (stop, w1) = (if attempt = 0 then (None, w) else pp_backoff P w grp (i64_wrap (RetryBackoff c * 2 ^ (attempt - 1))))
      in case stop of
           Some e \<Rightarrow> (Stopped e, w1)
         | None \<Rightarrow> (case pp_publish P w1 grp tenant agent iid dedup payload of
               (None, w2) \<Rightarrow> (Published, w2)
             | (Some e, w2) \<Rightarrow> (Failed e, w2)))"

fun publish_loop ::
  "('w, 'm, 'b) proj_ports \<Rightarrow> pconfig \<Rightarrow> nat \<Rightarrow> nat \<Rightarrow> string option \<Rightarrow> string \<Rightarrow> string \<Rightarrow> string \<Rightarrow> string \<Rightarrow> 'b \<Rightarrow> 'w \<Rightarrow>
     string option \<times> 'w" where
  "publish_loop P c 0 attempt err tenant agent iid dedup payload w = (err, w)"
| "publish_loop P c (Suc k) attempt err tenant agent iid dedup payload w =
     (case publish_attempt P c False attempt tenant agent iid dedup payload w of
        (Stopped e, w') \<Rightarrow> (Some e, w')
      | (Published, w') \<Rightarrow> (None, w')
      | (Failed e, w') \<Rightarrow> publish_loop P c k (Suc attempt) (Some e) tenant agent iid dedup payload w')"

definition publishWithRetry ::
  "('w, 'm, 'b) proj_ports \<Rightarrow> pconfig \<Rightarrow> string \<Rightarrow> string \<Rightarrow> string \<Rightarrow> string \<Rightarrow> 'b \<Rightarrow> 'w \<Rightarrow> string option \<times> 'w" where
  "publishWithRetry P c tenant agent iid dedup payload w =
     publish_loop P c (nat (PublishRetry c)) 0 None tenant agent iid dedup payload w"

section \<open>Concurrent fan-out\<close>

text \<open>
  A publisher of the \<open>errgroup\<close>: the attempts it has left, the attempts done and its last error, or
  finished. \<open>SetLimit\<close> keeps at most \<open>FanoutConcurrency\<close> of them running, started in order, so the
  runnable ones are the first that many unfinished ones; the world picks which of them takes its next step.
  A negative limit is none. A limit of 0 makes the first \<open>Go\<close> wait forever, which is \<open>None\<close>.
  The first error cancels the group's context and is what \<open>Wait\<close> returns.
\<close>

datatype worker = Running nat nat "string option" | Finished

fun worker_left :: "worker \<Rightarrow> nat" where
  "worker_left (Running left _ _) = Suc left"
| "worker_left Finished = 0"

definition runnable :: "int \<Rightarrow> worker list \<Rightarrow> nat list" where
  "runnable limit ws =
     (let unfinished = filter (\<lambda>j. ws ! j \<noteq> Finished) [0..<length ws]
      in if limit < 0 then unfinished else take (nat limit) unfinished)"

definition feed_dedup :: "string \<Rightarrow> string \<Rightarrow> string \<Rightarrow> int \<Rightarrow> string" where
  "feed_dedup tenant agent iid s = tenant @ ''.'' @ agent @ ''.'' @ iid @ ''.'' @ go_itoa s"

text \<open>One step of publisher \<open>agent\<close>: its new state, and the error it ends with.\<close>

definition worker_step ::
  "('w, 'm, 'b) proj_ports \<Rightarrow> pconfig \<Rightarrow> event \<Rightarrow> string \<Rightarrow> 'b \<Rightarrow> bool \<Rightarrow> string \<Rightarrow> worker \<Rightarrow> 'w \<Rightarrow>
     worker \<times> string option \<times> 'w" where
  "worker_step P c e iid payload grp agent wk w =
     (case wk of
        Finished \<Rightarrow> (Finished, None, w)
      | Running 0 attempt err \<Rightarrow> (Finished, err, w)
      | Running (Suc k) attempt err \<Rightarrow>
          (case publish_attempt P c grp attempt (ev_tenant e) agent iid
                  (feed_dedup (ev_tenant e) agent iid (ev_seq e)) payload w of
             (Stopped x, w') \<Rightarrow> (Finished, Some x, w')
           | (Published, w') \<Rightarrow> (Finished, None, w')
           | (Failed x, w') \<Rightarrow> (Running k (Suc attempt) (Some x), None, w')))"

lemma worker_step_left:
  "worker_step P c e iid payload grp agent wk w = (wk', err, w') \<Longrightarrow> wk \<noteq> Finished \<Longrightarrow>
     worker_left wk' < worker_left wk"
  by (auto simp: worker_step_def split: worker.splits nat.splits prod.splits publish_out.splits)

lemma runnable_props: "j \<in> set (runnable limit ws) \<Longrightarrow> j < length ws \<and> ws ! j \<noteq> Finished"
  by (auto simp: runnable_def Let_def split: if_splits dest!: in_set_takeD)

lemma runnable_empty: "runnable limit ws = [] \<Longrightarrow> limit \<noteq> 0 \<Longrightarrow> j < length ws \<Longrightarrow> ws ! j = Finished"
  by (auto simp: runnable_def Let_def filter_empty_conv split: if_splits)

function fan_loop ::
  "('w, 'm, 'b) proj_ports \<Rightarrow> pconfig \<Rightarrow> event \<Rightarrow> string \<Rightarrow> string list \<Rightarrow> 'b \<Rightarrow> worker list \<Rightarrow> string option \<Rightarrow> 'w \<Rightarrow>
     (string option \<times> 'w) option" where
  "fan_loop P c e iid recipients payload ws gerr w =
     (if list_all (\<lambda>wk. wk = Finished) ws then Some (gerr, w)
      else if runnable (FanoutConcurrency c) ws = [] then None
      else let (k, w1) = pp_schedule P w;
               j = runnable (FanoutConcurrency c) ws ! (k mod length (runnable (FanoutConcurrency c) ws));
               (wk', err, w2) = worker_step P c e iid payload (gerr \<noteq> None) (recipients ! j) (ws ! j) w1
           in fan_loop P c e iid recipients payload (ws[j := wk'])
                (if gerr = None then err else gerr) w2)"
  by pat_completeness auto

lemma sum_list_update_less:
  "j < length ws \<Longrightarrow> g x < g (ws ! j) \<Longrightarrow> sum_list (map g (ws[j := x])) < (sum_list (map g ws) :: nat)"
  by (induction ws arbitrary: j) (auto split: nat.splits simp: less_Suc_eq_0_disj)

lemma runnable_nth: "runnable n ws \<noteq> [] \<Longrightarrow> runnable n ws ! (k mod length (runnable n ws)) \<in> set (runnable n ws)"
  by simp

termination fan_loop
proof (relation "measure (\<lambda>(P, c, e, iid, recipients, payload, ws, gerr, w). sum_list (map worker_left ws))", goal_cases)
  case (2 P c e iid recipients payload ws gerr w x k w1 j y wk' z err w2)
  have "j < length ws \<and> ws ! j \<noteq> Finished"
    using 2(5) runnable_props [OF runnable_nth [OF 2(2), of k]] by simp
  with 2 worker_step_left [of P c e iid payload "gerr \<noteq> None" "recipients ! j" "ws ! j" w1 wk' err w2]
  show ?case by (auto intro!: sum_list_update_less)
qed simp

declare fan_loop.simps [simp del]

definition fanout ::
  "('w, 'm, 'b) proj_ports \<Rightarrow> pconfig \<Rightarrow> event \<Rightarrow> string \<Rightarrow> string list \<Rightarrow> 'b \<Rightarrow> 'w \<Rightarrow> (string option \<times> 'w) option" where
  "fanout P c e iid recipients payload w =
     (if recipients = [] then Some (None, w)
      else fan_loop P c e iid recipients payload
             (map (\<lambda>_. Running (nat (PublishRetry c)) 0 None) recipients) None w)"

section \<open>Tombstone, dead letters, snapshots\<close>

definition feedControlSchema :: string where "feedControlSchema = SchemaV1"
definition controlRevoked :: string where "controlRevoked = ''feed.revoked''"

definition revoked_dedup :: "string \<Rightarrow> string \<Rightarrow> string \<Rightarrow> int \<Rightarrow> string" where
  "revoked_dedup tenant agent iid s = feed_dedup tenant agent iid s @ ''.revoked''"

definition revoked_control :: "string \<Rightarrow> int \<Rightarrow> feed_control" where
  "revoked_control iid atSeq =
     \<lparr>fc_schema = feedControlSchema, fc_control = controlRevoked, fc_interaction_id = iid, fc_at_sequence = atSeq\<rparr>"

definition tombstone ::
  "('w, 'm, 'b) proj_ports \<Rightarrow> pconfig \<Rightarrow> string \<Rightarrow> string \<Rightarrow> string \<Rightarrow> int \<Rightarrow> 'w \<Rightarrow> string option \<times> 'w" where
  "tombstone P c tenant agent iid atSeq w =
     (case pp_marshal_control P (revoked_control iid atSeq) of
        Inl e \<Rightarrow> (Some e, w)
      | Inr payload \<Rightarrow> publishWithRetry P c tenant agent iid (revoked_dedup tenant agent iid atSeq) payload w)"

definition dlqOrNak ::
  "('w, 'm, 'b) proj_ports \<Rightarrow> pconfig \<Rightarrow> 'm fact \<Rightarrow> string \<Rightarrow> projector \<Rightarrow> 'w \<Rightarrow> string option \<times> projector \<times> 'w" where
  "dlqOrNak P c f reason p w =
     (if pp_delivered P w f < MaxDeliver c
      then let (r, w') = pp_nak P w f in (r, p, w')
      else let (tenant, evID, s) = (case f_event f of None \<Rightarrow> ('''', '''', 0) | Some e \<Rightarrow> (ev_tenant e, ev_id e, ev_seq e))
           in case pp_dlq P w tenant reason evID s of
                (Some _, w1) \<Rightarrow> (let (r, w') = pp_nak P w1 f in (r, p, w'))
              | (None, w1) \<Rightarrow> (case pp_ack P w1 f of
                    (Some x, w2) \<Rightarrow> (Some (''ack dlq: '' @ x), p, w2)
                  | (None, w2) \<Rightarrow> (None, p\<lparr>pj_last_ack_seq := f_stream_seq f\<rparr>, w2)))"

definition maybeSnapshot ::
  "('w, 'm, 'b) proj_ports \<Rightarrow> pconfig \<Rightarrow> stream_seq \<Rightarrow> projector \<Rightarrow> 'w \<Rightarrow> projector \<times> 'w" where
  "maybeSnapshot P c s p w =
     (let p1 = p\<lparr>pj_since_snap := pj_since_snap p + 1\<rparr>
      in if pj_since_snap p1 < SnapshotEvery c then (p1, w)
         else case pp_save P w s (state_snapshot (pj_st p1)) of
                (Some _, w') \<Rightarrow> (p1, w')
              | (None, w') \<Rightarrow> (p1\<lparr>pj_since_snap := 0\<rparr>, w'))"

section \<open>Processing a fact\<close>

definition nak_fact :: "('w, 'm, 'b) proj_ports \<Rightarrow> 'm fact \<Rightarrow> projector \<Rightarrow> 'w \<Rightarrow> string option \<times> projector \<times> 'w" where
  "nak_fact P f p w = (let (r, w') = pp_nak P w f in (r, p, w'))"

text \<open>A failed publish: under a cancelled context the fact is returned, otherwise retried or dead-lettered.\<close>

definition publish_failed ::
  "('w, 'm, 'b) proj_ports \<Rightarrow> pconfig \<Rightarrow> 'm fact \<Rightarrow> string \<Rightarrow> projector \<Rightarrow> 'w \<Rightarrow> string option \<times> projector \<times> 'w" where
  "publish_failed P c f reason p w =
     (case pp_ctx_err P w of
        (Some _, w1) \<Rightarrow> nak_fact P f p w1
      | (None, w1) \<Rightarrow> dlqOrNak P c f reason p w1)"

definition settle ::
  "('w, 'm, 'b) proj_ports \<Rightarrow> pconfig \<Rightarrow> 'm fact \<Rightarrow> projector \<Rightarrow> 'w \<Rightarrow> string option \<times> projector \<times> 'w" where
  "settle P c f p w =
     (case pp_ctx_err P w of
        (Some _, w1) \<Rightarrow> nak_fact P f p w1
      | (None, w1) \<Rightarrow>
          (case pp_ack P w1 f of
             (Some x, w2) \<Rightarrow> (Some (''ack: '' @ x), p, w2)
           | (None, w2) \<Rightarrow>
               (let (p', w3) = maybeSnapshot P c (f_stream_seq f) (p\<lparr>pj_last_ack_seq := f_stream_seq f\<rparr>) w2
                in (None, p', w3))))"

definition revoke_and_settle ::
  "('w, 'm, 'b) proj_ports \<Rightarrow> pconfig \<Rightarrow> 'm fact \<Rightarrow> event \<Rightarrow> projector \<Rightarrow> 'w \<Rightarrow> string option \<times> projector \<times> 'w" where
  "revoke_and_settle P c f e p w =
     (if ev_type e = T_left
      then (case tombstone P c (ev_tenant e) (ev_actor e) (interactionOf f) (ev_seq e) w of
              (Some x, w1) \<Rightarrow> publish_failed P c f (''revoked tombstone failed: '' @ x) p w1
            | (None, w1) \<Rightarrow> settle P c f p w1)
      else settle P c f p w)"

text \<open>\<open>process\<close> never returns, which is \<open>None\<close>, when the fan-out does not.\<close>

definition process ::
  "('w, 'm, 'b) proj_ports \<Rightarrow> pconfig \<Rightarrow> 'm fact \<Rightarrow> projector \<Rightarrow> 'w \<Rightarrow> (string option \<times> projector \<times> 'w) option" where
  "process P c f p w =
     (case f_event f of
        None \<Rightarrow> Some (dlqOrNak P c f ''malformed envelope'' p w)
      | Some e \<Rightarrow>
          if ev_tenant e = '''' \<or> ev_type e = '''' then Some (dlqOrNak P c f ''malformed envelope'' p w)
          else if interactionOf f = '''' then Some (dlqOrNak P c f ''unresolved interaction id'' p w)
          else let key = fact_key e f;
                   p1 = p\<lparr>pj_st := state_apply (pj_st p) key e\<rparr>;
                   recipients = coveredBy (fst (state_view (pj_st p1) key)) (ev_seq e)
               in case pp_marshal P e of
                    Inl _ \<Rightarrow> Some (dlqOrNak P c f ''marshal event'' p1 w)
                  | Inr payload \<Rightarrow>
                      (case fanout P c e (interactionOf f) recipients payload w of
                         None \<Rightarrow> None
                       | Some (Some x, w1) \<Rightarrow> Some (publish_failed P c f (''feed publish failed: '' @ x) p1 w1)
                       | Some (None, w1) \<Rightarrow> Some (revoke_and_settle P c f e p1 w1)))"

section \<open>Hydration and the loop\<close>

text \<open>Folding a fact without an event dereferences a nil pointer: the error is Go's panic.\<close>

fun hydrate_fold :: "pstate \<Rightarrow> 'm fact list \<Rightarrow> string + pstate" where
  "hydrate_fold s [] = Inr s"
| "hydrate_fold s (f # fs) =
     (case f_event f of
        None \<Rightarrow> Inl ''panic: nil pointer dereference''
      | Some e \<Rightarrow> hydrate_fold (state_apply s (fact_key e f) e) fs)"

definition Hydrate :: "('w, 'm, 'b) proj_ports \<Rightarrow> projector \<Rightarrow> 'w \<Rightarrow> (string option \<times> projector \<times> 'w) option" where
  "Hydrate P p w =
     (case pp_ack_floor P w of
        (Inl e, w1) \<Rightarrow> Some (Some e, p, w1)
      | (Inr floor, w1) \<Rightarrow>
          (case pp_load P w1 floor of
             (Inl e, w2) \<Rightarrow> Some (Some e, p, w2)
           | (Inr (snap, snapSeq), w2) \<Rightarrow>
               (let p1 = p\<lparr>pj_st := restore newState snap, pj_last_ack_seq := floor\<rparr>
                in if floor \<le> snapSeq then Some (None, p1, w2)
                   else case pp_fold_range P w2 snapSeq floor of
                          None \<Rightarrow> None
                        | Some (Inl e, w3) \<Rightarrow> Some (Some e, p1, w3)
                        | Some (Inr tail, w3) \<Rightarrow>
                            (case hydrate_fold (pj_st p1) tail of
                               Inl e \<Rightarrow> Some (Some e, p1, w3)
                             | Inr s \<Rightarrow> Some (None, p1\<lparr>pj_st := s\<rparr>, w3)))))"

text \<open>One turn of the loop of \<open>Run\<close> under the context that \<open>begin\<close> returned: go on, or return an error.\<close>

datatype turn_out = Go_on | Exit string

definition run_turn ::
  "('w, 'm, 'b) proj_ports \<Rightarrow> pconfig \<Rightarrow> projector \<Rightarrow> 'w \<Rightarrow> (turn_out \<times> projector \<times> 'w) option" where
  "run_turn P c p w =
     (case pp_deliver P w of
        None \<Rightarrow> None
      | Some (Inl e, w1) \<Rightarrow>
          (case pp_ctx_err P w1 of
             (Some _, w2) \<Rightarrow> Some (Go_on, p, w2)
           | (None, w2) \<Rightarrow> Some (Exit (''deliver: '' @ e), p, w2))
      | Some (Inr f, w1) \<Rightarrow>
          (case process P c f p w1 of
             None \<Rightarrow> None
           | Some (None, p', w2) \<Rightarrow> Some (Go_on, p', w2)
           | Some (Some e, p', w2) \<Rightarrow>
               (case pp_ctx_err P w2 of
                  (Some _, w3) \<Rightarrow> Some (Go_on, p', w3)
                | (None, w3) \<Rightarrow> Some (Exit e, p', w3))))"

end
