(* ===== verification/Projector_Env.thy ===== *)
theory Projector_Env
  imports Projector_Core
begin

text \<open>
  What the projector relies on. The observers name what can be seen of the world: the
  messages ever stored in feeds, each with its dedup id (a sink that forgets ids may store a message again); the stream of facts; how
  many of its first facts the source is past (it hands out the next one); the dead letters; the stored
  snapshots; and which facts carry a delivery handle.
  The locale \<open>feed_env\<close> states the contract of the sink and of what only delays or interrupts; \<open>projector_env\<close>
  adds the serial source (one fact in flight, the same fact again until it is acknowledged or the source gives up on it and
  skips it), the range read (which may end early), and
  the snapshot store. The lemmas of \<open>feed_env\<close> give what publishing, the concurrent fan-out and \<open>process\<close> do to the world.
\<close>

section \<open>Observers\<close>

type_synonym 'b feed_msg = "string \<times> string \<times> string \<times> 'b"

record ('w, 'm, 'b) observers =
  ob_inv :: "'w \<Rightarrow> bool"
  ob_feed :: "'w \<Rightarrow> (string \<times> 'b feed_msg) set"
  ob_log :: "'w \<Rightarrow> unit fact list"
  ob_settled :: "'w \<Rightarrow> nat"
  ob_dead :: "'w \<Rightarrow> (string \<times> string \<times> string \<times> int) set"
  ob_saved :: "'w \<Rightarrow> (stream_seq \<times> snapshot) set"
  ob_handle :: "'m fact \<Rightarrow> bool"

definition in_flight :: "('w, 'm, 'b) observers \<Rightarrow> 'w \<Rightarrow> 'm fact \<Rightarrow> bool" where
  "in_flight V w f \<longleftrightarrow> ob_settled V w < length (ob_log V w) \<and> ob_log V w ! ob_settled V w = core f \<and> ob_handle V f"

text \<open>
  The world moves on: facts may be appended, nothing is settled, no snapshot is stored, and a message
  enters a feed only if it is one of \<open>auth\<close>; a message in a feed stays there.
\<close>

definition moves :: "('w, 'm, 'b) observers \<Rightarrow> (string \<times> 'b feed_msg) set \<Rightarrow> 'w \<Rightarrow> 'w \<Rightarrow> bool" where
  "moves V auth w w' \<longleftrightarrow>
     ob_inv V w' \<and> prefix (ob_log V w) (ob_log V w') \<and> ob_settled V w' = ob_settled V w \<and>
     ob_saved V w' = ob_saved V w \<and> ob_feed V w \<subseteq> ob_feed V w' \<and> ob_feed V w' \<subseteq> ob_feed V w \<union> auth \<and>
     ob_dead V w \<subseteq> ob_dead V w'"

definition quiet :: "('w, 'm, 'b) observers \<Rightarrow> 'w \<Rightarrow> 'w \<Rightarrow> bool" where
  "quiet V w w' \<longleftrightarrow>
     ob_inv V w' \<and> prefix (ob_log V w) (ob_log V w') \<and> ob_settled V w' = ob_settled V w \<and>
     ob_saved V w' = ob_saved V w \<and> ob_feed V w' = ob_feed V w \<and> ob_dead V w' = ob_dead V w"

lemma moves_refl: "ob_inv V w \<Longrightarrow> moves V auth w w"
  by (simp add: moves_def)

lemma moves_trans:
  assumes "moves V auth u v" "moves V auth v w"
  shows "moves V auth u w"
proof -
  have "ob_feed V u \<subseteq> ob_feed V w" "ob_feed V w \<subseteq> ob_feed V u \<union> auth" "ob_dead V u \<subseteq> ob_dead V w"
    using assms unfolding moves_def by blast+
  with assms show ?thesis unfolding moves_def by (simp add: prefix_order.trans [of _ "ob_log V v"])
qed

lemma moves_mono: "moves V auth w w' \<Longrightarrow> auth \<subseteq> auth' \<Longrightarrow> moves V auth' w w'"
  unfolding moves_def by blast

lemma quiet_moves: "quiet V w w' \<Longrightarrow> moves V auth w w'"
  by (simp add: quiet_def moves_def)

lemma quiet_trans: "quiet V u v \<Longrightarrow> quiet V v w \<Longrightarrow> quiet V u w"
  by (auto simp: quiet_def intro: prefix_order.trans)

lemma quiet_inv: "quiet V w w' \<Longrightarrow> ob_inv V w'"
  by (simp add: quiet_def)

lemma moves_inv: "moves V auth w w' \<Longrightarrow> ob_inv V w'"
  by (simp add: moves_def)

lemma moves_dom: "moves V auth w w' \<Longrightarrow> d \<in> fst ` ob_feed V w \<Longrightarrow> d \<in> fst ` ob_feed V w'"
  unfolding moves_def by blast

lemma prefix_nth: "prefix xs ys \<Longrightarrow> i < length xs \<Longrightarrow> ys ! i = xs ! i"
  by (auto simp: prefix_def nth_append)

lemma moves_in_flight: "moves V auth w w' \<Longrightarrow> in_flight V w f \<Longrightarrow> in_flight V w' f"
  by (auto simp: moves_def in_flight_def prefix_nth dest: prefix_length_le)

section \<open>The contract\<close>

locale feed_env =
  fixes P :: "('w, 'm, 'b) proj_ports" and V :: "('w, 'm, 'b) observers"
  assumes publish_law: "ob_inv V w \<Longrightarrow> pp_publish P w grp t a i d pl = (r, w') \<Longrightarrow>
      moves V {(d, (t, a, i, pl))} w w' \<and> (r = None \<longrightarrow> d \<in> fst ` ob_feed V w')"
    and dlq_law: "ob_inv V w \<Longrightarrow> pp_dlq P w t reason ev s = (r, w') \<Longrightarrow>
      moves V {} w w' \<and> (r = None \<longrightarrow> (t, reason, ev, s) \<in> ob_dead V w')"
    and ctx_err_law: "ob_inv V w \<Longrightarrow> pp_ctx_err P w = (r, w') \<Longrightarrow> quiet V w w'"
    and backoff_law: "ob_inv V w \<Longrightarrow> pp_backoff P w grp dur = (r, w') \<Longrightarrow> quiet V w w'"
    and schedule_law: "ob_inv V w \<Longrightarrow> pp_schedule P w = (k, w') \<Longrightarrow> quiet V w w'"

definition fan_auth :: "event \<Rightarrow> string \<Rightarrow> string set \<Rightarrow> 'b \<Rightarrow> (string \<times> 'b feed_msg) set" where
  "fan_auth e iid as pl = (\<lambda>a. (feed_dedup (ev_tenant e) a iid (ev_seq e), (ev_tenant e, a, iid, pl))) ` as"

text \<open>A publisher finishes with an error or with its message in the feed, whatever the schedule.\<close>

definition worker_ok :: "('w, 'm, 'b) observers \<Rightarrow> string \<Rightarrow> string option \<Rightarrow> worker \<Rightarrow> 'w \<Rightarrow> bool" where
  "worker_ok V d gerr wk w \<longleftrightarrow>
     (case wk of Finished \<Rightarrow> gerr \<noteq> None \<or> d \<in> fst ` ob_feed V w | Running left att err \<Rightarrow> left \<noteq> 0 \<or> err \<noteq> None)"


text \<open>Every fact of the stream has a position, keys are unambiguous, and each interaction's facts carry
  increasing sequence numbers, as the router writes them.\<close>

definition stream_ok :: "'m fact list \<Rightarrow> bool" where
  "stream_ok fs \<longleftrightarrow>
     sorted_wrt (<) (map f_stream_seq fs) \<and> (\<forall>f \<in> set fs. 0 < f_stream_seq f) \<and> keyed fs \<and>
     (\<forall>t i. seq_increasing (events_of fs t i))"

text \<open>
  A delivery is quiet, except that the source may have given up on facts that it handed out too often, and
  skipped them.
\<close>

definition passes :: "('w, 'm, 'b) observers \<Rightarrow> 'w \<Rightarrow> 'w \<Rightarrow> bool" where
  "passes V w w' \<longleftrightarrow>
     ob_inv V w' \<and> prefix (ob_log V w) (ob_log V w') \<and> ob_settled V w \<le> ob_settled V w' \<and>
     ob_saved V w' = ob_saved V w \<and> ob_feed V w' = ob_feed V w \<and> ob_dead V w' = ob_dead V w"

lemma passes_quiet: "passes V w w' \<Longrightarrow> ob_settled V w' = ob_settled V w \<Longrightarrow> quiet V w w'"
  by (simp add: passes_def quiet_def)

text \<open>The facts of a range, without those that do not decode.\<close>

definition in_range :: "stream_seq \<Rightarrow> stream_seq \<Rightarrow> unit fact list \<Rightarrow> unit fact list" where
  "in_range lo hi fs = filter (\<lambda>f. f_event f \<noteq> None \<and> lo < f_stream_seq f \<and> f_stream_seq f \<le> hi) fs"

locale projector_env = feed_env +
  assumes stream_law: "ob_inv V w \<Longrightarrow> stream_ok (ob_log V w) \<and> ob_settled V w \<le> length (ob_log V w)"
    and deliver_law: "ob_inv V w \<Longrightarrow> pp_deliver P w = Some (rd, w') \<Longrightarrow>
      passes V w w' \<and> (\<forall>f. rd = Inr f \<longrightarrow> in_flight V w' f)"
    and nak_law: "ob_inv V w \<Longrightarrow> in_flight V w f \<Longrightarrow> pp_nak P w f = (r, w') \<Longrightarrow> quiet V w w'"
    and ack_law: "ob_inv V w \<Longrightarrow> in_flight V w f \<Longrightarrow> pp_ack P w f = (r, w') \<Longrightarrow>
      quiet V w w' \<and> r \<noteq> None \<or>
      (ob_inv V w' \<and> prefix (ob_log V w) (ob_log V w') \<and> ob_settled V w' = Suc (ob_settled V w) \<and>
       ob_saved V w' = ob_saved V w \<and> ob_feed V w' = ob_feed V w \<and> ob_dead V w' = ob_dead V w)"
    and ack_floor_law: "ob_inv V w \<Longrightarrow> pp_ack_floor P w = (rf, w') \<Longrightarrow>
      quiet V w w' \<and> (\<forall>n. rf = Inr n \<longrightarrow>
        filter (\<lambda>f. f_stream_seq f \<le> n) (ob_log V w') = take (ob_settled V w') (ob_log V w') \<and>
        (n = 0 \<or> n \<in> f_stream_seq ` set (ob_log V w')))"
    and fold_range_law: "ob_inv V w \<Longrightarrow> pp_fold_range P w lo hi = Some (rr, w') \<Longrightarrow>
      lo = 0 \<or> lo \<in> f_stream_seq ` set (ob_log V w) \<Longrightarrow>
      quiet V w w' \<and> (\<forall>fs. rr = Inr fs \<longrightarrow> prefix (map core fs) (in_range lo hi (ob_log V w')))"
    and load_law: "ob_inv V w \<Longrightarrow> pp_load P w n = (rl, w') \<Longrightarrow>
      quiet V w w' \<and> (\<forall>snap sq. rl = Inr (snap, sq) \<longrightarrow> sq \<le> n \<and>
        (case snap of None \<Rightarrow> sq = 0 | Some s \<Rightarrow> (sq, s) \<in> ob_saved V w'))"
    and save_law: "ob_inv V w \<Longrightarrow> pp_save P w sq s = (r, w') \<Longrightarrow>
      ob_inv V w' \<and> prefix (ob_log V w) (ob_log V w') \<and> ob_settled V w' = ob_settled V w \<and>
      ob_saved V w' \<subseteq> insert (sq, s) (ob_saved V w) \<and> ob_feed V w' = ob_feed V w \<and> ob_dead V w' = ob_dead V w"

section \<open>Publishing\<close>

context feed_env
begin

lemma publish_attempt_moves:
  assumes "publish_attempt P c grp att t a i d pl w = (r, w')" "ob_inv V w"
  shows "moves V {(d, (t, a, i, pl))} w w' \<and> (r = Published \<longrightarrow> d \<in> fst ` ob_feed V w')"
proof -
  obtain stop w1 where b: "(if att = 0 then (None, w) else pp_backoff P w grp (i64_wrap (RetryBackoff c * 2 ^ (att - 1)))) = (stop, w1)"
    by force
  have q: "moves V {(d, (t, a, i, pl))} w w1"
    using b backoff_law [OF assms(2), THEN quiet_moves] moves_refl [OF assms(2)] by (auto split: if_splits)
  show ?thesis
  proof (cases stop)
    case (Some x)
    with assms(1) b q show ?thesis by (auto simp: publish_attempt_def)
  next
    case None
    obtain r2 w2 where p: "pp_publish P w1 grp t a i d pl = (r2, w2)" by force
    have "w' = w2" "r = Published \<longleftrightarrow> r2 = None"
      using assms(1) b None p by (auto simp: publish_attempt_def split: option.splits)
    then show ?thesis
      using publish_law [OF moves_inv [OF q] p] moves_trans [OF q, of w2] by auto
  qed
qed

lemma publish_loop_moves:
  assumes "publish_loop P c k att err t a i d pl w = (r, w')" "ob_inv V w"
  shows "moves V {(d, (t, a, i, pl))} w w' \<and> (r = None \<longrightarrow> err = None \<and> k = 0 \<or> d \<in> fst ` ob_feed V w')"
  using assms
proof (induction k arbitrary: att err w)
  case 0
  then show ?case by (simp add: moves_refl)
next
  case (Suc k)
  obtain out w1 where pa: "publish_attempt P c False att t a i d pl w = (out, w1)" by force
  note m = publish_attempt_moves [OF pa Suc.prems(2)]
  show ?case
  proof (cases out)
    case (Failed x)
    with Suc.prems(1) pa have "publish_loop P c k (Suc att) (Some x) t a i d pl w1 = (r, w')" by simp
    from Suc.IH [OF this] m show ?thesis using moves_trans [of V _ w w1 w'] by (auto dest: moves_inv)
  qed (use Suc.prems(1) pa m in auto)
qed

lemma publishWithRetry_moves:
  assumes "publishWithRetry P c t a i d pl w = (r, w')" "ob_inv V w" "0 < PublishRetry c"
  shows "moves V {(d, (t, a, i, pl))} w w' \<and> (r = None \<longrightarrow> d \<in> fst ` ob_feed V w')"
  using publish_loop_moves [OF assms(1) [unfolded publishWithRetry_def] assms(2)] assms(3) by auto

lemma worker_ok_moves:
  "moves V auth w w' \<Longrightarrow> worker_ok V d gerr wk w \<Longrightarrow> gerr' = None \<longrightarrow> gerr = None \<Longrightarrow> worker_ok V d gerr' wk w'"
  using moves_dom [of V auth w w' d] by (auto simp: worker_ok_def split: worker.splits)

lemma worker_step_moves:
  assumes "worker_step P c e iid pl grp a wk w = (wk', err, w')" "ob_inv V w" "wk \<noteq> Finished"
    and d: "d = feed_dedup (ev_tenant e) a iid (ev_seq e)" and ok: "worker_ok V d gerr wk w"
  shows "moves V {(d, (ev_tenant e, a, iid, pl))} w w' \<and> worker_ok V d err wk' w'"
proof (cases wk)
  case (Running left att er)
  show ?thesis
  proof (cases left)
    case 0
    with assms Running show ?thesis by (auto simp: worker_step_def worker_ok_def moves_refl)
  next
    case (Suc k)
    obtain out w1 where pa: "publish_attempt P c grp att (ev_tenant e) a iid d pl w = (out, w1)" by force
    note m = publish_attempt_moves [OF pa assms(2)]
    show ?thesis
      using assms(1) m pa unfolding Running Suc d
      by (cases out) (auto simp: worker_step_def worker_ok_def)
  qed
qed (use assms(3) in simp)

lemma fan_loop_moves:
  assumes "fan_loop P c e iid recipients pl ws gerr w = Some (r, w')" "ob_inv V w"
    and "length ws = length recipients"
    and "\<forall>j < length ws. worker_ok V (feed_dedup (ev_tenant e) (recipients ! j) iid (ev_seq e)) gerr (ws ! j) w"
  shows "moves V (fan_auth e iid (set recipients) pl) w w' \<and>
    (r = None \<longrightarrow> (\<forall>a \<in> set recipients. feed_dedup (ev_tenant e) a iid (ev_seq e) \<in> fst ` ob_feed V w'))"
  using assms
proof (induction "sum_list (map worker_left ws)" arbitrary: ws gerr w rule: less_induct)
  case less
  let ?R = "runnable (FanoutConcurrency c) ws"
  let ?d = "\<lambda>j. feed_dedup (ev_tenant e) (recipients ! j) iid (ev_seq e)"
  show ?case
  proof (cases "list_all (\<lambda>wk. wk = Finished) ws")
    case True
    with less.prems(1) have r: "r = gerr" "w' = w" by (simp_all add: fan_loop.simps)
    have "?d j \<in> fst ` ob_feed V w" if "gerr = None" "j < length ws" for j
    proof -
      have "worker_ok V (?d j) gerr (ws ! j) w" using less.prems(4) that(2) by blast
      moreover have "ws ! j = Finished" using True that(2) by (simp add: list_all_length)
      ultimately show ?thesis using that(1) by (simp add: worker_ok_def)
    qed
    with r less.prems(2,3) show ?thesis by (simp add: moves_refl all_set_conv_all_nth)
  next
    case nf: False
    then have False: "?R \<noteq> []" using less.prems(1) by (auto simp: fan_loop.simps)
    obtain k w1 where k: "pp_schedule P w = (k, w1)" by force
    define j where "j = ?R ! (k mod length ?R)"
    obtain wk' err w2 where st: "worker_step P c e iid pl (gerr \<noteq> None) (recipients ! j) (ws ! j) w1 = (wk', err, w2)"
      using prod_cases3 by blast
    have loop: "fan_loop P c e iid recipients pl (ws[j := wk']) (if gerr = None then err else gerr) w2 = Some (r, w')"
      using less.prems(1) nf False k st by (subst (asm) fan_loop.simps) (simp add: j_def Let_def)
    have j: "j < length ws" "ws ! j \<noteq> Finished"
      using runnable_props runnable_nth [OF False] by (auto simp: j_def)
    have q: "moves V A w w1" for A using quiet_moves [OF schedule_law [OF less.prems(2) k]] .
    have ok1: "worker_ok V (?d i) gerr (ws ! i) w1" if "i < length ws" for i
      using worker_ok_moves [OF q] less.prems(4) that by blast
    note ws = worker_step_moves [OF st moves_inv [OF q] j(2) refl ok1 [OF j(1)]]
    have sub: "{(?d j, (ev_tenant e, recipients ! j, iid, pl))} \<subseteq> fan_auth e iid (set recipients) pl"
      using j less.prems(3) by (auto simp: fan_auth_def)
    have m2: "moves V (fan_auth e iid (set recipients) pl) w1 w2" by (rule moves_mono [OF conjunct1 [OF ws] sub])
    have "worker_ok V (?d i) (if gerr = None then err else gerr) (ws[j := wk'] ! i) w2" if "i < length ws" for i
    proof (cases "i = j")
      case True
      with ws j show ?thesis by (auto simp: worker_ok_def split: worker.splits)
    next
      case False
      with worker_ok_moves [OF m2 ok1 [OF that]] show ?thesis by simp
    qed
    moreover have "sum_list (map worker_left (ws[j := wk'])) < sum_list (map worker_left ws)"
      using j worker_step_left [OF st] by (intro sum_list_update_less) auto
    ultimately have IH: "moves V (fan_auth e iid (set recipients) pl) w2 w' \<and>
        (r = None \<longrightarrow> (\<forall>a \<in> set recipients. feed_dedup (ev_tenant e) a iid (ev_seq e) \<in> fst ` ob_feed V w'))"
      using less.prems(3) moves_inv [OF m2] by (intro less.hyps [OF _ loop]) auto
    show ?thesis
      using IH moves_trans [OF moves_trans [OF q m2] conjunct1 [OF IH]] by simp
  qed
qed

lemma fanout_moves:
  assumes "fanout P c e iid recipients pl w = Some (r, w')" "ob_inv V w" "0 < PublishRetry c"
  shows "moves V (fan_auth e iid (set recipients) pl) w w' \<and>
    (r = None \<longrightarrow> (\<forall>a \<in> set recipients. feed_dedup (ev_tenant e) a iid (ev_seq e) \<in> fst ` ob_feed V w'))"
proof (cases "recipients = []")
  case True
  with assms show ?thesis by (simp add: fanout_def moves_refl)
next
  case False
  with assms have "fan_loop P c e iid recipients pl (map (\<lambda>_. Running (nat (PublishRetry c)) 0 None) recipients) None w = Some (r, w')"
    by (simp add: fanout_def)
  from fan_loop_moves [OF this assms(2)] assms(3) show ?thesis by (simp add: worker_ok_def)
qed

end

end
