(* ===== verification/Projector_Safety.thy ===== *)
theory Projector_Safety
  imports Projector_Env
begin

text \<open>
  What \<open>process\<close> does to the world, on every branch: what it may put into feeds, that a fact is
  settled only when it is projected to all its recipients or dead-lettered, and which
  snapshot it may store.
\<close>

section \<open>Outcomes\<close>

definition letter_of :: "'m fact \<Rightarrow> string \<Rightarrow> string \<times> string \<times> string \<times> int" where
  "letter_of f reason =
     (case f_event f of None \<Rightarrow> ('''', reason, '''', 0) | Some e \<Rightarrow> (ev_tenant e, reason, ev_id e, ev_seq e))"

definition dead_lettered :: "('w, 'm, 'b) observers \<Rightarrow> 'n fact \<Rightarrow> 'w \<Rightarrow> bool" where
  "dead_lettered V f w \<longleftrightarrow> (\<exists>reason. letter_of f reason \<in> ob_dead V w)"

definition projected :: "('w, 'm, 'b) observers \<Rightarrow> event \<Rightarrow> 'n fact \<Rightarrow> string set \<Rightarrow> 'w \<Rightarrow> bool" where
  "projected V e f as w \<longleftrightarrow>
     (\<forall>a \<in> as. feed_dedup (ev_tenant e) a (f_iid f) (ev_seq e) \<in> fst ` ob_feed V w) \<and>
     (ev_type e = T_left \<longrightarrow> revoked_dedup (ev_tenant e) (ev_actor e) (f_iid f) (ev_seq e) \<in> fst ` ob_feed V w)"

text \<open>The messages that a fact may put into feeds: itself to its recipients, and the tombstone to an agent that left.\<close>

definition fact_auth ::
  "('w, 'm, 'b) proj_ports \<Rightarrow> event \<Rightarrow> 'n fact \<Rightarrow> string set \<Rightarrow> (string \<times> 'b feed_msg) set" where
  "fact_auth P e f as =
     {x. \<exists>pl. pp_marshal P e = Inr pl \<and> x \<in> fan_auth e (f_iid f) as pl} \<union>
     {x. \<exists>pl. ev_type e = T_left \<and> pp_marshal_control P (revoked_control (f_iid f) (ev_seq e)) = Inr pl \<and>
        x = (revoked_dedup (ev_tenant e) (ev_actor e) (f_iid f) (ev_seq e), (ev_tenant e, ev_actor e, f_iid f, pl))}"

lemma core_same [simp]:
  "dead_lettered V (core f) = dead_lettered V f" "projected V e (core f) = projected V e f"
  "fact_auth P e (core f) = fact_auth P e f"
  by (simp_all add: fun_eq_iff dead_lettered_def letter_of_def projected_def fact_auth_def split: option.splits)

definition advance :: "('w, 'm, 'b) observers \<Rightarrow> 'w \<Rightarrow> 'w \<Rightarrow> bool" where
  "advance V w w' \<longleftrightarrow>
     ob_inv V w' \<and> prefix (ob_log V w) (ob_log V w') \<and> ob_settled V w' = Suc (ob_settled V w) \<and>
     ob_saved V w' = ob_saved V w \<and> ob_feed V w' = ob_feed V w \<and> ob_dead V w' = ob_dead V w"

definition stored :: "('w, 'm, 'b) observers \<Rightarrow> stream_seq \<Rightarrow> snapshot \<Rightarrow> 'w \<Rightarrow> 'w \<Rightarrow> bool" where
  "stored V sq s w w' \<longleftrightarrow>
     ob_inv V w' \<and> prefix (ob_log V w) (ob_log V w') \<and> ob_settled V w' = ob_settled V w \<and>
     ob_saved V w' \<subseteq> insert (sq, s) (ob_saved V w) \<and> ob_feed V w' = ob_feed V w \<and> ob_dead V w' = ob_dead V w"

definition processed ::
  "('w, 'm, 'b) observers \<Rightarrow> (string \<times> 'b feed_msg) set \<Rightarrow> ('w \<Rightarrow> bool) \<Rightarrow> stream_seq \<Rightarrow> snapshot \<Rightarrow> 'w \<Rightarrow> 'w \<Rightarrow> bool" where
  "processed V auth good sq s w w' \<longleftrightarrow>
     moves V auth w w' \<or>
     (\<exists>w1 w2. moves V auth w w1 \<and> good w1 \<and> advance V w1 w2 \<and> stored V sq s w2 w')"

lemma processed_trans:
  assumes "moves V auth w w1" "processed V auth good sq s w1 w'"
  shows "processed V auth good sq s w w'"
  using assms(2) moves_trans [OF assms(1)] unfolding processed_def by metis

lemma processed_mono:
  assumes "processed V auth good sq s w w'" "auth \<subseteq> auth'" "\<And>u. good u \<Longrightarrow> good' u"
  shows "processed V auth' good' sq s w w'"
  using assms(1) moves_mono [OF _ assms(2)] assms(3) unfolding processed_def by metis

lemma processed_moves: "moves V auth w w' \<Longrightarrow> processed V auth good sq s w w'"
  by (simp add: processed_def)

lemma projected_moves: "moves V auth w w' \<Longrightarrow> projected V e f as w \<Longrightarrow> projected V e f as w'"
  using moves_dom [of V auth w w'] by (simp add: projected_def)

lemma stored_refl: "ob_inv V w \<Longrightarrow> stored V sq s w w"
  by (auto simp: stored_def)

text \<open>What a call leaves behind: the folded state it ended with, and its effect on the world.\<close>

definition effect ::
  "('w, 'm, 'b) observers \<Rightarrow> (string \<times> 'b feed_msg) set \<Rightarrow> ('w \<Rightarrow> bool) \<Rightarrow> 'm fact \<Rightarrow> projector \<Rightarrow> 'w \<Rightarrow> projector \<Rightarrow> 'w \<Rightarrow> bool" where
  "effect V auth good f p w p' w' \<longleftrightarrow>
     pj_st p' = pj_st p \<and> processed V auth good (f_stream_seq f) (state_snapshot (pj_st p)) w w'"

lemma effect_trans:
  assumes "moves V auth w w1" "effect V auth good f p w1 p' w'"
  shows "effect V auth good f p w p' w'"
  using assms processed_trans [OF assms(1)] by (simp add: effect_def)

lemma effect_mono:
  assumes "effect V auth good f p w p' w'" "auth \<subseteq> auth'" "\<And>u. good u \<Longrightarrow> good' u"
  shows "effect V auth' good' f p w p' w'"
  using assms processed_mono [of V auth good _ _ w w' auth' good'] by (simp add: effect_def)

section \<open>The branches of process\<close>

context projector_env
begin

lemma nak_moves:
  "ob_inv V w \<Longrightarrow> in_flight V w f \<Longrightarrow> pp_nak P w f = (r, w') \<Longrightarrow> moves V auth w w'"
  by (rule quiet_moves [OF nak_law])

lemma ack_cases:
  assumes "ob_inv V w" "in_flight V w f" "pp_ack P w f = (r, w')"
  shows "(r \<noteq> None \<and> (\<forall>auth. moves V auth w w')) \<or> advance V w w'"
  using ack_law [OF assms] unfolding advance_def by (elim disjE conjE) (simp_all add: quiet_moves)

lemma dlqOrNak_processed:
  assumes "dlqOrNak P c f reason p w = (r, p', w')" "ob_inv V w" "in_flight V w f"
  shows "pj_st p' = pj_st p \<and> processed V {} (dead_lettered V f) sq s w w'"
proof (cases "pp_delivered P w f < MaxDeliver c")
  case True
  obtain r0 w0 where "pp_nak P w f = (r0, w0)" by force
  with True assms nak_moves [OF assms(2,3)] show ?thesis by (auto simp: dlqOrNak_def intro: processed_moves)
next
  case False
  define t ev n where "t = fst (letter_of f reason)" and "ev = fst (snd (snd (letter_of f reason)))"
    and "n = snd (snd (snd (letter_of f reason)))"
  have l: "letter_of f reason = (t, reason, ev, n)"
    by (simp add: t_def ev_def n_def letter_of_def split: option.splits)
  have lt: "(case f_event f of None \<Rightarrow> ('''', '''', 0) | Some e \<Rightarrow> (ev_tenant e, ev_id e, ev_seq e)) = (t, ev, n)"
    using l by (auto simp: letter_of_def split: option.splits)
  obtain r1 w1 where d: "pp_dlq P w t reason ev n = (r1, w1)" by force
  note m = dlq_law [OF assms(2) d]
  note i1 = moves_inv [OF conjunct1 [OF m]] and f1 = moves_in_flight [OF conjunct1 [OF m] assms(3)]
  show ?thesis
  proof (cases r1)
    case (Some x)
    obtain r2 w2 where n: "pp_nak P w1 f = (r2, w2)" by force
    have "p' = p \<and> w' = w2" using assms(1) False d Some n by (simp add: dlqOrNak_def lt)
    moreover have "moves V {} w w2" by (rule moves_trans [OF conjunct1 [OF m] nak_moves [OF i1 f1 n]])
    ultimately show ?thesis by (auto intro: processed_moves)
  next
    case None
    obtain r2 w2 where a: "pp_ack P w1 f = (r2, w2)" by force
    have "pj_st p' = pj_st p \<and> w' = w2" using assms(1) False d None a by (auto simp: dlqOrNak_def lt split: option.splits)
    moreover have "processed V {} (dead_lettered V f) sq s w w2"
      using ack_cases [OF i1 f1 a]
    proof
      assume "r2 \<noteq> None \<and> (\<forall>auth. moves V auth w1 w2)"
      then show ?thesis using moves_trans [OF conjunct1 [OF m]] by (blast intro: processed_moves)
    next
      assume adv: "advance V w1 w2"
      moreover have "dead_lettered V f w1" using m None l by (auto simp: dead_lettered_def intro: exI [of _ reason])
      moreover have "stored V sq s w2 w2" using adv by (intro stored_refl) (simp add: advance_def)
      ultimately show ?thesis using conjunct1 [OF m] unfolding processed_def by blast
    qed
    ultimately show ?thesis by simp
  qed
qed

lemma ctx_err_moves: "ob_inv V w \<Longrightarrow> pp_ctx_err P w = (r, w') \<Longrightarrow> moves V auth w w'"
  by (rule quiet_moves [OF ctx_err_law])

lemma nak_fact_processed:
  assumes "nak_fact P f p w = (r, p', w')" "ob_inv V w" "in_flight V w f"
  shows "pj_st p' = pj_st p \<and> processed V auth good sq s w w'"
proof -
  obtain r0 w0 where "pp_nak P w f = (r0, w0)" by force
  with assms nak_moves [OF assms(2,3)] show ?thesis by (auto simp: nak_fact_def intro: processed_moves)
qed

lemma publish_failed_processed:
  assumes "publish_failed P c f reason p w = (r, p', w')" "ob_inv V w" "in_flight V w f"
  shows "pj_st p' = pj_st p \<and> processed V {} (dead_lettered V f) sq s w w'"
proof -
  obtain r1 w1 where c: "pp_ctx_err P w = (r1, w1)" by force
  have m: "moves V {} w w1" by (rule ctx_err_moves [OF assms(2) c])
  note i1 = moves_inv [OF m] and f1 = moves_in_flight [OF m assms(3)]
  have "pj_st p' = pj_st p \<and> processed V {} (dead_lettered V f) sq s w1 w'"
    using assms(1) c nak_fact_processed [OF _ i1 f1] dlqOrNak_processed [OF _ i1 f1]
    by (cases r1) (auto simp: publish_failed_def)
  then show ?thesis using processed_trans [OF m] by blast
qed

lemma maybeSnapshot_stored:
  assumes "maybeSnapshot P c sq p w = (p', w')" "ob_inv V w"
  shows "pj_st p' = pj_st p \<and> stored V sq (state_snapshot (pj_st p)) w w'"
proof (cases "pj_since_snap p + 1 < SnapshotEvery c")
  case True
  with assms show ?thesis by (auto simp: maybeSnapshot_def Let_def intro: stored_refl)
next
  case False
  obtain r1 w1 where sv: "pp_save P w sq (state_snapshot (pj_st p)) = (r1, w1)" by force
  with False assms(1) have "pj_st p' = pj_st p \<and> w' = w1"
    by (cases r1) (auto simp: maybeSnapshot_def Let_def)
  with save_law [OF assms(2) sv] show ?thesis by (simp add: stored_def)
qed

lemma settle_processed:
  assumes "settle P c f p w = (r, p', w')" "ob_inv V w" "in_flight V w f"
    and "\<And>w'. moves V {} w w' \<Longrightarrow> good w'"
  shows "pj_st p' = pj_st p \<and> processed V {} good (f_stream_seq f) (state_snapshot (pj_st p)) w w'"
proof -
  let ?pr = "processed V {} good (f_stream_seq f) (state_snapshot (pj_st p))"
  obtain r1 w1 where c: "pp_ctx_err P w = (r1, w1)" by force
  have m: "moves V {} w w1" by (rule ctx_err_moves [OF assms(2) c])
  note i1 = moves_inv [OF m] and f1 = moves_in_flight [OF m assms(3)]
  have "pj_st p' = pj_st p \<and> ?pr w1 w'"
  proof (cases r1)
    case (Some x)
    with assms(1) c nak_fact_processed [OF _ i1 f1] show ?thesis by (simp add: settle_def)
  next
    case None
    obtain r2 w2 where a: "pp_ack P w1 f = (r2, w2)" by force
    let ?p = "p\<lparr>pj_last_ack_seq := f_stream_seq f\<rparr>"
    obtain p3 w3 where sn: "maybeSnapshot P c (f_stream_seq f) ?p w2 = (p3, w3)" by force
    have step: "(r2 \<noteq> None \<and> p' = p \<and> w' = w2) \<or> (r2 = None \<and> p' = p3 \<and> w' = w3)"
      using assms(1) c None a sn by (cases r2) (auto simp: settle_def)
    show ?thesis
      using ack_cases [OF i1 f1 a]
    proof
      assume "r2 \<noteq> None \<and> (\<forall>auth. moves V auth w1 w2)"
      with step show ?thesis by (auto intro: processed_moves)
    next
      assume adv: "advance V w1 w2"
      then have i2: "ob_inv V w2" by (simp add: advance_def)
      have g: "good w1" using assms(4) [OF m] .
      have st: "pj_st p3 = pj_st p \<and> stored V (f_stream_seq f) (state_snapshot (pj_st p)) w2 w3"
        using maybeSnapshot_stored [OF sn i2] by simp
      have "pj_st p' = pj_st p \<and> stored V (f_stream_seq f) (state_snapshot (pj_st p)) w2 w'"
        using step st stored_refl [OF i2] by blast
      then show ?thesis using adv g moves_refl [OF i1] unfolding processed_def by blast
    qed
  qed
  then show ?thesis using processed_trans [OF m] by blast
qed

lemma dead_effect:
  assumes "dlqOrNak P c f reason p w = (r, p', w')" "ob_inv V w" "in_flight V w f"
  shows "effect V auth (\<lambda>u. good u \<or> dead_lettered V f u) f p w p' w'"
proof -
  have "effect V {} (dead_lettered V f) f p w p' w'" using dlqOrNak_processed [OF assms] by (simp add: effect_def)
  then show ?thesis by (rule effect_mono) simp_all
qed

lemma failed_effect:
  assumes "publish_failed P c f reason p w = (r, p', w')" "ob_inv V w" "in_flight V w f"
  shows "effect V auth (\<lambda>u. good u \<or> dead_lettered V f u) f p w p' w'"
proof -
  have "effect V {} (dead_lettered V f) f p w p' w'" using publish_failed_processed [OF assms] by (simp add: effect_def)
  then show ?thesis by (rule effect_mono) simp_all
qed

lemma tombstone_moves:
  assumes "tombstone P c (ev_tenant e) (ev_actor e) (f_iid f) (ev_seq e) w = (r, w')" "ob_inv V w"
    and "0 < PublishRetry c" "ev_type e = T_left"
  shows "moves V (fact_auth P e f as) w w' \<and>
    (r = None \<longrightarrow> revoked_dedup (ev_tenant e) (ev_actor e) (f_iid f) (ev_seq e) \<in> fst ` ob_feed V w')"
proof (cases "pp_marshal_control P (revoked_control (f_iid f) (ev_seq e))")
  case (Inl x)
  with assms show ?thesis by (auto simp: tombstone_def moves_refl)
next
  case (Inr pl)
  let ?m = "(revoked_dedup (ev_tenant e) (ev_actor e) (f_iid f) (ev_seq e), (ev_tenant e, ev_actor e, f_iid f, pl))"
  from Inr assms(1) have "publishWithRetry P c (ev_tenant e) (ev_actor e) (f_iid f) (fst ?m) pl w = (r, w')"
    by (simp add: tombstone_def)
  note pub = publishWithRetry_moves [OF this assms(2,3)]
  have "{?m} \<subseteq> fact_auth P e f as" using Inr assms(4) by (simp add: fact_auth_def)
  with pub show ?thesis using moves_mono [OF conjunct1 [OF pub], of "fact_auth P e f as"] by simp
qed

lemma settle_effect:
  assumes "settle P c f p w = (r, p', w')" "ob_inv V w" "in_flight V w f" "projected V e f as w"
  shows "effect V auth (\<lambda>u. projected V e f as u \<or> dead_lettered V f u) f p w p' w'"
proof -
  have "effect V {} (projected V e f as) f p w p' w'"
    using settle_processed [OF assms(1-3) projected_moves [OF _ assms(4)]] by (simp add: effect_def)
  then show ?thesis by (rule effect_mono) simp_all
qed

lemma revoke_effect:
  assumes "revoke_and_settle P c f e p w = (r, p', w')" "ob_inv V w" "in_flight V w f" "0 < PublishRetry c"
    and as: "\<forall>a \<in> as. feed_dedup (ev_tenant e) a (f_iid f) (ev_seq e) \<in> fst ` ob_feed V w"
  shows "effect V (fact_auth P e f as) (\<lambda>u. projected V e f as u \<or> dead_lettered V f u) f p w p' w'"
proof (cases "ev_type e = T_left")
  case False
  with as have "projected V e f as w" by (simp add: projected_def)
  with False assms(1) show ?thesis
    using settle_effect [OF _ assms(2,3)] by (simp add: revoke_and_settle_def)
next
  case True
  obtain rt w1 where t: "tombstone P c (ev_tenant e) (ev_actor e) (f_iid f) (ev_seq e) w = (rt, w1)" by force
  note m = tombstone_moves [OF t assms(2,4) True, of as]
  note i1 = moves_inv [OF conjunct1 [OF m]] and f1 = moves_in_flight [OF conjunct1 [OF m] assms(3)]
  have "effect V (fact_auth P e f as) (\<lambda>u. projected V e f as u \<or> dead_lettered V f u) f p w1 p' w'"
  proof (cases rt)
    case (Some x)
    with assms(1) True t show ?thesis
      using failed_effect [OF _ i1 f1] by (simp add: revoke_and_settle_def interactionOf_def)
  next
    case None
    have "projected V e f as w1"
      using m None as moves_dom [OF conjunct1 [OF m]] by (simp add: projected_def)
    with None assms(1) True t show ?thesis
      using settle_effect [OF _ i1 f1] by (simp add: revoke_and_settle_def interactionOf_def)
  qed
  then show ?thesis by (rule effect_trans [OF conjunct1 [OF m]])
qed

lemma process_malformed:
  assumes "process P c f p w = Some (r, p', w')" "ob_inv V w" "in_flight V w f" "malformed f"
  shows "effect V {} (dead_lettered V f) f p w p' w'"
proof -
  have "\<exists>reason. dlqOrNak P c f reason p w = (r, p', w')"
    using assms(1,4) by (auto simp: process_def malformed_def interactionOf_def split: option.splits if_splits)
  then show ?thesis using dlqOrNak_processed [OF _ assms(2,3)] by (auto simp: effect_def)
qed

lemma process_effect:
  assumes "process P c f p w = Some (r, p', w')" "ob_inv V w" "in_flight V w f" "\<not> malformed f"
    and "f_event f = Some e" "0 < PublishRetry c"
    and p1: "p1 = p\<lparr>pj_st := state_apply (pj_st p) (fact_key e f) e\<rparr>"
    and as: "as = set (coveredBy (fst (state_view (pj_st p1) (fact_key e f))) (ev_seq e))"
  shows "effect V (fact_auth P e f as) (\<lambda>u. projected V e f as u \<or> dead_lettered V f u) f p1 w p' w'"
proof -
  let ?E = "effect V (fact_auth P e f as) (\<lambda>u. projected V e f as u \<or> dead_lettered V f u) f p1"
  have ok: "ev_tenant e \<noteq> ''''" "ev_type e \<noteq> ''''" "f_iid f \<noteq> ''''" using assms(4,5) by (simp_all add: malformed_def)
  define recs where "recs = coveredBy (fst (state_view (pj_st p1) (fact_key e f))) (ev_seq e)"
  show ?thesis
  proof (cases "pp_marshal P e")
    case (Inl x)
    with assms(1,5) ok have "dlqOrNak P c f ''marshal event'' p1 w = (r, p', w')"
      by (simp add: process_def interactionOf_def p1 Let_def)
    then show ?thesis by (rule dead_effect [OF _ assms(2,3)])
  next
    case (Inr pl)
    obtain rf w1 where fo: "fanout P c e (f_iid f) recs pl w = Some (rf, w1)"
      using assms(1,5) ok Inr unfolding recs_def p1
      by (cases "fanout P c e (f_iid f) recs pl w") (auto simp: process_def interactionOf_def Let_def recs_def p1)
    note m = fanout_moves [OF fo assms(2,6)]
    have sub: "fan_auth e (f_iid f) (set recs) pl \<subseteq> fact_auth P e f as"
      using Inr by (auto simp: fact_auth_def as recs_def)
    have m1: "moves V (fact_auth P e f as) w w1" by (rule moves_mono [OF conjunct1 [OF m] sub])
    note i1 = moves_inv [OF m1] and f1 = moves_in_flight [OF m1 assms(3)]
    have run: "(case (rf, w1) of (Some x, w1) \<Rightarrow> publish_failed P c f (''feed publish failed: '' @ x) p1 w1
        | (None, w1) \<Rightarrow> revoke_and_settle P c f e p1 w1) = (r, p', w')"
      using assms(1,5) ok Inr fo unfolding recs_def p1 by (cases rf) (simp_all add: process_def interactionOf_def Let_def)
    have "?E w1 p' w'"
    proof (cases rf)
      case (Some x)
      with run show ?thesis using failed_effect [OF _ i1 f1] by simp
    next
      case None
      with run m show ?thesis
        using revoke_effect [OF _ i1 f1 assms(6), of e p1 r p' w' as] by (simp add: as recs_def)
    qed
    then show ?thesis by (rule effect_trans [OF m1])
  qed
qed

end

end
