(* ===== verification/Projector_System.thy ===== *)
theory Projector_System
  imports Projector_Safety
begin

text \<open>
  The projector as a system: turns of the data loop, and takeovers in which a fresh projector
  hydrates from the snapshot store and the stream. The invariant \<open>sys_ok\<close> says that the fold in memory is the fold
  of the settled facts, possibly with the fact in flight; that every stored snapshot is the fold of a settled
  prefix; that every message in a feed is a fact, or a tombstone, for an agent that was entitled to it; and that every
  settled fact was projected to all its recipients or dead-lettered. Two things that the broker may do are beyond the
  projector: it gives up on a fact that was handed out too often, and the range read of a takeover ends early. A run is considered up
  to the first of them (\<open>no_skip\<close>, \<open>read_fully\<close>).
\<close>

section \<open>Reference: who is entitled to a fact\<close>

definition recipients_at :: "'m fact list \<Rightarrow> 'm fact \<Rightarrow> event \<Rightarrow> string set" where
  "recipients_at pre f e =
     {a. member_after (events_of pre (ev_tenant e) (f_iid f)) a \<or>
         member_after (events_of (pre @ [f]) (ev_tenant e) (f_iid f)) a}"

lemma coveredBy_recipients:
  assumes ok: "stream_ok (pre @ f # post)" and st: "state_ok s"
    and tr: "tracks s pre \<or> tracks s (pre @ [f])" and e: "f_event f = Some e" "\<not> malformed f"
    and s': "s' = state_apply s (fact_key e f) e"
  shows "state_ok s' \<and> tracks s' (pre @ [f]) \<and>
    set (coveredBy (fst (state_view s' (fact_key e f))) (ev_seq e)) = recipients_at pre f e"
proof -
  have ns: "no_slash (ev_tenant e)" using ok e(1) by (simp add: stream_ok_def keyed_def)
  have tr': "tracks s' (pre @ [f])"
    using tr tracks_apply [OF st _ e(1) ns] tracks_apply_again [OF st _ e(1) ns] by (auto simp: s')
  have rk: "real_key (ev_tenant e) (f_iid f)" using e ns by (simp add: malformed_def real_key_def)
  have ev: "events_of (pre @ [f]) (ev_tenant e) (f_iid f) = events_of pre (ev_tenant e) (f_iid f) @ [e]"
    by (simp add: events_of_single e(1))
  have split: "events_of (pre @ f # post) (ev_tenant e) (f_iid f) =
      (events_of pre (ev_tenant e) (f_iid f) @ [e]) @ events_of post (ev_tenant e) (f_iid f)"
    using events_of_append [of "pre @ [f]" post] by (simp only: ev append_assoc append.simps)
  have inc: "seq_increasing (events_of pre (ev_tenant e) (f_iid f) @ [e])"
    using ok unfolding stream_ok_def seq_increasing_def
    by (metis (no_types, lifting) map_append sorted_wrt_append split)
  have "view_get (fst (state_view s' (fact_key e f))) a =
      view_get (FoldParticipation (events_of pre (ev_tenant e) (f_iid f) @ [e])) a" for a
    using tracks_real [OF tr' rk, of a] unfolding ev by (simp add: view_at_def fact_key_def interactionOf_def)
  moreover have "covers (view_get (FoldParticipation (events_of pre (ev_tenant e) (f_iid f) @ [e])) a) (ev_seq e) \<longleftrightarrow>
      a \<in> recipients_at pre f e" for a
    using covers_newest [of "events_of pre (ev_tenant e) (f_iid f)" e a] inc
    unfolding recipients_at_def ev by (simp add: seq_increasing_snoc)
  ultimately show ?thesis using tr' state_ok_apply [OF st] by (simp add: set_coveredBy s')
qed

section \<open>Positions in the stream\<close>

lemma filter_take:
  "sorted_wrt (<) (map g fs) \<Longrightarrow> n < length fs \<Longrightarrow> filter (\<lambda>f. g f \<le> (g (fs ! n) :: nat)) fs = take (Suc n) fs"
proof (induction fs arbitrary: n)
  case (Cons f fs)
  show ?case
  proof (cases n)
    case 0
    with Cons.prems show ?thesis by (auto simp: filter_empty_conv)
  next
    case (Suc k)
    with Cons.prems have "g f \<le> g (fs ! k)" by (simp add: order.strict_implies_order)
    with Cons Suc show ?thesis by simp
  qed
qed simp

lemma filter_range:
  "sorted_wrt (<) (map g fs) \<Longrightarrow> a \<le> b \<Longrightarrow>
     filter (\<lambda>f. g f \<le> (b :: nat)) fs = filter (\<lambda>f. g f \<le> a) fs @ filter (\<lambda>f. a < g f \<and> g f \<le> b) fs"
proof (induction fs)
  case (Cons f fs)
  have "filter (\<lambda>f. g f \<le> a) fs = []" if "a < g f"
    using Cons.prems that by (auto simp: filter_empty_conv)
  with Cons show ?case by auto
qed simp

lemma filter_grows:
  assumes "stream_ok l'" "prefix l l'" "n = 0 \<or> n \<in> f_stream_seq ` set l"
  shows "filter (\<lambda>f. f_stream_seq f \<le> n) l' = filter (\<lambda>f. f_stream_seq f \<le> n) l"
proof -
  from assms(2) obtain z where l': "l' = l @ z" by (auto simp: prefix_def)
  have "n < f_stream_seq f" if "f \<in> set z" for f
    using assms(1,3) that by (auto simp: l' stream_ok_def sorted_wrt_append)
  then have "filter (\<lambda>f. f_stream_seq f \<le> n) z = []" by (simp add: filter_empty_conv not_le)
  then show ?thesis by (simp add: l')
qed

lemma events_of_filter: "events_of (filter (\<lambda>f. f_event f \<noteq> None \<and> Q f) fs) t i = events_of (filter Q fs) t i"
  by (induction fs) (auto simp: events_of_def)

lemma tracks_cong: "(\<And>t i. events_of fs t i = events_of gs t i) \<Longrightarrow> tracks s fs \<longleftrightarrow> tracks s gs"
  by (simp add: tracks_def)

lemma take_prefix_eq: "prefix l l' \<Longrightarrow> k \<le> length l \<Longrightarrow> take k l' = take k l"
  by (auto simp: prefix_def)

section \<open>The invariant\<close>

definition fold_ok :: "('w, 'm, 'b) observers \<Rightarrow> projector \<Rightarrow> 'w \<Rightarrow> bool" where
  "fold_ok V p w \<longleftrightarrow> state_ok (pj_st p) \<and>
     (\<exists>k \<in> {ob_settled V w, Suc (ob_settled V w)}. k \<le> length (ob_log V w) \<and> tracks (pj_st p) (take k (ob_log V w)))"

definition saved_ok :: "('w, 'm, 'b) observers \<Rightarrow> 'w \<Rightarrow> bool" where
  "saved_ok V w \<longleftrightarrow> (\<forall>sq s. (sq, s) \<in> ob_saved V w \<longrightarrow>
     sq \<in> f_stream_seq ` set (ob_log V w) \<and>
     snapshot_of s (filter (\<lambda>f. f_stream_seq f \<le> sq) (ob_log V w)))"

definition entitled :: "('w, 'm, 'b) proj_ports \<Rightarrow> unit fact list \<Rightarrow> string \<Rightarrow> 'b feed_msg \<Rightarrow> bool" where
  "entitled P l d m \<longleftrightarrow> (\<exists>pre f post e. l = pre @ f # post \<and> f_event f = Some e \<and> \<not> malformed f \<and>
     (d, m) \<in> fact_auth P e f (recipients_at pre f e))"

definition feed_ok :: "('w, 'm, 'b) proj_ports \<Rightarrow> ('w, 'm, 'b) observers \<Rightarrow> 'w \<Rightarrow> bool" where
  "feed_ok P V w \<longleftrightarrow> (\<forall>d m. (d, m) \<in> ob_feed V w \<longrightarrow> entitled P (ob_log V w) d m)"

definition done_at :: "('w, 'm, 'b) observers \<Rightarrow> unit fact list \<Rightarrow> nat \<Rightarrow> 'w \<Rightarrow> bool" where
  "done_at V l n w \<longleftrightarrow>
     dead_lettered V (l ! n) w \<or>
     (\<exists>e. f_event (l ! n) = Some e \<and> \<not> malformed (l ! n) \<and> projected V e (l ! n) (recipients_at (take n l) (l ! n) e) w)"

definition done_ok :: "('w, 'm, 'b) observers \<Rightarrow> 'w \<Rightarrow> bool" where
  "done_ok V w \<longleftrightarrow> (\<forall>n < ob_settled V w. done_at V (ob_log V w) n w)"

definition sys_ok :: "('w, 'm, 'b) proj_ports \<Rightarrow> ('w, 'm, 'b) observers \<Rightarrow> projector \<Rightarrow> 'w \<Rightarrow> bool" where
  "sys_ok P V p w \<longleftrightarrow> ob_inv V w \<and> fold_ok V p w \<and> saved_ok V w \<and> feed_ok P V w \<and> done_ok V w"

lemma entitled_grows: "prefix l l' \<Longrightarrow> entitled P l d m \<Longrightarrow> entitled P l' d m"
proof -
  assume "prefix l l'" "entitled P l d m"
  then obtain z pre f post e where "l' = (pre @ f # post) @ z" and e: "f_event f = Some e" "\<not> malformed f"
      "(d, m) \<in> fact_auth P e f (recipients_at pre f e)"
    unfolding entitled_def prefix_def by blast
  then have "l' = pre @ f # (post @ z)" by simp
  with e show ?thesis unfolding entitled_def by (intro exI conjI)
qed

lemma done_at_same:
  assumes "prefix l l'" "n < length l" "done_at V l n w" "ob_dead V w \<subseteq> ob_dead V w'"
    and "\<And>d. d \<in> fst ` ob_feed V w \<Longrightarrow> d \<in> fst ` ob_feed V w'"
  shows "done_at V l' n w'"
proof -
  have eq: "l' ! n = l ! n" "take n l' = take n l"
    using assms(1,2) by (simp_all add: prefix_nth take_prefix_eq)
  have dead: "dead_lettered V f w \<Longrightarrow> dead_lettered V f w'" for f
    using assms(4) unfolding dead_lettered_def by blast
  have proj: "projected V e f as w \<Longrightarrow> projected V e f as w'" for e f as
    using assms(5) by (simp add: projected_def)
  show ?thesis
    using assms(3) unfolding done_at_def eq by (elim disjE exE conjE) (use dead proj in auto)
qed

text \<open>The parts of the invariant that do not concern the fact in flight survive whatever the world does.\<close>

definition base_ok :: "('w, 'm, 'b) proj_ports \<Rightarrow> ('w, 'm, 'b) observers \<Rightarrow> 'w \<Rightarrow> bool" where
  "base_ok P V w \<longleftrightarrow> ob_inv V w \<and> saved_ok V w \<and> feed_ok P V w \<and> done_ok V w"

context projector_env
begin

lemma saved_ok_grows:
  assumes "saved_ok V w" "ob_saved V w' \<subseteq> ob_saved V w" "prefix (ob_log V w) (ob_log V w')" "ob_inv V w'"
  shows "saved_ok V w'"
  unfolding saved_ok_def
proof (intro allI impI)
  fix sq s
  assume "(sq, s) \<in> ob_saved V w'"
  with assms(1,2) have old: "sq \<in> f_stream_seq ` set (ob_log V w)"
      "snapshot_of s (filter (\<lambda>f. f_stream_seq f \<le> sq) (ob_log V w))"
    unfolding saved_ok_def by blast+
  have "filter (\<lambda>f. f_stream_seq f \<le> sq) (ob_log V w') = filter (\<lambda>f. f_stream_seq f \<le> sq) (ob_log V w)"
    using filter_grows [OF conjunct1 [OF stream_law [OF assms(4)]] assms(3)] old(1) by simp
  with old prefix_set [OF assms(3)]
  show "sq \<in> f_stream_seq ` set (ob_log V w') \<and> snapshot_of s (filter (\<lambda>f. f_stream_seq f \<le> sq) (ob_log V w'))"
    by auto
qed

lemma base_ok_moves:
  assumes "base_ok P V w" "moves V auth w w'"
    and "\<And>d m. (d, m) \<in> auth \<Longrightarrow> entitled P (ob_log V w) d m"
  shows "base_ok P V w'"
proof -
  have pre: "prefix (ob_log V w) (ob_log V w')" and i: "ob_inv V w'"
      and sv: "ob_saved V w' = ob_saved V w" and se: "ob_settled V w' = ob_settled V w"
      and dd: "ob_dead V w \<subseteq> ob_dead V w'"
    using assms(2) unfolding moves_def by blast+
  have "saved_ok V w'" using saved_ok_grows [OF _ _ pre i] assms(1) sv by (simp add: base_ok_def)
  moreover have "feed_ok P V w'"
    unfolding feed_ok_def
  proof (intro allI impI)
    fix d m assume "(d, m) \<in> ob_feed V w'"
    then have "(d, m) \<in> ob_feed V w \<or> (d, m) \<in> auth" using assms(2) unfolding moves_def by blast
    then have "entitled P (ob_log V w) d m" using assms(1,3) unfolding base_ok_def feed_ok_def by blast
    then show "entitled P (ob_log V w') d m" by (rule entitled_grows [OF pre])
  qed
  moreover have "done_ok V w'"
    using assms(1) se stream_law [of w] done_at_same [OF pre _ _ dd moves_dom [OF assms(2)]]
    unfolding done_ok_def base_ok_def by auto
  ultimately show ?thesis using i by (simp add: base_ok_def)
qed

lemma sys_ok_quiet:
  assumes "sys_ok P V p w" "quiet V w w'"
  shows "sys_ok P V p w'"
proof -
  have "base_ok P V w'"
    using base_ok_moves [OF _ quiet_moves [OF assms(2), of "{}"]] assms(1) by (auto simp: base_ok_def sys_ok_def)
  moreover have "fold_ok V p w'"
  proof -
    have pre: "prefix (ob_log V w) (ob_log V w')" and se: "ob_settled V w' = ob_settled V w"
      using assms(2) by (simp_all add: quiet_def)
    obtain k where "state_ok (pj_st p)" "k \<in> {ob_settled V w, Suc (ob_settled V w)}" "k \<le> length (ob_log V w)"
        "tracks (pj_st p) (take k (ob_log V w))"
      using assms(1) unfolding sys_ok_def fold_ok_def by blast
    then show ?thesis
      using take_prefix_eq [OF pre] prefix_length_le [OF pre] unfolding fold_ok_def se
      by (intro conjI bexI [of _ k]) auto
  qed
  ultimately show ?thesis by (simp add: base_ok_def sys_ok_def)
qed

lemma base_ok_advance:
  assumes "base_ok P V w" "advance V w w'" "ob_settled V w < length (ob_log V w)"
    and "done_at V (ob_log V w) (ob_settled V w) w"
  shows "base_ok P V w'"
proof -
  have pre: "prefix (ob_log V w) (ob_log V w')" and i: "ob_inv V w'"
      and eq: "ob_saved V w' = ob_saved V w" "ob_settled V w' = Suc (ob_settled V w)"
        "ob_feed V w' = ob_feed V w" "ob_dead V w' = ob_dead V w"
    using assms(2) unfolding advance_def by blast+
  have "saved_ok V w'" using saved_ok_grows [OF _ _ pre i] assms(1) eq by (simp add: base_ok_def)
  moreover have "feed_ok P V w'"
    using assms(1) entitled_grows [OF pre] unfolding base_ok_def feed_ok_def eq by blast
  moreover have "done_at V (ob_log V w') n w'" if "n < Suc (ob_settled V w)" for n
  proof (rule done_at_same [OF pre])
    show "n < length (ob_log V w)" using that assms(3) by simp
    show "done_at V (ob_log V w) n w"
      using that assms(1,4) unfolding base_ok_def done_ok_def by (cases "n = ob_settled V w") simp_all
  qed (simp_all add: eq)
  ultimately show ?thesis using i eq by (simp add: base_ok_def done_ok_def)
qed

lemma base_ok_stored:
  assumes "base_ok P V w" "stored V sq s w w'" "sq \<in> f_stream_seq ` set (ob_log V w)"
    and "snapshot_of s (filter (\<lambda>f. f_stream_seq f \<le> sq) (ob_log V w))"
  shows "base_ok P V w'"
proof -
  have pre: "prefix (ob_log V w) (ob_log V w')" and i: "ob_inv V w'"
      and sub: "ob_saved V w' \<subseteq> insert (sq, s) (ob_saved V w)"
      and eq: "ob_settled V w' = ob_settled V w" "ob_feed V w' = ob_feed V w" "ob_dead V w' = ob_dead V w"
    using assms(2) unfolding stored_def by blast+
  have "saved_ok V (w)" using assms(1) by (simp add: base_ok_def)
  have ok: "stream_ok (ob_log V w')" using stream_law [OF i] by simp
  have "saved_ok V w'"
    unfolding saved_ok_def
  proof (intro allI impI)
    fix n x assume "(n, x) \<in> ob_saved V w'"
    then have "n \<in> f_stream_seq ` set (ob_log V w) \<and> snapshot_of x (filter (\<lambda>f. f_stream_seq f \<le> n) (ob_log V w))"
      using sub assms(1,3,4) unfolding base_ok_def saved_ok_def by blast
    then show "n \<in> f_stream_seq ` set (ob_log V w') \<and> snapshot_of x (filter (\<lambda>f. f_stream_seq f \<le> n) (ob_log V w'))"
      using filter_grows [OF ok pre, of n] prefix_set [OF pre] by auto
  qed
  moreover have "feed_ok P V w'"
    using assms(1) entitled_grows [OF pre] unfolding base_ok_def feed_ok_def eq by blast
  moreover have "done_ok V w'"
  proof -
    have "done_at V (ob_log V w') n w'" if "n < ob_settled V w" for n
      by (rule done_at_same [OF pre, where w = w])
         (use that assms(1) stream_law [of w] eq in \<open>auto simp: base_ok_def done_ok_def\<close>)
    then show ?thesis by (simp add: done_ok_def eq)
  qed
  ultimately show ?thesis using i by (simp add: base_ok_def)
qed

text \<open>One fact processed: the invariant holds again, with the fact folded.\<close>

lemma processed_sys:
  assumes base: "base_ok P V w" and fl: "in_flight V w f"
    and pre: "pre = take (ob_settled V w) (ob_log V w)"
    and st: "state_ok (pj_st p')" "tracks (pj_st p') (pre @ [core f])"
    and pr: "processed V auth good (f_stream_seq f) (state_snapshot (pj_st p')) w w'"
    and auth: "\<And>d m. (d, m) \<in> auth \<Longrightarrow> entitled P (ob_log V w) d m"
    and good: "\<And>u. good u \<Longrightarrow> dead_lettered V f u \<or>
       (\<exists>e. f_event f = Some e \<and> \<not> malformed f \<and> projected V e f (recipients_at pre (core f) e) u)"
  shows "sys_ok P V p' w'"
proof -
  let ?n = "ob_settled V w" and ?l = "ob_log V w"
  have n: "?n < length ?l" "?l ! ?n = core f" using fl by (simp_all add: in_flight_def)
  have snoc: "take (Suc ?n) l' = pre @ [core f]" if "prefix ?l l'" for l'
    using n take_prefix_eq [OF that, of "Suc ?n"] by (simp add: pre take_Suc_conv_app_nth)
  from pr consider (same) "moves V auth w w'"
    | (ack) w1 w2 where "moves V auth w w1" "good w1" "advance V w1 w2"
        "stored V (f_stream_seq f) (state_snapshot (pj_st p')) w2 w'"
    unfolding processed_def by blast
  then show ?thesis
  proof cases
    case same
    have px: "prefix ?l (ob_log V w')" and se: "ob_settled V w' = ?n" using same by (simp_all add: moves_def)
    have "fold_ok V p' w'"
      unfolding fold_ok_def se
      using st snoc [OF px] n(1) prefix_length_le [OF px] by (intro conjI bexI [of _ "Suc ?n"]) auto
    then show ?thesis using base_ok_moves [OF base same auth] by (simp add: base_ok_def sys_ok_def)
  next
    case ack
    have p1: "prefix ?l (ob_log V w1)" and s1: "ob_settled V w1 = ?n" using ack(1) by (simp_all add: moves_def)
    have p2: "prefix (ob_log V w1) (ob_log V w2)" and s2: "ob_settled V w2 = Suc ?n" and i2: "ob_inv V w2"
      using ack(3) s1 by (simp_all add: advance_def)
    have p3: "prefix (ob_log V w2) (ob_log V w')" and s3: "ob_settled V w' = Suc ?n"
      using ack(4) s2 by (simp_all add: stored_def)
    have px: "prefix ?l (ob_log V w2)" by (rule prefix_order.trans [OF p1 p2])
    have b1: "base_ok P V w1" by (rule base_ok_moves [OF base ack(1) auth])
    have l1: "ob_log V w1 ! ?n = core f" "take ?n (ob_log V w1) = pre" "?n < length (ob_log V w1)"
      using n prefix_nth [OF p1] take_prefix_eq [OF p1] prefix_length_le [OF p1] by (simp_all add: pre)
    have "done_at V (ob_log V w1) ?n w1" using good [OF ack(2)] unfolding done_at_def l1 by simp
    with base_ok_advance [OF b1 ack(3)] l1 s1 have b2: "base_ok P V w2" by simp
    have l2: "ob_log V w2 ! ?n = core f" "?n < length (ob_log V w2)"
      using n prefix_nth [OF px] prefix_length_le [OF px] by simp_all
    have so: "sorted_wrt (<) (map f_stream_seq (ob_log V w2))"
      using stream_law [OF i2] by (simp add: stream_ok_def)
    have "filter (\<lambda>g. f_stream_seq g \<le> f_stream_seq f) (ob_log V w2) = pre @ [core f]"
      using filter_take [OF so l2(2)] snoc [OF px] by (simp add: l2(1))
    moreover have "snapshot_of (state_snapshot (pj_st p')) (pre @ [core f])" using st by (auto simp: snapshot_of_def)
    moreover have "f_stream_seq f \<in> f_stream_seq ` set (ob_log V w2)"
      using l2 nth_mem [OF l2(2)] by (metis core_simps(3) imageI)
    ultimately have b3: "base_ok P V w'" by (intro base_ok_stored [OF b2 ack(4)]) simp_all
    have "fold_ok V p' w'"
      unfolding fold_ok_def s3
      using st snoc [OF prefix_order.trans [OF px p3]] l2(2) prefix_length_le [OF p3]
      by (intro conjI bexI [of _ "Suc ?n"]) auto
    then show ?thesis using b3 by (simp add: base_ok_def sys_ok_def)
  qed
qed

lemma process_sys:
  assumes "sys_ok P V p w" "in_flight V w f" "process P c f p w = Some (r, p', w')" "0 < PublishRetry c"
  shows "sys_ok P V p' w'"
proof -
  let ?n = "ob_settled V w" and ?l = "ob_log V w"
  define pre where "pre = take ?n ?l"
  have i: "ob_inv V w" and base: "base_ok P V w" using assms(1) by (simp_all add: sys_ok_def base_ok_def)
  have n: "?n < length ?l" "?l ! ?n = core f" using assms(2) by (simp_all add: in_flight_def)
  have split: "?l = pre @ core f # drop (Suc ?n) ?l" using id_take_nth_drop [OF n(1)] n(2) by (simp add: pre_def)
  have snoc: "take (Suc ?n) ?l = pre @ [core f]" using n by (simp add: pre_def take_Suc_conv_app_nth)
  have st: "state_ok (pj_st p)" and tr: "tracks (pj_st p) pre \<or> tracks (pj_st p) (pre @ [core f])"
    using assms(1) snoc unfolding sys_ok_def fold_ok_def by (auto simp: pre_def)
  have so: "stream_ok (pre @ core f # drop (Suc ?n) ?l)" using stream_law [OF i] split by simp
  show ?thesis
  proof (cases "malformed f")
    case True
    have ef: "effect V {} (dead_lettered V f) f p w p' w'" by (rule process_malformed [OF assms(3) i assms(2) True])
    have "tracks (pj_st p) (pre @ [core f])" using tr tracks_malformed [of "core f"] True by simp
    then show ?thesis
      using processed_sys [OF base assms(2) pre_def, of p' "{}" "dead_lettered V f" w'] ef st
      by (simp add: effect_def)
  next
    case False
    then obtain e where e: "f_event f = Some e" by (auto simp: malformed_def split: option.splits)
    define p1 where "p1 = p\<lparr>pj_st := state_apply (pj_st p) (fact_key e f) e\<rparr>"
    define as where "as = set (coveredBy (fst (state_view (pj_st p1) (fact_key e f))) (ev_seq e))"
    have cov: "state_ok (pj_st p1) \<and> tracks (pj_st p1) (pre @ [core f]) \<and> as = recipients_at pre (core f) e"
      using coveredBy_recipients [OF so st tr _ _ refl, of e] e False by (simp add: p1_def as_def)
    have ef: "effect V (fact_auth P e f as) (\<lambda>u. projected V e f as u \<or> dead_lettered V f u) f p1 w p' w'"
      by (rule process_effect [OF assms(3) i assms(2) False e assms(4) p1_def as_def])
    have en: "entitled P ?l d m" if "(d, m) \<in> fact_auth P e f as" for d m
      unfolding entitled_def
      by (intro exI conjI, rule split) (use that e False cov in simp_all)
    show ?thesis
      by (rule processed_sys [OF base assms(2) pre_def, where auth = "fact_auth P e f as" and
            good = "\<lambda>u. projected V e f as u \<or> dead_lettered V f u"])
         (use ef cov en e False in \<open>auto simp: effect_def\<close>)
  qed
qed

end

text \<open>The delivery of a turn skips no fact.\<close>

definition no_skip :: "('w, 'm, 'b) proj_ports \<Rightarrow> ('w, 'm, 'b) observers \<Rightarrow> 'w \<Rightarrow> bool" where
  "no_skip P V w \<longleftrightarrow> (\<forall>rd w1. pp_deliver P w = Some (rd, w1) \<longrightarrow> ob_settled V w1 = ob_settled V w)"

context projector_env
begin

lemma run_turn_sys:
  assumes "sys_ok P V p w" "run_turn P c p w = Some (out, p', w')" "no_skip P V w" "0 < PublishRetry c"
  shows "sys_ok P V p' w'"
proof -
  have i: "ob_inv V w" using assms(1) by (simp add: sys_ok_def)
  obtain r w1 where d: "pp_deliver P w = Some (r, w1)"
    using assms(2) by (cases "pp_deliver P w") (auto simp: run_turn_def)
  have dl: "quiet V w w1" "\<forall>f. r = Inr f \<longrightarrow> in_flight V w1 f"
    using deliver_law [OF i d] passes_quiet [of V w w1] assms(3) d by (auto simp: no_skip_def)
  have s1: "sys_ok P V p w1" by (rule sys_ok_quiet [OF assms(1) dl(1)])
  have ctx: "sys_ok P V q v'" if "sys_ok P V q v" "pp_ctx_err P v = (x, v')" for q v x v'
    using sys_ok_quiet [OF that(1) ctx_err_law [OF _ that(2)]] that(1) by (simp add: sys_ok_def)
  show ?thesis
  proof (cases r)
    case (Inl x)
    obtain y w2 where c: "pp_ctx_err P w1 = (y, w2)" by force
    with assms(2) d Inl have "p' = p \<and> w' = w2" by (cases y) (simp_all add: run_turn_def)
    with ctx [OF s1 c] show ?thesis by simp
  next
    case (Inr f)
    obtain y q w2 where pr: "process P c f p w1 = Some (y, q, w2)"
      using assms(2) d Inr by (cases "process P c f p w1") (auto simp: run_turn_def)
    have s2: "sys_ok P V q w2" using process_sys [OF s1 _ pr assms(4)] dl(2) Inr by simp
    obtain z w3 where c: "pp_ctx_err P w2 = (z, w3)" by force
    show ?thesis
      using assms(2) d Inr pr c s2 ctx [OF s2 c] by (cases y; cases z) (simp_all add: run_turn_def)
  qed
qed

end

text \<open>Hydration folds the stream after the snapshot.\<close>

lemma hydrate_fold_tracks:
  assumes "hydrate_fold s fs = Inr s'" "state_ok s" "tracks s gs" "keyed fs"
  shows "state_ok s' \<and> tracks s' (gs @ map core fs)"
  using assms
proof (induction fs arbitrary: s gs)
  case (Cons f fs)
  then obtain e where e: "f_event f = Some e" by (auto split: option.splits)
  with Cons.prems have "no_slash (ev_tenant e)" "keyed fs" by (auto simp: keyed_def)
  with Cons.IH [of "state_apply s (fact_key e f) e" "gs @ [core f]"] Cons.prems e
    tracks_apply [of s gs "core f" e]
  show ?case by (simp add: state_ok_apply)
qed simp

lemma keyed_filter: "keyed fs \<Longrightarrow> keyed (filter Q fs)"
  by (auto simp: keyed_def)

lemma keyed_prefix: "keyed gs \<Longrightarrow> prefix fs gs \<Longrightarrow> keyed fs"
  by (auto simp: keyed_def dest: prefix_set)

text \<open>Reading some of the facts of a range is folding a shorter range.\<close>

lemma prefix_filter_take: "prefix xs (filter Q ys) \<Longrightarrow> \<exists>k \<le> length ys. xs = filter Q (take k ys)"
proof (induction ys arbitrary: xs)
  case (Cons y ys)
  show ?case
  proof (cases "xs = []")
    case True
    then show ?thesis by (intro exI [of _ 0]) simp
  next
    case False
    show ?thesis
    proof (cases "Q y")
      case True
      then obtain zs where z: "xs = y # zs" "prefix zs (filter Q ys)" using Cons.prems False by (cases xs) auto
      from Cons.IH [OF z(2)] obtain k where "k \<le> length ys" "zs = filter Q (take k ys)" by blast
      with z True show ?thesis by (intro exI [of _ "Suc k"]) simp
    next
      case f: False
      then obtain k where "k \<le> length ys" "xs = filter Q (take k ys)" using Cons by auto
      with f show ?thesis by (intro exI [of _ "Suc k"]) simp
    qed
  qed
qed simp

text \<open>The range read of a hydration, if there is one, reads all of its range.\<close>

definition read_fully :: "('w, 'm, 'b) proj_ports \<Rightarrow> ('w, 'm, 'b) observers \<Rightarrow> 'w \<Rightarrow> bool" where
  "read_fully P V w \<longleftrightarrow>
     (\<forall>floor w1 snap sq w2 fs w3. pp_ack_floor P w = (Inr floor, w1) \<longrightarrow> pp_load P w1 floor = (Inr (snap, sq), w2) \<longrightarrow> sq < floor \<longrightarrow>
        pp_fold_range P w2 sq floor = Some (Inr fs, w3) \<longrightarrow> map core fs = in_range sq floor (ob_log V w3))"

lemma events_of_some: "events_of (filter (\<lambda>f. f_event f \<noteq> None) fs) t i = events_of fs t i"
  using events_of_filter [of "\<lambda>_. True"] by simp

context projector_env
begin

text \<open>A hydration folds the settled facts, or only the first ones of them when its read ended early.\<close>

lemma Hydrate_sys:
  assumes "base_ok P V w" "Hydrate P p w = Some (None, p', w')"
  shows "base_ok P V w' \<and> ob_settled V w' = ob_settled V w \<and> state_ok (pj_st p') \<and>
    (\<exists>k \<le> ob_settled V w'. (read_fully P V w \<longrightarrow> k = ob_settled V w') \<and> tracks (pj_st p') (take k (ob_log V w')))"
proof -
  have b: "base_ok P V v'" "ob_inv V v'" if "base_ok P V v" "quiet V v v'" for v v'
    using base_ok_moves [OF that(1) quiet_moves [OF that(2), of "{}"]] that(2) by (auto simp: quiet_def)
  obtain floor w1 where fl: "pp_ack_floor P w = (Inr floor, w1)"
    using assms(2) by (auto simp: Hydrate_def split: prod.splits sum.splits)
  have i: "ob_inv V w" using assms(1) by (simp add: base_ok_def)
  note floor = ack_floor_law [OF i fl]
  have b1: "base_ok P V w1" "ob_inv V w1" using b [OF assms(1)] floor by blast+
  obtain snap sq w2 where ld: "pp_load P w1 floor = (Inr (snap, sq), w2)"
    using assms(2) fl by (auto simp: Hydrate_def split: prod.splits sum.splits)
  note load = load_law [OF b1(2) ld]
  have b2: "base_ok P V w2" "ob_inv V w2" using b [OF b1(1)] load by blast+
  have q12: "quiet V w w2" by (rule quiet_trans [OF conjunct1 [OF floor] conjunct1 [OF load]])
  have ok2: "stream_ok (ob_log V w2)" using stream_law [OF b2(2)] by simp
  let ?upto = "\<lambda>l n. filter (\<lambda>f. f_stream_seq f \<le> n) l"
  have up2: "?upto (ob_log V w2) floor = take (ob_settled V w2) (ob_log V w2)"
  proof -
    have pre: "prefix (ob_log V w1) (ob_log V w2)" and se: "ob_settled V w2 = ob_settled V w1"
      using load by (simp_all add: quiet_def)
    have "?upto (ob_log V w2) floor = ?upto (ob_log V w1) floor"
      using filter_grows [OF ok2 pre] floor by simp
    also have "\<dots> = take (ob_settled V w1) (ob_log V w1)" using floor by simp
    finally show ?thesis using take_prefix_eq [OF pre, of "ob_settled V w1"] stream_law [OF b1(2)] se by simp
  qed
  have sq: "sq \<le> floor" using load by simp
  have rest: "state_ok (restore newState snap) \<and> tracks (restore newState snap) (?upto (ob_log V w2) sq)"
  proof (cases snap)
    case None
    with load have "sq = 0" by simp
    moreover have "?upto (ob_log V w2) 0 = []" using ok2 by (auto simp: stream_ok_def filter_empty_conv)
    ultimately show ?thesis by (simp add: None restore_def state_ok_def newState_def [symmetric]) (simp add: newState_def)
  next
    case (Some s)
    with load have "(sq, s) \<in> ob_saved V w2" by simp
    then have "snapshot_of s (?upto (ob_log V w2) sq)" using b2(1) by (simp add: base_ok_def saved_ok_def)
    then show ?thesis using restore_tracks Some by blast
  qed
  show ?thesis
  proof (cases "floor \<le> sq")
    case True
    with assms(2) fl ld have "pj_st p' = restore newState snap \<and> w' = w2" by (auto simp: Hydrate_def)
    with True sq rest up2 b2 q12 show ?thesis by (intro conjI exI [of _ "ob_settled V w'"]) (simp_all add: quiet_def)
  next
    case False
    obtain tl w3 where fr: "pp_fold_range P w2 sq floor = Some (Inr tl, w3)"
      using assms(2) fl ld False by (auto simp: Hydrate_def Let_def split: prod.splits sum.splits option.splits)
    have sq_in: "sq = 0 \<or> sq \<in> f_stream_seq ` set (ob_log V w2)"
      using load b2(1) by (cases snap) (auto simp: base_ok_def saved_ok_def)
    note range = fold_range_law [OF b2(2) fr sq_in]
    have b3: "base_ok P V w3" "ob_inv V w3" using b [OF b2(1)] range by blast+
    have ok3: "stream_ok (ob_log V w3)" using stream_law [OF b3(2)] by simp
    have hf: "hydrate_fold (restore newState snap) tl = Inr (pj_st p')" "w' = w3"
      using assms(2) fl ld False fr by (auto simp: Hydrate_def Let_def split: sum.splits)
    have pre: "prefix (ob_log V w2) (ob_log V w3)" and se: "ob_settled V w3 = ob_settled V w2"
      using range by (simp_all add: quiet_def)
    have ky: "keyed tl"
    proof -
      have "keyed (in_range sq floor (ob_log V w3))" using ok3 by (simp add: stream_ok_def keyed_filter in_range_def)
      then have "keyed (map core tl)" by (rule keyed_prefix) (use range in blast)
      then show ?thesis by (auto simp: keyed_def)
    qed
    have upto3: "?upto (ob_log V w3) n = ?upto (ob_log V w2) n" if "n \<in> {sq, floor}" for n
    proof (rule filter_grows [OF ok3 pre])
      have "floor = 0 \<or> floor \<in> f_stream_seq ` set (ob_log V w2)"
        using floor load prefix_set [of "ob_log V w1" "ob_log V w2"] by (auto simp: quiet_def)
      with sq_in show "n = 0 \<or> n \<in> f_stream_seq ` set (ob_log V w2)" using that by blast
    qed
    define U where "U = ?upto (ob_log V w3) sq"
    define R where "R = filter (\<lambda>f. sq < f_stream_seq f \<and> f_stream_seq f \<le> floor) (ob_log V w3)"
    have all: "take (ob_settled V w3) (ob_log V w3) = U @ R"
    proof -
      have "?upto (ob_log V w3) floor = take (ob_settled V w3) (ob_log V w3)"
        using upto3 up2 take_prefix_eq [OF pre, of "ob_settled V w2"] stream_law [OF b2(2)] se by simp
      then show ?thesis
        using filter_range [of f_stream_seq "ob_log V w3" sq floor] ok3 sq by (simp add: stream_ok_def U_def R_def)
    qed
    have len: "length U + length R = ob_settled V w3"
      using arg_cong [OF all, of length] stream_law [OF b3(2)] by simp
    have ir: "in_range sq floor (ob_log V w3) = filter (\<lambda>f. f_event f \<noteq> None) R"
      by (simp add: in_range_def R_def conj_commute conj_left_commute)
    obtain n where n: "n \<le> length R" "map core tl = filter (\<lambda>f. f_event f \<noteq> None) (take n R)" "read_fully P V w \<longrightarrow> n = length R"
    proof (cases "read_fully P V w")
      case True
      then have "map core tl = in_range sq floor (ob_log V w3)"
        unfolding read_fully_def using fl ld fr False by (meson not_le)
      then show ?thesis by (intro that [of "length R"]) (simp_all add: ir)
    next
      case nr: False
      have "prefix (map core tl) (filter (\<lambda>f. f_event f \<noteq> None) R)" using range unfolding ir by blast
      with prefix_filter_take that nr show ?thesis by blast
    qed
    have st: "state_ok (pj_st p') \<and> tracks (pj_st p') (U @ map core tl)"
      using hydrate_fold_tracks [OF hf(1) _ _ ky, of U] rest upto3 by (simp add: U_def)
    have "tracks (pj_st p') (U @ map core tl) \<longleftrightarrow> tracks (pj_st p') (U @ take n R)"
      by (rule tracks_cong) (simp only: n(2) events_of_append events_of_some)
    moreover have "take (length U + n) (ob_log V w3) = U @ take n R"
    proof -
      have "take (length U + n) (ob_log V w3) = take (length U + n) (take (ob_settled V w3) (ob_log V w3))"
        using n(1) len by (simp add: min_def)
      then show ?thesis by (simp add: all)
    qed
    ultimately have "tracks (pj_st p') (take (length U + n) (ob_log V w3))" using st by simp
    with st b3 hf(2) se q12 n len show ?thesis
      by (intro conjI exI [of _ "length U + n"]) (auto simp: quiet_def)
  qed
qed

end

section \<open>Reachable states\<close>

text \<open>
  The first projector starts on a stream of which nothing is settled, with empty feeds and no snapshot. Turns and
  takeovers follow each other in any order, as long as no delivery skips a fact and every hydration reads its range to the end.
\<close>

definition fresh :: "('w, 'm, 'b) observers \<Rightarrow> 'w \<Rightarrow> bool" where
  "fresh V w \<longleftrightarrow> ob_inv V w \<and> ob_settled V w = 0 \<and> ob_saved V w = {} \<and> ob_feed V w = {}"

inductive proj_reach ::
  "('w, 'm, 'b) proj_ports \<Rightarrow> pconfig \<Rightarrow> ('w, 'm, 'b) observers \<Rightarrow> projector \<Rightarrow> 'w \<Rightarrow> bool"
  for P c V where
  start: "fresh V w \<Longrightarrow> proj_reach P c V NewProjector w"
| turn: "proj_reach P c V p w \<Longrightarrow> no_skip P V w \<Longrightarrow> run_turn P c p w = Some (out, p', w') \<Longrightarrow> proj_reach P c V p' w'"
| takeover: "proj_reach P c V p w \<Longrightarrow> read_fully P V w \<Longrightarrow> Hydrate P NewProjector w = Some (None, p', w') \<Longrightarrow> proj_reach P c V p' w'"

lemma sys_ok_fresh: "fresh V w \<Longrightarrow> sys_ok P V NewProjector w"
  by (simp add: fresh_def sys_ok_def fold_ok_def saved_ok_def feed_ok_def done_ok_def NewProjector_def
      state_ok_def newState_def [symmetric]) (simp add: newState_def)

context projector_env
begin

lemma reach_sys_ok:
  assumes "proj_reach P c V p w" "0 < PublishRetry c"
  shows "sys_ok P V p w"
  using assms(1)
proof induction
  case (start w)
  then show ?case by (rule sys_ok_fresh)
next
  case (turn p w out p' w')
  then show ?case using run_turn_sys assms(2) by blast
next
  case (takeover p w p' w')
  have b: "base_ok P V w" using takeover.IH by (simp add: base_ok_def sys_ok_def)
  note h = Hydrate_sys [OF b takeover.hyps(3)]
  then have "tracks (pj_st p') (take (ob_settled V w') (ob_log V w'))" using takeover.hyps(2) by blast
  then have "fold_ok V p' w'"
    using h stream_law [of w'] unfolding fold_ok_def base_ok_def by (intro conjI bexI [of _ "ob_settled V w'"]) auto
  with h show ?case by (simp add: base_ok_def sys_ok_def)
qed

end

end
