(* ===== verification/Projector_Nats.thy ===== *)
theory Projector_Nats
  imports Projector_System Identity "HOL-Library.Monad_Syntax"
begin

text \<open>
  The NATS adapters of \<open>internal/projector/nats.go\<close> that implement the ports of the projector: the
  durable pull consumer (\<open>jsLogSource\<close>), the feed sink (\<open>jsFeedSink\<close>) and the snapshot store (\<open>kvSnapshot\<close>). The NATS client and
  the JSON and protobuf codecs are not part of the sources: they are the fields of \<open>js_ports\<close>, over an abstract
  world. The locale \<open>js_broker\<close> states what the adapters rely on, and the sublocale shows that the adapters
  then meet the contract \<open>projector_env\<close> of the projector.
\<close>

section \<open>The client library\<close>

text \<open>A delivered message: \<open>Metadata()\<close> gives its stream sequence and delivery count, or fails.\<close>

record 'd nmsg =
  m_subject :: string
  m_data :: 'd
  m_meta :: "string + stream_seq \<times> nat"
  m_traceparent :: string

datatype fetch_err = ErrTimeout | FetchFailed string
datatype kv_err = ErrKeyNotFound | KvFailed string

record 'j kv_entry =
  en_put :: bool
  en_value :: 'j

record ('w, 'd, 'b, 'j) js_ports =
  js_fetch :: "'w \<Rightarrow> (fetch_err + 'd nmsg list) \<times> 'w"
  js_ack :: "'w \<Rightarrow> 'd nmsg \<Rightarrow> string option \<times> 'w"
  js_nak :: "'w \<Rightarrow> 'd nmsg \<Rightarrow> string option \<times> 'w"
  js_floor :: "'w \<Rightarrow> (string + stream_seq) \<times> 'w"
  js_subscribe :: "'w \<Rightarrow> stream_seq \<Rightarrow> (string + nat) \<times> 'w"
  js_sub_fetch :: "'w \<Rightarrow> nat \<Rightarrow> nat \<Rightarrow> (fetch_err + 'd nmsg list) \<times> 'w"
  js_publish :: "'w \<Rightarrow> bool \<Rightarrow> string \<Rightarrow> 'b \<Rightarrow> string option \<Rightarrow> string option \<times> 'w"
  js_history :: "'w \<Rightarrow> (kv_err + 'j kv_entry list) \<times> 'w"
  js_put :: "'w \<Rightarrow> 'j \<Rightarrow> string option \<times> 'w"
  js_ctx_err :: "'w \<Rightarrow> string option \<times> 'w"
  js_backoff :: "'w \<Rightarrow> bool \<Rightarrow> duration \<Rightarrow> string option \<times> 'w"
  js_schedule :: "'w \<Rightarrow> nat \<times> 'w"
  js_unmarshal :: "'d \<Rightarrow> event option"
  js_marshal :: "event \<Rightarrow> string + 'b"
  js_marshal_control :: "feed_control \<Rightarrow> string + 'b"
  js_dlq_body :: "string \<Rightarrow> string \<Rightarrow> int \<Rightarrow> 'b"
  js_snap_enc :: "stream_seq \<Rightarrow> snapshot \<Rightarrow> 'j"
  js_snap_dec :: "'j \<Rightarrow> (stream_seq \<times> snapshot option) option"

section \<open>The log source\<close>

definition iidFromLogSubject :: "string \<Rightarrow> string" where
  "iidFromLogSubject s =
     (let p = split_on dot s
      in if length p = 5 \<and> p ! 0 = ''tenant'' \<and> p ! 2 = ''interaction'' \<and> p ! 4 = ''log'' then p ! 3 else '''')"

type_synonym 'd nfact = "'d nmsg option fact"

definition fact_of_msg :: "('w, 'd, 'b, 'j) js_ports \<Rightarrow> 'd nmsg \<Rightarrow> stream_seq \<Rightarrow> 'd nfact" where
  "fact_of_msg J m sq =
     \<lparr>f_event = js_unmarshal J (m_data m), f_iid = iidFromLogSubject (m_subject m), f_stream_seq = sq,
      f_traceparent = m_traceparent m, f_msg = Some m\<rparr>"

text \<open>\<open>Deliver\<close> polls until a message arrives, the fetch fails or the context is cancelled; a poll that goes
  on forever is \<open>None\<close>.\<close>

partial_function (option) jsDeliver ::
  "('w, 'd, 'b, 'j) js_ports \<Rightarrow> 'w \<Rightarrow> ((string + 'd nfact) \<times> 'w) option" where
  "jsDeliver J w =
     (case js_ctx_err J w of
        (Some e, w1) \<Rightarrow> Some (Inl e, w1)
      | (None, w1) \<Rightarrow>
          (case js_fetch J w1 of
             (Inl ErrTimeout, w2) \<Rightarrow> jsDeliver J w2
           | (Inl (FetchFailed e), w2) \<Rightarrow> Some (Inl e, w2)
           | (Inr [], w2) \<Rightarrow> jsDeliver J w2
           | (Inr (m # ms), w2) \<Rightarrow>
               (case m_meta m of
                  Inl e \<Rightarrow> Some (Inl (''delivery metadata: '' @ e), w2)
                | Inr (sq, n) \<Rightarrow> Some (Inr (fact_of_msg J m sq), w2))))"

declare jsDeliver.simps [code]

text \<open>\<open>ack\<close>: a fact without a delivery handle needs no acknowledgement.\<close>

definition ack_msg :: "('w \<Rightarrow> 'd nmsg \<Rightarrow> string option \<times> 'w) \<Rightarrow> 'w \<Rightarrow> 'd nfact \<Rightarrow> string option \<times> 'w" where
  "ack_msg fn w f = (case f_msg f of None \<Rightarrow> (None, w) | Some m \<Rightarrow> fn w m)"

definition jsDelivered :: "'d nfact \<Rightarrow> int" where
  "jsDelivered f =
     (case f_msg f of
        None \<Rightarrow> 0
      | Some m \<Rightarrow> (case m_meta m of Inl _ \<Rightarrow> 0 | Inr (sq, n) \<Rightarrow> int n))"

text \<open>The inner loop of \<open>FoldRange\<close> over one batch: stop with an error, or with the facts so far and
  whether the upper end was passed. A fact that does not decode is skipped.\<close>

fun fold_batch ::
  "('w, 'd, 'b, 'j) js_ports \<Rightarrow> stream_seq \<Rightarrow> 'd nmsg list \<Rightarrow> 'd nfact list \<Rightarrow> string + bool \<times> 'd nfact list" where
  "fold_batch J hi [] out = Inr (False, out)"
| "fold_batch J hi (m # ms) out =
     (case m_meta m of
        Inl e \<Rightarrow> Inl e
      | Inr (sq, n) \<Rightarrow>
          if hi < sq then Inr (True, out)
          else (case js_unmarshal J (m_data m) of
                  None \<Rightarrow> fold_batch J hi ms out
                | Some e \<Rightarrow> fold_batch J hi ms
                    (out @ [\<lparr>f_event = Some e, f_iid = iidFromLogSubject (m_subject m), f_stream_seq = sq,
                             f_traceparent = '''', f_msg = None\<rparr>])))"

partial_function (option) fold_poll ::
  "('w, 'd, 'b, 'j) js_ports \<Rightarrow> nat \<Rightarrow> stream_seq \<Rightarrow> 'd nfact list \<Rightarrow> 'w \<Rightarrow> ((string + 'd nfact list) \<times> 'w) option" where
  "fold_poll J sub hi out w =
     (case js_sub_fetch J w sub 128 of
        (Inl ErrTimeout, w1) \<Rightarrow> Some (Inr out, w1)
      | (Inl (FetchFailed e), w1) \<Rightarrow> Some (Inl e, w1)
      | (Inr [], w1) \<Rightarrow> Some (Inr out, w1)
      | (Inr (m # ms), w1) \<Rightarrow>
          (case fold_batch J hi (m # ms) out of
             Inl e \<Rightarrow> Some (Inl e, w1)
           | Inr (fin, out') \<Rightarrow> if fin then Some (Inr out', w1) else fold_poll J sub hi out' w1))"

declare fold_poll.simps [code]

definition jsFoldRange ::
  "('w, 'd, 'b, 'j) js_ports \<Rightarrow> 'w \<Rightarrow> stream_seq \<Rightarrow> stream_seq \<Rightarrow> ((string + 'd nfact list) \<times> 'w) option" where
  "jsFoldRange J w lo hi =
     (if hi \<le> lo then Some (Inr [], w)
      else (case js_subscribe J w (lo + 1) of
              (Inl e, w1) \<Rightarrow> Some (Inl e, w1)
            | (Inr sub, w1) \<Rightarrow> fold_poll J sub hi [] w1))"

section \<open>The feed sink\<close>

definition feed_subject :: "string \<Rightarrow> string \<Rightarrow> string \<Rightarrow> string" where
  "feed_subject tenant agent iid = ''tenant.'' @ tenant @ ''.agent.'' @ agent @ ''.feed.'' @ iid"

definition dlq_subject :: "string \<Rightarrow> string" where
  "dlq_subject tenant = ''tenant.'' @ tenant @ ''.agent.dlq.feed''"

definition jsPublish ::
  "('w, 'd, 'b, 'j) js_ports \<Rightarrow> 'w \<Rightarrow> bool \<Rightarrow> string \<Rightarrow> string \<Rightarrow> string \<Rightarrow> string \<Rightarrow> 'b \<Rightarrow> string option \<times> 'w" where
  "jsPublish J w grp tenant agent iid dedupID payload =
     js_publish J w grp (feed_subject tenant agent iid) payload (Some dedupID)"

definition jsDlq ::
  "('w, 'd, 'b, 'j) js_ports \<Rightarrow> 'w \<Rightarrow> string \<Rightarrow> string \<Rightarrow> string \<Rightarrow> int \<Rightarrow> string option \<times> 'w" where
  "jsDlq J w tenant reason eventID s =
     js_publish J w False (dlq_subject tenant) (js_dlq_body J reason eventID s) None"

section \<open>The snapshot store\<close>

definition kvSave :: "('w, 'd, 'b, 'j) js_ports \<Rightarrow> 'w \<Rightarrow> stream_seq \<Rightarrow> snapshot \<Rightarrow> string option \<times> 'w" where
  "kvSave J w s snap = js_put J w (js_snap_enc J s snap)"

text \<open>The loop of \<open>Load\<close> over the history, newest first.\<close>

fun load_scan ::
  "('w, 'd, 'b, 'j) js_ports \<Rightarrow> stream_seq \<Rightarrow> 'j kv_entry list \<Rightarrow> snapshot option \<times> stream_seq" where
  "load_scan J maxSeq [] = (None, 0)"
| "load_scan J maxSeq (en # rest) =
     (if \<not> en_put en then load_scan J maxSeq rest
      else (case js_snap_dec J (en_value en) of
              None \<Rightarrow> load_scan J maxSeq rest
            | Some (sq, view) \<Rightarrow> if sq \<le> maxSeq then (view, sq) else load_scan J maxSeq rest))"

definition kvLoad ::
  "('w, 'd, 'b, 'j) js_ports \<Rightarrow> 'w \<Rightarrow> stream_seq \<Rightarrow> (string + snapshot option \<times> stream_seq) \<times> 'w" where
  "kvLoad J w maxSeq =
     (case js_history J w of
        (Inl ErrKeyNotFound, w1) \<Rightarrow> (Inr (None, 0), w1)
      | (Inl (KvFailed e), w1) \<Rightarrow> (Inl e, w1)
      | (Inr hist, w1) \<Rightarrow> (Inr (load_scan J maxSeq (rev hist)), w1))"

section \<open>The ports of the projector over NATS\<close>

definition nats_ports :: "('w, 'd, 'b, 'j) js_ports \<Rightarrow> ('w, 'd nmsg option, 'b) proj_ports" where
  "nats_ports J =
     \<lparr>pp_deliver = jsDeliver J, pp_ack = ack_msg (js_ack J), pp_nak = ack_msg (js_nak J),
      pp_delivered = (\<lambda>w. jsDelivered), pp_ack_floor = js_floor J, pp_fold_range = jsFoldRange J,
      pp_publish = jsPublish J, pp_dlq = jsDlq J, pp_load = kvLoad J, pp_save = kvSave J,
      pp_ctx_err = js_ctx_err J, pp_backoff = js_backoff J, pp_schedule = js_schedule J,
      pp_marshal = js_marshal J, pp_marshal_control = js_marshal_control J\<rparr>"

end
