(* ===== verification/Projector_Broker.thy ===== *)
theory Projector_Broker
  imports Projector_Nats
begin

text \<open>
  What the NATS adapters rely on of the broker, as the locale \<open>js_broker\<close>, and the proof that over such
  a broker they meet the contract of the projector. The laws leave open what the broker's documentation leaves open: a fetch may time
  out at any time, also with messages left; a fact that was handed out \<open>MaxDeliver\<close> times may be skipped by the next
  fetch; every call may fail, before or after it took effect; and a message id is remembered for a while only, so a message may be
  stored twice. A feed message is stored only on a subject of the feed stream.
\<close>

section \<open>Observing the broker\<close>

record ('w, 'd, 'b, 'j) broker_obs =
  b_inv :: "'w \<Rightarrow> bool"
  b_log :: "'w \<Rightarrow> (stream_seq \<times> string \<times> 'd) list"
  b_settled :: "'w \<Rightarrow> nat"
  b_feed :: "'w \<Rightarrow> (string \<times> string \<times> 'b) set"
  b_dead :: "'w \<Rightarrow> (string \<times> 'b) set"
  b_kv :: "'w \<Rightarrow> 'j kv_entry list"
  b_cursor :: "'w \<Rightarrow> nat \<Rightarrow> nat"

definition b_fact :: "('w, 'd, 'b, 'j) js_ports \<Rightarrow> stream_seq \<times> string \<times> 'd \<Rightarrow> unit fact" where
  "b_fact J x =
     \<lparr>f_event = js_unmarshal J (snd (snd x)), f_iid = iidFromLogSubject (fst (snd x)), f_stream_seq = fst x,
      f_traceparent = '''', f_msg = ()\<rparr>"

definition on_feed_stream :: "string \<Rightarrow> bool" where
  "on_feed_stream subj \<longleftrightarrow>
     (let p = split_on dot subj in length p = 6 \<and> p ! 0 = ''tenant'' \<and> p ! 2 = ''agent'' \<and> p ! 4 = ''feed'')"

definition feed_parts :: "string \<times> 'b \<Rightarrow> 'b feed_msg option" where
  "feed_parts x =
     (let p = split_on dot (fst x) in if on_feed_stream (fst x) then Some (p ! 1, p ! 3, p ! 5, snd x) else None)"

definition feed_view :: "('w, 'd, 'b, 'j) broker_obs \<Rightarrow> 'w \<Rightarrow> (string \<times> 'b feed_msg) set" where
  "feed_view B w = {(d, m). \<exists>x. (d, x) \<in> b_feed B w \<and> feed_parts x = Some m}"

definition saved_view ::
  "('w, 'd, 'b, 'j) js_ports \<Rightarrow> ('w, 'd, 'b, 'j) broker_obs \<Rightarrow> 'w \<Rightarrow> (stream_seq \<times> snapshot) set" where
  "saved_view J B w =
     {(sq, s). \<exists>en \<in> set (b_kv B w). en_put en \<and> js_snap_dec J (en_value en) = Some (sq, Some s)}"

definition handle_of :: "'d nfact \<Rightarrow> bool" where
  "handle_of f \<longleftrightarrow> (\<exists>m n. f_msg f = Some m \<and> m_meta m = Inr (f_stream_seq f, n))"

definition nats_view ::
  "('w, 'd, 'b, 'j) js_ports \<Rightarrow> ('w, 'd, 'b, 'j) broker_obs \<Rightarrow> ('w, 'd nmsg option, 'b) observers" where
  "nats_view J B =
     \<lparr>ob_inv = b_inv B, ob_feed = feed_view B, ob_log = (\<lambda>w. map (b_fact J) (b_log B w)),
      ob_settled = b_settled B,
      ob_dead = (\<lambda>w. {(t, r, e, s). (dlq_subject t, js_dlq_body J r e s) \<in> b_dead B w}),
      ob_saved = saved_view J B, ob_handle = handle_of\<rparr>"

definition b_quiet :: "('w, 'd, 'b, 'j) broker_obs \<Rightarrow> 'w \<Rightarrow> 'w \<Rightarrow> bool" where
  "b_quiet B w w' \<longleftrightarrow>
     b_inv B w' \<and> prefix (b_log B w) (b_log B w') \<and> b_settled B w' = b_settled B w \<and>
     b_feed B w' = b_feed B w \<and> b_dead B w' = b_dead B w \<and> b_kv B w' = b_kv B w"

text \<open>The same, but the durable consumer may be past more facts.\<close>

definition b_passes :: "('w, 'd, 'b, 'j) broker_obs \<Rightarrow> 'w \<Rightarrow> 'w \<Rightarrow> bool" where
  "b_passes B w w' \<longleftrightarrow>
     b_inv B w' \<and> prefix (b_log B w) (b_log B w') \<and> b_settled B w \<le> b_settled B w' \<and>
     b_feed B w' = b_feed B w \<and> b_dead B w' = b_dead B w \<and> b_kv B w' = b_kv B w"

text \<open>A message that the consumer hands out is a message of the stream, with its sequence in the metadata.\<close>

definition msg_is :: "'d nmsg \<Rightarrow> stream_seq \<times> string \<times> 'd \<Rightarrow> bool" where
  "msg_is m x \<longleftrightarrow> m_subject m = fst (snd x) \<and> m_data m = snd (snd x) \<and> (\<forall>sq n. m_meta m = Inr (sq, n) \<longrightarrow> sq = fst x)"

section \<open>The laws\<close>

locale js_broker =
  fixes J :: "('w, 'd, 'b, 'j) js_ports" and B :: "('w, 'd, 'b, 'j) broker_obs"
  assumes stream: "b_inv B w \<Longrightarrow> stream_ok (map (b_fact J) (b_log B w)) \<and> b_settled B w \<le> length (b_log B w)"
    and feed_subjects: "b_inv B w \<Longrightarrow> (d, x) \<in> b_feed B w \<Longrightarrow> on_feed_stream (fst x)"
    and snapshots: "b_inv B w \<Longrightarrow> en \<in> set (b_kv B w) \<Longrightarrow> js_snap_dec J (en_value en) \<noteq> Some (sq, None)"
    and snap_codec: "js_snap_dec J (js_snap_enc J sq s) = Some (sq, Some s)"
    and fetch: "b_inv B w \<Longrightarrow> js_fetch J w = (rf, w') \<Longrightarrow> b_passes B w w' \<and>
      (\<forall>m ms. rf = Inr (m # ms) \<longrightarrow> b_settled B w' < length (b_log B w') \<and> msg_is m (b_log B w' ! b_settled B w'))"
    and nak: "b_inv B w \<Longrightarrow> js_nak J w m = (r, w') \<Longrightarrow> b_quiet B w w'"
    and ack: "b_inv B w \<Longrightarrow> js_ack J w m = (r, w') \<Longrightarrow> b_settled B w < length (b_log B w) \<Longrightarrow>
      m_meta m = Inr (fst (b_log B w ! b_settled B w), n) \<Longrightarrow>
      b_quiet B w w' \<and> r \<noteq> None \<or>
      (b_inv B w' \<and> prefix (b_log B w) (b_log B w') \<and> b_settled B w' = Suc (b_settled B w) \<and>
       b_feed B w' = b_feed B w \<and> b_dead B w' = b_dead B w \<and> b_kv B w' = b_kv B w)"
    and floor: "b_inv B w \<Longrightarrow> js_floor J w = (rs, w') \<Longrightarrow> b_quiet B w w' \<and> (\<forall>n. rs = Inr n \<longrightarrow>
        filter (\<lambda>x. fst x \<le> n) (b_log B w') = take (b_settled B w') (b_log B w') \<and>
        (n = 0 \<or> n \<in> fst ` set (b_log B w')))"
    and subscribe: "b_inv B w \<Longrightarrow> js_subscribe J w n = (rh, w') \<Longrightarrow> b_quiet B w w' \<and> (\<forall>h. rh = Inr h \<longrightarrow>
        b_cursor B w' h = length (filter (\<lambda>x. fst x < n) (b_log B w')))"
    and sub_fetch: "b_inv B w \<Longrightarrow> js_sub_fetch J w h k = (rf, w') \<Longrightarrow> b_quiet B w w' \<and>
      (\<forall>ms. rf = Inr ms \<longrightarrow> (\<exists>j. list_all2 msg_is ms (take j (drop (b_cursor B w h) (b_log B w'))) \<and>
        b_cursor B w' h = b_cursor B w h + length ms))"
    and publish: "b_inv B w \<Longrightarrow> js_publish J w grp subj pl (Some d) = (r, w') \<Longrightarrow>
      b_inv B w' \<and> prefix (b_log B w) (b_log B w') \<and> b_settled B w' = b_settled B w \<and>
      b_dead B w' = b_dead B w \<and> b_kv B w' = b_kv B w \<and> (r = None \<longrightarrow> d \<in> fst ` b_feed B w') \<and>
      b_feed B w \<subseteq> b_feed B w' \<and> b_feed B w' \<subseteq> insert (d, subj, pl) (b_feed B w)"
    and publish_dlq: "b_inv B w \<Longrightarrow> js_publish J w grp subj pl None = (r, w') \<Longrightarrow>
      b_inv B w' \<and> prefix (b_log B w) (b_log B w') \<and> b_settled B w' = b_settled B w \<and>
      b_feed B w' = b_feed B w \<and> b_kv B w' = b_kv B w \<and> b_dead B w \<subseteq> b_dead B w' \<and>
      (r = None \<longrightarrow> (subj, pl) \<in> b_dead B w')"
    and history: "b_inv B w \<Longrightarrow> js_history J w = (rk, w') \<Longrightarrow> b_quiet B w w' \<and> (\<forall>h. rk = Inr h \<longrightarrow> h = b_kv B w')"
    and put: "b_inv B w \<Longrightarrow> js_put J w (js_snap_enc J sq s) = (r, w') \<Longrightarrow>
      b_inv B w' \<and> prefix (b_log B w) (b_log B w') \<and> b_settled B w' = b_settled B w \<and>
      b_feed B w' = b_feed B w \<and> b_dead B w' = b_dead B w \<and>
      set (b_kv B w') \<subseteq> insert \<lparr>en_put = True, en_value = js_snap_enc J sq s\<rparr> (set (b_kv B w))"
    and ctx_err: "b_inv B w \<Longrightarrow> js_ctx_err J w = (r, w') \<Longrightarrow> b_quiet B w w'"
    and backoff: "b_inv B w \<Longrightarrow> js_backoff J w grp dur = (r, w') \<Longrightarrow> b_quiet B w w'"
    and schedule: "b_inv B w \<Longrightarrow> js_schedule J w = (k, w') \<Longrightarrow> b_quiet B w w'"

section \<open>Lemmas on the adapters\<close>

lemma length_split_on: "length (split_on c s) = Suc (length (filter (\<lambda>x. x = c) s))"
proof (induction s)
  case (Cons x xs)
  then show ?case by (cases "split_on c xs") auto
qed simp

lemma feed_subject_join:
  "feed_subject t a i = join_with [dot] [''tenant'', t, ''agent'', a, ''feed'', i]"
  by (simp add: feed_subject_def)

lemma feed_parts_inverse: "feed_parts (subj, pl) = Some (t, a, i, pl') \<Longrightarrow> subj = feed_subject t a i \<and> pl' = pl"
  using join_split [of dot subj]
  by (auto simp: feed_parts_def on_feed_stream_def Let_def feed_subject_join length_6_conv split: if_splits)

lemma feed_parts_subject:
  assumes "on_feed_stream (feed_subject t a i)"
  shows "feed_parts (feed_subject t a i, pl) = Some (t, a, i, pl)"
proof -
  have "no_dot t \<and> no_dot a \<and> no_dot i"
    using assms
    by (auto simp: on_feed_stream_def Let_def length_split_on feed_subject_def no_dot_def filter_empty_conv)
  then have "split_on dot (feed_subject t a i) = [''tenant'', t, ''agent'', a, ''feed'', i]"
    unfolding feed_subject_join by (intro split_join) (auto simp: no_dot_def)
  with assms show ?thesis by (simp add: feed_parts_def)
qed

lemma prefix_map: "prefix xs ys \<Longrightarrow> prefix (map g xs) (map g ys)"
  by (auto simp: prefix_def)

lemma quiet_view: "b_quiet B w w' \<Longrightarrow> quiet (nats_view J B) w w'"
  by (simp add: b_quiet_def quiet_def nats_view_def feed_view_def saved_view_def fun_eq_iff prefix_map)

lemma passes_view: "b_passes B w w' \<Longrightarrow> passes (nats_view J B) w w'"
  by (simp add: b_passes_def passes_def nats_view_def feed_view_def saved_view_def fun_eq_iff prefix_map)

lemma b_quiet_passes: "b_quiet B w w' \<Longrightarrow> b_passes B w w'"
  by (simp add: b_quiet_def b_passes_def)

lemma b_passes_trans: "b_passes B u v \<Longrightarrow> b_passes B v w \<Longrightarrow> b_passes B u w"
  by (auto simp: b_passes_def intro: prefix_order.trans)

lemma b_passes_inv: "b_passes B w w' \<Longrightarrow> b_inv B w'"
  by (simp add: b_passes_def)

lemma b_quiet_trans: "b_quiet B u v \<Longrightarrow> b_quiet B v w \<Longrightarrow> b_quiet B u w"
  by (auto simp: b_quiet_def intro: prefix_order.trans)

lemma b_quiet_inv: "b_quiet B w w' \<Longrightarrow> b_inv B w'"
  by (simp add: b_quiet_def)

lemma core_fact_of_msg: "msg_is m x \<Longrightarrow> m_meta m = Inr (sq, n) \<Longrightarrow> core (fact_of_msg J m sq) = b_fact J x"
  by (simp add: msg_is_def core_def fact_of_msg_def b_fact_def)

text \<open>What one batch of the read-only fold adds.\<close>

lemma fold_batch_spec:
  fixes out :: "'d nfact list"
  assumes "list_all2 msg_is ms xs" "fold_batch J hi ms out = Inr (fin, out')"
  shows "\<exists>ys zs. xs = ys @ zs \<and> (\<forall>y \<in> set ys. fst y \<le> hi) \<and>
    map core out' = map core out @ filter (\<lambda>f. f_event f \<noteq> None) (map (b_fact J) ys) \<and>
    (if fin then zs \<noteq> [] \<and> hi < fst (hd zs) else zs = [])"
  using assms
proof (induction ms xs arbitrary: out rule: list_all2_induct)
  case Nil
  then show ?case by simp
next
  case (Cons m ms x xs)
  obtain sq n where meta: "m_meta m = Inr (sq, n)" using Cons.prems by (auto split: sum.splits)
  have x: "sq = fst x" "m_subject m = fst (snd x)" "m_data m = snd (snd x)"
    using Cons.hyps(1) meta by (auto simp: msg_is_def)
  show ?case
  proof (cases "hi < sq")
    case True
    with Cons.prems meta have "fin \<and> out' = out" by simp
    with True x show ?thesis by (intro exI [of _ "[]"] exI [of _ "x # xs"]) simp
  next
    case False
    define add where "add = (case js_unmarshal J (m_data m) of None \<Rightarrow> []
      | Some e \<Rightarrow> [\<lparr>f_event = Some e, f_iid = iidFromLogSubject (m_subject m), f_stream_seq = sq, f_traceparent = '''', f_msg = None :: 'd nmsg option\<rparr>])"
    have "fold_batch J hi ms (out @ add) = Inr (fin, out')"
      using Cons.prems meta False by (auto simp: add_def split: option.splits)
    from Cons.IH [OF this] obtain ys zs where yz: "xs = ys @ zs" "\<forall>y \<in> set ys. fst y \<le> hi"
        "map core out' = map core (out @ add) @ filter (\<lambda>f. f_event f \<noteq> None) (map (b_fact J) ys)"
        "if fin then zs \<noteq> [] \<and> hi < fst (hd zs) else zs = []" by blast
    have "map core add = filter (\<lambda>f. f_event f \<noteq> None) (map (b_fact J) [x])"
      by (simp add: add_def b_fact_def core_def x split: option.splits)
    with yz False x show ?thesis by (intro exI [of _ "x # ys"] exI [of _ zs]) simp
  qed
qed

context js_broker
begin

definition delivered_spec :: "'w \<Rightarrow> (string + 'd nfact) \<times> 'w \<Rightarrow> bool" where
  "delivered_spec w y \<longleftrightarrow> b_passes B w (snd y) \<and>
     (\<forall>f. fst y = Inr f \<longrightarrow> b_settled B (snd y) < length (b_log B (snd y)) \<and>
        core f = b_fact J (b_log B (snd y) ! b_settled B (snd y)) \<and> handle_of f)"

lemma deliver_turn:
  assumes rec: "\<And>w2. dl J w2 = Some y \<Longrightarrow> b_inv B w2 \<Longrightarrow> delivered_spec w2 y" and i: "b_inv B w"
    and run: "(case js_ctx_err J w of
        (Some e, w1) \<Rightarrow> Some (Inl e, w1)
      | (None, w1) \<Rightarrow>
          (case js_fetch J w1 of
             (Inl ErrTimeout, w2) \<Rightarrow> dl J w2
           | (Inl (FetchFailed e), w2) \<Rightarrow> Some (Inl e, w2)
           | (Inr [], w2) \<Rightarrow> dl J w2
           | (Inr (m # ms), w2) \<Rightarrow>
               (case m_meta m of
                  Inl e \<Rightarrow> Some (Inl (''delivery metadata: '' @ e), w2)
                | Inr (sq, n) \<Rightarrow> Some (Inr (fact_of_msg J m sq), w2)))) = Some y"
  shows "delivered_spec w y"
proof -
  obtain e w1 where c: "js_ctx_err J w = (e, w1)" by force
  have q1: "b_passes B w w1" by (rule b_quiet_passes [OF ctx_err [OF i c]])
  obtain rf w2 where f: "js_fetch J w1 = (rf, w2)" by force
  note ft = fetch [OF b_passes_inv [OF q1] f]
  have q2: "b_passes B w w2" by (rule b_passes_trans [OF q1 conjunct1 [OF ft]])
  note body = run [unfolded c prod.case]
  show ?thesis
  proof (cases e)
    case (Some x)
    with body q1 show ?thesis by (auto simp: delivered_spec_def)
  next
    case None
    note body2 = body [unfolded None option.case f prod.case]
    have again: ?thesis if "dl J w2 = Some y"
      using rec [OF that b_passes_inv [OF q2]] b_passes_trans [OF q2] by (simp add: delivered_spec_def)
    show ?thesis
    proof (cases rf)
      case (Inl err)
      show ?thesis
        using body2 again q2 unfolding Inl by (cases err) (auto simp: delivered_spec_def)
    next
      case (Inr ms)
      show ?thesis
      proof (cases ms)
        case Nil
        then show ?thesis using body2 again unfolding Inr by simp
      next
        case (Cons m ms')
        show ?thesis
        proof (cases "m_meta m")
          case (Inl x)
          with body2 Cons q2 \<open>rf = Inr ms\<close> show ?thesis by (auto simp: delivered_spec_def)
        next
          case (Inr meta)
          obtain sq n where meta: "meta = (sq, n)" by force
          with body2 Cons Inr \<open>rf = Inr ms\<close> have y: "y = (Inr (fact_of_msg J m sq), w2)" by simp
          have pos: "b_settled B w2 < length (b_log B w2)" "msg_is m (b_log B w2 ! b_settled B w2)"
            using ft Cons \<open>rf = Inr ms\<close> by auto
          have "handle_of (fact_of_msg J m sq)" using Inr meta by (simp add: handle_of_def fact_of_msg_def)
          moreover have "core (fact_of_msg J m sq) = b_fact J (b_log B w2 ! b_settled B w2)"
            by (rule core_fact_of_msg [OF pos(2)]) (use Inr meta in simp)
          ultimately show ?thesis using y q2 pos by (simp add: delivered_spec_def)
        qed
      qed
    qed
  qed
qed

lemma jsDeliver_spec:
  assumes "jsDeliver J w = Some y" "b_inv B w"
  shows "delivered_spec w y"
proof -
  have "J = J \<longrightarrow> b_inv B w \<longrightarrow> delivered_spec w y"
  proof (rule jsDeliver.raw_induct [where P = "\<lambda>K w y. K = J \<longrightarrow> b_inv B w \<longrightarrow> delivered_spec w y", OF _ assms(1)],
      intro impI, goal_cases)
    case (1 dl K w y)
    show ?case
      by (rule deliver_turn [where dl = dl, OF _ 1(4) 1(2) [unfolded 1(3)]]) (use 1(1) in simp)
  qed
  with assms(2) show ?thesis by simp
qed

text \<open>The read-only fold: what it has read is the stream up to the consumer's cursor.\<close>

definition folding :: "nat \<Rightarrow> stream_seq \<Rightarrow> stream_seq \<Rightarrow> 'd nfact list \<Rightarrow> 'w \<Rightarrow> bool" where
  "folding h lo hi out w \<longleftrightarrow> b_inv B w \<and> b_cursor B w h \<le> length (b_log B w) \<and>
     (lo = 0 \<or> lo \<in> fst ` set (b_log B w)) \<and>
     map core out = in_range lo hi (map (b_fact J) (take (b_cursor B w h) (b_log B w))) \<and>
     (\<forall>x \<in> set (drop (b_cursor B w h) (b_log B w)). lo < fst x)"

definition fold_spec :: "stream_seq \<Rightarrow> stream_seq \<Rightarrow> 'w \<Rightarrow> (string + 'd nfact list) \<times> 'w \<Rightarrow> bool" where
  "fold_spec lo hi w y \<longleftrightarrow> b_quiet B w (snd y) \<and>
     (\<forall>fs. fst y = Inr fs \<longrightarrow> prefix (map core fs) (in_range lo hi (map (b_fact J) (b_log B (snd y)))))"

lemma b_seq_sorted: "b_inv B w \<Longrightarrow> sorted_wrt (<) (map fst (b_log B w)) \<and> (\<forall>x \<in> set (b_log B w). 0 < fst x)"
  using stream [of w] by (simp add: stream_ok_def comp_def b_fact_def)

lemma drop_above:
  assumes "b_inv B w'" "prefix l (b_log B w')" "lo = 0 \<or> lo \<in> fst ` set l" "c \<le> length l"
    and "\<forall>x \<in> set (drop c l). lo < fst x"
  shows "\<forall>x \<in> set (drop c (b_log B w')). lo < fst x"
proof -
  from assms(2) obtain z where z: "b_log B w' = l @ z" by (auto simp: prefix_def)
  have "\<forall>x \<in> set z. lo < fst x"
    using b_seq_sorted [OF assms(1)] assms(3) by (auto simp: z sorted_wrt_append)
  with assms(4,5) show ?thesis by (auto simp: z)
qed

lemma folded_snoc:
  assumes "\<forall>y \<in> set ys. lo < fst y \<and> fst y \<le> hi"
  shows "in_range lo hi (map (b_fact J) (xs @ ys)) =
    in_range lo hi (map (b_fact J) xs) @ filter (\<lambda>f. f_event f \<noteq> None) (map (b_fact J) ys)"
proof -
  have "filter (\<lambda>f. f_event f \<noteq> None \<and> lo < f_stream_seq f \<and> f_stream_seq f \<le> hi) (map (b_fact J) ys) =
      filter (\<lambda>f. f_event f \<noteq> None) (map (b_fact J) ys)"
    by (rule filter_cong) (use assms in \<open>auto simp: b_fact_def\<close>)
  then show ?thesis by (simp only: in_range_def map_append filter_append)
qed

lemma folded_beyond:
  assumes "\<forall>y \<in> set ys. hi < fst y"
  shows "in_range lo hi (map (b_fact J) (xs @ ys)) = in_range lo hi (map (b_fact J) xs)"
  using assms by (auto simp: in_range_def filter_empty_conv b_fact_def)

text \<open>One batch keeps the fold in step with the cursor, or completes it.\<close>

lemma fold_batch_turn:
  assumes fo: "folding h lo hi out w" and q: "b_quiet B w w1"
    and ms: "list_all2 msg_is ms (take j (drop (b_cursor B w h) (b_log B w1)))"
    and cur: "b_cursor B w1 h = b_cursor B w h + length ms"
    and fb: "fold_batch J hi ms out = Inr (fin, out')"
  shows "if fin then map core out' = in_range lo hi (map (b_fact J) (b_log B w1)) else folding h lo hi out' w1"
proof -
  let ?c = "b_cursor B w h" and ?l = "b_log B w1"
  have pre: "prefix (b_log B w) ?l" and i: "b_inv B w1" using q by (simp_all add: b_quiet_def)
  have c: "?c \<le> length (b_log B w)" "?c \<le> length ?l"
    using fo prefix_length_le [OF pre] by (auto simp: folding_def)
  have lo: "lo = 0 \<or> lo \<in> fst ` set ?l" using fo prefix_set [OF pre] by (auto simp: folding_def)
  have above: "\<forall>x \<in> set (drop ?c ?l). lo < fst x"
    by (rule drop_above [OF i pre]) (use fo in \<open>auto simp: folding_def\<close>)
  have tk: "take ?c ?l = take ?c (b_log B w)" by (rule take_prefix_eq [OF pre c(1)])
  have len: "length ms = length (take j (drop ?c ?l))" using list_all2_lengthD [OF ms] .
  obtain ys zs where yz: "take j (drop ?c ?l) = ys @ zs" "\<forall>y \<in> set ys. fst y \<le> hi"
      "map core out' = map core out @ filter (\<lambda>f. f_event f \<noteq> None) (map (b_fact J) ys)"
      "if fin then zs \<noteq> [] \<and> hi < fst (hd zs) else zs = []"
    using fold_batch_spec [OF ms fb] by blast
  have ys: "\<forall>y \<in> set ys. lo < fst y \<and> fst y \<le> hi"
  proof
    fix y assume y: "y \<in> set ys"
    then have "y \<in> set (take j (drop ?c ?l))" by (simp add: yz(1))
    then have "y \<in> set (drop ?c ?l)" by (rule in_set_takeD)
    with above y yz(2) show "lo < fst y \<and> fst y \<le> hi" by blast
  qed
  have out': "map core out' = in_range lo hi (map (b_fact J) (take ?c ?l @ ys))"
    using folded_snoc [OF ys, of "take ?c ?l"] yz(3) fo tk by (simp add: folding_def)
  have split: "?l = (take ?c ?l @ ys) @ (zs @ drop j (drop ?c ?l))"
  proof -
    have d: "(ys @ zs) @ drop j (drop ?c ?l) = drop ?c ?l"
      using append_take_drop_id [of j "drop ?c ?l"] unfolding yz(1) .
    have "?l = take ?c ?l @ ((ys @ zs) @ drop j (drop ?c ?l))" unfolding d by simp
    then show ?thesis unfolding append_assoc .
  qed
  show ?thesis
  proof (cases fin)
    case True
    then have z: "zs \<noteq> []" "hi < fst (hd zs)" using yz(4) by simp_all
    define rest where "rest = zs @ drop j (drop ?c ?l)"
    have l2: "?l = (take ?c ?l @ ys) @ rest" unfolding rest_def by (rule split)
    have "sorted_wrt (<) (map fst ((take ?c ?l @ ys) @ rest))"
      by (rule subst [OF l2, where P = "\<lambda>x. sorted_wrt (<) (map fst x)"]) (rule conjunct1 [OF b_seq_sorted [OF i]])
    then have so: "sorted_wrt (<) (map fst rest)" by (simp only: map_append sorted_wrt_append)
    have "\<forall>y \<in> set rest. hi < fst y"
    proof (cases zs)
      case (Cons x xs)
      then have rest: "rest = x # (xs @ drop j (drop ?c ?l))" by (simp only: rest_def append.simps)
      have "sorted_wrt (<) (fst x # map fst (xs @ drop j (drop ?c ?l)))" using so unfolding rest list.map .
      then have "\<forall>y \<in> set (map fst (xs @ drop j (drop ?c ?l))). fst x < y" unfolding sorted_wrt.simps by (elim conjE)
      then have "\<forall>y \<in> set (xs @ drop j (drop ?c ?l)). fst x < fst y" unfolding set_map by blast
      with z Cons rest show ?thesis by (auto intro: order.strict_trans)
    qed (use z in simp)
    then have "in_range lo hi (map (b_fact J) ((take ?c ?l @ ys) @ rest)) = in_range lo hi (map (b_fact J) (take ?c ?l @ ys))"
      by (rule folded_beyond)
    then have "in_range lo hi (map (b_fact J) ?l) = in_range lo hi (map (b_fact J) (take ?c ?l @ ys))"
      using arg_cong [OF l2, of "\<lambda>x. in_range lo hi (map (b_fact J) x)"] by (rule trans [rotated])
    with True out' show ?thesis by simp
  next
    case False
    then have z: "zs = []" using yz(4) by simp
    have "take (?c + length ms) ?l = take ?c ?l @ take (length ms) (drop ?c ?l)" by (simp add: take_add)
    also have "take (length ms) (drop ?c ?l) = ys"
    proof -
      have "take (length (take j d)) d = take j d" for d :: "(nat \<times> string \<times> 'd) list"
        by (cases "j \<le> length d") simp_all
      from this [of "drop ?c ?l"] show ?thesis using yz(1) z len by simp
    qed
    finally have "take (b_cursor B w1 h) ?l = take ?c ?l @ ys" by (simp add: cur)
    moreover have "b_cursor B w1 h \<le> length ?l" using cur len c by (simp add: min_def split: if_splits)
    moreover have "\<forall>x \<in> set (drop (b_cursor B w1 h) ?l). lo < fst x"
      using above set_drop_subset_set_drop [of ?c "b_cursor B w1 h" ?l] cur by auto
    ultimately show ?thesis using False out' i lo by (simp add: folding_def)
  qed
qed

lemma fold_turn:
  assumes rec: "\<And>out' w1. fp J h hi out' w1 = Some y \<Longrightarrow> folding h lo hi out' w1 \<Longrightarrow> fold_spec lo hi w1 y"
    and fo: "folding h lo hi out w"
    and run: "(case js_sub_fetch J w h 128 of
        (Inl ErrTimeout, w1) \<Rightarrow> Some (Inr out, w1)
      | (Inl (FetchFailed e), w1) \<Rightarrow> Some (Inl e, w1)
      | (Inr [], w1) \<Rightarrow> Some (Inr out, w1)
      | (Inr (m # ms), w1) \<Rightarrow>
          (case fold_batch J hi (m # ms) out of
             Inl e \<Rightarrow> Some (Inl e, w1)
           | Inr (fin, out') \<Rightarrow> if fin then Some (Inr out', w1) else fp J h hi out' w1)) = Some y"
  shows "fold_spec lo hi w y"
proof -
  obtain rf w1 where f: "js_sub_fetch J w h 128 = (rf, w1)" by force
  have i: "b_inv B w" using fo by (simp add: folding_def)
  note sf = sub_fetch [OF i f]
  have q: "b_quiet B w w1" using sf by blast
  have pre: "prefix (b_log B w) (b_log B w1)" using q by (simp add: b_quiet_def)
  have stop: "prefix (map core out) (in_range lo hi (map (b_fact J) (b_log B w1)))"
  proof -
    have "prefix (map (b_fact J) (take (b_cursor B w h) (b_log B w))) (map (b_fact J) (b_log B w1))"
      by (rule prefix_map [OF prefix_order.trans [OF take_is_prefix pre]])
    then have "prefix (in_range lo hi (map (b_fact J) (take (b_cursor B w h) (b_log B w)))) (in_range lo hi (map (b_fact J) (b_log B w1)))"
      by (auto simp: prefix_def in_range_def simp del: map_eq_append_conv)
    with fo show ?thesis by (simp add: folding_def)
  qed
  note body = run [unfolded f prod.case]
  show ?thesis
  proof (cases rf)
    case (Inl err)
    with body stop q show ?thesis by (cases err) (auto simp: fold_spec_def)
  next
    case (Inr ms)
    show ?thesis
    proof (cases ms)
      case Nil
      with body stop q Inr show ?thesis by (auto simp: fold_spec_def)
    next
      case (Cons m ms')
      obtain j where j: "list_all2 msg_is ms (take j (drop (b_cursor B w h) (b_log B w1)))"
          "b_cursor B w1 h = b_cursor B w h + length ms"
        using sf Inr by blast
      show ?thesis
      proof (cases "fold_batch J hi ms out")
        case (Inl e)
        with body q Cons \<open>rf = Inr ms\<close> show ?thesis by (auto simp: fold_spec_def)
      next
        case (Inr b)
        obtain fin out' where b: "b = (fin, out')" by force
        note turn = fold_batch_turn [OF fo q j Inr [unfolded b]]
        have run': "(if fin then Some (Inr out', w1) else fp J h hi out' w1) = Some y"
          using body Cons Inr b \<open>rf = Inr ms\<close> by simp
        show ?thesis
        proof (cases fin)
          case True
          with run' turn q show ?thesis by (auto simp: fold_spec_def)
        next
          case False
          with run' turn rec [of out' w1] have "fold_spec lo hi w1 y" by simp
          with b_quiet_trans [OF q] show ?thesis by (simp add: fold_spec_def)
        qed
      qed
    qed
  qed
qed

lemma fold_poll_spec:
  assumes "fold_poll J h hi out w = Some y" "folding h lo hi out w"
  shows "fold_spec lo hi w y"
proof -
  have "J = J \<longrightarrow> folding h lo hi out w \<longrightarrow> fold_spec lo hi w y"
  proof (rule fold_poll.raw_induct [where P = "\<lambda>K h hi out w y. K = J \<longrightarrow> folding h lo hi out w \<longrightarrow> fold_spec lo hi w y", OF _ assms(1)],
      intro impI, goal_cases)
    case (1 fp K h hi out w y)
    show ?case
      by (rule fold_turn [where fp = fp, OF _ 1(4) 1(2) [unfolded 1(3)]]) (use 1(1) in simp)
  qed
  with assms(2) show ?thesis by simp
qed

lemma filter_below_none:
  assumes "sorted_wrt (<) (map fst (y # ys))" "\<not> fst y < (n :: nat)"
  shows "filter (\<lambda>x. fst x < n) ys = []"
  unfolding filter_empty_conv
proof
  fix x assume "x \<in> set ys"
  with assms(1) have "fst y < fst x" by simp
  with assms(2) show "\<not> fst x < n" by simp
qed

lemma drop_filter_above:
  "sorted_wrt (<) (map fst xs) \<Longrightarrow> x \<in> set (drop (length (filter (\<lambda>x. fst x < n) xs)) xs) \<Longrightarrow> (n :: nat) \<le> fst x"
proof (induction xs)
  case (Cons y ys)
  then show ?case
    using filter_below_none [OF Cons.prems(1), of n] by (cases "fst y < n") (auto dest: order.strict_implies_order)
qed simp

lemma take_filter_below:
  "sorted_wrt (<) (map fst xs) \<Longrightarrow> x \<in> set (take (length (filter (\<lambda>x. fst x < n) xs)) xs) \<Longrightarrow> fst x < (n :: nat)"
proof (induction xs)
  case (Cons y ys)
  then show ?case using filter_below_none [OF Cons.prems(1), of n] by (cases "fst y < n") auto
qed simp

lemma subscribe_folding:
  assumes "b_inv B w" "lo = 0 \<or> lo \<in> fst ` set (b_log B w)" "js_subscribe J w (lo + 1) = (Inr h, w1)"
  shows "folding h lo hi [] w1"
proof -
  note sb = subscribe [OF assms(1,3)]
  have q: "b_quiet B w w1" and i1: "b_inv B w1" using sb by (simp_all add: b_quiet_def)
  have cur: "b_cursor B w1 h = length (filter (\<lambda>x. fst x < lo + 1) (b_log B w1))" using sb by simp
  have so: "sorted_wrt (<) (map fst (b_log B w1))" using b_seq_sorted [OF i1] by simp
  have "in_range lo hi (map (b_fact J) (take (b_cursor B w1 h) (b_log B w1))) = []"
  proof -
    have "\<not> lo < f_stream_seq f" if "f \<in> set (map (b_fact J) (take (b_cursor B w1 h) (b_log B w1)))" for f
    proof -
      from that have "f \<in> b_fact J ` set (take (b_cursor B w1 h) (b_log B w1))" by (simp only: set_map)
      then obtain x where x: "f = b_fact J x" "x \<in> set (take (b_cursor B w1 h) (b_log B w1))" by (rule imageE)
      have "fst x < lo + 1" by (rule take_filter_below [OF so x(2) [unfolded cur]])
      then show ?thesis by (simp add: x(1) b_fact_def)
    qed
    then show ?thesis by (auto simp: in_range_def filter_empty_conv simp del: set_map)
  qed
  moreover have "\<forall>x \<in> set (drop (b_cursor B w1 h) (b_log B w1)). lo < fst x"
  proof
    fix x assume "x \<in> set (drop (b_cursor B w1 h) (b_log B w1))"
    then have "lo + 1 \<le> fst x" unfolding cur by (rule drop_filter_above [OF so])
    then show "lo < fst x" by simp
  qed
  moreover have "lo = 0 \<or> lo \<in> fst ` set (b_log B w1)"
    using assms(2) q prefix_set [of "b_log B w" "b_log B w1"] by (auto simp: b_quiet_def)
  moreover have "b_cursor B w1 h \<le> length (b_log B w1)" by (simp add: cur)
  ultimately show ?thesis using i1 by (simp add: folding_def)
qed

lemma jsFoldRange_spec:
  assumes "jsFoldRange J w lo hi = Some y" "b_inv B w" "lo = 0 \<or> lo \<in> fst ` set (b_log B w)"
  shows "fold_spec lo hi w y"
proof (cases "hi \<le> lo")
  case True
  then have "in_range lo hi fs = []" for fs :: "unit fact list" by (auto simp: in_range_def filter_empty_conv)
  with True assms(1,2) show ?thesis by (auto simp: jsFoldRange_def fold_spec_def b_quiet_def)
next
  case False
  obtain rh w1 where s: "js_subscribe J w (lo + 1) = (rh, w1)" by force
  note sb = subscribe [OF assms(2) s]
  have q: "b_quiet B w w1" and i1: "b_inv B w1" using sb by (simp_all add: b_quiet_def)
  show ?thesis
  proof (cases rh)
    case (Inl e)
    with False assms(1) s q show ?thesis by (auto simp: jsFoldRange_def fold_spec_def)
  next
    case (Inr h)
    with False assms(1) s have fp: "fold_poll J h hi [] w1 = Some y" by (simp add: jsFoldRange_def)
    have "folding h lo hi [] w1" by (rule subscribe_folding [OF assms(2,3) s [unfolded Inr]])
    from fold_poll_spec [OF fp this] show ?thesis using b_quiet_trans [OF q] by (simp add: fold_spec_def)
  qed
qed

end

context js_broker
begin

lemma below_count:
  assumes "sorted_wrt (<) (map fst l)" "m < length l" "fst (l ! m) \<le> (hi :: nat)"
  shows "m < length (filter (\<lambda>x. fst x \<le> hi) l)"
proof -
  have "Suc m = length (take (Suc m) l)" using assms(2) by simp
  also have "\<dots> = length (filter (\<lambda>x. fst x \<le> fst (l ! m)) l)" using filter_take [OF assms(1,2)] by simp
  also have "\<dots> \<le> length (filter (\<lambda>x. fst x \<le> hi) l)"
  proof -
    have "length (filter (\<lambda>x. fst x \<le> a) l) \<le> length (filter (\<lambda>x. fst x \<le> hi) l)" if "a \<le> hi" for a
      using that by (induction l) (auto intro: le_SucI)
    then show ?thesis using assms(3) .
  qed
  finally show ?thesis by simp
qed

lemma count_grows:
  assumes "b_inv B w1" "prefix l (b_log B w1)" "hi \<in> fst ` set l"
  shows "length (filter (\<lambda>x. fst x \<le> hi) (b_log B w1)) = length (filter (\<lambda>x. fst x \<le> hi) l)"
proof -
  from assms(2) obtain z where z: "b_log B w1 = l @ z" by (auto simp: prefix_def)
  have "\<forall>x \<in> set z. hi < fst x"
    using b_seq_sorted [OF assms(1)] assms(3) by (auto simp: z sorted_wrt_append)
  then show ?thesis by (auto simp: z filter_empty_conv)
qed

text \<open>The read-only fold ends: every batch that does not end it consumes facts below its upper end.\<close>

lemma fold_poll_returns:
  assumes "folding h lo hi out w" "hi \<in> fst ` set (b_log B w)"
  shows "\<exists>y. fold_poll J h hi out w = Some y"
  using assms
proof (induction "length (filter (\<lambda>x. fst x \<le> hi) (b_log B w)) - b_cursor B w h" arbitrary: out w rule: less_induct)
  case less
  obtain rf w1 where f: "js_sub_fetch J w h 128 = (rf, w1)" by force
  have i: "b_inv B w" using less.prems(1) by (simp add: folding_def)
  note sf = sub_fetch [OF i f]
  have q: "b_quiet B w w1" using sf by blast
  have pre: "prefix (b_log B w) (b_log B w1)" and i1: "b_inv B w1" using q by (simp_all add: b_quiet_def)
  show ?case
  proof (cases "\<exists>ms out'. ms \<noteq> [] \<and> rf = Inr ms \<and> fold_batch J hi ms out = Inr (False, out')")
    case False
    then show ?thesis
      by (subst fold_poll.simps) (auto simp: f split: sum.splits fetch_err.splits list.splits)
  next
    case True
    then obtain ms out' where ms: "ms \<noteq> []" "rf = Inr ms" "fold_batch J hi ms out = Inr (False, out')" by blast
    obtain j where j: "list_all2 msg_is ms (take j (drop (b_cursor B w h) (b_log B w1)))"
        "b_cursor B w1 h = b_cursor B w h + length ms"
      using sf ms(2) by blast
    have fo: "folding h lo hi out' w1" using fold_batch_turn [OF less.prems(1) q j ms(3)] by simp
    have hi: "hi \<in> fst ` set (b_log B w1)" using less.prems(2) prefix_set [OF pre] by auto
    define xs where "xs = take j (drop (b_cursor B w h) (b_log B w1))"
    have len: "length xs = length ms" using list_all2_lengthD [OF j(1)] by (simp add: xs_def)
    have below: "\<forall>x \<in> set xs. fst x \<le> hi"
      using fold_batch_spec [OF j(1) ms(3)] by (auto simp: xs_def)
    have cur: "b_cursor B w1 h - 1 < length (filter (\<lambda>x. fst x \<le> hi) (b_log B w1))"
    proof (rule below_count)
      show "sorted_wrt (<) (map fst (b_log B w1))" using b_seq_sorted [OF i1] by simp
      have pos: "length ms \<noteq> 0" "length xs = min (length (b_log B w1) - b_cursor B w h) j" using ms(1) by (simp_all add: xs_def)
      with len j(2) show "b_cursor B w1 h - 1 < length (b_log B w1)" by linarith
      have "length ms - 1 < j" "b_cursor B w1 h - 1 = b_cursor B w h + (length ms - 1)"
        "b_cursor B w h \<le> length (b_log B w1)"
        using pos len j(2) by linarith+
      then have "xs ! (length ms - 1) = b_log B w1 ! (b_cursor B w1 h - 1)" by (simp add: xs_def)
      moreover have "xs ! (length ms - 1) \<in> set xs" using pos(1) len by (intro nth_mem) linarith
      ultimately show "fst (b_log B w1 ! (b_cursor B w1 h - 1)) \<le> hi" using below by metis
    qed
    have "length ms \<noteq> 0" using ms(1) by simp
    with cur j(2) count_grows [OF i1 pre less.prems(2)]
    have "length (filter (\<lambda>x. fst x \<le> hi) (b_log B w1)) - b_cursor B w1 h <
        length (filter (\<lambda>x. fst x \<le> hi) (b_log B w)) - b_cursor B w h"
      by linarith
    from less.hyps [OF this fo hi] obtain y where "fold_poll J h hi out' w1 = Some y" by blast
    then show ?thesis
      using ms f by (subst fold_poll.simps) (cases ms; simp)
  qed
qed

lemma jsFoldRange_returns:
  assumes "b_inv B w" "lo = 0 \<or> lo \<in> fst ` set (b_log B w)" "hi \<in> fst ` set (b_log B w)"
  shows "\<exists>y. jsFoldRange J w lo hi = Some y"
proof (cases "hi \<le> lo")
  case True
  then show ?thesis by (simp add: jsFoldRange_def)
next
  case False
  obtain rh w1 where s: "js_subscribe J w (lo + 1) = (rh, w1)" by force
  show ?thesis
  proof (cases rh)
    case (Inl e)
    with False s show ?thesis by (simp add: jsFoldRange_def)
  next
    case (Inr h)
    have "folding h lo hi [] w1 \<and> hi \<in> fst ` set (b_log B w1)"
      using subscribe_folding [OF assms(1,2) s [unfolded Inr]] subscribe [OF assms(1) s] assms(3)
        prefix_set [of "b_log B w" "b_log B w1"] by (auto simp: b_quiet_def)
    with fold_poll_returns [of h lo hi "[]" w1] False s Inr show ?thesis by (auto simp: jsFoldRange_def)
  qed
qed

end

section \<open>The adapters meet the contract\<close>

lemma load_scan_in:
  assumes "load_scan J n ens = (snap, sq)" "\<And>en k. en \<in> set ens \<Longrightarrow> js_snap_dec J (en_value en) \<noteq> Some (k, None)"
  shows "sq \<le> n \<and> (case snap of None \<Rightarrow> sq = 0 | Some s \<Rightarrow>
    \<exists>en \<in> set ens. en_put en \<and> js_snap_dec J (en_value en) = Some (sq, Some s))"
  using assms
proof (induction ens)
  case (Cons en ens)
  have nn: "js_snap_dec J (en_value en) \<noteq> Some (k, None)" for k using Cons.prems(2) [of en k] by simp
  have IH: "load_scan J n ens = (snap, sq) \<Longrightarrow> ?case"
    using Cons.IH Cons.prems(2) by (auto split: option.splits)
  show ?case
    using Cons.prems(1) IH nn by (auto split: if_splits option.splits prod.splits)
qed simp

sublocale js_broker \<subseteq> projector_env "nats_ports J" "nats_view J B"
proof (unfold_locales, goal_cases)
  case (1 w grp t a i d pl r w')
  then have p: "js_publish J w grp (feed_subject t a i) pl (Some d) = (r, w')"
    by (simp add: nats_ports_def jsPublish_def)
  have i: "b_inv B w" using 1 by (simp add: nats_view_def)
  note law = publish [OF i p]
  have sub: "\<exists>m. feed_parts x = Some m" if "(d', x) \<in> b_feed B w'" for d' x
    using feed_subjects [of w' d' x] law that by (auto simp: feed_parts_def Let_def)
  have dom: "d \<in> fst ` feed_view B w'" if "d \<in> fst ` b_feed B w'"
    using that sub by (fastforce simp: feed_view_def image_iff)
  have old: "feed_view B w \<subseteq> feed_view B w'" using law by (auto simp: feed_view_def)
  have new: "feed_view B w' \<subseteq> insert (d, t, a, i, pl) (feed_view B w)"
  proof
    fix y assume "y \<in> feed_view B w'"
    then obtain d' x m where y: "y = (d', m)" "(d', x) \<in> b_feed B w'" "feed_parts x = Some m" by (auto simp: feed_view_def)
    show "y \<in> insert (d, t, a, i, pl) (feed_view B w)"
    proof (cases "(d', x) \<in> b_feed B w")
      case False
      with y(2) law have dx: "d' = d" "x = (feed_subject t a i, pl)" by blast+
      then have "on_feed_stream (feed_subject t a i)" using feed_subjects [of w' d' x] law y(2) by simp
      with y dx feed_parts_subject [of t a i pl] show ?thesis by simp
    next
      case True
      then have "\<exists>x. (d', x) \<in> b_feed B w \<and> feed_parts x = Some m" using y(3) by blast
      then show ?thesis by (simp add: feed_view_def y(1))
    qed
  qed
  have sv: "saved_view J B w' = saved_view J B w" using law by (simp add: saved_view_def)
  show ?case
    unfolding moves_def nats_view_def using law dom old new sv by (simp add: prefix_map)
next
  case (2 w t reason ev s r w')
  then have p: "js_publish J w False (dlq_subject t) (js_dlq_body J reason ev s) None = (r, w')"
    by (simp add: nats_ports_def jsDlq_def)
  have i: "b_inv B w" using 2 by (simp add: nats_view_def)
  note law = publish_dlq [OF i p]
  then have "feed_view B w' = feed_view B w" "saved_view J B w' = saved_view J B w"
    by (simp_all add: feed_view_def saved_view_def)
  with law show ?case unfolding moves_def nats_view_def by (auto simp: prefix_map)
next
  case (3 w r w')
  then show ?case using quiet_view [OF ctx_err] by (simp add: nats_ports_def nats_view_def)
next
  case (4 w grp dur r w')
  then show ?case using quiet_view [OF backoff] by (simp add: nats_ports_def nats_view_def)
next
  case (5 w k w')
  then show ?case using quiet_view [OF schedule] by (simp add: nats_ports_def nats_view_def)
next
  case (6 w)
  then show ?case using stream by (simp add: nats_view_def)
next
  case (7 w rd w')
  then have "delivered_spec w (rd, w')" using jsDeliver_spec by (simp add: nats_ports_def nats_view_def)
  then show ?case
    using passes_view [of B w w' J] by (auto simp: delivered_spec_def in_flight_def nats_view_def)
next
  case (8 w f r w')
  then obtain m where "js_nak J w m = (r, w')"
    by (auto simp: nats_ports_def nats_view_def in_flight_def handle_of_def ack_msg_def)
  then show ?case using 8 quiet_view [OF nak] by (simp add: nats_view_def)
next
  case (9 w f r w')
  then obtain m n where m: "js_ack J w m = (r, w')" "m_meta m = Inr (f_stream_seq f, n)"
    by (auto simp: nats_ports_def nats_view_def in_flight_def handle_of_def ack_msg_def)
  have i: "b_inv B w" and pos: "b_settled B w < length (b_log B w)"
    using 9 by (simp_all add: nats_view_def in_flight_def)
  have "core f = b_fact J (b_log B w ! b_settled B w)" using 9 pos by (simp add: nats_view_def in_flight_def)
  then have "f_stream_seq (core f) = fst (b_log B w ! b_settled B w)" by (simp add: b_fact_def)
  then have sq: "f_stream_seq f = fst (b_log B w ! b_settled B w)" by simp
  show ?case
    using ack [OF i m(1) pos m(2) [unfolded sq]]
  proof
    assume "b_quiet B w w' \<and> r \<noteq> None"
    then show ?thesis by (simp add: quiet_view)
  next
    assume a: "b_inv B w' \<and> prefix (b_log B w) (b_log B w') \<and> b_settled B w' = Suc (b_settled B w) \<and>
       b_feed B w' = b_feed B w \<and> b_dead B w' = b_dead B w \<and> b_kv B w' = b_kv B w"
    then show ?thesis by (simp add: nats_view_def feed_view_def saved_view_def prefix_map fun_eq_iff)
  qed
next
  case (10 w rf w')
  then have f: "js_floor J w = (rf, w')" and i: "b_inv B w" by (simp_all add: nats_ports_def nats_view_def)
  note law = floor [OF i f]
  show ?case
    using law quiet_view [OF conjunct1 [OF law], of J]
    by (auto simp: nats_view_def filter_map comp_def b_fact_def take_map image_image)
next
  case (11 w lo hi rr w')
  then have "fold_spec lo hi w (rr, w')"
    using jsFoldRange_spec [of w lo hi "(rr, w')"] by (simp add: nats_ports_def nats_view_def image_image b_fact_def)
  then show ?case using quiet_view [of B w w' J] by (auto simp: fold_spec_def nats_view_def)
next
  case (12 w n rl w')
  then have ld: "kvLoad J w n = (rl, w')" and i: "b_inv B w" by (simp_all add: nats_ports_def nats_view_def)
  obtain rk w1 where h: "js_history J w = (rk, w1)" by force
  note law = history [OF i h]
  have w': "w' = w1" using ld h by (auto simp: kvLoad_def split: sum.splits kv_err.splits)
  have q: "quiet (nats_view J B) w w'" unfolding w' by (rule quiet_view [OF conjunct1 [OF law]])
  have "sq \<le> n \<and> (case snap of None \<Rightarrow> sq = 0 | Some s \<Rightarrow> (sq, s) \<in> saved_view J B w')"
    if rl: "rl = Inr (snap, sq)" for snap sq
  proof (cases rk)
    case (Inl err)
    with ld h rl show ?thesis by (cases err) (auto simp: kvLoad_def)
  next
    case (Inr hist)
    then have "load_scan J n (rev hist) = (snap, sq)" using ld h rl by (simp add: kvLoad_def)
    moreover have "hist = b_kv B w1" using law Inr by simp
    moreover have "b_inv B w1" using law by (simp add: b_quiet_def)
    ultimately show ?thesis
      using load_scan_in [of J n "rev hist" snap sq] snapshots [of w1] w'
      by (auto simp: saved_view_def split: option.splits)
  qed
  moreover have sv: "ob_saved (nats_view J B) = saved_view J B" by (simp add: nats_view_def)
  ultimately show ?case using q unfolding sv by blast
next
  case (13 w sq s r w')
  then have p: "js_put J w (js_snap_enc J sq s) = (r, w')" and i: "b_inv B w"
    by (simp_all add: nats_ports_def nats_view_def kvSave_def)
  note law = put [OF i p]
  have kv: "set (b_kv B w') \<subseteq> insert \<lparr>en_put = True, en_value = js_snap_enc J sq s\<rparr> (set (b_kv B w))" using law by (elim conjE)
  have "saved_view J B w' \<subseteq> insert (sq, s) (saved_view J B w)"
  proof
    fix y assume "y \<in> saved_view J B w'"
    then obtain n x en where y: "y = (n, x)" "en \<in> set (b_kv B w')" "en_put en" "js_snap_dec J (en_value en) = Some (n, Some x)"
      by (auto simp: saved_view_def)
    show "y \<in> insert (sq, s) (saved_view J B w)"
    proof (cases "en \<in> set (b_kv B w)")
      case True
      with y show ?thesis by (auto simp: saved_view_def)
    next
      case False
      with kv y(2) have "en = \<lparr>en_put = True, en_value = js_snap_enc J sq s\<rparr>" by blast
      with y(1,4) snap_codec [of sq s] show ?thesis by simp
    qed
  qed
  with law show ?case by (simp add: nats_view_def feed_view_def prefix_map fun_eq_iff)
qed

end
