(* ===== verification/Projector_Sim.thy ===== *)
theory Projector_Sim
  imports Projector_Broker
begin

text \<open>
  An in-memory broker that behaves as \<open>js_broker\<close> asks, with scripts of publish failures, of lost answers to acknowledgements, of early
  timeouts of the read-only consumer and of cancelled contexts, so that the
  assumptions are seen to hold together and the theorems can be run: payloads are kept as values, the stream
  is a list, and the read-only consumer is one position in it. A fact that was handed out five times is skipped, and only the
  ids of the last messages are remembered.
\<close>

datatype sim_payload = P_event event | P_control feed_control | P_dlq string string int

record sim =
  s_log :: "(stream_seq \<times> string \<times> event option) list"
  s_settled :: nat
  s_count :: nat
  s_feed :: "(string \<times> (string \<times> sim_payload)) list"
  s_dead :: "(string \<times> sim_payload) list"
  s_kv :: "(stream_seq \<times> snapshot option) kv_entry list"
  s_pos :: nat
  s_window :: nat
  s_faults :: "bool list"
  s_acks :: "bool list"
  s_slow :: "bool list"
  s_ctx :: "bool list"

definition sim_msg :: "nat \<Rightarrow> stream_seq \<times> string \<times> event option \<Rightarrow> event option nmsg" where
  "sim_msg n x = \<lparr>m_subject = fst (snd x), m_data = snd (snd x), m_meta = Inr (fst x, n), m_traceparent = ''''\<rparr>"

definition sim_skip :: "sim \<Rightarrow> sim" where
  "sim_skip w =
     (if s_settled w < length (s_log w) \<and> 5 \<le> s_count w then w\<lparr>s_settled := Suc (s_settled w), s_count := 0\<rparr> else w)"

definition sim_fetch :: "sim \<Rightarrow> (fetch_err + event option nmsg list) \<times> sim" where
  "sim_fetch w0 =
     (let w = sim_skip w0
      in if s_settled w < length (s_log w)
         then (Inr [sim_msg (Suc (s_count w)) (s_log w ! s_settled w)], w\<lparr>s_count := Suc (s_count w)\<rparr>)
         else (Inl ErrTimeout, w))"

definition sim_ack :: "sim \<Rightarrow> event option nmsg \<Rightarrow> string option \<times> sim" where
  "sim_ack w m =
     (case m_meta m of
        Inl e \<Rightarrow> (Some e, w)
      | Inr (sq, n) \<Rightarrow>
          if s_settled w < length (s_log w) \<and> fst (s_log w ! s_settled w) = sq
          then (if s_acks w \<noteq> [] \<and> hd (s_acks w) then Some ''no response'' else None,
                w\<lparr>s_settled := Suc (s_settled w), s_count := 0, s_acks := tl (s_acks w)\<rparr>)
          else (Some ''not in flight'', w))"

definition sim_nak :: "sim \<Rightarrow> event option nmsg \<Rightarrow> string option \<times> sim" where
  "sim_nak w m = (None, w)"

definition sim_floor :: "sim \<Rightarrow> (string + stream_seq) \<times> sim" where
  "sim_floor w = (Inr (if s_settled w = 0 then 0 else fst (s_log w ! (s_settled w - 1))), w)"

definition sim_subscribe :: "sim \<Rightarrow> stream_seq \<Rightarrow> (string + nat) \<times> sim" where
  "sim_subscribe w n = (Inr 0, w\<lparr>s_pos := length (filter (\<lambda>x. fst x < n) (s_log w))\<rparr>)"

definition sim_sub_fetch :: "sim \<Rightarrow> nat \<Rightarrow> nat \<Rightarrow> (fetch_err + event option nmsg list) \<times> sim" where
  "sim_sub_fetch w h k =
     (let ms = map (sim_msg 1) (take (Suc (k - 1)) (drop (s_pos w) (s_log w))); w1 = w\<lparr>s_slow := tl (s_slow w)\<rparr>
      in if ms = [] \<or> s_slow w \<noteq> [] \<and> hd (s_slow w) then (Inl ErrTimeout, w1) else (Inr ms, w1\<lparr>s_pos := s_pos w + length ms\<rparr>))"

text \<open>A message without an id goes to the dead letters; the others are deduplicated by the ids remembered and stored on a feed subject only.\<close>

definition sim_publish :: "sim \<Rightarrow> bool \<Rightarrow> string \<Rightarrow> sim_payload \<Rightarrow> string option \<Rightarrow> string option \<times> sim" where
  "sim_publish w grp subj pl mid =
     (let w1 = w\<lparr>s_faults := tl (s_faults w)\<rparr>
      in if s_faults w \<noteq> [] \<and> hd (s_faults w) then (Some ''no response'', w1)
         else (case mid of
                 None \<Rightarrow> (None, w1\<lparr>s_dead := (subj, pl) # s_dead w\<rparr>)
               | Some d \<Rightarrow>
                   if map_of (take (s_window w) (s_feed w)) d \<noteq> None then (None, w1)
                   else if on_feed_stream subj then (None, w1\<lparr>s_feed := (d, (subj, pl)) # s_feed w\<rparr>)
                   else (Some ''no stream'', w1)))"

definition sim_history :: "sim \<Rightarrow> (kv_err + (stream_seq \<times> snapshot option) kv_entry list) \<times> sim" where
  "sim_history w = (if s_kv w = [] then (Inl ErrKeyNotFound, w) else (Inr (s_kv w), w))"

definition sim_put :: "sim \<Rightarrow> stream_seq \<times> snapshot option \<Rightarrow> string option \<times> sim" where
  "sim_put w v =
     (None, w\<lparr>s_kv := drop (length (s_kv w) - 7) (s_kv w) @ [\<lparr>en_put = True, en_value = v\<rparr>]\<rparr>)"

definition sim_ctx_err :: "sim \<Rightarrow> string option \<times> sim" where
  "sim_ctx_err w =
     (if s_ctx w \<noteq> [] \<and> hd (s_ctx w) then Some ''context canceled'' else None, w\<lparr>s_ctx := tl (s_ctx w)\<rparr>)"

definition sim_js :: "(sim, event option, sim_payload, stream_seq \<times> snapshot option) js_ports" where
  "sim_js =
     \<lparr>js_fetch = sim_fetch, js_ack = sim_ack, js_nak = sim_nak, js_floor = sim_floor, js_subscribe = sim_subscribe,
      js_sub_fetch = sim_sub_fetch, js_publish = sim_publish, js_history = sim_history, js_put = sim_put,
      js_ctx_err = sim_ctx_err, js_backoff = (\<lambda>w grp d. (None, w)), js_schedule = (\<lambda>w. (length (s_feed w), w)),
      js_unmarshal = (\<lambda>d. d), js_marshal = (\<lambda>e. Inr (P_event e)), js_marshal_control = (\<lambda>c. Inr (P_control c)),
      js_dlq_body = P_dlq, js_snap_enc = (\<lambda>sq s. (sq, Some s)), js_snap_dec = Some\<rparr>"

definition sim_inv :: "sim \<Rightarrow> bool" where
  "sim_inv w \<longleftrightarrow>
     stream_ok (map (b_fact sim_js) (s_log w)) \<and> s_settled w \<le> length (s_log w) \<and>
     list_all (\<lambda>x. on_feed_stream (fst (snd x))) (s_feed w) \<and>
     (\<forall>en \<in> set (s_kv w). snd (en_value en) \<noteq> None)"

definition sim_obs :: "(sim, event option, sim_payload, stream_seq \<times> snapshot option) broker_obs" where
  "sim_obs =
     \<lparr>b_inv = sim_inv, b_log = s_log, b_settled = s_settled, b_feed = (\<lambda>w. set (s_feed w)),
      b_dead = (\<lambda>w. set (s_dead w)), b_kv = s_kv, b_cursor = (\<lambda>w h. s_pos w)\<rparr>"

lemma sim_msg_is: "msg_is (sim_msg n x) x"
  by (simp add: msg_is_def sim_msg_def)

lemma list_all2_sim: "list_all2 msg_is (map (sim_msg n) xs) xs"
  by (simp add: list_all2_map1 list.rel_refl sim_msg_is)

lemmas sim_defs = sim_js_def sim_obs_def sim_fetch_def sim_ack_def sim_nak_def sim_floor_def sim_subscribe_def
  sim_sub_fetch_def sim_publish_def sim_history_def sim_put_def sim_ctx_err_def

lemma sim_floor_take:
  assumes "sim_inv w"
  shows "filter (\<lambda>x. fst x \<le> (if s_settled w = 0 then 0 else fst (s_log w ! (s_settled w - 1)))) (s_log w) =
    take (s_settled w) (s_log w)"
proof -
  have ok: "sorted_wrt (<) (map fst (s_log w))" "\<forall>x \<in> set (s_log w). 0 < fst x" "s_settled w \<le> length (s_log w)"
    using assms by (simp_all add: sim_inv_def stream_ok_def comp_def b_fact_def)
  show ?thesis
  proof (cases "s_settled w")
    case 0
    with ok(2) show ?thesis by (auto simp: filter_empty_conv)
  next
    case (Suc n)
    with ok(3) filter_take [OF ok(1), of n] show ?thesis by simp
  qed
qed

interpretation sim: js_broker sim_js sim_obs
proof (unfold_locales, goal_cases)
  case (1 w)
  then show ?case by (simp add: sim_obs_def sim_inv_def)
next
  case (2 w d x)
  then show ?case by (auto simp: sim_obs_def sim_inv_def list_all_iff)
next
  case (3 w en sq)
  then show ?case by (auto simp: sim_obs_def sim_inv_def sim_js_def)
next
  case (4 sq s)
  then show ?case by (simp add: sim_js_def)
next
  case (5 w rf w')
  then show ?case
    by (auto simp: sim_js_def sim_obs_def sim_fetch_def sim_skip_def sim_inv_def b_passes_def sim_msg_is Let_def split: if_splits)
next
  case (6 w m r w')
  then show ?case by (simp add: sim_js_def sim_obs_def sim_nak_def b_quiet_def)
next
  case (7 w m r w' n)
  then show ?case by (auto simp: sim_js_def sim_obs_def sim_ack_def sim_inv_def)
next
  case (8 w rs w')
  then show ?case
    using sim_floor_take [of w] by (auto simp: sim_js_def sim_obs_def sim_floor_def b_quiet_def sim_inv_def)
next
  case (9 w n rh w')
  then show ?case by (auto simp: sim_js_def sim_obs_def sim_subscribe_def b_quiet_def sim_inv_def)
next
  case (10 w h k rf w')
  then show ?case
    by (auto simp: sim_js_def sim_obs_def sim_sub_fetch_def b_quiet_def sim_inv_def Let_def
        intro!: exI [of _ "Suc (k - Suc 0)"] list_all2_sim split: if_splits)
next
  case (11 w grp subj pl d r w')
  have "map_of (take (s_window w) (s_feed w)) d = Some x \<Longrightarrow> d \<in> fst ` set (s_feed w)" for x
    using set_take_subset [of "s_window w" "s_feed w"] by (force dest!: map_of_SomeD)
  with 11 show ?case by (auto simp: sim_js_def sim_obs_def sim_publish_def sim_inv_def Let_def split: if_splits)
next
  case (12 w grp subj pl r w')
  then show ?case by (auto simp: sim_js_def sim_obs_def sim_publish_def sim_inv_def Let_def split: if_splits)
next
  case (13 w rk w')
  then show ?case by (auto simp: sim_js_def sim_obs_def sim_history_def b_quiet_def sim_inv_def split: if_splits)
next
  case (14 w sq s r w')
  have "set (drop (length (s_kv w) - 7) (s_kv w)) \<subseteq> set (s_kv w)" by (rule set_drop_subset)
  with 14 show ?case by (fastforce simp: sim_js_def sim_obs_def sim_put_def sim_inv_def)
next
  case (15 w r w')
  then show ?case by (auto simp: sim_js_def sim_obs_def sim_ctx_err_def b_quiet_def sim_inv_def)
next
  case (16 w grp dur r w')
  then show ?case by (simp add: sim_js_def sim_obs_def b_quiet_def)
next
  case (17 w k w')
  then show ?case by (simp add: sim_js_def sim_obs_def b_quiet_def)
qed

end
