(* ===== verification/Projector_Demo.thy ===== *)
theory Projector_Demo
  imports Projector_Sim
begin

text \<open>
  A run of the projector over the in-memory broker: agent \<open>a\<close> joins, a message is sent, \<open>b\<close> joins, \<open>a\<close> leaves and another
  message is sent; the second publish fails once, the answer to the third acknowledgement is lost, and ids are remembered for three
  messages. After four turns a standby takes over.
\<close>

definition pd_event :: "string \<Rightarrow> string \<Rightarrow> int \<Rightarrow> event" where
  "pd_event ty a n = zero_event\<lparr>ev_tenant := ''t'', ev_type := ty, ev_actor := a, ev_seq := n\<rparr>"

definition pd_log :: "(stream_seq \<times> string \<times> event option) list" where
  "pd_log = map (\<lambda>(sq, e). (sq, logSubjectFor ''t'' ''i'', e))
     [(1, Some (pd_event T_started ''a'' 1)), (2, Some (pd_event T_joined ''a'' 2)),
      (3, Some (pd_event ''message.sent'' ''a'' 3)), (5, Some (pd_event T_joined ''b'' 4)),
      (6, Some (pd_event T_left ''a'' 5)), (8, Some (pd_event ''message.sent'' ''b'' 6))]"

definition pd_start :: sim where
  "pd_start = \<lparr>s_log = pd_log, s_settled = 0, s_count = 0, s_feed = [], s_dead = [], s_kv = [], s_pos = 0,
     s_window = 3, s_faults = [False, True], s_acks = [False, False, True], s_slow = [], s_ctx = []\<rparr>"

definition pd_conf :: pconfig where
  "pd_conf = withDefaults \<lparr>MaxDeliver = 0, SnapshotEvery = 2, PublishRetry = 0, RetryBackoff = 0, LeaseRenew = 0,
     LeaseTTL = 0, HealthAddr = '''', FanoutConcurrency = 0\<rparr>"

text \<open>Turns without a skipped fact.\<close>

definition sim_no_skip :: "sim \<Rightarrow> bool" where
  "sim_no_skip w \<longleftrightarrow> (case jsDeliver sim_js w of None \<Rightarrow> True | Some (rd, w1) \<Rightarrow> s_settled w1 = s_settled w)"

fun turns :: "nat \<Rightarrow> projector \<times> sim \<Rightarrow> (projector \<times> sim) option" where
  "turns 0 s = Some s"
| "turns (Suc n) s =
     (if sim_no_skip (snd s)
      then (case run_turn (nats_ports sim_js) pd_conf (fst s) (snd s) of
              None \<Rightarrow> None
            | Some (out, s') \<Rightarrow> turns n s')
      else None)"

lemma sim_no_skip: "sim_no_skip w \<Longrightarrow> no_skip (nats_ports sim_js) (nats_view sim_js sim_obs) w"
  by (auto simp: sim_no_skip_def no_skip_def nats_ports_def nats_view_def sim_obs_def)

definition pd_after :: "nat \<Rightarrow> projector \<times> sim" where
  "pd_after n = the (turns n (NewProjector, pd_start))"

definition pd_takeover :: "projector \<times> sim" where
  "pd_takeover = snd (the (Hydrate (nats_ports sim_js) NewProjector (snd (pd_after 4))))"

lemma pd_stream: "stream_ok (map (b_fact sim_js) pd_log)"
proof -
  have ev: "events_of (map (b_fact sim_js) pd_log) t i =
      (if t = ''t'' \<and> i = ''i'' then [pd_event T_started ''a'' 1, pd_event T_joined ''a'' 2,
         pd_event ''message.sent'' ''a'' 3, pd_event T_joined ''b'' 4, pd_event T_left ''a'' 5,
         pd_event ''message.sent'' ''b'' 6] else [])" for t i
  proof -
    have "iidFromLogSubject (logSubjectFor ''t'' ''i'') = ''i''" by code_simp
    then show ?thesis by (auto simp: events_of_def pd_log_def b_fact_def sim_js_def pd_event_def)
  qed
  show ?thesis
    unfolding stream_ok_def ev
    by (simp add: pd_log_def b_fact_def sim_js_def seq_increasing_def pd_event_def keyed_def no_slash_def)
qed

lemma pd_fresh: "fresh (nats_view sim_js sim_obs) pd_start"
  using pd_stream
  by (simp add: fresh_def nats_view_def sim_obs_def sim_inv_def pd_start_def saved_view_def feed_view_def)

lemma turns_reach:
  assumes "turns n s = Some s'" "proj_reach (nats_ports sim_js) pd_conf (nats_view sim_js sim_obs) (fst s) (snd s)"
  shows "proj_reach (nats_ports sim_js) pd_conf (nats_view sim_js sim_obs) (fst s') (snd s')"
  using assms
proof (induction n arbitrary: s)
  case (Suc n)
  then obtain out p w where t: "run_turn (nats_ports sim_js) pd_conf (fst s) (snd s) = Some (out, p, w)" "turns n (p, w) = Some s'"
    and k: "sim_no_skip (snd s)"
    by (auto split: option.splits if_splits)
  with Suc.IH [of "(p, w)"] proj_reach.turn [OF Suc.prems(2) sim_no_skip [OF k] t(1)] show ?case by simp
qed simp

lemma pd_runs: "turns 4 (NewProjector, pd_start) \<noteq> None" "turns 6 (NewProjector, pd_start) \<noteq> None"
  by code_simp+

lemma pd_reach:
  "proj_reach (nats_ports sim_js) pd_conf (nats_view sim_js sim_obs) (fst (pd_after 4)) (snd (pd_after 4))"
  "proj_reach (nats_ports sim_js) pd_conf (nats_view sim_js sim_obs) (fst (pd_after 6)) (snd (pd_after 6))"
  using turns_reach [of 4 "(NewProjector, pd_start)"] turns_reach [of 6 "(NewProjector, pd_start)"]
    proj_reach.start [OF pd_fresh] pd_runs by (auto simp: pd_after_def)

lemma pd_hydrates:
  "Hydrate (nats_ports sim_js) NewProjector (snd (pd_after 4)) = Some (None, pd_takeover)"
proof -
  have "(case Hydrate (nats_ports sim_js) NewProjector (snd (pd_after 4)) of Some (None, x) \<Rightarrow> True | _ \<Rightarrow> False)"
    by code_simp
  then show ?thesis by (auto simp: pd_takeover_def split: option.splits prod.splits)
qed

end
