(* ===== verification/Projector_Leader.thy ===== *)
theory Projector_Leader
  imports RP_Prelude
begin

text \<open>
  The leader lease of \<open>internal/projector/nats.go\<close> (\<open>NewLeaseStore\<close>, \<open>kvLease\<close>) over a key-value bucket. The bucket is not part of the sources:
  its operations are the fields of \<open>kv_ports\<close>, and the locale \<open>kv_bucket\<close> states what the lease
  relies on (creation only when the key is absent, update only at the current revision, revisions never
  reused; an operation may also fail after it took effect). The key expires at any moment.
\<close>

record 'k kv_ports =
  kv_create :: "'k \<Rightarrow> string \<Rightarrow> (string + nat) \<times> 'k"
  kv_get :: "'k \<Rightarrow> (string + string \<times> nat) \<times> 'k"
  kv_update :: "'k \<Rightarrow> string \<Rightarrow> nat \<Rightarrow> (string + nat) \<times> 'k"
  kv_delete :: "'k \<Rightarrow> string option \<times> 'k"
  kv_ctx_err :: "'k \<Rightarrow> string option \<times> 'k"
  kv_wait :: "'k \<Rightarrow> string option \<times> 'k"

text \<open>Opening the bucket: look it up, else create it; a bucket whose TTL differs is refused.\<close>

record 'k bucket_ports =
  bk_open :: "'k \<Rightarrow> string option \<times> 'k"
  bk_make :: "'k \<Rightarrow> duration \<Rightarrow> string option \<times> 'k"
  bk_status :: "'k \<Rightarrow> (string + duration) \<times> 'k"

record kv_lease =
  lk_holder :: string
  lk_rev :: nat

definition NewLeaseStore :: "'k bucket_ports \<Rightarrow> string \<Rightarrow> duration \<Rightarrow> 'k \<Rightarrow> (string + kv_lease) \<times> 'k" where
  "NewLeaseStore Q holder ttl0 k =
     (let ttl = (if ttl0 \<le> 0 then 5 * 1000000000 else ttl0);
          (r, k1) = (case bk_open Q k of (None, k') \<Rightarrow> (None, k') | (Some _, k') \<Rightarrow> bk_make Q k' ttl)
      in case r of
           Some e \<Rightarrow> (Inl e, k1)
         | None \<Rightarrow> (case bk_status Q k1 of
               (Inl e, k2) \<Rightarrow> (Inl e, k2)
             | (Inr t, k2) \<Rightarrow>
                 if t \<noteq> ttl then (Inl ''projector: lease bucket TTL mismatch'', k2)
                 else (Inr \<lparr>lk_holder = holder, lk_rev = 0\<rparr>, k2)))"

partial_function (option) kvAcquire :: "'k kv_ports \<Rightarrow> kv_lease \<Rightarrow> 'k \<Rightarrow> (string option \<times> kv_lease \<times> 'k) option" where
  "kvAcquire K l k =
     (case kv_ctx_err K k of
        (Some e, k1) \<Rightarrow> Some (Some e, l, k1)
      | (None, k1) \<Rightarrow>
          (case kv_create K k1 (lk_holder l) of
             (Inr rv, k2) \<Rightarrow> Some (None, l\<lparr>lk_rev := rv\<rparr>, k2)
           | (Inl e, k2) \<Rightarrow>
               (case kv_get K k2 of
                  (Inr en, k3) \<Rightarrow>
                    if fst en = lk_holder l then Some (None, l\<lparr>lk_rev := snd en\<rparr>, k3)
                    else (case kv_wait K k3 of (Some e, k4) \<Rightarrow> Some (Some e, l, k4) | (None, k4) \<Rightarrow> kvAcquire K l k4)
                | (Inl e', k3) \<Rightarrow>
                    (case kv_wait K k3 of (Some e, k4) \<Rightarrow> Some (Some e, l, k4) | (None, k4) \<Rightarrow> kvAcquire K l k4))))"

declare kvAcquire.simps [code]

definition kvRenew :: "'k kv_ports \<Rightarrow> kv_lease \<Rightarrow> 'k \<Rightarrow> string option \<times> kv_lease \<times> 'k" where
  "kvRenew K l k =
     (case kv_update K k (lk_holder l) (lk_rev l) of
        (Inl e, k1) \<Rightarrow> (Some e, l, k1)
      | (Inr rv, k1) \<Rightarrow> (None, l\<lparr>lk_rev := rv\<rparr>, k1))"

definition kvRelease :: "'k kv_ports \<Rightarrow> kv_lease \<Rightarrow> 'k \<Rightarrow> string option \<times> 'k" where
  "kvRelease K l k =
     (case kv_get K k of
        (Inl e, k1) \<Rightarrow> (None, k1)
      | (Inr en, k1) \<Rightarrow> if fst en \<noteq> lk_holder l then (None, k1) else kv_delete K k1)"

section \<open>One request at a time\<close>

text \<open>
  Where a client stands in its call, between two requests to the bucket: in \<open>Acquire\<close> before the test of the context, \<open>Create\<close>,
  \<open>Get\<close> and the wait; in \<open>Renew\<close> before \<open>Update\<close>; in \<open>Release\<close> before \<open>Get\<close> and before \<open>Delete\<close>. \<open>P_idle\<close> keeps the result of
  the last call. \<open>lease_turn\<close> makes the next request; other clients run between two turns.
\<close>

datatype lease_pc = P_idle "string option" | P_check | P_create | P_get | P_wait | P_renew | P_look | P_delete

definition is_idle :: "lease_pc \<Rightarrow> bool" where
  "is_idle pc \<longleftrightarrow> (case pc of P_idle _ \<Rightarrow> True | _ \<Rightarrow> False)"

definition acquire_turn_create :: "'k kv_ports \<Rightarrow> kv_lease \<Rightarrow> 'k \<Rightarrow> lease_pc \<times> kv_lease \<times> 'k" where
  "acquire_turn_create K l k =
     (case kv_create K k (lk_holder l) of
        (Inr rv, k') \<Rightarrow> (P_idle None, l\<lparr>lk_rev := rv\<rparr>, k')
      | (Inl e, k') \<Rightarrow> (P_get, l, k'))"

definition acquire_turn_get :: "'k kv_ports \<Rightarrow> kv_lease \<Rightarrow> 'k \<Rightarrow> lease_pc \<times> kv_lease \<times> 'k" where
  "acquire_turn_get K l k =
     (case kv_get K k of
        (Inr en, k') \<Rightarrow> if fst en = lk_holder l then (P_idle None, l\<lparr>lk_rev := snd en\<rparr>, k') else (P_wait, l, k')
      | (Inl e, k') \<Rightarrow> (P_wait, l, k'))"

definition release_turn_get :: "'k kv_ports \<Rightarrow> kv_lease \<Rightarrow> 'k \<Rightarrow> lease_pc \<times> kv_lease \<times> 'k" where
  "release_turn_get K l k =
     (case kv_get K k of
        (Inl e, k') \<Rightarrow> (P_idle None, l, k')
      | (Inr en, k') \<Rightarrow> if fst en \<noteq> lk_holder l then (P_idle None, l, k') else (P_delete, l, k'))"

definition lease_turn :: "'k kv_ports \<Rightarrow> lease_pc \<Rightarrow> kv_lease \<Rightarrow> 'k \<Rightarrow> lease_pc \<times> kv_lease \<times> 'k" where
  "lease_turn K pc l k =
     (case pc of
        P_idle r \<Rightarrow> (pc, l, k)
      | P_check \<Rightarrow> (case kv_ctx_err K k of (Some e, k') \<Rightarrow> (P_idle (Some e), l, k') | (None, k') \<Rightarrow> (P_create, l, k'))
      | P_create \<Rightarrow> acquire_turn_create K l k
      | P_get \<Rightarrow> acquire_turn_get K l k
      | P_wait \<Rightarrow> (case kv_wait K k of (Some e, k') \<Rightarrow> (P_idle (Some e), l, k') | (None, k') \<Rightarrow> (P_check, l, k'))
      | P_renew \<Rightarrow> (case kvRenew K l k of (r, l', k') \<Rightarrow> (P_idle r, l', k'))
      | P_look \<Rightarrow> release_turn_get K l k
      | P_delete \<Rightarrow> (case kv_delete K k of (r, k') \<Rightarrow> (P_idle r, l, k')))"

text \<open>A call that nobody interrupts is the sequence of its turns.\<close>

inductive turns :: "'k kv_ports \<Rightarrow> lease_pc \<times> kv_lease \<times> 'k \<Rightarrow> lease_pc \<times> kv_lease \<times> 'k \<Rightarrow> bool" for K where
  here: "turns K y y"
| turn: "\<not> is_idle pc \<Longrightarrow> turns K (lease_turn K pc l k) y \<Longrightarrow> turns K (pc, l, k) y"

lemma release_by_turns:
  assumes "kvRelease K l k = (r, k')"
  shows "turns K (P_look, l, k) (P_idle r, l, k')"
proof -
  obtain g k1 where g: "kv_get K k = (g, k1)" by force
  obtain d k2 where d: "kv_delete K k1 = (d, k2)" by force
  show ?thesis
  proof (cases "\<exists>en. g = Inr en \<and> fst en = lk_holder l")
    case True
    with assms g d have "r = d" "k' = k2" by (auto simp: kvRelease_def)
    moreover have "turns K (lease_turn K P_delete l k1) (P_idle d, l, k2)" by (simp add: lease_turn_def d turns.here)
    then have "turns K (P_delete, l, k1) (P_idle d, l, k2)" by (rule turns.turn [rotated]) (simp add: is_idle_def)
    then have "turns K (lease_turn K P_look l k) (P_idle d, l, k2)" using True g by (auto simp: lease_turn_def release_turn_get_def)
    then have "turns K (P_look, l, k) (P_idle d, l, k2)" by (rule turns.turn [rotated]) (simp add: is_idle_def)
    ultimately show ?thesis by simp
  next
    case False
    with assms g have "lease_turn K P_look l k = (P_idle r, l, k')"
      by (cases g) (auto simp: kvRelease_def lease_turn_def release_turn_get_def)
    then have "turns K (lease_turn K P_look l k) (P_idle r, l, k')" by (simp add: turns.here)
    then show ?thesis by (rule turns.turn [rotated]) (simp add: is_idle_def)
  qed
qed

lemma acquire_round_by_turns:
  assumes again: "\<And>k4. aq K l k4 = Some (r, l', k') \<Longrightarrow> turns K (P_check, l, k4) (P_idle r, l', k')"
    and run: "(case kv_ctx_err K k of
        (Some e, k1) \<Rightarrow> Some (Some e, l, k1)
      | (None, k1) \<Rightarrow>
          (case kv_create K k1 (lk_holder l) of
             (Inr rv, k2) \<Rightarrow> Some (None, l\<lparr>lk_rev := rv\<rparr>, k2)
           | (Inl e, k2) \<Rightarrow>
               (case kv_get K k2 of
                  (Inr en, k3) \<Rightarrow>
                    if fst en = lk_holder l then Some (None, l\<lparr>lk_rev := snd en\<rparr>, k3)
                    else (case kv_wait K k3 of (Some e, k4) \<Rightarrow> Some (Some e, l, k4) | (None, k4) \<Rightarrow> aq K l k4)
                | (Inl e', k3) \<Rightarrow>
                    (case kv_wait K k3 of (Some e, k4) \<Rightarrow> Some (Some e, l, k4) | (None, k4) \<Rightarrow> aq K l k4)))) = Some (r, l', k')"
  shows "turns K (P_check, l, k) (P_idle r, l', k')"
proof -
  obtain e1 k1 where c: "kv_ctx_err K k = (e1, k1)" by force
  obtain rc k2 where cr: "kv_create K k1 (lk_holder l) = (rc, k2)" by force
  obtain rg k3 where g: "kv_get K k2 = (rg, k3)" by force
  obtain rw k4 where w: "kv_wait K k3 = (rw, k4)" by force
  note t = turns.turn [of _ K _ _ "(P_idle r, l', k')", rotated]
  have wait: "turns K (P_wait, l, k3) (P_idle r, l', k')"
    if "(case rw of Some e \<Rightarrow> Some (Some e, l, k4) | None \<Rightarrow> aq K l k4) = Some (r, l', k')"
    using that again by (intro t) (auto simp: is_idle_def lease_turn_def w turns.here split: option.splits)
  have get: "turns K (P_get, l, k2) (P_idle r, l', k')" if "e1 = None" "rc = Inl x" for x
    using run that c cr g w wait
    by (intro t) (auto simp: is_idle_def lease_turn_def acquire_turn_get_def turns.here split: sum.splits if_splits)
  have create: "turns K (P_create, l, k1) (P_idle r, l', k')" if "e1 = None"
    using run that c cr get by (intro t) (auto simp: is_idle_def lease_turn_def acquire_turn_create_def turns.here split: sum.splits)
  show ?thesis
    using run c create by (intro t) (auto simp: is_idle_def lease_turn_def turns.here split: option.splits)
qed

lemma acquire_by_turns:
  assumes "kvAcquire K l k = Some (r, l', k')"
  shows "turns K (P_check, l, k) (P_idle r, l', k')"
proof -
  have "turns K (P_check, l, k) (P_idle (fst (r, l', k')), fst (snd (r, l', k')), snd (snd (r, l', k')))"
  proof (rule kvAcquire.raw_induct [where P = "\<lambda>K l k y. turns K (P_check, l, k) (P_idle (fst y), fst (snd y), snd (snd y))", OF _ assms], goal_cases)
    case (1 aq K l k y)
    show ?case
      by (rule acquire_round_by_turns [where aq = aq and K = K]) (use 1 in \<open>auto\<close>)
  qed
  then show ?thesis by simp
qed

section \<open>The bucket's contract\<close>

text \<open>The current entry with its revision, and the last revision given out. Between two operations the
  entry may expire.\<close>

record 'k kv_obs =
  ko_cur :: "'k \<Rightarrow> (string \<times> nat) option"
  ko_last :: "'k \<Rightarrow> nat"

definition kv_sane :: "'k kv_obs \<Rightarrow> 'k \<Rightarrow> bool" where
  "kv_sane C k \<longleftrightarrow> (\<forall>v r. ko_cur C k = Some (v, r) \<longrightarrow> 0 < r \<and> r \<le> ko_last C k)"

text \<open>The entry stays or expires.\<close>

definition kv_idle :: "'k kv_obs \<Rightarrow> 'k \<Rightarrow> 'k \<Rightarrow> bool" where
  "kv_idle C k k' \<longleftrightarrow> kv_sane C k' \<and> ko_last C k' = ko_last C k \<and> (ko_cur C k' = ko_cur C k \<or> ko_cur C k' = None)"

definition kv_writes :: "'k kv_obs \<Rightarrow> string \<Rightarrow> 'k \<Rightarrow> 'k \<Rightarrow> nat \<Rightarrow> bool" where
  "kv_writes C v k k' r \<longleftrightarrow> kv_sane C k' \<and> ko_last C k < r \<and> ko_last C k' = r \<and> ko_cur C k' = Some (v, r)"

locale kv_bucket =
  fixes K :: "'k kv_ports" and C :: "'k kv_obs"
  assumes create: "kv_sane C k \<Longrightarrow> kv_create K k v = (rc, k') \<Longrightarrow>
      (\<exists>r. kv_writes C v k k' r \<and> ko_cur C k = None \<and> (\<forall>n. rc = Inr n \<longrightarrow> n = r)) \<or> kv_idle C k k' \<and> (\<exists>e. rc = Inl e)"
    and update: "kv_sane C k \<Longrightarrow> kv_update K k v rv = (rc, k') \<Longrightarrow>
      (\<exists>r. kv_writes C v k k' r \<and> (\<exists>u. ko_cur C k = Some (u, rv)) \<and> (\<forall>n. rc = Inr n \<longrightarrow> n = r)) \<or>
      kv_idle C k k' \<and> (\<exists>e. rc = Inl e)"
    and get: "kv_sane C k \<Longrightarrow> kv_get K k = (rg, k') \<Longrightarrow>
      kv_idle C k k' \<and> (\<forall>en. rg = Inr en \<longrightarrow> ko_cur C k' = Some en)"
    and delete: "kv_sane C k \<Longrightarrow> kv_delete K k = (rd, k') \<Longrightarrow> kv_idle C k k'"
    and ctx_err: "kv_sane C k \<Longrightarrow> kv_ctx_err K k = (rd, k') \<Longrightarrow> kv_idle C k k'"
    and wait: "kv_sane C k \<Longrightarrow> kv_wait K k = (rd, k') \<Longrightarrow> kv_idle C k k'"

section \<open>Many lease clients\<close>

text \<open>
  Each client runs one call at a time, a request per step, and all clients interleave. A client may be restarted in the
  middle of a call and then has forgotten its revision. \<open>outside\<close> is what happens to the bucket without a client's turn: the
  entry expires, or somebody writes it at a fresh revision, among them a request that arrives after its caller gave up.
\<close>

type_synonym lease_client = "kv_lease \<times> lease_pc"

definition kv_moves :: "'k kv_obs \<Rightarrow> 'k \<Rightarrow> 'k \<Rightarrow> bool" where
  "kv_moves C k k' \<longleftrightarrow> kv_idle C k k' \<or> (\<exists>v r. kv_writes C v k k' r)"

inductive lease_step :: "'k kv_ports \<Rightarrow> 'k kv_obs \<Rightarrow> (nat \<Rightarrow> lease_client) \<times> 'k \<Rightarrow> (nat \<Rightarrow> lease_client) \<times> 'k \<Rightarrow> bool"
  for K C where
  call: "is_idle (snd (cs i)) \<Longrightarrow> pc \<in> {P_check, P_renew, P_look} \<Longrightarrow> lease_step K C (cs, k) (cs(i := (fst (cs i), pc)), k)"
| request: "\<not> is_idle (snd (cs i)) \<Longrightarrow> lease_turn K (snd (cs i)) (fst (cs i)) k = (pc, l', k') \<Longrightarrow>
    lease_step K C (cs, k) (cs(i := (l', pc)), k')"
| restart: "lease_step K C (cs, k) (cs(i := ((fst (cs i))\<lparr>lk_rev := 0\<rparr>, P_idle None)), k)"
| outside: "kv_moves C k k' \<Longrightarrow> lease_step K C (cs, k) (cs, k')"

text \<open>A client holds the lease when the current entry carries the revision it remembers.\<close>

definition holds :: "'k kv_obs \<Rightarrow> kv_lease \<Rightarrow> 'k \<Rightarrow> bool" where
  "holds C l k \<longleftrightarrow> (\<exists>v. ko_cur C k = Some (v, lk_rev l))"

definition lease_inv :: "'k kv_obs \<Rightarrow> kv_lease \<Rightarrow> 'k \<Rightarrow> bool" where
  "lease_inv C l k \<longleftrightarrow> lk_rev l \<le> ko_last C k \<and> (\<forall>v. ko_cur C k = Some (v, lk_rev l) \<longrightarrow> v = lk_holder l)"

definition leases_ok :: "'k kv_obs \<Rightarrow> (nat \<Rightarrow> lease_client) \<times> 'k \<Rightarrow> bool" where
  "leases_ok C s \<longleftrightarrow> kv_sane C (snd s) \<and> (\<forall>i. lease_inv C (fst (fst s i)) (snd s))"

lemma lease_inv_idle: "kv_idle C k k' \<Longrightarrow> lease_inv C l k \<Longrightarrow> lease_inv C l k'"
  by (auto simp: kv_idle_def lease_inv_def)

lemma lease_inv_writes: "kv_writes C v k k' r \<Longrightarrow> lease_inv C l k \<Longrightarrow> lease_inv C l k'"
  by (auto simp: kv_writes_def lease_inv_def)

lemma lease_inv_set: "kv_writes C (lk_holder l) k k' r \<Longrightarrow> lease_inv C (l\<lparr>lk_rev := r\<rparr>) k'"
  by (auto simp: kv_writes_def lease_inv_def)

lemma kv_idle_sane: "kv_idle C k k' \<Longrightarrow> kv_sane C k'"
  by (simp add: kv_idle_def)

text \<open>The effect of a client's call: its own invariant, and every other client's.\<close>

definition lease_call :: "'k kv_obs \<Rightarrow> kv_lease \<Rightarrow> 'k \<Rightarrow> kv_lease \<Rightarrow> 'k \<Rightarrow> bool" where
  "lease_call C l k l' k' \<longleftrightarrow> kv_sane C k' \<and> lk_holder l' = lk_holder l \<and> lease_inv C l' k' \<and>
     (\<forall>m. lease_inv C m k \<longrightarrow> lease_inv C m k')"

lemma lease_call_idle: "kv_idle C k k' \<Longrightarrow> lease_inv C l k \<Longrightarrow> lease_call C l k l k'"
  using lease_inv_idle [of C k k'] by (simp add: lease_call_def kv_idle_sane)

lemma lease_call_writes: "kv_writes C v k k' r \<Longrightarrow> lease_inv C l k \<Longrightarrow> lease_call C l k l k'"
  using lease_inv_writes [of C v k k' r] by (simp add: lease_call_def kv_writes_def)

lemma lease_call_trans: "lease_call C l k l' k' \<Longrightarrow> lease_call C l' k' l'' k'' \<Longrightarrow> lease_call C l k l'' k''"
  by (simp add: lease_call_def)

context kv_bucket
begin

lemma kvRenew_call:
  assumes "kvRenew K l k = (r, l', k')" "kv_sane C k" "lease_inv C l k"
  shows "lease_call C l k l' k' \<and> (r = None \<longrightarrow> holds C l k \<and> holds C l' k')"
proof -
  obtain rc k1 where u: "kv_update K k (lk_holder l) (lk_rev l) = (rc, k1)" by force
  from update [OF assms(2) u] show ?thesis
  proof
    assume "\<exists>n. kv_writes C (lk_holder l) k k1 n \<and> (\<exists>u. ko_cur C k = Some (u, lk_rev l)) \<and> (\<forall>m. rc = Inr m \<longrightarrow> m = n)"
    then obtain n where n: "kv_writes C (lk_holder l) k k1 n" "\<exists>u. ko_cur C k = Some (u, lk_rev l)" "\<forall>m. rc = Inr m \<longrightarrow> m = n"
      by blast
    have s: "kv_sane C k1" "holds C (l\<lparr>lk_rev := n\<rparr>) k1" using n(1) by (auto simp: kv_writes_def holds_def)
    show ?thesis
      using assms(1,3) u n s lease_inv_writes [OF n(1)] lease_inv_set [OF n(1)]
      by (cases rc) (auto simp: kvRenew_def lease_call_def holds_def)
  next
    assume "kv_idle C k k1 \<and> (\<exists>e. rc = Inl e)"
    with assms u show ?thesis by (auto simp: kvRenew_def intro: lease_call_idle)
  qed
qed

lemma turn_create:
  assumes "acquire_turn_create K l k = (pc, l', k')" "kv_sane C k" "lease_inv C l k"
  shows "lease_call C l k l' k' \<and> (is_idle pc \<longrightarrow> holds C l' k')"
proof -
  obtain rc k1 where cr: "kv_create K k (lk_holder l) = (rc, k1)" by force
  show ?thesis
  proof (cases rc)
    case (Inr n)
    with create [OF assms(2) cr] have w: "kv_writes C (lk_holder l) k k1 n" by auto
    have "lease_call C l k (l\<lparr>lk_rev := n\<rparr>) k1 \<and> holds C (l\<lparr>lk_rev := n\<rparr>) k1"
      using w lease_inv_set [OF w] lease_inv_writes [OF w] by (auto simp: lease_call_def holds_def kv_writes_def)
    with assms(1) Inr cr show ?thesis by (auto simp: acquire_turn_create_def)
  next
    case (Inl e)
    have "lease_call C l k l k1"
      using create [OF assms(2) cr] by (elim disjE exE conjE) (auto intro: lease_call_idle lease_call_writes assms(3))
    with assms(1) Inl cr show ?thesis by (auto simp: acquire_turn_create_def is_idle_def)
  qed
qed

lemma turn_get:
  assumes "acquire_turn_get K l k = (pc, l', k')" "kv_sane C k" "lease_inv C l k"
  shows "lease_call C l k l' k' \<and> (is_idle pc \<longrightarrow> holds C l' k')"
proof -
  obtain rg k1 where g: "kv_get K k = (rg, k1)" by force
  note gl = get [OF assms(2) g]
  have c1: "lease_call C l k l k1" by (rule lease_call_idle [OF conjunct1 [OF gl] assms(3)])
  show ?thesis
  proof (cases "\<exists>en. rg = Inr en \<and> fst en = lk_holder l")
    case True
    then obtain n where n: "rg = Inr (lk_holder l, n)" by (metis prod.collapse)
    with gl have cur: "ko_cur C k1 = Some (lk_holder l, n)" by simp
    moreover have "kv_sane C k1" using c1 by (simp add: lease_call_def)
    ultimately have "lease_call C l k1 (l\<lparr>lk_rev := n\<rparr>) k1 \<and> holds C (l\<lparr>lk_rev := n\<rparr>) k1"
      by (auto simp: lease_call_def lease_inv_def holds_def kv_sane_def)
    with assms(1) g n lease_call_trans [OF c1] show ?thesis by (auto simp: acquire_turn_get_def)
  next
    case False
    with assms(1) g c1 show ?thesis by (cases rg) (auto simp: acquire_turn_get_def is_idle_def)
  qed
qed

lemma turn_look:
  assumes "release_turn_get K l k = (pc, l', k')" "kv_sane C k" "lease_inv C l k"
  shows "lease_call C l k l' k'"
proof -
  obtain rg k1 where g: "kv_get K k = (rg, k1)" by force
  have "l' = l \<and> k' = k1" using assms(1) g by (cases rg) (auto simp: release_turn_get_def split: if_splits)
  then show ?thesis using lease_call_idle [OF conjunct1 [OF get [OF assms(2) g]] assms(3)] by simp
qed

lemma lease_turn_call:
  assumes "lease_turn K pc l k = (pc', l', k')" "kv_sane C k" "lease_inv C l k"
  shows "lease_call C l k l' k' \<and> (pc \<in> {P_create, P_get, P_renew} \<and> pc' = P_idle None \<longrightarrow> holds C l' k') \<and>
    (pc = P_renew \<and> pc' = P_idle None \<longrightarrow> holds C l k)"
proof (cases pc)
  case (P_idle r)
  then show ?thesis using assms by (auto simp: lease_turn_def lease_call_def)
next
  case P_check
  obtain e k1 where c: "kv_ctx_err K k = (e, k1)" by force
  have "l' = l \<and> k' = k1" using assms(1) P_check c by (cases e) (auto simp: lease_turn_def)
  then show ?thesis using lease_call_idle [OF ctx_err [OF assms(2) c] assms(3)] P_check by simp
next
  case P_create
  then show ?thesis using turn_create [of l k pc' l' k'] assms by (auto simp: lease_turn_def is_idle_def)
next
  case P_get
  then show ?thesis using turn_get [of l k pc' l' k'] assms by (auto simp: lease_turn_def is_idle_def)
next
  case P_wait
  obtain e k1 where c: "kv_wait K k = (e, k1)" by force
  have "l' = l \<and> k' = k1" using assms(1) P_wait c by (cases e) (auto simp: lease_turn_def)
  then show ?thesis using lease_call_idle [OF wait [OF assms(2) c] assms(3)] P_wait by simp
next
  case P_renew
  obtain r m k1 where n: "kvRenew K l k = (r, m, k1)" by (metis prod.collapse)
  then have "pc' = P_idle r \<and> l' = m \<and> k' = k1" using assms(1) P_renew by (auto simp: lease_turn_def)
  then show ?thesis using kvRenew_call [OF n assms(2,3)] P_renew by simp
next
  case P_look
  then show ?thesis using turn_look [of l k pc' l' k'] assms by (simp add: lease_turn_def)
next
  case P_delete
  obtain e k1 where c: "kv_delete K k = (e, k1)" by force
  have "l' = l \<and> k' = k1" using assms(1) P_delete c by (auto simp: lease_turn_def)
  then show ?thesis using lease_call_idle [OF delete [OF assms(2) c] assms(3)] P_delete by simp
qed

lemma leases_ok_step:
  assumes "lease_step K C s s'" "leases_ok C s"
  shows "leases_ok C s' \<and> (\<forall>i. lk_holder (fst (fst s' i)) = lk_holder (fst (fst s i)))"
  using assms(1)
proof cases
  case (call cs i pc k)
  with assms(2) show ?thesis by (auto simp: leases_ok_def)
next
  case (request cs i k pc l' k')
  with assms(2) have "lease_call C (fst (cs i)) k l' k'" using lease_turn_call [OF request(4)] by (simp add: leases_ok_def)
  with assms(2) request(1,2) show ?thesis by (auto simp: leases_ok_def lease_call_def)
next
  case (restart cs k i)
  have "lease_inv C (l\<lparr>lk_rev := 0\<rparr>) k" if "kv_sane C k" for l
    using that by (auto simp: lease_inv_def kv_sane_def)
  with assms(2) restart show ?thesis by (auto simp: leases_ok_def)
next
  case (outside k k' cs)
  have "kv_sane C k' \<and> (\<forall>l. lease_inv C l k \<longrightarrow> lease_inv C l k')"
    using outside(3) lease_inv_idle lease_inv_writes unfolding kv_moves_def by (metis kv_idle_sane kv_writes_def)
  with assms(2) outside show ?thesis by (auto simp: leases_ok_def)
qed

lemma leases_ok_steps:
  assumes "(lease_step K C)\<^sup>*\<^sup>* s s'" "leases_ok C s"
  shows "leases_ok C s' \<and> (\<forall>i. lk_holder (fst (fst s' i)) = lk_holder (fst (fst s i)))"
  using assms by (induction rule: rtranclp_induct) (use leases_ok_step in \<open>fastforce+\<close>)

end

section \<open>An in-memory bucket\<close>

record mem_kv =
  mk_cur :: "(string \<times> nat) option"
  mk_last :: nat

definition mem_ports :: "mem_kv kv_ports" where
  "mem_ports =
     \<lparr>kv_create = (\<lambda>k v. case mk_cur k of
          None \<Rightarrow> (Inr (Suc (mk_last k)), k\<lparr>mk_cur := Some (v, Suc (mk_last k)), mk_last := Suc (mk_last k)\<rparr>)
        | Some _ \<Rightarrow> (Inl ''key exists'', k)),
      kv_get = (\<lambda>k. case mk_cur k of None \<Rightarrow> (Inl ''key not found'', k) | Some en \<Rightarrow> (Inr en, k)),
      kv_update = (\<lambda>k v rv. if \<exists>en \<in> set_option (mk_cur k). snd en = rv
          then (Inr (Suc (mk_last k)), k\<lparr>mk_cur := Some (v, Suc (mk_last k)), mk_last := Suc (mk_last k)\<rparr>)
          else (Inl ''wrong last sequence'', k)),
      kv_delete = (\<lambda>k. (None, k\<lparr>mk_cur := None\<rparr>)),
      kv_ctx_err = (\<lambda>k. (None, k)), kv_wait = (\<lambda>k. (None, k\<lparr>mk_cur := None\<rparr>))\<rparr>"

definition mem_obs :: "mem_kv kv_obs" where
  "mem_obs = \<lparr>ko_cur = mk_cur, ko_last = mk_last\<rparr>"

interpretation mem: kv_bucket mem_ports mem_obs
  by unfold_locales
    (auto simp: mem_ports_def mem_obs_def kv_sane_def kv_writes_def kv_idle_def split: option.splits if_splits)

end
