(* ===== verification/Projector_Claims.thy ===== *)
theory Projector_Claims
  imports Projector_Demo Projector_Leader
begin

text \<open>
  The properties of the projector: what reaches a feed, what a settled fact guarantees, the state a
  takeover starts from, the fence and the lease. The broker is a parameter with the laws of
  \<open>js_broker\<close>, the bucket one with the laws of \<open>kv_bucket\<close>.
\<close>

section \<open>Feeds\<close>







section \<open>Names of feed messages\<close>

lemma feed_dedup_join: "feed_dedup t a i s = join_with [dot] [t, a, i, go_itoa s]"
  by (simp add: feed_dedup_def)

lemma revoked_dedup_join: "revoked_dedup t a i s = join_with [dot] [t, a, i, go_itoa s, ''revoked'']"
  by (simp add: revoked_dedup_def feed_dedup_def)

text \<open>
  The dedup ids that make delivery effectively-once do not collide: for subject tokens, two facts get the same id only
  for the same tenant, agent, interaction and sequence number, and a fact never shares its id with a revocation marker.
\<close>

theorem feed_ids_unique:
  assumes "\<forall>x \<in> {t, a, i, t', a', i'}. no_dot x"
  shows "(feed_dedup t a i s = feed_dedup t' a' i' s' \<longleftrightarrow> t = t' \<and> a = a' \<and> i = i' \<and> s = s') \<and>
    (revoked_dedup t a i s = revoked_dedup t' a' i' s' \<longleftrightarrow> t = t' \<and> a = a' \<and> i = i' \<and> s = s') \<and>
    feed_dedup t a i s \<noteq> revoked_dedup t' a' i' s'"
proof -
  have nd: "no_dot ''revoked''" by (simp add: no_dot_def)
  have "feed_dedup t a i s = feed_dedup t' a' i' s' \<longleftrightarrow> [t, a, i, go_itoa s] = [t', a', i', go_itoa s']"
    unfolding feed_dedup_join by (rule join_dots_inject) (use assms in simp_all)
  moreover have "revoked_dedup t a i s = revoked_dedup t' a' i' s' \<longleftrightarrow>
      [t, a, i, go_itoa s, ''revoked''] = [t', a', i', go_itoa s', ''revoked'']"
    unfolding revoked_dedup_join by (rule join_dots_inject) (use assms nd in simp_all)
  moreover have "feed_dedup t a i s = revoked_dedup t' a' i' s' \<longleftrightarrow>
      [t, a, i, go_itoa s] = [t', a', i', go_itoa s', ''revoked'']"
    unfolding feed_dedup_join revoked_dedup_join by (rule join_dots_inject) (use assms nd in simp_all)
  ultimately show ?thesis by simp
qed

theorem feed_ids_unique_witness: "feed_dedup ''t'' ''a'' ''i'' 12 \<noteq> feed_dedup ''t'' ''a'' ''i'' 1"
  using feed_ids_unique [of "''t''" "''a''" "''i''" "''t''" "''a''" "''i''" 12 1] by (simp add: no_dot_def)

section \<open>Witnesses of the feed properties\<close>












end
