(* ===== verification/Projector_Run_Claims.thy ===== *)
theory Projector_Run_Claims
  imports Projector_Demo Projector_Leader "HOL-Library.Multiset"
begin

text \<open>
  The properties of the projector that concern its control: progress when nothing fails, the
  read-only fold ends, snapshots restore what was saved, the fence between the lease loop and
  the data loop, the renewal budget, and the exclusive lease.
\<close>

section \<open>Progress\<close>

text \<open>Nothing fails: publishing and acknowledging succeed, everything encodes, and no context is cancelled.\<close>

definition smooth :: "('w, 'm, 'b) proj_ports \<Rightarrow> bool" where
  "smooth P \<longleftrightarrow> (\<forall>w grp t a i d pl. fst (pp_publish P w grp t a i d pl) = None) \<and>
     (\<forall>w f. fst (pp_ack P w f) = None) \<and> (\<forall>w. fst (pp_ctx_err P w) = None) \<and>
     (\<forall>e. \<exists>pl. pp_marshal P e = Inr pl) \<and> (\<forall>c. \<exists>pl. pp_marshal_control P c = Inr pl)"

text \<open>The same ports with a record of the calls that change the outside world, in their order.\<close>

datatype ('m, 'b) call =
    C_publish string string string string 'b
  | C_ack "'m fact"
  | C_nak "'m fact"
  | C_dlq string string string int
  | C_save stream_seq snapshot

definition noting :: "('x \<times> 'w) \<Rightarrow> ('m, 'b) call list \<Rightarrow> ('m, 'b) call \<Rightarrow> 'x \<times> ('w \<times> ('m, 'b) call list)" where
  "noting y tr x = (fst y, (snd y, tr @ [x]))"

definition passing :: "('x \<times> 'w) \<Rightarrow> ('m, 'b) call list \<Rightarrow> 'x \<times> ('w \<times> ('m, 'b) call list)" where
  "passing y tr = (fst y, (snd y, tr))"

definition traced :: "('w, 'm, 'b) proj_ports \<Rightarrow> ('w \<times> ('m, 'b) call list, 'm, 'b) proj_ports" where
  "traced P =
     \<lparr>pp_deliver = (\<lambda>w. map_option (\<lambda>y. passing y (snd w)) (pp_deliver P (fst w))),
      pp_ack = (\<lambda>w f. noting (pp_ack P (fst w) f) (snd w) (C_ack f)),
      pp_nak = (\<lambda>w f. noting (pp_nak P (fst w) f) (snd w) (C_nak f)),
      pp_delivered = (\<lambda>w. pp_delivered P (fst w)),
      pp_ack_floor = (\<lambda>w. passing (pp_ack_floor P (fst w)) (snd w)),
      pp_fold_range = (\<lambda>w lo hi. map_option (\<lambda>y. passing y (snd w)) (pp_fold_range P (fst w) lo hi)),
      pp_publish = (\<lambda>w grp t a i d pl. noting (pp_publish P (fst w) grp t a i d pl) (snd w) (C_publish t a i d pl)),
      pp_dlq = (\<lambda>w t r e s. noting (pp_dlq P (fst w) t r e s) (snd w) (C_dlq t r e s)),
      pp_load = (\<lambda>w n. passing (pp_load P (fst w) n) (snd w)),
      pp_save = (\<lambda>w n s. noting (pp_save P (fst w) n s) (snd w) (C_save n s)),
      pp_ctx_err = (\<lambda>w. passing (pp_ctx_err P (fst w)) (snd w)),
      pp_backoff = (\<lambda>w grp d. passing (pp_backoff P (fst w) grp d) (snd w)),
      pp_schedule = (\<lambda>w. passing (pp_schedule P (fst w)) (snd w)),
      pp_marshal = pp_marshal P, pp_marshal_control = pp_marshal_control P\<rparr>"

lemma smooth_attempt:
  assumes "smooth P"
  shows "\<exists>w'. publish_attempt (traced P) c grp 0 t a i d pl (w, tr) = (Published, (w', tr @ [C_publish t a i d pl]))"
proof -
  obtain w' where "pp_publish P w grp t a i d pl = (None, w')" using assms unfolding smooth_def by (metis prod.collapse)
  then show ?thesis by (simp add: publish_attempt_def traced_def noting_def)
qed

definition unstarted :: "worker \<Rightarrow> bool" where
  "unstarted wk \<longleftrightarrow> wk = Finished \<or> (\<exists>k. wk = Running (Suc k) 0 None)"

text \<open>The messages of the publishers that have not finished, in the order of the recipients.\<close>

definition due :: "event \<Rightarrow> string \<Rightarrow> 'b \<Rightarrow> string list \<Rightarrow> worker list \<Rightarrow> ('m, 'b) call list" where
  "due e iid pl recs ws =
     map (\<lambda>j. C_publish (ev_tenant e) (recs ! j) iid (feed_dedup (ev_tenant e) (recs ! j) iid (ev_seq e)) pl)
       (filter (\<lambda>j. ws ! j \<noteq> Finished) [0..<length ws])"

lemma mset_remove_one:
  assumes "distinct xs" "j \<in> set xs"
  shows "mset (map g (filter Q xs)) = (if Q j then {#g j#} else {#}) + mset (map g (filter (\<lambda>i. i \<noteq> j \<and> Q i) xs))"
  using assms
proof (induction xs)
  case (Cons x xs)
  show ?case
  proof (cases "x = j")
    case True
    with Cons.prems have "filter (\<lambda>i. i \<noteq> j \<and> Q i) xs = filter Q xs" by (intro filter_cong) auto
    with True show ?thesis by simp
  next
    case False
    with Cons show ?thesis by simp
  qed
qed simp

lemma due_finish:
  assumes "j < length ws" "ws ! j \<noteq> Finished"
  shows "mset (due e iid pl recs ws) =
    add_mset (C_publish (ev_tenant e) (recs ! j) iid (feed_dedup (ev_tenant e) (recs ! j) iid (ev_seq e)) pl) (mset (due e iid pl recs (ws[j := Finished])))"
proof -
  have "filter (\<lambda>i. ws[j := Finished] ! i \<noteq> Finished) [0..<length ws] = filter (\<lambda>i. i \<noteq> j \<and> ws ! i \<noteq> Finished) [0..<length ws]"
    by (rule filter_cong) (simp_all add: nth_list_update assms(1))
  then show ?thesis
    using mset_remove_one [of "[0..<length ws]" j _ "\<lambda>i. ws ! i \<noteq> Finished"] assms by (simp add: due_def)
qed

lemma smooth_fan_loop:
  fixes P :: "('w, 'm, 'b) proj_ports"
  assumes "smooth P" "list_all unstarted ws" "FanoutConcurrency c \<noteq> 0"
  shows "\<exists>w' pubs. fan_loop (traced P) c e iid recs pl ws None (w, tr) = Some (None, (w', tr @ pubs)) \<and> mset pubs = mset (due e iid pl recs ws)"
  using assms(2)
proof (induction "sum_list (map worker_left ws)" arbitrary: ws w tr rule: less_induct)
  case less
  let ?R = "runnable (FanoutConcurrency c) ws"
  show ?case
  proof (cases "list_all (\<lambda>wk. wk = Finished) ws")
    case True
    then have "due e iid pl recs ws = []" by (auto simp: due_def list_all_length filter_empty_conv)
    with True show ?thesis by (simp add: fan_loop.simps)
  next
    case nf: False
    then have ne: "?R \<noteq> []" using runnable_empty [of "FanoutConcurrency c" ws] assms(3) by (auto simp: list_all_length)
    obtain k w1 where k: "pp_schedule P w = (k, w1)" by force
    define j where "j = ?R ! (k mod length ?R)"
    have j: "j < length ws" "ws ! j \<noteq> Finished"
      using runnable_props runnable_nth [OF ne] by (auto simp: j_def)
    with less.prems obtain n where n: "ws ! j = Running (Suc n) 0 None"
      by (auto simp: list_all_length unstarted_def)
    define x :: "('m, 'b) call" where "x = C_publish (ev_tenant e) (recs ! j) iid (feed_dedup (ev_tenant e) (recs ! j) iid (ev_seq e)) pl"
    obtain w2 where w2: "publish_attempt (traced P) c False 0 (ev_tenant e) (recs ! j) iid
        (feed_dedup (ev_tenant e) (recs ! j) iid (ev_seq e)) pl (w1, tr) = (Published, (w2, tr @ [x]))"
      using smooth_attempt [OF assms(1)] unfolding x_def by blast
    have st: "worker_step (traced P) c e iid pl False (recs ! j) (ws ! j) (w1, tr) = (Finished, None, (w2, tr @ [x]))"
      by (simp add: worker_step_def n w2)
    have "sum_list (map worker_left (ws[j := Finished])) < sum_list (map worker_left ws)"
      using j n by (intro sum_list_update_less) simp_all
    moreover have "list_all unstarted (ws[j := Finished])"
      using less.prems by (auto simp: list_all_iff unstarted_def dest!: set_update_subset_insert [THEN subsetD])
    ultimately obtain w' pubs where w': "fan_loop (traced P) c e iid recs pl (ws[j := Finished]) None (w2, tr @ [x]) = Some (None, (w', (tr @ [x]) @ pubs))"
        "mset pubs = mset (due e iid pl recs (ws[j := Finished]))"
      using less.hyps by blast
    have "pp_schedule (traced P) (w, tr) = (k, (w1, tr))" by (simp add: traced_def passing_def k)
    then have "fan_loop (traced P) c e iid recs pl ws None (w, tr) = fan_loop (traced P) c e iid recs pl (ws[j := Finished]) None (w2, tr @ [x])"
      using nf ne st by (subst fan_loop.simps) (simp add: j_def Let_def)
    moreover have "mset (x # pubs) = mset (due e iid pl recs ws)"
      unfolding due_finish [OF j, of e iid pl recs] mset.simps(2) w'(2) x_def by (rule refl)
    ultimately show ?thesis using w'(1)
      by (intro exI [of _ w'] exI [of _ "x # pubs"]) simp
  qed
qed

lemma smooth_fanout:
  fixes P :: "('w, 'm, 'b) proj_ports"
  assumes "smooth P" "0 < PublishRetry c" "FanoutConcurrency c \<noteq> 0"
  shows "\<exists>w' pubs. fanout (traced P) c e iid recs pl (w, tr) = Some (None, (w', tr @ pubs)) \<and>
    mset pubs = mset (map (\<lambda>a. C_publish (ev_tenant e) a iid (feed_dedup (ev_tenant e) a iid (ev_seq e)) pl) recs)"
proof (cases "recs = []")
  case False
  define ws where "ws = map (\<lambda>_. Running (nat (PublishRetry c)) 0 None) recs"
  obtain k where "nat (PublishRetry c) = Suc k" using assms(2) by (cases "nat (PublishRetry c)") auto
  then have u: "list_all unstarted ws" by (simp add: list_all_length unstarted_def ws_def)
  have "filter (\<lambda>j. ws ! j \<noteq> Finished) [0..<length ws] = [0..<length recs]" by (simp add: ws_def filter_id_conv)
  then have "(due e iid pl recs ws :: ('m, 'b) call list) = map (\<lambda>j. C_publish (ev_tenant e) (recs ! j) iid (feed_dedup (ev_tenant e) (recs ! j) iid (ev_seq e)) pl) [0..<length recs]"
    by (simp add: due_def)
  also have "\<dots> = map (\<lambda>a. C_publish (ev_tenant e) a iid (feed_dedup (ev_tenant e) a iid (ev_seq e)) pl) recs"
    by (rule nth_equalityI) simp_all
  finally have "mset (due e iid pl recs ws :: ('m, 'b) call list) = mset (map (\<lambda>a. C_publish (ev_tenant e) a iid (feed_dedup (ev_tenant e) a iid (ev_seq e)) pl) recs)"
    by (rule arg_cong)
  with smooth_fan_loop [OF assms(1) u assms(3), of e iid recs pl w tr] False show ?thesis
    unfolding fanout_def ws_def by (simp only: if_False)
qed (simp add: fanout_def)

lemma smooth_tombstone:
  assumes "smooth P" "0 < PublishRetry c" "pp_marshal_control P (revoked_control i s) = Inr pl"
  shows "\<exists>w'. tombstone (traced P) c t a i s (w, tr) = (None, (w', tr @ [C_publish t a i (revoked_dedup t a i s) pl]))"
proof -
  obtain k where k: "nat (PublishRetry c) = Suc k" using assms(2) by (cases "nat (PublishRetry c)") auto
  obtain w' where "publish_attempt (traced P) c False 0 t a i (revoked_dedup t a i s) pl (w, tr) =
      (Published, (w', tr @ [C_publish t a i (revoked_dedup t a i s) pl]))"
    using smooth_attempt [OF assms(1)] by blast
  moreover have "pp_marshal_control (traced P) = pp_marshal_control P" by (simp add: traced_def)
  ultimately show ?thesis using assms(3) k by (simp add: tombstone_def publishWithRetry_def)
qed

lemma smooth_settle:
  assumes "smooth P"
  shows "\<exists>p' w' saves. settle (traced P) c f p (w, tr) = (None, p', (w', tr @ C_ack f # saves)) \<and> pj_last_ack_seq p' = f_stream_seq f \<and>
    saves \<in> {[], [C_save (f_stream_seq f) (state_snapshot (pj_st p))]}"
proof -
  obtain w1 where 1: "pp_ctx_err P w = (None, w1)" using assms unfolding smooth_def by (metis prod.collapse)
  obtain w2 where 2: "pp_ack P w1 f = (None, w2)" using assms unfolding smooth_def by (metis prod.collapse)
  let ?p = "p\<lparr>pj_last_ack_seq := f_stream_seq f\<rparr>" and ?tr = "tr @ [C_ack f]"
  obtain p' y where 3: "maybeSnapshot (traced P) c (f_stream_seq f) ?p (w2, ?tr) = (p', y)" by (rule prod.exhaust)
  obtain r w3 where 4: "pp_save P w2 (f_stream_seq f) (state_snapshot (pj_st p)) = (r, w3)" by force
  have "settle (traced P) c f p (w, tr) = (None, p', y)"
    using 1 2 3 by (simp add: settle_def traced_def passing_def noting_def)
  moreover have "pj_last_ack_seq p' = f_stream_seq f \<and> (y = (w2, ?tr) \<or> y = (w3, ?tr @ [C_save (f_stream_seq f) (state_snapshot (pj_st p))]))"
    using 3 4 by (auto simp: maybeSnapshot_def Let_def traced_def noting_def split: if_splits option.splits)
  ultimately show ?thesis by auto
qed

text \<open>
  \<^bold>\<open>C24.\<close> Progress: when publishing and acknowledging succeed, everything encodes and the lease is not fenced, processing a well-formed fact
  returns without error, for any number of recipients, any schedule of the concurrent publishers and any limit on them other
  than 0, which makes \<open>errgroup\<close> wait forever. It does exactly this: one message to each recipient, in the order of the
  schedule, then the revocation marker if the fact records a leaving, then the acknowledgement, then at most one snapshot.
\<close>

theorem process_completes:
  fixes P :: "('w, 'm, 'b) proj_ports"
  assumes "smooth P" "0 < PublishRetry c" "FanoutConcurrency c \<noteq> 0" "f_event f = Some e" "\<not> malformed f"
    and "st = state_apply (pj_st p) (fact_key e f) e" "recs = coveredBy (fst (state_view st (fact_key e f))) (ev_seq e)"
    and "pp_marshal P e = Inr pl" "pp_marshal_control P (revoked_control (f_iid f) (ev_seq e)) = Inr ctl"
  shows "\<exists>p' w' pubs marker saves. process (traced P) c f p (w, tr) = Some (None, p', (w', tr @ pubs @ marker @ C_ack f # saves)) \<and>
    pj_last_ack_seq p' = f_stream_seq f \<and>
    mset pubs = mset (map (\<lambda>a. C_publish (ev_tenant e) a (f_iid f) (feed_dedup (ev_tenant e) a (f_iid f) (ev_seq e)) pl) recs) \<and>
    marker = (if ev_type e = T_left
      then [C_publish (ev_tenant e) (ev_actor e) (f_iid f) (revoked_dedup (ev_tenant e) (ev_actor e) (f_iid f) (ev_seq e)) ctl] else []) \<and>
    saves \<in> {[], [C_save (f_stream_seq f) (state_snapshot st)]}"
proof -
  have e: "ev_tenant e \<noteq> ''''" "ev_type e \<noteq> ''''" "f_iid f \<noteq> ''''" using assms(4,5) by (simp_all add: malformed_def)
  define p1 where "p1 = p\<lparr>pj_st := st\<rparr>"
  obtain w1 pubs where fo: "fanout (traced P) c e (f_iid f) recs pl (w, tr) = Some (None, (w1, tr @ pubs))"
    and m: "mset pubs = mset (map (\<lambda>a. C_publish (ev_tenant e) a (f_iid f) (feed_dedup (ev_tenant e) a (f_iid f) (ev_seq e)) pl) recs)"
    using smooth_fanout [OF assms(1-3)] by blast
  have "pp_marshal (traced P) e = Inr pl" using assms(8) by (simp add: traced_def)
  then have pr: "process (traced P) c f p (w, tr) = Some (revoke_and_settle (traced P) c f e p1 (w1, tr @ pubs))"
    using e fo assms(4) by (simp add: process_def interactionOf_def Let_def p1_def assms(6,7))
  define marker :: "('m, 'b) call list" where "marker = (if ev_type e = T_left
      then [C_publish (ev_tenant e) (ev_actor e) (f_iid f) (revoked_dedup (ev_tenant e) (ev_actor e) (f_iid f) (ev_seq e)) ctl] else [])"
  obtain w2 where w2: "revoke_and_settle (traced P) c f e p1 (w1, tr @ pubs) = settle (traced P) c f p1 (w2, (tr @ pubs) @ marker)"
    using smooth_tombstone [OF assms(1,2,9), of "ev_tenant e" "ev_actor e" w1 "tr @ pubs"]
    by (cases "ev_type e = T_left") (auto simp: revoke_and_settle_def interactionOf_def marker_def)
  obtain p' w' saves where "settle (traced P) c f p1 (w2, (tr @ pubs) @ marker) = (None, p', (w', ((tr @ pubs) @ marker) @ C_ack f # saves))"
      "pj_last_ack_seq p' = f_stream_seq f" "saves \<in> {[], [C_save (f_stream_seq f) (state_snapshot (pj_st p1))]}"
    using smooth_settle [OF assms(1)] by blast
  with pr w2 m show ?thesis
    by (intro exI [of _ p'] exI [of _ w'] exI [of _ pubs] exI [of _ marker] exI [of _ saves]) (simp add: marker_def p1_def)
qed

definition calm_ports :: "(unit, unit, unit) proj_ports" where
  "calm_ports =
     \<lparr>pp_deliver = (\<lambda>w. None), pp_ack = (\<lambda>w f. (None, w)), pp_nak = (\<lambda>w f. (None, w)), pp_delivered = (\<lambda>w f. 1),
      pp_ack_floor = (\<lambda>w. (Inr 0, w)), pp_fold_range = (\<lambda>w lo hi. None), pp_publish = (\<lambda>w grp t a i d pl. (None, w)),
      pp_dlq = (\<lambda>w t r e s. (None, w)), pp_load = (\<lambda>w n. (Inr (None, 0), w)), pp_save = (\<lambda>w n s. (None, w)),
      pp_ctx_err = (\<lambda>w. (None, w)), pp_backoff = (\<lambda>w grp d. (None, w)), pp_schedule = (\<lambda>w. (7, w)),
      pp_marshal = (\<lambda>e. Inr ()), pp_marshal_control = (\<lambda>c. Inr ())\<rparr>"

theorem process_completes_witness:
  "\<exists>p' w' tr saves. process (traced calm_ports) pd_conf (NewFact (pd_event T_joined ''a'' 2) ''i'' 9) NewProjector ((), []) = Some (None, p', (w', tr)) \<and>
     tr = [C_publish ''t'' ''a'' ''i'' ''t.a.i.2'' (), C_ack (NewFact (pd_event T_joined ''a'' 2) ''i'' 9)] @ saves"
proof -
  define f where "f = NewFact (pd_event T_joined ''a'' 2) ''i'' 9"
  define e where "e = pd_event T_joined ''a'' 2"
  have s: "smooth calm_ports" by (simp add: smooth_def calm_ports_def)
  have c: "0 < PublishRetry pd_conf" "FanoutConcurrency pd_conf \<noteq> 0"
    unfolding pd_conf_def using withDefaults_positive by (simp_all add: less_imp_neq [symmetric])
  have m: "\<not> malformed f" "f_event f = Some e" "f_iid f = ''i''"
    by (simp_all add: f_def e_def malformed_def NewFact_def pd_event_def)
  have v: "ev_tenant e = ''t''" "ev_seq e = 2" "ev_type e \<noteq> T_left" by (simp_all add: e_def pd_event_def)
  have r: "coveredBy (fst (state_view (state_apply (pj_st NewProjector) (fact_key e f) e) (fact_key e f))) (ev_seq e) = [''a'']"
    unfolding f_def e_def by code_simp
  have d: "feed_dedup ''t'' ''a'' ''i'' 2 = ''t.a.i.2''" by code_simp
  have ml: "pp_marshal calm_ports e = Inr ()" "pp_marshal_control calm_ports (revoked_control (f_iid f) (ev_seq e)) = Inr ()"
    by (simp_all add: calm_ports_def)
  from process_completes [OF s c m(2,1) refl refl ml, of NewProjector "()" "[]", unfolded r]
  obtain p' w' pubs marker saves where run: "process (traced calm_ports) pd_conf f NewProjector ((), []) = Some (None, p', (w', [] @ pubs @ marker @ C_ack f # saves))"
    and pubs: "mset pubs = mset (map (\<lambda>a. C_publish (ev_tenant e) a (f_iid f) (feed_dedup (ev_tenant e) a (f_iid f) (ev_seq e)) ()) [''a''])"
    and marker: "marker = (if ev_type e = T_left
      then [C_publish (ev_tenant e) (ev_actor e) (f_iid f) (revoked_dedup (ev_tenant e) (ev_actor e) (f_iid f) (ev_seq e)) ()] else [])"
    by blast
  have "pubs = [C_publish ''t'' ''a'' ''i'' ''t.a.i.2'' ()]" "marker = []"
    using pubs marker v(3) unfolding v(1,2) m(3) by (simp_all add: d)
  with run have "process (traced calm_ports) pd_conf f NewProjector ((), []) = Some (None, p', (w', [C_publish ''t'' ''a'' ''i'' ''t.a.i.2'' (), C_ack f] @ saves))" by simp
  then show ?thesis unfolding f_def by blast
qed

text \<open>
  \<^bold>\<open>C25.\<close> The read-only fold of hydration ends: for a range whose upper end is a fact of the stream, \<open>FoldRange\<close> returns, however
  the broker cuts the stream into batches and however it grows meanwhile.
\<close>

theorem fold_range_ends:
  assumes "js_broker J B" "b_inv B w" "lo = 0 \<or> lo \<in> fst ` set (b_log B w)" "hi \<in> fst ` set (b_log B w)"
  shows "\<exists>r w'. jsFoldRange J w lo hi = Some (r, w')"
  using js_broker.jsFoldRange_returns [OF assms] by auto

theorem fold_range_ends_witness: "\<exists>r w'. jsFoldRange sim_js pd_start 0 5 = Some (r, w')"
proof -
  have "b_inv sim_obs pd_start" using pd_fresh by (simp add: fresh_def nats_view_def)
  moreover have "5 \<in> fst ` set (b_log sim_obs pd_start)" by (simp add: sim_obs_def pd_start_def pd_log_def)
  ultimately show ?thesis using fold_range_ends [OF sim.js_broker_axioms, of pd_start 0 5] by blast
qed

text \<open>
  \<^bold>\<open>C26.\<close> Snapshots lose nothing: restoring the snapshot of a well-formed state into a fresh one gives back, for every tenant, interaction
  and agent, the same membership intervals, and hence the same recipients for every sequence number.
\<close>

theorem snapshot_roundtrip:
  assumes "state_ok s"
  shows "view_at (restore newState (Some (state_snapshot s))) t i a = view_at s t i a \<and>
    set (coveredBy (fst (state_view (restore newState (Some (state_snapshot s))) (t @ ''/'' @ i))) n) =
    set (coveredBy (fst (state_view s (t @ ''/'' @ i))) n)"
  using view_at_restore [OF assms] by (simp add: view_at_def set_coveredBy)

theorem snapshot_roundtrip_witness:
  "view_at (restore newState (Some (state_snapshot (state_apply newState ''t/i'' (pd_event T_joined ''a'' 2))))) ''t'' ''i'' ''a'' =
     view_at (state_apply newState ''t/i'' (pd_event T_joined ''a'' 2)) ''t'' ''i'' ''a''"
proof -
  have "state_ok (state_apply newState ''t/i'' (pd_event T_joined ''a'' 2))"
    by (rule state_ok_apply) (simp add: state_ok_def newState_def)
  then show ?thesis by (rule snapshot_roundtrip [THEN conjunct1])
qed

section \<open>The fence\<close>

lemma live_unfenced:
  "fence_ok f \<Longrightarrow> ctx_live f n \<Longrightarrow> fn_cancel f = Some n \<and> \<not> fn_paused f \<and> fn_lost f = None \<and> fn_parent_err f = None"
  unfolding fence_ok_def ctx_live_def by blast

text \<open>
  \<^bold>\<open>C27.\<close> The fence stops the data loop. In every interleaving of the two loops, at most one context handed to the data loop is live, and
  it is live only while the lease is neither overdue nor lost and the process runs, when the projector reports itself
  ready; a lost lease stays lost; and no wake-up channel is closed twice.
\<close>

theorem fence_stops_data_loop:
  assumes "fence_step\<^sup>*\<^sup>* newFence f"
  shows "(\<forall>m n. ctx_live f m \<and> ctx_live f n \<longrightarrow> m = n) \<and> (\<forall>n. ctx_live f n \<longrightarrow> Ready (Some f) = None) \<and>
    (\<forall>e g. fn_lost f = Some e \<and> fence_step\<^sup>*\<^sup>* f g \<longrightarrow> fn_lost g = Some e \<and> fst (fence_begin g) = BNil) \<and>
    fn_wakeup f \<notin> fn_closed f"
proof -
  have ok: "fence_ok f" by (rule fence_ok_steps [OF assms fence_ok_new])
  note live = live_unfenced [OF ok]
  have 3: "fn_lost g = Some e \<and> fst (fence_begin g) = BNil" if "fn_lost f = Some e \<and> fence_step\<^sup>*\<^sup>* f g" for e g
    using lost_sticky [OF conjunct2 [OF that] conjunct1 [OF that]] by (simp add: fence_begin_def)
  have 4: "fn_wakeup f \<notin> fn_closed f" using ok unfolding fence_ok_def by blast
  have 1: "m = n" if "ctx_live f m \<and> ctx_live f n" for m n
    using live [OF conjunct1 [OF that]] live [OF conjunct2 [OF that]] by simp
  have 2: "Ready (Some f) = None" if "ctx_live f n" for n
    using live [OF that] by (simp add: Ready_def fence_health_def)
  show ?thesis by (intro conjI [OF _ conjI [OF _ conjI [OF _ 4]]] allI impI) (erule 1 2 3)+
qed

theorem fence_stops_data_loop_witness:
  "ctx_live (snd (fence_begin newFence)) 0 \<and> Ready (Some (snd (fence_begin newFence))) = None"
proof -
  have "fence_step\<^sup>*\<^sup>* newFence (snd (fence_begin newFence))"
    by (rule r_into_rtranclp [of fence_step, OF fence_step.start])
  note ok = fence_stops_data_loop [OF this, THEN conjunct2, THEN conjunct1, rule_format]
  have "ctx_live (snd (fence_begin newFence)) 0"
    by (simp add: ctx_live_def fence_begin_def newFence_def call_cancel_def)
  with ok [OF this] show ?thesis by blast
qed

text \<open>
  No wake-up is lost: as long as the channel on which the data loop waits stays open, trying again would wait on the same channel; so
  when the lease is renewed or lost, or the process shuts down, the wait ends.
\<close>

theorem no_lost_wakeup:
  assumes "fence_begin f = (BWait ch, f)" "fence_step\<^sup>*\<^sup>* f g" "ch \<notin> fn_closed g" "fn_parent_err g = None"
  shows "fence_begin g = (BWait ch, g)"
proof -
  have "waits f ch" using assms(1) by (auto simp: fence_begin_def waits_def split: if_splits)
  with assms(2,3) have "fn_wakeup g = ch \<and> fn_paused g \<and> fn_lost g = None"
    using waits_steps [of f g ch] by (auto simp: waits_def)
  with assms(4) show ?thesis by (simp add: fence_begin_def)
qed

theorem no_lost_wakeup_witness:
  "fence_begin (fence_pause newFence) = (BWait 0, fence_pause newFence) \<and>
   (0 \<notin> fn_closed (fence_pause (fence_pause newFence)) \<and> fence_begin (fence_pause (fence_pause newFence)) = (BWait 0, fence_pause (fence_pause newFence)))"
proof -
  have 1: "fence_begin (fence_pause newFence) = (BWait 0, fence_pause newFence)"
    by (simp add: fence_begin_def fence_pause_def newFence_def call_cancel_def)
  have 2: "0 \<notin> fn_closed (fence_pause (fence_pause newFence))" "fn_parent_err (fence_pause (fence_pause newFence)) = None"
    by (simp_all add: fence_pause_def newFence_def call_cancel_def)
  have "fence_step\<^sup>*\<^sup>* (fence_pause newFence) (fence_pause (fence_pause newFence))"
    by (rule r_into_rtranclp [of fence_step, OF fence_step.pause])
  with no_lost_wakeup [OF 1 _ 2] 1 2 show ?thesis by blast
qed

text \<open>
  \<^bold>\<open>C28.\<close> When the renewal loop gives up, the data loop is already fenced: a tick that ends the loop leaves no live context of the
  data loop, whether every attempt failed or the wait between two attempts was cut short.
\<close>

theorem renewal_failure_fences:
  assumes "fence_step\<^sup>*\<^sup>* newFence f" "renew_tick P c f w = (False, f', w')"
  shows "\<not> ctx_live f' n"
proof -
  obtain e g w1 where r: "renewWithRetry P c f w = (Some e, g, w1)" and f': "f' = g \<or> f' = fence_fail e g"
    using assms(2) by (auto simp: renew_tick_def split: prod.splits option.splits)
  have "fence_step\<^sup>*\<^sup>* f g" using r renew_attempts_steps by (auto simp: renewWithRetry_def split: prod.splits)
  then have g: "fence_step\<^sup>*\<^sup>* newFence g" by (rule rtranclp_trans [OF assms(1)])
  have "fence_step\<^sup>*\<^sup>* newFence f'"
    using f' g rtranclp.rtrancl_into_rtrancl [OF g fence_step.fail [of g e]] by (elim disjE) simp_all
  then have "fence_ok f'" by (rule fence_ok_steps [OF _ fence_ok_new])
  with renew_tick_fenced [OF assms(2)] live_unfenced [of f' n] show ?thesis by (elim disjE) auto
qed

definition dead_lease :: "unit renew_port" where
  "dead_lease = \<lparr>rp_renew = (\<lambda>w d. (Some ''timeout'', w)), rp_wait = (\<lambda>w d. (None, w)), rp_ctx_err = (\<lambda>w. (None, w))\<rparr>"

theorem renewal_failure_fences_witness:
  "\<not> ctx_live (fst (snd (renew_tick dead_lease pd_conf (snd (fence_begin newFence)) ()))) 0"
proof -
  have 1: "fence_step\<^sup>*\<^sup>* newFence (snd (fence_begin newFence))"
    by (rule r_into_rtranclp [of fence_step, OF fence_step.start])
  have r: "renewBudget (LeaseTTL pd_conf) (LeaseRenew pd_conf) = (700000000, 3, 300000000)" by code_simp
  have "fst (renew_tick dead_lease pd_conf (snd (fence_begin newFence)) ()) = False"
    by (simp add: renew_tick_def renewWithRetry_def r dead_lease_def eval_nat_numeral)
  then have "renew_tick dead_lease pd_conf (snd (fence_begin newFence)) () =
      (False, fst (snd (renew_tick dead_lease pd_conf (snd (fence_begin newFence)) ())),
       snd (snd (renew_tick dead_lease pd_conf (snd (fence_begin newFence)) ())))"
    by (metis prod.collapse)
  from renewal_failure_fences [OF 1 this] show ?thesis .
qed

text \<open>
  \<^bold>\<open>C29.\<close> Renewal fits into the lease: with the defaults applied, all attempts and the pauses between them take at most nine tenths
  of the time from a renewal to the expiry of the lease, without overflow for any TTL below 32 years.
\<close>

theorem renewal_fits_lease:
  assumes "LeaseTTL (withDefaults c) \<le> i64_max div 9"
  shows "renew_time (renewBudget (LeaseTTL (withDefaults c)) (LeaseRenew (withDefaults c))) \<le>
      (LeaseTTL (withDefaults c) - LeaseRenew (withDefaults c)) * 9 div 10 \<and>
    LeaseRenew (withDefaults c) + renew_time (renewBudget (LeaseTTL (withDefaults c)) (LeaseRenew (withDefaults c))) <
      LeaseTTL (withDefaults c)"
proof -
  let ?t = "LeaseTTL (withDefaults c)" and ?r = "LeaseRenew (withDefaults c)"
  have s: "0 \<le> ?r" "?r < ?t" using withDefaults_slack [of c] by simp_all
  have "renew_time (renewBudget ?t ?r) \<le> (?t - ?r) * 9 div 10"
    using s assms by (intro renewBudget_fits) linarith+
  with s show ?thesis by simp
qed

theorem renewal_fits_lease_witness: "renew_time (renewBudget (LeaseTTL pd_conf) (LeaseRenew pd_conf)) < 3 * 1000000000"
proof -
  obtain c where c: "pd_conf = withDefaults c" by (simp add: pd_conf_def)
  have t: "LeaseTTL pd_conf = 5 * 1000000000" "LeaseRenew pd_conf = 2 * 1000000000" by code_simp+
  then have "LeaseTTL (withDefaults c) \<le> i64_max div 9" by (simp add: c i64_max_def)
  from renewal_fits_lease [OF this] t show ?thesis by (simp add: c)
qed

section \<open>The lease\<close>

text \<open>
  \<^bold>\<open>C7.\<close> The lease is exclusive: among any number of projectors with distinct holder names, whatever the interleaving of the single
  requests of their acquisitions, renewals and releases, with expiries, restarts and late requests in between, and even if the
  bucket loses answers, at most one client remembers the revision of the current entry. An acquisition or a renewal that succeeds makes
  its caller that client and leaves no other; a renewal succeeds only for the client that was it already. So a holder whose
  entry expired, was taken over, or was deleted by another's \<open>Release\<close>, cannot renew.
\<close>

theorem lease_exclusive:
  assumes "kv_bucket K C" "(lease_step K C)\<^sup>*\<^sup>* (cs0, k0) (cs, k)" "kv_sane C k0"
    and "\<forall>i. lk_rev (fst (cs0 i)) = 0" "inj (\<lambda>i. lk_holder (fst (cs0 i)))"
  shows "(\<forall>i j. holds C (fst (cs i)) k \<and> holds C (fst (cs j)) k \<longrightarrow> i = j) \<and>
    (\<forall>i pc l' k'. snd (cs i) = pc \<and> pc \<in> {P_create, P_get, P_renew} \<and> lease_turn K pc (fst (cs i)) k = (P_idle None, l', k') \<longrightarrow>
       holds C l' k' \<and> (\<forall>j. j \<noteq> i \<longrightarrow> \<not> holds C (fst (cs j)) k') \<and> (pc = P_renew \<longrightarrow> holds C (fst (cs i)) k))"
proof -
  have ok0: "leases_ok C (cs0, k0)" using assms(3,4) by (auto simp: leases_ok_def lease_inv_def kv_sane_def)
  have ex: "i = j" if r: "(lease_step K C)\<^sup>*\<^sup>* (cs0, k0) (ms, m)" and h: "holds C (fst (ms i)) m" "holds C (fst (ms j)) m" for ms m i j
  proof -
    note s = kv_bucket.leases_ok_steps [OF assms(1) r ok0]
    have inv: "lease_inv C (fst (ms n)) m" for n using s by (simp add: leases_ok_def)
    obtain v where v: "ko_cur C m = Some (v, lk_rev (fst (ms i)))" "ko_cur C m = Some (v, lk_rev (fst (ms j)))"
      using h by (auto simp: holds_def)
    have "v = lk_holder (fst (ms i))" "v = lk_holder (fst (ms j))"
      using inv [of i] inv [of j] v unfolding lease_inv_def by blast+
    then show ?thesis using s injD [OF assms(5), of i j] by simp
  qed
  have "holds C l' k' \<and> (\<forall>j. j \<noteq> i \<longrightarrow> \<not> holds C (fst (cs j)) k') \<and> (pc = P_renew \<longrightarrow> holds C (fst (cs i)) k)"
    if pc: "snd (cs i) = pc" "pc \<in> {P_create, P_get, P_renew}" and t: "lease_turn K pc (fst (cs i)) k = (P_idle None, l', k')" for i pc l' k'
  proof -
    note s = kv_bucket.leases_ok_steps [OF assms(1,2) ok0]
    have h: "holds C l' k'" "pc = P_renew \<longrightarrow> holds C (fst (cs i)) k"
      using kv_bucket.lease_turn_call [OF assms(1) t] s pc by (auto simp: leases_ok_def)
    have ni: "\<not> is_idle (snd (cs i))" using pc by (auto simp: is_idle_def)
    have st: "(lease_step K C)\<^sup>*\<^sup>* (cs0, k0) (cs(i := (l', P_idle None)), k')"
      by (rule rtranclp.rtrancl_into_rtrancl [OF assms(2) lease_step.request [of cs i K, OF ni t [folded pc(1)]]])
    have "\<not> holds C (fst (cs j)) k'" if "j \<noteq> i" for j
      using ex [OF st, of i j] h that by auto
    with h show ?thesis by blast
  qed
  with ex [OF assms(2)] show ?thesis by blast
qed

definition demo_clients :: "nat \<Rightarrow> lease_client" where
  "demo_clients i = (\<lparr>lk_holder = replicate i (CHR ''h''), lk_rev = 0\<rparr>, P_idle None)"

text \<open>The state after an acquisition that found the key absent.\<close>

lemma mem_acquires:
  assumes "is_idle (snd (cs i))" "mk_cur k = None" "k' = \<lparr>mk_cur = Some (lk_holder (fst (cs i)), Suc (mk_last k)), mk_last = Suc (mk_last k)\<rparr>"
  shows "(lease_step mem_ports mem_obs)\<^sup>*\<^sup>* (cs, k) (cs(i := ((fst (cs i))\<lparr>lk_rev := Suc (mk_last k)\<rparr>, P_idle None)), k')"
proof -
  let ?S = "lease_step mem_ports mem_obs"
  let ?c1 = "cs(i := (fst (cs i), P_check))" and ?c2 = "cs(i := (fst (cs i), P_create))"
  have 1: "?S (cs, k) (?c1, k)" by (rule lease_step.call) (simp_all add: assms(1))
  have "?S (?c1, k) (?c1(i := (fst (cs i), P_create)), k)"
    by (rule lease_step.request) (simp_all add: is_idle_def lease_turn_def mem_ports_def)
  then have 2: "?S (?c1, k) (?c2, k)" by simp
  have "?S (?c2, k) (?c2(i := ((fst (cs i))\<lparr>lk_rev := Suc (mk_last k)\<rparr>, P_idle None)), k')"
    by (rule lease_step.request)
      (simp_all add: is_idle_def lease_turn_def acquire_turn_create_def mem_ports_def assms(2,3))
  then have 3: "?S (?c2, k) (cs(i := ((fst (cs i))\<lparr>lk_rev := Suc (mk_last k)\<rparr>, P_idle None)), k')" by simp
  from 1 2 3 show ?thesis by (meson converse_rtranclp_into_rtranclp r_into_rtranclp)
qed

theorem lease_exclusive_witness:
  "\<exists>cs k l' k'. (lease_step mem_ports mem_obs)\<^sup>*\<^sup>* (demo_clients, \<lparr>mk_cur = None, mk_last = 0\<rparr>) (cs, k) \<and>
     lease_turn mem_ports P_renew (fst (cs 0)) k = (P_idle None, l', k') \<and> holds mem_obs l' k' \<and> \<not> holds mem_obs (fst (cs 1)) k'"
proof -
  let ?k = "\<lparr>mk_cur = None, mk_last = 0\<rparr>" and ?k1 = "\<lparr>mk_cur = Some ([], 1), mk_last = 1\<rparr>" and ?k2 = "\<lparr>mk_cur = Some ([], 2), mk_last = 2\<rparr>"
  let ?c1 = "demo_clients(0 := (\<lparr>lk_holder = [], lk_rev = 1\<rparr>, P_idle None))"
  let ?c2 = "demo_clients(0 := (\<lparr>lk_holder = [], lk_rev = 1\<rparr>, P_renew))"
  have a: "(lease_step mem_ports mem_obs)\<^sup>*\<^sup>* (demo_clients, ?k) (?c1, ?k1)"
    using mem_acquires [of demo_clients 0 ?k ?k1] by (simp add: demo_clients_def is_idle_def)
  have "lease_step mem_ports mem_obs (?c1, ?k1) (?c1(0 := (fst (?c1 0), P_renew)), ?k1)"
    by (rule lease_step.call) (simp_all add: is_idle_def)
  then have b: "lease_step mem_ports mem_obs (?c1, ?k1) (?c2, ?k1)" by simp
  have run: "(lease_step mem_ports mem_obs)\<^sup>*\<^sup>* (demo_clients, ?k) (?c2, ?k1)" by (rule rtranclp.rtrancl_into_rtrancl [OF a b])
  have sane: "kv_sane mem_obs ?k" by (simp add: kv_sane_def mem_obs_def)
  have zero: "\<forall>i. lk_rev (fst (demo_clients i)) = 0" by (simp add: demo_clients_def)
  have inj: "inj (\<lambda>i. lk_holder (fst (demo_clients i)))"
    by (rule inj_onI) (simp add: demo_clients_def replicate_eq_replicate)
  have t: "lease_turn mem_ports P_renew (fst (?c2 0)) ?k1 = (P_idle None, \<lparr>lk_holder = [], lk_rev = 2\<rparr>, ?k2)"
    by (simp add: lease_turn_def kvRenew_def mem_ports_def numeral_2_eq_2)
  have "snd (?c2 0) = P_renew \<and> P_renew \<in> {P_create, P_get, P_renew} \<and>
      lease_turn mem_ports P_renew (fst (?c2 0)) ?k1 = (P_idle None, \<lparr>lk_holder = [], lk_rev = 2\<rparr>, ?k2)"
    using t by simp
  with lease_exclusive [OF mem.kv_bucket_axioms run sane zero inj, THEN conjunct2, rule_format, of 0 P_renew]
  have "holds mem_obs \<lparr>lk_holder = [], lk_rev = 2\<rparr> ?k2 \<and> (\<forall>j. j \<noteq> 0 \<longrightarrow> \<not> holds mem_obs (fst (?c2 j)) ?k2)" by blast
  then show ?thesis using run t by (metis zero_neq_one)
qed

text \<open>
  \<open>Release\<close> reads the entry and deletes the key in two requests. When its entry expires between the two and another client takes
  over, the deletion removes the entry of that other client: it has acquired the lease and not failed to renew, and a third one
  acquires it too.
\<close>

lemma release_removes_other:
  "\<exists>cs k. (lease_step mem_ports mem_obs)\<^sup>*\<^sup>* (demo_clients, \<lparr>mk_cur = None, mk_last = 0\<rparr>) (cs, k) \<and>
     snd (cs 1) = P_idle None \<and> lk_rev (fst (cs 1)) = 2 \<and> holds mem_obs (fst (cs 2)) k"
proof -
  let ?S = "lease_step mem_ports mem_obs"
  let ?h1 = "''h''" and ?h2 = "''hh''"
  let ?c1 = "demo_clients(0 := (\<lparr>lk_holder = [], lk_rev = 1\<rparr>, P_idle None))" and ?k1 = "\<lparr>mk_cur = Some ([], 1), mk_last = 1\<rparr>"
  let ?c2 = "?c1(0 := (fst (?c1 0), P_look))" and ?c3 = "?c1(0 := (fst (?c1 0), P_delete))" and ?k3 = "\<lparr>mk_cur = None, mk_last = 1\<rparr>"
  let ?c4 = "?c3(1 := (\<lparr>lk_holder = ?h1, lk_rev = 2\<rparr>, P_idle None))" and ?k4 = "\<lparr>mk_cur = Some (?h1, 2), mk_last = 2\<rparr>"
  let ?c5 = "?c4(0 := (fst (?c4 0), P_idle None))" and ?k5 = "\<lparr>mk_cur = None, mk_last = 2\<rparr>"
  let ?c6 = "?c5(2 := (\<lparr>lk_holder = ?h2, lk_rev = 3\<rparr>, P_idle None))" and ?k6 = "\<lparr>mk_cur = Some (?h2, 3), mk_last = 3\<rparr>"
  have 1: "?S\<^sup>*\<^sup>* (demo_clients, \<lparr>mk_cur = None, mk_last = 0\<rparr>) (?c1, ?k1)"
    using mem_acquires [of demo_clients 0 _ ?k1] by (simp add: demo_clients_def is_idle_def)
  have 2: "?S (?c1, ?k1) (?c2, ?k1)" by (rule lease_step.call) (simp_all add: is_idle_def)
  have "?S (?c2, ?k1) (?c2(0 := (fst (?c1 0), P_delete)), ?k1)"
    by (rule lease_step.request) (simp_all add: is_idle_def lease_turn_def release_turn_get_def mem_ports_def)
  then have 3: "?S (?c2, ?k1) (?c3, ?k1)" by simp
  have 4: "?S (?c3, ?k1) (?c3, ?k3)"
    by (rule lease_step.outside) (simp add: kv_moves_def kv_idle_def kv_sane_def mem_obs_def)
  have 5: "?S\<^sup>*\<^sup>* (?c3, ?k3) (?c4, ?k4)"
    using mem_acquires [of ?c3 1 ?k3 ?k4] by (simp add: demo_clients_def is_idle_def numeral_2_eq_2)
  have 6: "?S (?c4, ?k4) (?c5, ?k5)"
    by (rule lease_step.request) (simp_all add: is_idle_def lease_turn_def mem_ports_def)
  have 7: "?S\<^sup>*\<^sup>* (?c5, ?k5) (?c6, ?k6)"
    using mem_acquires [of ?c5 2 ?k5 ?k6] by (simp add: demo_clients_def is_idle_def numeral_eq_Suc)
  have "?S\<^sup>*\<^sup>* (?c1, ?k1) (?c3, ?k3)" using 2 3 4 by (meson converse_rtranclp_into_rtranclp r_into_rtranclp)
  moreover have "?S\<^sup>*\<^sup>* (?c4, ?k4) (?c6, ?k6)" using 6 7 by (rule converse_rtranclp_into_rtranclp)
  ultimately have "?S\<^sup>*\<^sup>* (demo_clients, \<lparr>mk_cur = None, mk_last = 0\<rparr>) (?c6, ?k6)" using 1 5 by (meson rtranclp_trans)
  then show ?thesis by (rule_tac exI [of _ ?c6], rule_tac exI [of _ ?k6]) (simp add: holds_def mem_obs_def)
qed

end
