(* ===== verification/Auth_Grants.thy ===== *)
theory Auth_Grants
  imports Identity Go_Text
begin

text \<open>
  \<open>internal/authcallout/grants.go\<close> and \<open>validSubjectToken\<close> of \<open>token.go\<close>: the subject permissions
  that the auth-callout mints for an identity. How the NATS server applies a permission is a
  parameter: the locale \<open>nats_acl\<close> states the documented rule (a subject must match an allowed
  pattern, if there are any, and no denied one; \<open>*\<close> stands for one token, \<open>>\<close> at the end for one
  or more; under the response permission one message may also go to the reply subject of every
  message received, whatever the lists say), and the lemmas on what a grant lets through are
  proved once inside it.
\<close>

section \<open>Tokens\<close>

text \<open>
  The Go loop ranges over runes. Every byte of a multi-byte rune and of an invalid sequence is at
  least 0x80, and none of the tested runes is, so the loop over bytes finds the same rune.
\<close>

definition is_meta :: "char \<Rightarrow> bool" where
  "is_meta r \<longleftrightarrow> r = CHR ''.'' \<or> r = CHR ''*'' \<or> r = CHR ''>''"

definition is_ctrl :: "char \<Rightarrow> bool" where
  "is_ctrl r \<longleftrightarrow> (of_char r :: nat) \<le> 32 \<or> (of_char r :: nat) = 0x7f"

fun token_scan :: "string \<Rightarrow> string option" where
  "token_scan [] = None"
| "token_scan (r # s) =
     (if is_meta r then Some (''contains NATS subject metacharacter '' @ [CHR 0x27, r, CHR 0x27])
      else if is_ctrl r then Some ''contains control/whitespace''
      else token_scan s)"

definition validSubjectToken :: "string \<Rightarrow> string option" where
  "validSubjectToken s = (if s = '''' then Some ''empty'' else token_scan s)"

lemma token_scan_None: "token_scan s = None \<longleftrightarrow> (\<forall>r \<in> set s. \<not> is_meta r \<and> \<not> is_ctrl r)"
  by (induction s) auto

lemma validSubjectToken_None:
  "validSubjectToken s = None \<longleftrightarrow> s \<noteq> '''' \<and> (\<forall>r \<in> set s. \<not> is_meta r \<and> \<not> is_ctrl r)"
  by (simp add: validSubjectToken_def token_scan_None)

text \<open>What an accepted token is to the server: one literal token of a subject.\<close>

definition literal_token :: "string \<Rightarrow> bool" where
  "literal_token s \<longleftrightarrow> no_dot s \<and> s \<noteq> '''' \<and> s \<noteq> ''*'' \<and> s \<noteq> ''>''"

lemma valid_literal:
  assumes "validSubjectToken s = None"
  shows "literal_token s"
proof -
  have ch: "\<not> is_meta r" if "r \<in> set s" for r
    using assms that by (simp add: validSubjectToken_None)
  have "s \<noteq> ''''" using assms by (simp add: validSubjectToken_None)
  moreover have "no_dot s" using ch [of dot] unfolding no_dot_def is_meta_def by blast
  moreover have "s \<noteq> ''*''" "s \<noteq> ''>''" using ch [of "CHR ''*''"] ch [of "CHR ''>''"] by (force simp: is_meta_def)+
  ultimately show ?thesis by (simp add: literal_token_def)
qed

section \<open>Grants\<close>

record Grant =
  PubAllow :: "string list"
  PubDeny :: "string list"
  SubAllow :: "string list"
  SubDeny :: "string list"
  AllowResponses :: bool

definition inbox_of :: "string \<Rightarrow> string" where
  "inbox_of conn = ''_INBOX_'' @ conn @ ''.>''"

definition visitor_grant :: "string \<Rightarrow> string \<Rightarrow> string \<Rightarrow> Grant" where
  "visitor_grant t cid conn =
     \<lparr>PubAllow = [],
      PubDeny = [''>''],
      SubAllow = [''tenant.'' @ t @ ''.interaction.'' @ cid @ ''.log'',
                  ''tenant.'' @ t @ ''.conversation.'' @ cid @ ''.events'',
                  inbox_of conn],
      SubDeny = [''_INBOX.>'', ''tenant.*.agent.*.feed.>''],
      AllowResponses = False\<rparr>"

definition backend_grant :: "string \<Rightarrow> string \<Rightarrow> string \<Rightarrow> Grant" where
  "backend_grant t self conn =
     \<lparr>PubAllow = [''tenant.'' @ t @ ''.interaction.*.cmd.'' @ self,
                  inbox_of conn,
                  ''$JS.API.STREAM.INFO.'' @ LogStreamName,
                  ''$JS.API.CONSUMER.CREATE.'' @ LogStreamName @ ''.>'',
                  ''$JS.API.CONSUMER.DURABLE.CREATE.'' @ LogStreamName @ ''.>'',
                  ''$JS.API.CONSUMER.INFO.'' @ LogStreamName @ ''.>'',
                  ''$JS.API.CONSUMER.MSG.NEXT.'' @ LogStreamName @ ''.>'',
                  ''$JS.API.CONSUMER.DELETE.'' @ LogStreamName @ ''.>''],
      PubDeny = [''tenant.*.interaction.*.log''],
      SubAllow = [''tenant.'' @ t @ ''.interaction.*.log'',
                  ''tenant.'' @ t @ ''.notify.>'',
                  ''tenant.'' @ t @ ''.routing.>'',
                  inbox_of conn],
      SubDeny = [''_INBOX.>''],
      AllowResponses = True\<rparr>"

definition agent_grant :: "string \<Rightarrow> string \<Rightarrow> string \<Rightarrow> Grant" where
  "agent_grant t self conn =
     \<lparr>PubAllow = [''tenant.'' @ t @ ''.interaction.*.cmd.'' @ self,
                  ''tenant.'' @ t @ ''.presence.'' @ self @ ''.state'',
                  ''tenant.'' @ t @ ''.presence.'' @ self @ ''.typing.>'',
                  inbox_of conn],
      PubDeny = [''tenant.*.interaction.*.log'', ''tenant.*.agent.*.feed.>''],
      SubAllow = [''tenant.'' @ t @ ''.agent.'' @ self @ ''.feed.>'',
                  ''tenant.'' @ t @ ''.routing.offer.user.'' @ self,
                  ''tenant.'' @ t @ ''.routing.offer.user.'' @ self @ ''.control'',
                  ''tenant.'' @ t @ ''.notify.'' @ self,
                  ''tenant.'' @ t @ ''.presence.*.state'',
                  ''tenant.'' @ t @ ''.presence.*.typing.>'',
                  inbox_of conn],
      SubDeny = [''_INBOX.>'', ''tenant.*.interaction.*.log''],
      AllowResponses = True\<rparr>"

definition GrantsFor :: "identity \<Rightarrow> string \<Rightarrow> string + Grant" where
  "GrantsFor i conn =
     (case validSubjectToken (id_tenant i) of
        Some err \<Rightarrow> Inl (''authcallout: invalid tenant: '' @ err)
      | None \<Rightarrow>
     (case validSubjectToken (id_user i) of
        Some err \<Rightarrow> Inl (''authcallout: invalid user: '' @ err)
      | None \<Rightarrow>
      if conn = '''' then Inl ''authcallout: empty connection id''
      else if id_role i = RoleVisitor then
        (if id_capability i \<noteq> '''' then Inl ''authcallout: visitor capability is not permitted''
         else (case validSubjectToken (id_conversation i) of
                 Some err \<Rightarrow> Inl (''authcallout: invalid conversation: '' @ err)
               | None \<Rightarrow> Inr (visitor_grant (id_tenant i) (id_conversation i) conn)))
      else if id_role i = RoleTrustedBackend then
        (if id_capability i \<noteq> '''' then Inl ''authcallout: trusted-backend capability is not permitted''
         else Inr (backend_grant (id_tenant i) (id_user i) conn))
      else if id_role i = '''' then
        (if \<not> IsSubscriberCapability (id_capability i) \<or> id_conversation i \<noteq> ''''
         then Inl (''authcallout: capability '' @ go_quote (id_capability i) @ '' authorizes no grant'')
         else let grant = agent_grant (id_tenant i) (id_user i) conn
              in if id_capability i = CapabilityAgentFeedAdminOperationObserver
                 then Inr (grant\<lparr>SubAllow := SubAllow grant @ [''tenant.'' @ id_tenant i @ ''.admin.operation.*.changed'']\<rparr>)
                 else Inr grant)
      else Inl (''authcallout: role '' @ go_quote (id_role i) @ '' authorizes no grant'')))"

text \<open>Three kinds of identity get a grant, and nothing else does.\<close>

definition visitor_id :: "identity \<Rightarrow> bool" where
  "visitor_id i \<longleftrightarrow> id_role i = RoleVisitor \<and> id_capability i = '''' \<and> validSubjectToken (id_conversation i) = None"

definition backend_id :: "identity \<Rightarrow> bool" where
  "backend_id i \<longleftrightarrow> id_role i = RoleTrustedBackend \<and> id_capability i = ''''"

definition agent_id :: "identity \<Rightarrow> bool" where
  "agent_id i \<longleftrightarrow> id_role i = '''' \<and> IsSubscriberCapability (id_capability i) \<and> id_conversation i = ''''"

definition named_id :: "identity \<Rightarrow> bool" where
  "named_id i \<longleftrightarrow> validSubjectToken (id_tenant i) = None \<and> validSubjectToken (id_user i) = None"

lemma GrantsFor_cases:
  assumes "GrantsFor i conn = Inr g"
  obtains (visitor) "named_id i" "conn \<noteq> ''''" "visitor_id i" "g = visitor_grant (id_tenant i) (id_conversation i) conn"
  | (backend) "named_id i" "conn \<noteq> ''''" "backend_id i" "g = backend_grant (id_tenant i) (id_user i) conn"
  | (agent) extra where "named_id i" "conn \<noteq> ''''" "agent_id i"
      "g = (agent_grant (id_tenant i) (id_user i) conn)
             \<lparr>SubAllow := SubAllow (agent_grant (id_tenant i) (id_user i) conn) @ extra\<rparr>"
      "set extra \<subseteq> {''tenant.'' @ id_tenant i @ ''.admin.operation.*.changed''}"
proof -
  have nm: "named_id i" "conn \<noteq> ''''"
    using assms by (auto simp: GrantsFor_def named_id_def split: option.splits if_splits)
  then have v: "validSubjectToken (id_tenant i) = None" "validSubjectToken (id_user i) = None"
    by (simp_all add: named_id_def)
  consider "id_role i = RoleVisitor" | "id_role i = RoleTrustedBackend" | "id_role i = ''''"
    using assms v nm by (auto simp: GrantsFor_def split: if_splits)
  then show ?thesis
  proof cases
    case 1
    with assms v nm show ?thesis
      by (intro visitor) (auto simp: GrantsFor_def visitor_id_def split: option.splits if_splits)
  next
    case 2
    with assms v nm show ?thesis
      by (intro backend) (auto simp: GrantsFor_def backend_id_def split: if_splits)
  next
    case 3
    with assms v nm have a: "agent_id i" by (auto simp: GrantsFor_def agent_id_def split: if_splits)
    show ?thesis
    proof (cases "id_capability i = CapabilityAgentFeedAdminOperationObserver")
      case True
      with 3 a assms v nm show ?thesis
        by (intro agent [of "[''tenant.'' @ id_tenant i @ ''.admin.operation.*.changed'']"])
           (auto simp: GrantsFor_def agent_id_def Let_def)
    next
      case False
      with 3 a assms v nm show ?thesis
        by (intro agent [of "[]"]) (auto simp: GrantsFor_def agent_id_def Let_def)
    qed
  qed
qed

lemma GrantsFor_iff:
  "(\<exists>g. GrantsFor i conn = Inr g) \<longleftrightarrow> named_id i \<and> conn \<noteq> '''' \<and> (visitor_id i \<or> backend_id i \<or> agent_id i)"
proof
  assume "\<exists>g. GrantsFor i conn = Inr g"
  then obtain g where "GrantsFor i conn = Inr g" ..
  then show "named_id i \<and> conn \<noteq> '''' \<and> (visitor_id i \<or> backend_id i \<or> agent_id i)"
    by (cases rule: GrantsFor_cases) simp_all
next
  assume "named_id i \<and> conn \<noteq> '''' \<and> (visitor_id i \<or> backend_id i \<or> agent_id i)"
  then show "\<exists>g. GrantsFor i conn = Inr g"
    by (auto simp: GrantsFor_def named_id_def visitor_id_def backend_id_def agent_id_def Let_def)
qed

section \<open>What the server lets through\<close>

fun tokens_match :: "string list \<Rightarrow> string list \<Rightarrow> bool" where
  "tokens_match [] ss = (ss = [])"
| "tokens_match (p # ps) [] = False"
| "tokens_match (p # ps) (s # ss) =
     ((p = ''>'' \<and> ps = []) \<or> ((p = ''*'' \<or> p = s) \<and> tokens_match ps ss))"

definition subject_matches :: "string \<Rightarrow> string \<Rightarrow> bool" where
  "subject_matches p s \<longleftrightarrow> tokens_match (split_on dot p) (split_on dot s)"

definition acl_permits :: "string list \<Rightarrow> string list \<Rightarrow> string \<Rightarrow> bool" where
  "acl_permits allow deny s \<longleftrightarrow>
     (allow = [] \<or> (\<exists>p \<in> set allow. subject_matches p s)) \<and> \<not> (\<exists>p \<in> set deny. subject_matches p s)"

lemma match_join:
  assumes "ps \<noteq> []" "\<forall>p \<in> set ps. no_dot p"
  shows "subject_matches (join_with [dot] ps) s \<longleftrightarrow> tokens_match ps (split_on dot s)"
  using assms split_join [of ps dot] by (simp add: subject_matches_def no_dot_def)

lemma split_inbox: "\<exists>q qs. split_on dot (inbox_of conn) = (''_INBOX_'' @ q) # qs \<and> (no_dot conn \<longrightarrow> q = conn \<and> qs = [''>''])"
proof -
  have pre: "split_on dot (p @ x) = (p @ hd (split_on dot x)) # tl (split_on dot x)" if "no_dot p" for p x
    using that by (induction p) (auto simp: no_dot_def)
  have "split_on dot (inbox_of conn) = (''_INBOX_'' @ hd (split_on dot (conn @ ''.>''))) # tl (split_on dot (conn @ ''.>''))"
    unfolding inbox_of_def by (rule pre) (simp add: no_dot_def)
  moreover have "no_dot conn \<Longrightarrow> split_on dot (conn @ ''.>'') = [conn, ''>'']"
    using split_on_append_sep [of dot conn "''>''"] by (simp add: no_dot_def)
  ultimately show ?thesis by auto
qed

text \<open>The patterns of the grants as token lists.\<close>

lemma match_patterns:
  assumes "no_dot t" "no_dot u"
  shows
    "subject_matches (''tenant.'' @ t @ ''.interaction.'' @ u @ ''.log'') s = tokens_match [''tenant'', t, ''interaction'', u, ''log''] (split_on dot s)"
    "subject_matches (''tenant.'' @ t @ ''.conversation.'' @ u @ ''.events'') s = tokens_match [''tenant'', t, ''conversation'', u, ''events''] (split_on dot s)"
    "subject_matches (''tenant.'' @ t @ ''.interaction.*.cmd.'' @ u) s = tokens_match [''tenant'', t, ''interaction'', ''*'', ''cmd'', u] (split_on dot s)"
    "subject_matches (''tenant.'' @ t @ ''.interaction.*.log'') s = tokens_match [''tenant'', t, ''interaction'', ''*'', ''log''] (split_on dot s)"
    "subject_matches (''tenant.'' @ t @ ''.notify.>'') s = tokens_match [''tenant'', t, ''notify'', ''>''] (split_on dot s)"
    "subject_matches (''tenant.'' @ t @ ''.routing.>'') s = tokens_match [''tenant'', t, ''routing'', ''>''] (split_on dot s)"
    "subject_matches (''tenant.'' @ t @ ''.presence.'' @ u @ ''.state'') s = tokens_match [''tenant'', t, ''presence'', u, ''state''] (split_on dot s)"
    "subject_matches (''tenant.'' @ t @ ''.presence.'' @ u @ ''.typing.>'') s = tokens_match [''tenant'', t, ''presence'', u, ''typing'', ''>''] (split_on dot s)"
    "subject_matches (''tenant.'' @ t @ ''.agent.'' @ u @ ''.feed.>'') s = tokens_match [''tenant'', t, ''agent'', u, ''feed'', ''>''] (split_on dot s)"
    "subject_matches (''tenant.'' @ t @ ''.routing.offer.user.'' @ u) s = tokens_match [''tenant'', t, ''routing'', ''offer'', ''user'', u] (split_on dot s)"
    "subject_matches (''tenant.'' @ t @ ''.routing.offer.user.'' @ u @ ''.control'') s = tokens_match [''tenant'', t, ''routing'', ''offer'', ''user'', u, ''control''] (split_on dot s)"
    "subject_matches (''tenant.'' @ t @ ''.notify.'' @ u) s = tokens_match [''tenant'', t, ''notify'', u] (split_on dot s)"
    "subject_matches (''tenant.'' @ t @ ''.presence.*.state'') s = tokens_match [''tenant'', t, ''presence'', ''*'', ''state''] (split_on dot s)"
    "subject_matches (''tenant.'' @ t @ ''.presence.*.typing.>'') s = tokens_match [''tenant'', t, ''presence'', ''*'', ''typing'', ''>''] (split_on dot s)"
    "subject_matches (''tenant.'' @ t @ ''.admin.operation.*.changed'') s = tokens_match [''tenant'', t, ''admin'', ''operation'', ''*'', ''changed''] (split_on dot s)"
  using assms
  by (subst match_join [symmetric]; simp add: no_dot_def)+

text \<open>The same in the form to which the simplifier brings the patterns.\<close>

lemmas match_pats = match_patterns [simplified append.simps]

lemma tokens_match_Cons:
  "tokens_match (p # ps) ts \<longleftrightarrow>
     (\<exists>s ss. ts = s # ss \<and> ((p = ''>'' \<and> ps = []) \<or> ((p = ''*'' \<or> p = s) \<and> tokens_match ps ss)))"
  by (cases ts) auto

lemma tokens_match_literal:
  "p \<noteq> ''*'' \<Longrightarrow> p \<noteq> ''>'' \<Longrightarrow> tokens_match (p # ps) ts \<longleftrightarrow> (\<exists>ss. ts = p # ss \<and> tokens_match ps ss)"
  by (cases ts) auto

lemma match_inbox: "subject_matches (inbox_of conn) s \<Longrightarrow> \<exists>q ss. split_on dot s = (''_INBOX_'' @ q) # ss \<and> (no_dot conn \<longrightarrow> q = conn)"
  using split_inbox [of conn] by (auto simp: subject_matches_def tokens_match_Cons)

lemma match_js: "subject_matches (''$JS.API.'' @ y) s \<Longrightarrow> \<exists>ss. split_on dot s = ''$JS'' # ss"
proof -
  assume m: "subject_matches (''$JS.API.'' @ y) s"
  have "split_on dot (''$JS'' @ dot # ''API.'' @ y) = ''$JS'' # split_on dot (''API.'' @ y)"
    by (rule split_on_append_sep) simp
  with m show ?thesis by (auto simp: subject_matches_def tokens_match_Cons)
qed

lemma match_deny:
  "subject_matches ''tenant.*.interaction.*.log'' s = tokens_match [''tenant'', ''*'', ''interaction'', ''*'', ''log''] (split_on dot s)"
  "subject_matches ''tenant.*.agent.*.feed.>'' s = tokens_match [''tenant'', ''*'', ''agent'', ''*'', ''feed'', ''>''] (split_on dot s)"
  "subject_matches ''>'' s"
  by (simp_all add: subject_matches_def tokens_match_Cons) (cases "split_on dot s", simp_all)

text \<open>The subjects that an allowed pattern of a grant can match, by their tokens.\<close>

definition own_command :: "identity \<Rightarrow> string list \<Rightarrow> bool" where
  "own_command i ts \<longleftrightarrow> (\<exists>x. ts = [''tenant'', id_tenant i, ''interaction'', x, ''cmd'', id_user i])"

definition own_presence :: "identity \<Rightarrow> string list \<Rightarrow> bool" where
  "own_presence i ts \<longleftrightarrow> (\<exists>rest. ts = [''tenant'', id_tenant i, ''presence'', id_user i] @ rest)"

definition own_inbox :: "string \<Rightarrow> string list \<Rightarrow> bool" where
  "own_inbox conn ts \<longleftrightarrow> (\<exists>q rest. ts = (''_INBOX_'' @ q) # rest \<and> (no_dot conn \<longrightarrow> q = conn))"

lemma named_no_dot: "named_id i \<Longrightarrow> no_dot (id_tenant i) \<and> no_dot (id_user i)"
  using valid_literal by (auto simp: named_id_def literal_token_def)

lemma visitor_no_dot: "visitor_id i \<Longrightarrow> no_dot (id_conversation i)"
  using valid_literal by (auto simp: visitor_id_def literal_token_def)

lemma named_literal:
  assumes "named_id i"
  shows "id_tenant i \<noteq> ''*''" "id_tenant i \<noteq> ''>''" "id_user i \<noteq> ''*''" "id_user i \<noteq> ''>''"
  using valid_literal assms by (auto simp: named_id_def literal_token_def)

lemma visitor_literal:
  assumes "visitor_id i"
  shows "id_conversation i \<noteq> ''*''" "id_conversation i \<noteq> ''>''"
  using valid_literal assms by (auto simp: visitor_id_def literal_token_def)

lemma pub_shape:
  assumes "GrantsFor i conn = Inr g" "acl_permits (PubAllow g) (PubDeny g) s"
  shows "\<not> visitor_id i \<and>
    (own_command i (split_on dot s) \<or> agent_id i \<and> own_presence i (split_on dot s) \<or> own_inbox conn (split_on dot s) \<or>
     backend_id i \<and> (\<exists>ss. split_on dot s = ''$JS'' # ss))"
  using assms(1)
proof (cases rule: GrantsFor_cases)
  case visitor
  with assms(2) match_deny(3) [of s] show ?thesis by (simp add: acl_permits_def visitor_grant_def)
next
  case backend
  note lit = named_literal [OF backend(1)] and mp = match_pats [OF named_no_dot [OF backend(1), THEN conjunct1] named_no_dot [OF backend(1), THEN conjunct2]]
  from assms(2) backend(4) obtain p where p: "p \<in> set (PubAllow (backend_grant (id_tenant i) (id_user i) conn))" "subject_matches p s"
    by (auto simp: acl_permits_def backend_grant_def)
  then consider "own_command i (split_on dot s)" | "own_inbox conn (split_on dot s)" | y where "p = ''$JS.API.'' @ y"
    using lit match_inbox [of conn s]
    by (auto simp: backend_grant_def mp tokens_match_literal own_command_def own_inbox_def tokens_match_Cons)
  then show ?thesis
    using p(2) match_js backend(3) by cases (auto simp: backend_id_def visitor_id_def)
next
  case (agent extra)
  note lit = named_literal [OF agent(1)] and mp = match_pats [OF named_no_dot [OF agent(1), THEN conjunct1] named_no_dot [OF agent(1), THEN conjunct2]]
  from assms(2) agent(4) obtain p where p: "p \<in> set (PubAllow (agent_grant (id_tenant i) (id_user i) conn))" "subject_matches p s"
    by (auto simp: acl_permits_def agent_grant_def)
  then have "own_command i (split_on dot s) \<or> own_presence i (split_on dot s) \<or> own_inbox conn (split_on dot s)"
    using lit match_inbox [of conn s]
    by (auto simp: agent_grant_def mp tokens_match_literal own_command_def own_presence_def own_inbox_def tokens_match_Cons)
  with agent(3) show ?thesis by (auto simp: agent_id_def visitor_id_def)
qed

definition own_conversation :: "identity \<Rightarrow> string list \<Rightarrow> bool" where
  "own_conversation i ts \<longleftrightarrow>
     ts = [''tenant'', id_tenant i, ''interaction'', id_conversation i, ''log''] \<or>
     ts = [''tenant'', id_tenant i, ''conversation'', id_conversation i, ''events'']"

definition own_feed :: "identity \<Rightarrow> string list \<Rightarrow> bool" where
  "own_feed i ts \<longleftrightarrow> (\<exists>rest. ts = [''tenant'', id_tenant i, ''agent'', id_user i, ''feed''] @ rest)"

definition tenant_log :: "identity \<Rightarrow> string list \<Rightarrow> bool" where
  "tenant_log i ts \<longleftrightarrow> (\<exists>x. ts = [''tenant'', id_tenant i, ''interaction'', x, ''log''])"

definition tenant_plane :: "identity \<Rightarrow> string list \<Rightarrow> bool" where
  "tenant_plane i ts \<longleftrightarrow>
     (\<exists>k rest. ts = ''tenant'' # id_tenant i # k # rest \<and> k \<in> {''routing'', ''notify'', ''presence'', ''admin''})"

lemmas shape_defs = own_command_def own_presence_def own_inbox_def own_conversation_def own_feed_def tenant_log_def tenant_plane_def

lemma recv_shape:
  assumes "GrantsFor i conn = Inr g" "acl_permits (SubAllow g) (SubDeny g) s"
  shows "own_inbox conn (split_on dot s) \<or> visitor_id i \<and> own_conversation i (split_on dot s) \<or>
    backend_id i \<and> (tenant_log i (split_on dot s) \<or> tenant_plane i (split_on dot s)) \<or>
    agent_id i \<and> (own_feed i (split_on dot s) \<or> tenant_plane i (split_on dot s))"
  using assms(1)
proof (cases rule: GrantsFor_cases)
  case visitor
  note lit = named_literal [OF visitor(1)] visitor_literal [OF visitor(3)]
    and mp = match_pats [OF named_no_dot [OF visitor(1), THEN conjunct1] visitor_no_dot [OF visitor(3)]]
  from assms(2) visitor(4) obtain p where "p \<in> set (SubAllow (visitor_grant (id_tenant i) (id_conversation i) conn))" "subject_matches p s"
    by (auto simp: acl_permits_def visitor_grant_def)
  with lit match_inbox [of conn s] show ?thesis using visitor(3)
    by (auto simp: visitor_grant_def mp tokens_match_literal shape_defs)
next
  case backend
  note lit = named_literal [OF backend(1)] and mp = match_pats [OF named_no_dot [OF backend(1), THEN conjunct1] named_no_dot [OF backend(1), THEN conjunct2]]
  from assms(2) backend(4) obtain p where "p \<in> set (SubAllow (backend_grant (id_tenant i) (id_user i) conn))" "subject_matches p s"
    by (auto simp: acl_permits_def backend_grant_def)
  with lit match_inbox [of conn s] show ?thesis using backend(3)
    by (auto simp: backend_grant_def mp tokens_match_literal shape_defs tokens_match_Cons)
next
  case (agent extra)
  note lit = named_literal [OF agent(1)] and mp = match_pats [OF named_no_dot [OF agent(1), THEN conjunct1] named_no_dot [OF agent(1), THEN conjunct2]]
  from assms(2) agent(4) obtain p where
      "p \<in> set (SubAllow (agent_grant (id_tenant i) (id_user i) conn)) \<union> set extra" "subject_matches p s"
    by (auto simp: acl_permits_def agent_grant_def)
  with agent(5) have "p \<in> set (SubAllow (agent_grant (id_tenant i) (id_user i) conn)) \<union> {''tenant.'' @ id_tenant i @ ''.admin.operation.*.changed''}"
      "subject_matches p s" by blast+
  with lit match_inbox [of conn s] show ?thesis using agent(3)
    by (auto simp: agent_grant_def mp tokens_match_literal shape_defs tokens_match_Cons)
qed

section \<open>The enforcing server\<close>

lemma split_log_subject:
  assumes "no_dot t" "no_dot x"
  shows "split_on dot (logSubjectFor t x) = [''tenant'', t, ''interaction'', x, ''log'']"
proof -
  have j: "logSubjectFor t x = join_with [dot] [''tenant'', t, ''interaction'', x, ''log'']" by (simp add: logSubjectFor_def)
  show ?thesis unfolding j by (rule split_join) (use assms in \<open>auto simp: no_dot_def\<close>)
qed

text \<open>
  What a connection does as the server sees it: it receives a message with a subject and the reply subject
  that the sender chose (empty for none), or it publishes on a subject. \<open>acl_session g rs es\<close>: the rule lets a
  connection with the grant \<open>g\<close> do \<open>es\<close> when the messages it may still answer have the reply subjects \<open>rs\<close>. The
  response permission of \<open>responder.go\<close> has \<open>MaxMsgs\<close> 1: one message for every message received.
\<close>

datatype client_event = Delivered (ev_subject: string) (ev_reply: string) | Published (ev_subject: string)

fun acl_session :: "Grant \<Rightarrow> string list \<Rightarrow> client_event list \<Rightarrow> bool" where
  "acl_session g rs [] = True"
| "acl_session g rs (Delivered s r # es) =
     (acl_permits (SubAllow g) (SubDeny g) s \<and> acl_session g (if AllowResponses g then r # rs else rs) es)"
| "acl_session g rs (Published s # es) =
     (if acl_permits (PubAllow g) (PubDeny g) s then acl_session g rs es
      else s \<in> set rs \<and> acl_session g (remove1 s rs) es)"

text \<open>
  The message on \<open>s\<close> after \<open>es\<close> is an answer: a message that the grant lets in named \<open>s\<close> as its reply
  subject, and no more messages went to \<open>s\<close> than did so, this one included.
\<close>

definition answers :: "Grant \<Rightarrow> client_event list \<Rightarrow> string \<Rightarrow> bool" where
  "answers g es s \<longleftrightarrow>
     AllowResponses g \<and> (\<exists>s'. Delivered s' s \<in> set es \<and> acl_permits (SubAllow g) (SubDeny g) s') \<and>
     length (filter (\<lambda>e. e = Published s) es) < length (filter (\<lambda>e. \<exists>s'. e = Delivered s' s) es)"

lemma session_prefix: "acl_session g rs (es @ fs) \<Longrightarrow> acl_session g rs es"
  by (induction g rs es rule: acl_session.induct) (auto split: if_splits)

lemma session_recv: "acl_session g rs es \<Longrightarrow> Delivered s r \<in> set es \<Longrightarrow> acl_permits (SubAllow g) (SubDeny g) s"
  by (induction g rs es rule: acl_session.induct) (auto split: if_splits)

lemma session_counts:
  assumes "acl_session g rs es" "\<not> acl_permits (PubAllow g) (PubDeny g) s"
  shows "length (filter (\<lambda>e. e = Published s) es) \<le>
    count_list rs s + (if AllowResponses g then length (filter (\<lambda>e. \<exists>s'. e = Delivered s' s) es) else 0)"
  using assms
proof (induction g rs es rule: acl_session.induct)
  case (3 g rs s0 es)
  have "s0 = s \<Longrightarrow> s0 \<in> set rs \<Longrightarrow> count_list rs s = Suc (count_list (remove1 s0 rs) s)"
    by (induction rs) auto
  moreover have "s0 \<noteq> s \<Longrightarrow> count_list (remove1 s0 rs) s = count_list rs s" by (induction rs) auto
  ultimately show ?case using 3 by (auto split: if_splits)
qed auto

lemma session_answers:
  assumes "acl_session g [] (es @ Published s # fs)" "\<not> acl_permits (PubAllow g) (PubDeny g) s"
  shows "answers g es s"
proof -
  have p: "acl_session g [] (es @ [Published s])" using session_prefix [of g "[]" "es @ [Published s]" fs] assms(1) by simp
  from session_counts [OF this assms(2)]
  have c: "AllowResponses g" "length (filter (\<lambda>e. e = Published s) es) < length (filter (\<lambda>e. \<exists>s'. e = Delivered s' s) es)"
    by (auto split: if_splits)
  then have "filter (\<lambda>e. \<exists>s'. e = Delivered s' s) es \<noteq> []" by auto
  then obtain s' where s': "Delivered s' s \<in> set es" unfolding filter_empty_conv by blast
  with session_recv [OF p] c show ?thesis unfolding answers_def by auto
qed

text \<open>\<open>accepts g es\<close>: the server lets a connection with the grant \<open>g\<close> do \<open>es\<close>.\<close>

locale nats_acl =
  fixes accepts :: "Grant \<Rightarrow> client_event list \<Rightarrow> bool"
  assumes session_law: "accepts g es \<Longrightarrow> acl_session g [] es"
begin

lemma pub_tokens:
  assumes "GrantsFor i conn = Inr g" "accepts g (es @ Published s # fs)"
  shows "\<not> visitor_id i \<and>
    (answers g es s \<or>
     own_command i (split_on dot s) \<or> agent_id i \<and> own_presence i (split_on dot s) \<or> own_inbox conn (split_on dot s) \<or>
     backend_id i \<and> (\<exists>ss. split_on dot s = ''$JS'' # ss))"
proof (cases "acl_permits (PubAllow g) (PubDeny g) s")
  case True
  from pub_shape [OF assms(1) this] show ?thesis by blast
next
  case False
  have a: "answers g es s" by (rule session_answers [OF session_law [OF assms(2)] False])
  from assms(1) have "\<not> visitor_id i"
    by (cases rule: GrantsFor_cases) (use a in \<open>auto simp: answers_def visitor_grant_def visitor_id_def backend_id_def agent_id_def\<close>)
  with a show ?thesis by blast
qed

lemma recv_tokens:
  assumes "GrantsFor i conn = Inr g" "accepts g es" "Delivered s r \<in> set es"
  shows "own_inbox conn (split_on dot s) \<or> visitor_id i \<and> own_conversation i (split_on dot s) \<or>
    backend_id i \<and> (tenant_log i (split_on dot s) \<or> tenant_plane i (split_on dot s)) \<or>
    agent_id i \<and> (own_feed i (split_on dot s) \<or> tenant_plane i (split_on dot s))"
  by (rule recv_shape [OF assms(1) session_recv [OF session_law [OF assms(2)] assms(3)]])

lemma command_pinned:
  assumes "GrantsFor i conn = Inr g" "accepts g (es @ Published s # fs)" "parseCmdSubject s = Some (t, x, u)"
  shows "\<not> visitor_id i \<and> (t = id_tenant i \<and> u = id_user i \<or> answers g es s)"
proof -
  have "split_on dot s = [''tenant'', t, ''interaction'', x, ''cmd'', u]"
    using assms(3) by (auto simp: parseCmdSubject_Some split_cmd_subject)
  with pub_tokens [OF assms(1,2)] show ?thesis by (auto simp: shape_defs)
qed

lemma log_not_published:
  assumes "GrantsFor i conn = Inr g" "no_dot t" "no_dot x" "accepts g (es @ Published (logSubjectFor t x) # fs)"
  shows "answers g es (logSubjectFor t x)"
  using pub_tokens [OF assms(1,4)] unfolding split_log_subject [OF assms(2,3)] by (auto simp: shape_defs)

lemma log_received:
  assumes "GrantsFor i conn = Inr g" "no_dot t" "no_dot x" "accepts g es" "Delivered (logSubjectFor t x) r \<in> set es"
  shows "t = id_tenant i \<and> (backend_id i \<or> visitor_id i \<and> x = id_conversation i)"
  using recv_tokens [OF assms(1,4,5)] unfolding split_log_subject [OF assms(2,3)] by (auto simp: shape_defs)

lemma feed_private:
  assumes "GrantsFor i conn = Inr g" "split_on dot s = ''tenant'' # t # ''agent'' # a # ''feed'' # rest"
  shows "accepts g (es @ Published s # fs) \<Longrightarrow> answers g es s"
    and "accepts g es \<Longrightarrow> Delivered s r \<in> set es \<Longrightarrow> agent_id i \<and> t = id_tenant i \<and> a = id_user i"
  using pub_tokens [OF assms(1)] recv_tokens [OF assms(1)] assms(2) by (fastforce simp: shape_defs)+

end

text \<open>A server that applies exactly the documented rule.\<close>

definition acl_accepts :: "Grant \<Rightarrow> client_event list \<Rightarrow> bool" where
  "acl_accepts g es = acl_session g [] es"

interpretation acl: nats_acl acl_accepts
  by unfold_locales (simp add: acl_accepts_def)

text \<open>
  What the response permission leaves open: an agent may announce its presence with any subject at all as the
  reply subject, it receives its own announcement, and the answer to it is then a message on that subject, be it the command
  subject of another user, a subject of another tenant or a log that \<open>PubDeny\<close> names.
\<close>

lemma own_message_reopens:
  assumes "no_dot t" "no_dot a"
  defines "presence \<equiv> ''tenant.'' @ t @ ''.presence.'' @ a @ ''.state''"
  shows "acl_accepts (agent_grant t a conn) [Published presence, Delivered presence s, Published s]"
proof -
  have sp: "split_on dot presence = [''tenant'', t, ''presence'', a, ''state'']"
  proof -
    have j: "presence = join_with [dot] [''tenant'', t, ''presence'', a, ''state'']" by (simp add: presence_def)
    show ?thesis unfolding j by (rule split_join) (use assms in \<open>auto simp: no_dot_def\<close>)
  qed
  have deny: "\<not> subject_matches ''tenant.*.interaction.*.log'' presence" "\<not> subject_matches ''tenant.*.agent.*.feed.>'' presence"
    "\<not> subject_matches ''_INBOX.>'' presence"
    by (simp_all add: match_deny sp) (simp add: subject_matches_def sp)
  have m: "subject_matches (''tenant.'' @ t @ ''.presence.'' @ a @ ''.state'') presence"
    "subject_matches (''tenant.'' @ t @ ''.presence.*.state'') presence"
    unfolding match_patterns [OF assms(1,2)] sp by simp_all
  have "acl_permits (PubAllow (agent_grant t a conn)) (PubDeny (agent_grant t a conn)) presence"
    "acl_permits (SubAllow (agent_grant t a conn)) (SubDeny (agent_grant t a conn)) presence"
    unfolding acl_permits_def agent_grant_def using deny m by auto
  moreover have "AllowResponses (agent_grant t a conn)" by (simp add: agent_grant_def)
  ultimately show ?thesis by (simp add: acl_accepts_def)
qed

end
