(* ===== verification/Go_Base64.thy ===== *)
theory Go_Base64
  imports Go_Text
begin

text \<open>
  \<open>base64.RawURLEncoding\<close> of the Go standard library: the URL alphabet without padding. The decoder
  skips carriage returns and line feeds, ignores the unused low bits of the last character (it is
  not strict) and reports the offset of the first corrupt input byte.
\<close>

definition b64_char :: "nat \<Rightarrow> char" where
  "b64_char n =
     (if n < 26 then char_of (65 + n) else if n < 52 then char_of (71 + n)
      else if n < 62 then char_of (n - 4) else if n = 62 then CHR ''-'' else CHR ''_'')"

definition b64_value :: "char \<Rightarrow> nat option" where
  "b64_value c =
     (let n = of_char c :: nat
      in if 65 \<le> n \<and> n \<le> 90 then Some (n - 65)
         else if 97 \<le> n \<and> n \<le> 122 then Some (n - 71)
         else if 48 \<le> n \<and> n \<le> 57 then Some (n + 4)
         else if n = 45 then Some 62 else if n = 95 then Some 63 else None)"

fun b64_encode :: "bytes \<Rightarrow> string" where
  "b64_encode [] = []"
| "b64_encode [a] = (let x = of_char a in [b64_char (x div 4), b64_char (x mod 4 * 16)])"
| "b64_encode [a, b] =
     (let x = of_char a; y = of_char b
      in [b64_char (x div 4), b64_char (x mod 4 * 16 + y div 16), b64_char (y mod 16 * 4)])"
| "b64_encode (a # b # c # r) =
     (let x = of_char a; y = of_char b; z = of_char c
      in b64_char (x div 4) # b64_char (x mod 4 * 16 + y div 16) # b64_char (y mod 16 * 4 + z div 64) #
         b64_char (z mod 64) # b64_encode r)"

text \<open>The six-bit values of the input, or the offset of the first byte outside the alphabet.\<close>

fun b64_digits :: "nat \<Rightarrow> string \<Rightarrow> nat + nat list" where
  "b64_digits si [] = Inr []"
| "b64_digits si (c # s) =
     (case b64_value c of
        Some v \<Rightarrow> (case b64_digits (Suc si) s of Inl n \<Rightarrow> Inl n | Inr vs \<Rightarrow> Inr (v # vs))
      | None \<Rightarrow> if c = CHR 0x0A \<or> c = CHR 0x0D then b64_digits (Suc si) s else Inl si)"

fun b64_quanta :: "nat list \<Rightarrow> bytes option" where
  "b64_quanta [] = Some []"
| "b64_quanta [p] = None"
| "b64_quanta [p, q] = Some [char_of (p * 4 + q div 16)]"
| "b64_quanta [p, q, r] = Some [char_of (p * 4 + q div 16), char_of (q mod 16 * 16 + r div 4)]"
| "b64_quanta (p # q # r # s # vs) =
     (case b64_quanta vs of
        None \<Rightarrow> None
      | Some bs \<Rightarrow> Some (char_of (p * 4 + q div 16) # char_of (q mod 16 * 16 + r div 4) # char_of (r mod 4 * 64 + s) # bs))"

definition b64_corrupt :: "nat \<Rightarrow> string" where
  "b64_corrupt n = ''illegal base64 data at input byte '' @ go_itoa (int n)"

definition b64_decode :: "string \<Rightarrow> string + bytes" where
  "b64_decode s =
     (case b64_digits 0 s of
        Inl n \<Rightarrow> Inl (b64_corrupt n)
      | Inr vs \<Rightarrow> (case b64_quanta vs of None \<Rightarrow> Inl (b64_corrupt (length s - 1)) | Some bs \<Rightarrow> Inr bs))"

section \<open>Decoding inverts encoding\<close>

lemma b64_value_char: "n < 64 \<Longrightarrow> b64_value (b64_char n) = Some n"
  by (auto simp: b64_value_def b64_char_def Let_def)

lemma b64_digits_chars:
  "\<forall>n \<in> set ns. n < 64 \<Longrightarrow> b64_digits si (map b64_char ns) = Inr ns"
  by (induction ns arbitrary: si) (simp_all add: b64_value_char)

fun b64_values :: "bytes \<Rightarrow> nat list" where
  "b64_values [] = []"
| "b64_values [a] = [of_char a div 4, of_char a mod 4 * 16]"
| "b64_values [a, b] = [of_char a div 4, of_char a mod 4 * 16 + of_char b div 16, of_char b mod 16 * 4]"
| "b64_values (a # b # c # r) =
     of_char a div 4 # (of_char a mod 4 * 16 + of_char b div 16) # (of_char b mod 16 * 4 + of_char c div 64) #
     of_char c mod 64 # b64_values r"

lemma b64_encode_values: "b64_encode bs = map b64_char (b64_values bs)"
  by (induction bs rule: b64_values.induct) (simp_all add: Let_def)

lemma char_below: "(of_char c :: nat) < 256"
  by simp

lemma b64_values_below: "\<forall>n \<in> set (b64_values bs). n < 64"
proof (induction bs rule: b64_values.induct)
  case (2 a)
  then show ?case using char_below [of a] by (auto simp: div_less_iff_less_mult)
next
  case (3 a b)
  have "of_char b div 16 < (16 :: nat)" using char_below [of b] by (simp add: div_less_iff_less_mult)
  moreover have "of_char a mod 4 * 16 \<le> (48 :: nat)" by simp
  ultimately have "of_char a mod 4 * 16 + of_char b div 16 < (64 :: nat)" by linarith
  then show ?case by (auto simp: div_less_iff_less_mult)
next
  case (4 a b c r)
  have "of_char b div 16 < (16 :: nat)" "of_char c div 64 < (4 :: nat)"
    using char_below [of b] char_below [of c] by (simp_all add: div_less_iff_less_mult)
  moreover have "of_char a mod 4 * 16 \<le> (48 :: nat)" "of_char b mod 16 * 4 \<le> (60 :: nat)" by simp_all
  ultimately have "of_char a mod 4 * 16 + of_char b div 16 < (64 :: nat)" "of_char b mod 16 * 4 + of_char c div 64 < (64 :: nat)"
    by linarith+
  with 4 show ?case by (auto simp: div_less_iff_less_mult)
qed simp

lemma char_join:
  "char_of (of_char a div 4 * 4 + (of_char a mod 4 * 16) div 16 :: nat) = (a :: char)"
  "char_of (of_char a div 4 * 4 + (of_char a mod 4 * 16 + of_char b div 16) div 16 :: nat) = (a :: char)"
  "char_of ((of_char a mod 4 * 16 + of_char b div 16) mod 16 * 16 + of_char b mod 16 * 4 div 4 :: nat) = (b :: char)"
  "char_of ((of_char a mod 4 * 16 + of_char b div 16) mod 16 * 16 + (of_char b mod 16 * 4 + of_char c div 64) div 4 :: nat) = (b :: char)"
  "char_of ((of_char b mod 16 * 4 + of_char c div 64) mod 4 * 64 + of_char c mod 64 :: nat) = (c :: char)"
proof -
  have b: "(of_char b :: nat) div 16 < 16" and c: "(of_char c :: nat) div 64 < 4"
    using char_below [of b] char_below [of c] by (simp_all add: div_less_iff_less_mult)
  have "(of_char a mod 4 * 16 + of_char b div 16) div 16 = (of_char a mod 4 :: nat)" using b by simp
  moreover have "(of_char a mod 4 * 16 + of_char b div 16) mod 16 = (of_char b div 16 :: nat)" using b by simp
  moreover have "(of_char b mod 16 * 4 + of_char c div 64) div 4 = (of_char b mod 16 :: nat)" using c by simp
  moreover have "(of_char b mod 16 * 4 + of_char c div 64) mod 4 = (of_char c div 64 :: nat)" using c by simp
  moreover have m: "(of_char x :: nat) div 4 * 4 + of_char x mod 4 = of_char x" "(of_char x :: nat) div 16 * 16 + of_char x mod 16 = of_char x"
      "(of_char x :: nat) div 64 * 64 + of_char x mod 64 = of_char x" for x :: char by (rule div_mult_mod_eq)+
  ultimately show
    "char_of (of_char a div 4 * 4 + (of_char a mod 4 * 16) div 16 :: nat) = a"
    "char_of (of_char a div 4 * 4 + (of_char a mod 4 * 16 + of_char b div 16) div 16 :: nat) = a"
    "char_of ((of_char a mod 4 * 16 + of_char b div 16) mod 16 * 16 + of_char b mod 16 * 4 div 4 :: nat) = b"
    "char_of ((of_char a mod 4 * 16 + of_char b div 16) mod 16 * 16 + (of_char b mod 16 * 4 + of_char c div 64) div 4 :: nat) = b"
    "char_of ((of_char b mod 16 * 4 + of_char c div 64) mod 4 * 64 + of_char c mod 64 :: nat) = c"
    by simp_all
qed

lemma b64_quanta_values: "b64_quanta (b64_values bs) = Some bs"
  by (induction bs rule: b64_values.induct) (simp_all only: b64_values.simps b64_quanta.simps char_join option.case)

lemma b64_roundtrip: "b64_decode (b64_encode bs) = Inr bs"
  by (simp add: b64_decode_def b64_encode_values b64_digits_chars b64_values_below b64_quanta_values)

lemma b64_char_not_dot: "n < 64 \<Longrightarrow> b64_char n \<noteq> dot"
  using b64_value_char [of n] by (auto simp: b64_value_def)

lemma no_dot_b64_encode: "no_dot (b64_encode bs)"
proof -
  have "dot \<notin> b64_char ` {n. n < 64}" using b64_char_not_dot by force
  then show ?thesis using b64_values_below [of bs] by (auto simp: no_dot_def b64_encode_values)
qed

end
