(* ===== verification/Auth_Token.thy ===== *)
theory Auth_Token
  imports Auth_Grants Go_Base64
begin

text \<open>
  \<open>internal/authcallout/token.go\<close>: the verifier port, the chain of verifiers, the HMAC verifier of
  development tokens, and the tool that mints them. HMAC-SHA-256 and the JSON codec of the claims
  are parameters: the lemmas hold for every keyed digest, and the round trip asks of the codec
  that decoding inverts encoding. Base64 is the model of \<open>Go_Base64\<close>.
\<close>

section \<open>The verifier port\<close>

text \<open>A verifier may keep state of its own (a key cache, a clock), so it acts on a world.\<close>

type_synonym 'w verifier = "'w \<Rightarrow> string \<Rightarrow> (string + identity) \<times> 'w"

fun chain_links :: "'w verifier list \<Rightarrow> string \<Rightarrow> string \<Rightarrow> 'w \<Rightarrow> (string + identity) \<times> 'w" where
  "chain_links [] token lastErr w = (Inl lastErr, w)"
| "chain_links (l # links) token lastErr w =
     (case l w token of
        (Inr i, w') \<Rightarrow> (Inr i, w')
      | (Inl err, w') \<Rightarrow> chain_links links token err w')"

definition ChainVerify :: "'w verifier list \<Rightarrow> 'w verifier" where
  "ChainVerify links w token = chain_links links token ''authcallout: no verifier accepted the token'' w"

section \<open>Development tokens\<close>

record claims =
  cl_tenant :: string
  cl_user :: string
  cl_role :: string
  cl_capability :: string
  cl_exp :: int

record token_codec =
  tc_hmac :: "bytes \<Rightarrow> bytes \<Rightarrow> bytes"
  tc_unmarshal :: "bytes \<Rightarrow> string + claims"
  tc_marshal :: "claims \<Rightarrow> string + bytes"

record hmac_verifier =
  hv_secret :: bytes
  hv_allow_backend :: bool

definition NewHMACVerifier :: "bytes \<Rightarrow> (hmac_verifier \<Rightarrow> hmac_verifier) list \<Rightarrow> hmac_verifier" where
  "NewHMACVerifier secret opts = fold (\<lambda>opt. opt) opts \<lparr>hv_secret = secret, hv_allow_backend = False\<rparr>"

definition AllowHMACTrustedBackend :: "hmac_verifier \<Rightarrow> hmac_verifier" where
  "AllowHMACTrustedBackend v = v\<lparr>hv_allow_backend := True\<rparr>"

text \<open>\<open>Time.Unix\<close>: seconds since 1970, where times count nanoseconds since the year 1.\<close>

definition unix_of :: "gtime \<Rightarrow> int" where
  "unix_of t = t div 1000000000 - 62135596800"

text \<open>The checks on the decoded claims, in the order of \<open>Verify\<close>.\<close>

definition claims_identity :: "hmac_verifier \<Rightarrow> gtime \<Rightarrow> claims \<Rightarrow> string + identity" where
  "claims_identity v now c =
     (if cl_exp c \<noteq> 0 \<and> unix_of now > cl_exp c then Inl ''authcallout: token expired''
      else if cl_tenant c = '''' \<or> cl_user c = '''' then Inl ''authcallout: token missing tenant/user''
      else case validSubjectToken (cl_tenant c) of
        Some err \<Rightarrow> Inl (''authcallout: invalid tenant: '' @ err)
      | None \<Rightarrow>
     (case validSubjectToken (cl_user c) of
        Some err \<Rightarrow> Inl (''authcallout: invalid user: '' @ err)
      | None \<Rightarrow>
      if cl_capability c \<noteq> '''' then
        (if cl_role c \<noteq> '''' \<or> \<not> IsSubscriberCapability (cl_capability c)
         then Inl (''authcallout: capability '' @ go_quote (cl_capability c) @ '' not permitted over HMAC'')
         else Inr (no_identity\<lparr>id_tenant := cl_tenant c, id_user := cl_user c, id_capability := cl_capability c\<rparr>))
      else if cl_role c = RoleTrustedBackend then
        (if \<not> hv_allow_backend v then Inl ''authcallout: trusted-backend role not permitted over HMAC''
         else Inr (no_identity\<lparr>id_tenant := cl_tenant c, id_user := cl_user c, id_role := RoleTrustedBackend\<rparr>))
      else Inl (''authcallout: role '' @ go_quote (cl_role c) @ '' not permitted over HMAC'')))"

definition HMACVerify :: "token_codec \<Rightarrow> hmac_verifier \<Rightarrow> gtime \<Rightarrow> string \<Rightarrow> string + identity" where
  "HMACVerify tc v now token =
     (case split_on dot token of
        [p0, p1] \<Rightarrow>
          (case b64_decode p0 of
             Inl err \<Rightarrow> Inl (''authcallout: bad token body: '' @ err)
           | Inr body \<Rightarrow>
          (case b64_decode p1 of
             Inl err \<Rightarrow> Inl (''authcallout: bad token sig: '' @ err)
           | Inr sig \<Rightarrow>
          (if sig \<noteq> tc_hmac tc (hv_secret v) p0 then Inl ''authcallout: token signature mismatch''
           else (case tc_unmarshal tc body of
                   Inl err \<Rightarrow> Inl (''authcallout: bad claims: '' @ err)
                 | Inr c \<Rightarrow> claims_identity v now c))))
      | _ \<Rightarrow> Inl ''authcallout: malformed token'')"

definition MintDevToken :: "token_codec \<Rightarrow> bytes \<Rightarrow> identity \<Rightarrow> duration \<Rightarrow> gtime \<Rightarrow> string + string" where
  "MintDevToken tc secret i ttl now =
     (if id_role i \<noteq> '''' \<and> id_capability i \<noteq> '''' then Inl ''authcallout: role and capability are mutually exclusive''
      else if id_role i = '''' \<and> \<not> IsSubscriberCapability (id_capability i)
      then Inl (''authcallout: capability '' @ go_quote (id_capability i) @ '' not permitted'')
      else if id_role i \<noteq> '''' \<and> id_role i \<noteq> RoleTrustedBackend
      then Inl (''authcallout: role '' @ go_quote (id_role i) @ '' not permitted'')
      else
        let c = \<lparr>cl_tenant = id_tenant i, cl_user = id_user i, cl_role = id_role i, cl_capability = id_capability i,
                 cl_exp = (if ttl > 0 then unix_of (now + ttl) else 0)\<rparr>
        in (case tc_marshal tc c of
              Inl err \<Rightarrow> Inl err
            | Inr body \<Rightarrow> Inr (b64_encode body @ ''.'' @ b64_encode (tc_hmac tc secret (b64_encode body)))))"

section \<open>What the verifier accepts\<close>

definition grantable :: "identity \<Rightarrow> bool" where
  "grantable i \<longleftrightarrow> named_id i \<and> (visitor_id i \<or> backend_id i \<or> agent_id i)"

lemma claims_identity_Inr:
  "claims_identity v now c = Inr i \<longleftrightarrow>
     (cl_exp c = 0 \<or> unix_of now \<le> cl_exp c) \<and> validSubjectToken (cl_tenant c) = None \<and> validSubjectToken (cl_user c) = None \<and>
     (IsSubscriberCapability (cl_capability c) \<and> cl_role c = '''' \<and>
        i = no_identity\<lparr>id_tenant := cl_tenant c, id_user := cl_user c, id_capability := cl_capability c\<rparr> \<or>
      cl_capability c = '''' \<and> cl_role c = RoleTrustedBackend \<and> hv_allow_backend v \<and>
        i = no_identity\<lparr>id_tenant := cl_tenant c, id_user := cl_user c, id_role := RoleTrustedBackend\<rparr>)"
  by (auto simp: claims_identity_def IsSubscriberCapability_def validSubjectToken_def split: option.splits if_splits)

lemma claims_identity_grantable:
  assumes "claims_identity v now c = Inr i"
  shows "grantable i \<and> (backend_id i \<longrightarrow> hv_allow_backend v) \<and> \<not> visitor_id i"
  using assms
  by (auto simp: claims_identity_Inr grantable_def named_id_def agent_id_def backend_id_def visitor_id_def no_identity_def)

lemma HMACVerify_Inr:
  "HMACVerify tc v now token = Inr i \<longleftrightarrow>
     (\<exists>p0 p1 body c. token = p0 @ ''.'' @ p1 \<and> no_dot p0 \<and> no_dot p1 \<and> b64_decode p0 = Inr body \<and>
        b64_decode p1 = Inr (tc_hmac tc (hv_secret v) p0) \<and> tc_unmarshal tc body = Inr c \<and>
        claims_identity v now c = Inr i)" (is "?L \<longleftrightarrow> ?R")
proof
  assume ?L
  then obtain p0 p1 where sp: "split_on dot token = [p0, p1]"
    by (auto simp: HMACVerify_def split: list.splits)
  have "token = p0 @ ''.'' @ p1" using join_split [of dot token] by (simp add: sp)
  moreover have "no_dot p0" "no_dot p1" using split_on_parts [of _ dot token] by (auto simp: sp no_dot_def)
  moreover obtain body c where "b64_decode p0 = Inr body" "b64_decode p1 = Inr (tc_hmac tc (hv_secret v) p0)"
      "tc_unmarshal tc body = Inr c" "claims_identity v now c = Inr i"
    using \<open>?L\<close> by (auto simp: HMACVerify_def sp split: sum.splits if_splits)
  ultimately show ?R by blast
next
  assume ?R
  then obtain p0 p1 body c where r: "token = p0 @ ''.'' @ p1" "no_dot p0" "no_dot p1" "b64_decode p0 = Inr body"
    "b64_decode p1 = Inr (tc_hmac tc (hv_secret v) p0)" "tc_unmarshal tc body = Inr c" "claims_identity v now c = Inr i"
    by blast
  have "split_on dot token = [p0, p1]"
    using r(1,2,3) split_on_append_sep [of dot p0 p1] by (simp add: no_dot_def split_on_no_sep)
  with r show ?L by (simp add: HMACVerify_def)
qed

section \<open>The contract of a verifier\<close>

text \<open>Every identity a verifier returns is one that \<open>GrantsFor\<close> accepts.\<close>

locale verifier_port =
  fixes verify :: "'w verifier"
  assumes grantable: "verify w token = (Inr i, w') \<Longrightarrow> grantable i"
begin

lemma accepted_granted:
  assumes "verify w token = (Inr i, w')" "conn \<noteq> ''''"
  obtains g where "GrantsFor i conn = Inr g"
  using grantable [OF assms(1)] assms(2) GrantsFor_iff [of i conn] by (auto simp: grantable_def)

end

definition hmac_port :: "token_codec \<Rightarrow> hmac_verifier \<Rightarrow> ('w \<Rightarrow> gtime) \<Rightarrow> 'w verifier" where
  "hmac_port tc v now w token = (HMACVerify tc v (now w) token, w)"

interpretation hmac: verifier_port "hmac_port tc v now"
proof
  fix w token i and w' :: 'a
  assume "hmac_port tc v now w token = (Inr i, w')"
  then have "HMACVerify tc v (now w) token = Inr i" by (auto simp: hmac_port_def)
  then show "grantable i" using claims_identity_grantable by (fastforce simp: HMACVerify_Inr)
qed

lemma chain_accepts:
  assumes "chain_links links token err w = (Inr i, w')"
  shows "\<exists>l \<in> set links. \<exists>w1. l w1 token = (Inr i, w')"
  using assms
proof (induction links arbitrary: err w)
  case (Cons l links)
  then show ?case by (cases "l w token" rule: prod.exhaust) (fastforce split: sum.splits)
qed simp

lemma chain_grantable:
  assumes "\<forall>l \<in> set links. verifier_port l"
  shows "verifier_port (ChainVerify links)"
proof
  fix w token i w'
  assume "ChainVerify links w token = (Inr i, w')"
  then obtain l w1 where "l \<in> set links" "l w1 token = (Inr i, w')"
    using chain_accepts unfolding ChainVerify_def by metis
  with assms verifier_port.grantable show "grantable i" by metis
qed

section \<open>Minted tokens verify\<close>

lemma mint_verifies:
  assumes "MintDevToken tc secret i ttl t0 = Inr token" "named_id i"
    and codec: "\<And>c b. tc_marshal tc c = Inr b \<Longrightarrow> cl_tenant c = id_tenant i \<Longrightarrow> cl_user c = id_user i \<Longrightarrow>
      cl_role c = '''' \<or> cl_role c = RoleTrustedBackend \<Longrightarrow> cl_capability c = '''' \<or> IsSubscriberCapability (cl_capability c) \<Longrightarrow>
      tc_unmarshal tc b = Inr c"
    and "hv_secret v = secret" "backend_id i \<longrightarrow> hv_allow_backend v" "ttl \<le> 0 \<or> unix_of now \<le> unix_of (t0 + ttl)"
  shows "HMACVerify tc v now token =
    Inr (no_identity\<lparr>id_tenant := id_tenant i, id_user := id_user i, id_role := id_role i, id_capability := id_capability i\<rparr>)"
proof -
  define c where "c = \<lparr>cl_tenant = id_tenant i, cl_user = id_user i, cl_role = id_role i, cl_capability = id_capability i,
                 cl_exp = (if ttl > 0 then unix_of (t0 + ttl) else 0)\<rparr>"
  obtain body where b: "tc_marshal tc c = Inr body"
      "token = b64_encode body @ ''.'' @ b64_encode (tc_hmac tc secret (b64_encode body))"
    using assms(1) by (auto simp: MintDevToken_def c_def Let_def split: if_splits sum.splits)
  have k: "id_role i = '''' \<and> IsSubscriberCapability (id_capability i) \<or> id_role i = RoleTrustedBackend \<and> id_capability i = ''''"
    using assms(1) by (auto simp: MintDevToken_def split: if_splits)
  have "claims_identity v now c =
      Inr (no_identity\<lparr>id_tenant := id_tenant i, id_user := id_user i, id_role := id_role i, id_capability := id_capability i\<rparr>)"
    unfolding claims_identity_Inr using k assms(2,5,6) by (auto simp: c_def named_id_def backend_id_def no_identity_def)
  moreover have "tc_unmarshal tc body = Inr c" by (rule codec [OF b(1)]) (use k in \<open>auto simp: c_def\<close>)
  ultimately show ?thesis using b assms(4)
    unfolding HMACVerify_Inr using no_dot_b64_encode b64_roundtrip by blast
qed

end
