(* ===== verification/Auth_Visitor.thy ===== *)
theory Auth_Visitor
  imports Auth_Token
begin

text \<open>
  \<open>internal/authcallout/visitor_token.go\<close>: the verifier of desk-minted visitor tokens with its key
  cache. The JOSE library (parsing a JWS, a key set and a JWT), the clock and the fetch of the key
  set are parameters. \<open>keySet\<close> is split at the points where the code drops its mutex, so that
  the same pieces give the sequential function and the interleavings of concurrent calls
  (\<open>vsys_step\<close>), in which single-flight lets at most one fetch run.
\<close>

section \<open>The libraries the verifier calls\<close>

datatype jclaim = JString string | JOther

record jtoken =
  jt_issuer :: string
  jt_audience :: "string list"
  jt_subject :: string
  jt_expiration :: gtime
  jt_claims :: "(string \<times> jclaim) list"

record parse_opts =
  po_require_kid :: bool
  po_infer_alg :: bool
  po_validate :: bool
  po_issuer :: string
  po_audience :: string
  po_required :: "string list"

text \<open>
  \<open>jx_headers\<close> gives the key id and the algorithm of the protected header of every signature;
  \<open>vp_parse\<close> is \<open>jwt.Parse\<close>, which reads the verifier's clock while it validates.
\<close>

record ('s, 'w) vports =
  jx_headers :: "string \<Rightarrow> string + (string \<times> string) list"
  jx_parse_set :: "bytes \<Rightarrow> string + 's"
  jx_lookup :: "'s \<Rightarrow> string \<Rightarrow> bool"
  vp_parse :: "'w \<Rightarrow> parse_opts \<Rightarrow> 's \<Rightarrow> string \<Rightarrow> (string + jtoken) \<times> 'w"
  vp_clock :: "'w \<Rightarrow> gtime \<times> 'w"
  vp_fetch :: "'w \<Rightarrow> (string + bytes) \<times> 'w"

section \<open>The verifier\<close>

definition visitorIssuer :: string where "visitorIssuer = ''desk-ingress''"
definition visitorAudience :: string where "visitorAudience = ''relaypoint''"
definition ErrVisitorToken :: string where "ErrVisitorToken = ''authcallout: visitor token rejected''"

record 's VisitorVerifier =
  vv_ttl :: duration
  vv_refetch_min :: duration
  vv_cached :: "'s option"
  vv_fetched_at :: gtime
  vv_last_unknown :: gtime

definition NewVisitorVerifier :: "duration \<Rightarrow> ('s VisitorVerifier \<Rightarrow> 's VisitorVerifier) list \<Rightarrow> 's VisitorVerifier" where
  "NewVisitorVerifier ttl opts =
     fold (\<lambda>opt. opt) opts
       \<lparr>vv_ttl = ttl, vv_refetch_min = 5 * 1000000000, vv_cached = None, vv_fetched_at = 0, vv_last_unknown = 0\<rparr>"

definition WithVisitorRefetchCooldown :: "duration \<Rightarrow> 's VisitorVerifier \<Rightarrow> 's VisitorVerifier" where
  "WithVisitorRefetchCooldown d v = v\<lparr>vv_refetch_min := d\<rparr>"

definition headerKID :: "('s, 'w) vports \<Rightarrow> string \<Rightarrow> string + string" where
  "headerKID P token =
     (case jx_headers P token of
        Inl err \<Rightarrow> Inl (''parse jws: '' @ err)
      | Inr [] \<Rightarrow> Inl ''no signature''
      | Inr ((kid, alg) # _) \<Rightarrow>
          if kid = '''' then Inl ''no kid header''
          else if alg \<noteq> ''EdDSA'' then Inl ''unexpected alg''
          else Inr kid)"

definition claimString :: "jtoken \<Rightarrow> string \<Rightarrow> string \<times> bool" where
  "claimString t key =
     (case map_of (jt_claims t) key of Some (JString s) \<Rightarrow> (s, True) | _ \<Rightarrow> ('''', False))"

text \<open>
  The part of \<open>keySet\<close> under the mutex: the cached set serves, or the unknown key id is throttled,
  or a fetch is due because the cache is empty or stale, or because of an unknown key id.
\<close>

datatype 's decision = Hit 's | Throttled | Stale | Unknown

definition keyset_enter ::
  "('s, 'w) vports \<Rightarrow> string \<Rightarrow> 's VisitorVerifier \<Rightarrow> 'w \<Rightarrow> 's decision \<times> 's VisitorVerifier \<times> 'w" where
  "keyset_enter P kid v w =
     (case vv_cached v of
        None \<Rightarrow> (Stale, v, w)
      | Some cached \<Rightarrow>
          let (t1, w1) = vp_clock P w
          in if \<not> t1 - vv_fetched_at v < vv_ttl v then (Stale, v, w1)
             else if jx_lookup P cached kid then (Hit cached, v, w1)
             else let (t2, w2) = vp_clock P w1
                  in if t2 - vv_last_unknown v < vv_refetch_min v then (Throttled, v, w2)
                     else let (t3, w3) = vp_clock P w2
                          in (Unknown, v\<lparr>vv_last_unknown := t3\<rparr>, w3))"

text \<open>\<open>refetch\<close> in two parts: the HTTP fetch without the mutex, and what happens when it has answered.\<close>

definition refetch_land ::
  "('s, 'w) vports \<Rightarrow> string + bytes \<Rightarrow> 's VisitorVerifier \<Rightarrow> 'w \<Rightarrow> (string + 's) \<times> 's VisitorVerifier \<times> 'w" where
  "refetch_land P resp v w =
     (case resp of
        Inl err \<Rightarrow> (Inl err, v, w)
      | Inr raw \<Rightarrow>
          (case jx_parse_set P raw of
             Inl err \<Rightarrow> (Inl err, v, w)
           | Inr s \<Rightarrow> let (t, w1) = vp_clock P w
                      in (Inr s, v\<lparr>vv_cached := Some s, vv_fetched_at := t\<rparr>, w1)))"

definition refetch :: "('s, 'w) vports \<Rightarrow> 's VisitorVerifier \<Rightarrow> 'w \<Rightarrow> (string + 's) \<times> 's VisitorVerifier \<times> 'w" where
  "refetch P v w = (case vp_fetch P w of (resp, w1) \<Rightarrow> refetch_land P resp v w1)"

definition keyset_check :: "('s, 'w) vports \<Rightarrow> string \<Rightarrow> string + 's \<Rightarrow> string + 's" where
  "keyset_check P kid r =
     (case r of Inl err \<Rightarrow> Inl err | Inr s \<Rightarrow> if jx_lookup P s kid then Inr s else Inl ''unknown kid'')"

definition keySet ::
  "('s, 'w) vports \<Rightarrow> string \<Rightarrow> 's VisitorVerifier \<Rightarrow> 'w \<Rightarrow> (string + 's) \<times> 's VisitorVerifier \<times> 'w" where
  "keySet P kid v w =
     (case keyset_enter P kid v w of
        (Hit s, v1, w1) \<Rightarrow> (Inr s, v1, w1)
      | (Throttled, v1, w1) \<Rightarrow> (Inl ''unknown kid (refetch throttled)'', v1, w1)
      | (_, v1, w1) \<Rightarrow> (case refetch P v1 w1 of (r, v2, w2) \<Rightarrow> (keyset_check P kid r, v2, w2)))"

definition visitor_opts :: parse_opts where
  "visitor_opts = \<lparr>po_require_kid = True, po_infer_alg = False, po_validate = True, po_issuer = visitorIssuer,
     po_audience = visitorAudience, po_required = [''exp'']\<rparr>"

text \<open>\<open>Verify\<close> after \<open>jwt.Parse\<close>: the claims become an identity. \<open>rejected\<close> is the wrapping with \<open>%w\<close>.\<close>

abbreviation rejected :: "string \<Rightarrow> string + identity" where
  "rejected err \<equiv> Inl (ErrVisitorToken @ '': '' @ err)"

definition visitor_claims :: "jtoken \<Rightarrow> string + identity" where
  "visitor_claims parsed =
     (let tid = fst (claimString parsed ''tid''); sub = jt_subject parsed; role = fst (claimString parsed ''role'')
      in if tid = '''' \<or> sub = '''' then rejected ''missing tid/sub''
         else case validSubjectToken tid of
           Some err \<Rightarrow> rejected (''unsafe tid: '' @ err)
         | None \<Rightarrow>
        (case validSubjectToken sub of
           Some err \<Rightarrow> rejected (''unsafe sub: '' @ err)
         | None \<Rightarrow>
        (let (capability, capabilitySet) = claimString parsed ''cap'';
             (cid, cidSet) = claimString parsed ''cid'';
             roleSet = (map_of (jt_claims parsed) ''role'' \<noteq> None)
         in if capabilitySet then
              (if roleSet \<or> cidSet \<or> \<not> IsSubscriberCapability capability then rejected ''invalid subscriber claims''
               else Inr (no_identity\<lparr>id_tenant := tid, id_user := sub, id_capability := capability\<rparr>))
            else if role \<noteq> '''' \<or> \<not> cidSet \<or> cid = '''' then rejected ''missing cid''
            else (case validSubjectToken cid of
                    Some err \<Rightarrow> rejected (''unsafe cid: '' @ err)
                  | None \<Rightarrow> Inr (no_identity\<lparr>id_tenant := tid, id_user := sub, id_role := RoleVisitor,
                                    id_conversation := cid, id_expires_at := jt_expiration parsed\<rparr>)))))"

definition VisitorVerify ::
  "('s, 'w) vports \<Rightarrow> string \<Rightarrow> 's VisitorVerifier \<Rightarrow> 'w \<Rightarrow> (string + identity) \<times> 's VisitorVerifier \<times> 'w" where
  "VisitorVerify P token v w =
     (if token = '''' then (rejected ''empty token'', v, w)
      else case headerKID P token of
        Inl err \<Rightarrow> (rejected err, v, w)
      | Inr kid \<Rightarrow>
     (case keySet P kid v w of
        (Inl err, v1, w1) \<Rightarrow> (rejected (''jwks: '' @ err), v1, w1)
      | (Inr s, v1, w1) \<Rightarrow>
     (case vp_parse P w1 visitor_opts s token of
        (Inl err, w2) \<Rightarrow> (rejected err, v1, w2)
      | (Inr parsed, w2) \<Rightarrow> (visitor_claims parsed, v1, w2))))"

section \<open>What it accepts\<close>

lemma visitor_claims_Inr:
  assumes "visitor_claims parsed = Inr i"
  shows "grantable i \<and> \<not> backend_id i \<and> id_tenant i = fst (claimString parsed ''tid'') \<and> id_user i = jt_subject parsed \<and>
    (visitor_id i \<longrightarrow> claimString parsed ''cid'' = (id_conversation i, True) \<and> id_expires_at i = jt_expiration parsed) \<and>
    (agent_id i \<longrightarrow> claimString parsed ''cap'' = (id_capability i, True))"
proof -
  obtain cap capSet cid cidSet where c: "claimString parsed ''cap'' = (cap, capSet)" "claimString parsed ''cid'' = (cid, cidSet)"
    by fastforce
  let ?tid = "fst (claimString parsed ''tid'')"
  have ok: "validSubjectToken ?tid = None" "validSubjectToken (jt_subject parsed) = None"
    and r: "(if capSet then
        (if map_of (jt_claims parsed) ''role'' \<noteq> None \<or> cidSet \<or> \<not> IsSubscriberCapability cap then rejected ''invalid subscriber claims''
         else Inr (no_identity\<lparr>id_tenant := ?tid, id_user := jt_subject parsed, id_capability := cap\<rparr>))
      else if fst (claimString parsed ''role'') \<noteq> '''' \<or> \<not> cidSet \<or> cid = '''' then rejected ''missing cid''
      else (case validSubjectToken cid of
              Some err \<Rightarrow> rejected (''unsafe cid: '' @ err)
            | None \<Rightarrow> Inr (no_identity\<lparr>id_tenant := ?tid, id_user := jt_subject parsed, id_role := RoleVisitor,
                             id_conversation := cid, id_expires_at := jt_expiration parsed\<rparr>))) = Inr i"
    using assms unfolding visitor_claims_def Let_def c by (auto split: option.split_asm if_split_asm)
  show ?thesis
  proof (cases capSet)
    case True
    with r have "IsSubscriberCapability cap" "i = no_identity\<lparr>id_tenant := ?tid, id_user := jt_subject parsed, id_capability := cap\<rparr>"
      by (simp_all split: if_split_asm)
    with True ok show ?thesis
      by (simp add: c grantable_def named_id_def visitor_id_def agent_id_def backend_id_def no_identity_def)
  next
    case False
    with r have "cidSet" "validSubjectToken cid = None" "i = no_identity\<lparr>id_tenant := ?tid, id_user := jt_subject parsed,
        id_role := RoleVisitor, id_conversation := cid, id_expires_at := jt_expiration parsed\<rparr>"
      by (simp_all split: if_split_asm option.split_asm)
    with ok show ?thesis
      by (simp add: c grantable_def named_id_def visitor_id_def agent_id_def backend_id_def no_identity_def)
  qed
qed

lemma keySet_lookup: "keySet P kid v w = (Inr s, v', w') \<Longrightarrow> jx_lookup P s kid"
  by (auto simp: keySet_def keyset_enter_def keyset_check_def Let_def
      split: option.splits if_splits prod.splits decision.splits sum.splits)

lemma VisitorVerify_Inr:
  assumes "VisitorVerify P token v w = (Inr i, v', w')"
  obtains kid s v1 w1 parsed where "headerKID P token = Inr kid" "keySet P kid v w = (Inr s, v', w1)"
    "vp_parse P w1 visitor_opts s token = (Inr parsed, w')" "visitor_claims parsed = Inr i"
  using assms by (auto simp: VisitorVerify_def split: if_splits sum.splits prod.splits)

definition visitor_port :: "('s, 'w) vports \<Rightarrow> ('s VisitorVerifier \<times> 'w) verifier" where
  "visitor_port P vw token = (case VisitorVerify P token (fst vw) (snd vw) of (r, v', w') \<Rightarrow> (r, (v', w')))"

interpretation vis: verifier_port "visitor_port P"
proof
  fix w token i w'
  assume "visitor_port P w token = (Inr i, w')"
  then obtain v1 w1 where "VisitorVerify P token (fst w) (snd w) = (Inr i, v1, w1)"
    by (cases w') (auto simp: visitor_port_def split: prod.splits)
  then show "grantable i" by (rule VisitorVerify_Inr) (simp add: visitor_claims_Inr)
qed

end
