(* ===== verification/Auth_Jwks.thy ===== *)
theory Auth_Jwks
  imports Auth_Visitor
begin

text \<open>
  Concurrent calls of \<open>VisitorVerifier.keySet\<close>. The steps are the code's critical sections: entering
  (under the mutex), joining the single flight, its departure (the HTTP fetch, without the mutex), its
  landing (the store under the mutex and the release of the flight), and the final lookup. Calls go on entering, hitting the
  cache and joining while a flight is in the air. Two ghost fields are kept: the times at which an unknown key id started a
  fetch, and with every call the time at which it began.
\<close>

section \<open>Interleavings\<close>

datatype 's phase =
    Idle
  | Entered string gtime
  | Flying string gtime
  | Landed string gtime "string + 's"
  | Returned string gtime "string + 's"

text \<open>A flight in the air: the time of its departure and what the fetch answers.\<close>

record ('s, 'w) vsys =
  sy_v :: "'s VisitorVerifier"
  sy_flight :: "(gtime \<times> (string + bytes)) option"
  sy_threads :: "nat \<Rightarrow> 's phase"
  sy_w :: 'w
  sy_polls :: "gtime list"

fun land_phase :: "string + 's \<Rightarrow> 's phase \<Rightarrow> 's phase" where
  "land_phase r (Flying kid t) = Landed kid t r"
| "land_phase r p = p"

text \<open>
  \<open>tm w\<close> is the time in the world \<open>w\<close>. A flight lands with a key set within \<open>F\<close> of its departure: the timeout of the
  fetch, the store and the release of the flight; one that takes longer fails.
\<close>

inductive vsys_step :: "('s, 'w) vports \<Rightarrow> ('w \<Rightarrow> gtime) \<Rightarrow> duration \<Rightarrow> ('s, 'w) vsys \<Rightarrow> ('s, 'w) vsys \<Rightarrow> bool" for P tm F where
  hit: "sy_threads y i = Idle \<Longrightarrow> keyset_enter P kid (sy_v y) (sy_w y) = (Hit s, v', w') \<Longrightarrow>
    vsys_step P tm F y (y\<lparr>sy_v := v', sy_w := w', sy_threads := (sy_threads y)(i := Returned kid (tm (sy_w y)) (Inr s))\<rparr>)"
| throttled: "sy_threads y i = Idle \<Longrightarrow> keyset_enter P kid (sy_v y) (sy_w y) = (Throttled, v', w') \<Longrightarrow>
    vsys_step P tm F y (y\<lparr>sy_v := v', sy_w := w',
      sy_threads := (sy_threads y)(i := Returned kid (tm (sy_w y)) (Inl ''unknown kid (refetch throttled)''))\<rparr>)"
| stale: "sy_threads y i = Idle \<Longrightarrow> keyset_enter P kid (sy_v y) (sy_w y) = (Stale, v', w') \<Longrightarrow>
    vsys_step P tm F y (y\<lparr>sy_v := v', sy_w := w', sy_threads := (sy_threads y)(i := Entered kid (tm (sy_w y)))\<rparr>)"
| unknown: "sy_threads y i = Idle \<Longrightarrow> keyset_enter P kid (sy_v y) (sy_w y) = (Unknown, v', w') \<Longrightarrow>
    vsys_step P tm F y (y\<lparr>sy_v := v', sy_w := w', sy_threads := (sy_threads y)(i := Entered kid (tm (sy_w y))),
      sy_polls := vv_last_unknown v' # sy_polls y\<rparr>)"
| join: "sy_threads y i = Entered kid t \<Longrightarrow>
    vsys_step P tm F y (y\<lparr>sy_threads := (sy_threads y)(i := Flying kid t)\<rparr>)"
| depart: "sy_flight y = None \<Longrightarrow> sy_threads y i = Flying kid t \<Longrightarrow> vp_fetch P (sy_w y) = (resp, w') \<Longrightarrow>
    vsys_step P tm F y (y\<lparr>sy_w := w', sy_flight := Some (tm (sy_w y), resp)\<rparr>)"
| land: "sy_flight y = Some (d, resp) \<Longrightarrow> refetch_land P resp (sy_v y) (sy_w y) = (r, v', w') \<Longrightarrow> isl r \<or> tm w' \<le> d + F \<Longrightarrow>
    vsys_step P tm F y (y\<lparr>sy_v := v', sy_w := w', sy_flight := None, sy_threads := (\<lambda>j. land_phase r (sy_threads y j))\<rparr>)"
| lost: "sy_flight y = Some (d, resp) \<Longrightarrow>
    vsys_step P tm F y (y\<lparr>sy_flight := Some (d, Inl err)\<rparr>)"
| check: "sy_threads y i = Landed kid t r \<Longrightarrow>
    vsys_step P tm F y (y\<lparr>sy_threads := (sy_threads y)(i := Returned kid t (keyset_check P kid r))\<rparr>)"
| again: "sy_threads y i = Returned kid t r \<Longrightarrow>
    vsys_step P tm F y (y\<lparr>sy_threads := (sy_threads y)(i := Idle)\<rparr>)"
| pass_time: "tm (sy_w y) \<le> tm w' \<Longrightarrow> vsys_step P tm F y (y\<lparr>sy_w := w'\<rparr>)"

definition vsys_init :: "'s VisitorVerifier \<Rightarrow> 'w \<Rightarrow> ('s, 'w) vsys" where
  "vsys_init v w = \<lparr>sy_v = v, sy_flight = None, sy_threads = (\<lambda>_. Idle), sy_w = w, sy_polls = []\<rparr>"

section \<open>The environment\<close>

text \<open>
  \<open>set_at\<close> is the key set that desk publishes at a time. The clock is monotone, and a fetch returns a set
  published while it ran.
\<close>

locale jwks_env =
  fixes P :: "('s, 'w) vports" and tm :: "'w \<Rightarrow> gtime" and set_at :: "gtime \<Rightarrow> 's"
  assumes clock_law: "vp_clock P w = (t, w') \<Longrightarrow> tm w \<le> t \<and> t \<le> tm w'"
    and fetch_law: "vp_fetch P w = (r, w') \<Longrightarrow> tm w \<le> tm w'"
    and published: "vp_fetch P w = (Inr raw, w') \<Longrightarrow> jx_parse_set P raw = Inr s \<Longrightarrow>
      \<exists>u. tm w \<le> u \<and> u \<le> tm w' \<and> s = set_at u"
begin

lemma enter_cases:
  assumes "keyset_enter P kid v w = (d, v', w')"
  obtains (hit) s where "d = Hit s" "v' = v" "vv_cached v = Some s" "jx_lookup P s kid"
      "fst (vp_clock P w) - vv_fetched_at v < vv_ttl v" "tm w \<le> fst (vp_clock P w)" "fst (vp_clock P w) \<le> tm w'"
  | (throttled) "d = Throttled" "v' = v" "tm w \<le> tm w'"
  | (stale) "d = Stale" "v' = v" "tm w \<le> tm w'"
  | (unknown) t3 where "d = Unknown" "v' = v\<lparr>vv_last_unknown := t3\<rparr>" "vv_last_unknown v + vv_refetch_min v \<le> t3" "tm w \<le> tm w'" "t3 \<le> tm w'"
proof (cases "vv_cached v")
  case None
  with assms show ?thesis by (intro stale) (auto simp: keyset_enter_def)
next
  case (Some s)
  obtain t1 w1 where 1: "vp_clock P w = (t1, w1)" by fastforce
  obtain t2 w2 where 2: "vp_clock P w1 = (t2, w2)" by fastforce
  obtain t3 w3 where 3: "vp_clock P w2 = (t3, w3)" by fastforce
  note le = clock_law [OF 1] clock_law [OF 2] clock_law [OF 3]
  consider "\<not> t1 - vv_fetched_at v < vv_ttl v" | "t1 - vv_fetched_at v < vv_ttl v" "jx_lookup P s kid"
    | "t1 - vv_fetched_at v < vv_ttl v" "\<not> jx_lookup P s kid" by blast
  then show ?thesis
  proof cases
    case 1
    with Some \<open>vp_clock P w = (t1, w1)\<close> assms le show ?thesis by (intro stale) (auto simp: keyset_enter_def Let_def)
  next
    case 2
    with Some 1 assms le show ?thesis by (intro hit [of s]) (auto simp: keyset_enter_def Let_def)
  next
    case c: 3
    show ?thesis
    proof (cases "t2 - vv_last_unknown v < vv_refetch_min v")
      case True
      with c Some 1 2 assms le show ?thesis by (intro throttled) (auto simp: keyset_enter_def Let_def)
    next
      case False
      with c Some 1 2 3 assms le show ?thesis by (intro unknown [of t3]) (auto simp: keyset_enter_def Let_def)
    qed
  qed
qed

lemma enter_time: "keyset_enter P kid v w = (d, v', w') \<Longrightarrow> tm w \<le> tm w'"
  by (cases rule: enter_cases) auto

lemma land_cases:
  assumes "refetch_land P resp v w = (r, v', w')"
  obtains (error) err where "r = Inl err" "v' = v" "tm w \<le> tm w'"
  | (fetched) raw s t where "resp = Inr raw" "jx_parse_set P raw = Inr s" "r = Inr s" "v' = v\<lparr>vv_cached := Some s, vv_fetched_at := t\<rparr>"
      "tm w \<le> t" "t \<le> tm w'"
proof (cases resp)
  case (Inl err)
  with assms show ?thesis by (intro error [of err]) (auto simp: refetch_land_def)
next
  case (Inr raw)
  show ?thesis
  proof (cases "jx_parse_set P raw")
    case (Inl err)
    with assms Inr show ?thesis by (intro error [of err]) (auto simp: refetch_land_def)
  next
    case s: (Inr s)
    obtain t w1 where "vp_clock P w = (t, w1)" by fastforce
    with assms Inr s clock_law [OF this] show ?thesis by (intro fetched [of raw s t]) (auto simp: refetch_land_def)
  qed
qed

lemma land_time: "refetch_land P resp v w = (r, v', w') \<Longrightarrow> tm w \<le> tm w'"
  by (cases rule: land_cases) auto

lemma refetch_time:
  assumes "refetch P v w = (r, v', w')"
  shows "tm w \<le> tm w'"
proof -
  obtain resp w1 where "vp_fetch P w = (resp, w1)" by fastforce
  with assms fetch_law [OF this] land_time [of resp v w1 r v' w'] show ?thesis by (simp add: refetch_def)
qed

lemma keySet_time:
  assumes "keySet P kid v w = (r, v', w')"
  shows "tm w \<le> tm w'"
proof -
  obtain d v1 w1 where e: "keyset_enter P kid v w = (d, v1, w1)" using prod_cases3 .
  obtain r2 v2 w2 where f: "refetch P v1 w1 = (r2, v2, w2)" using prod_cases3 .
  show ?thesis using assms e f enter_time [OF e] refetch_time [OF f] by (cases d) (auto simp: keySet_def)
qed

text \<open>
  The invariant: a set is at most \<open>F\<close> older than the time \<open>t\<close> that goes with it. That is so of the cached
  set and its time stamp, of a set that landed and the beginning of the calls that get it, and, up to the TTL, of an answer
  and the beginning of its call.
\<close>

definition aged :: "duration \<Rightarrow> gtime \<Rightarrow> 's \<Rightarrow> bool" where
  "aged F t s \<longleftrightarrow> (\<exists>u. s = set_at u \<and> t \<le> u + F)"

definition phase_ok :: "duration \<Rightarrow> duration \<Rightarrow> gtime \<Rightarrow> 's phase \<Rightarrow> bool" where
  "phase_ok F ttl now p \<longleftrightarrow>
     (case p of
        Idle \<Rightarrow> True
      | Entered kid t \<Rightarrow> t \<le> now
      | Flying kid t \<Rightarrow> t \<le> now
      | Landed kid t r \<Rightarrow> (case r of Inl e \<Rightarrow> True | Inr s \<Rightarrow> aged F t s)
      | Returned kid t r \<Rightarrow> (case r of Inl e \<Rightarrow> True | Inr s \<Rightarrow> jx_lookup P s kid \<and> aged F (t - ttl) s))"

definition flight_ok :: "gtime \<Rightarrow> (gtime \<times> (string + bytes)) option \<Rightarrow> bool" where
  "flight_ok now f \<longleftrightarrow>
     (\<forall>d raw s. f = Some (d, Inr raw) \<and> jx_parse_set P raw = Inr s \<longrightarrow> (\<exists>u. d \<le> u \<and> u \<le> now \<and> s = set_at u))"

definition spaced :: "duration \<Rightarrow> gtime list \<Rightarrow> bool" where
  "spaced d ts \<longleftrightarrow> (\<forall>k. Suc k < length ts \<longrightarrow> ts ! Suc k + d \<le> ts ! k)"

definition vsys_ok :: "duration \<Rightarrow> duration \<Rightarrow> duration \<Rightarrow> ('s, 'w) vsys \<Rightarrow> bool" where
  "vsys_ok F ttl d y \<longleftrightarrow>
     vv_ttl (sy_v y) = ttl \<and> vv_refetch_min (sy_v y) = d \<and>
     (\<forall>s. vv_cached (sy_v y) = Some s \<longrightarrow> aged F (vv_fetched_at (sy_v y)) s) \<and>
     (\<forall>i. phase_ok F ttl (tm (sy_w y)) (sy_threads y i)) \<and> flight_ok (tm (sy_w y)) (sy_flight y) \<and>
     spaced d (sy_polls y) \<and> (sy_polls y \<noteq> [] \<longrightarrow> hd (sy_polls y) = vv_last_unknown (sy_v y))"

lemma spaced_Cons: "spaced d ts \<Longrightarrow> (ts \<noteq> [] \<Longrightarrow> hd ts + d \<le> t) \<Longrightarrow> spaced d (t # ts)"
  by (cases ts) (auto simp: spaced_def nth_Cons split: nat.splits)

lemma aged_mono: "aged F t s \<Longrightarrow> t' \<le> t \<Longrightarrow> aged F t' s"
  by (force simp: aged_def)

lemma phase_ok_mono: "phase_ok F ttl now p \<Longrightarrow> now \<le> now' \<Longrightarrow> phase_ok F ttl now' p"
  by (cases p) (auto simp: phase_ok_def)

lemma flight_ok_mono: "flight_ok now f \<Longrightarrow> now \<le> now' \<Longrightarrow> flight_ok now' f"
proof -
  assume a: "flight_ok now f" "now \<le> now'"
  have "\<exists>u. d \<le> u \<and> u \<le> now' \<and> s = set_at u" if f: "f = Some (d, Inr raw) \<and> jx_parse_set P raw = Inr s" for d raw s
  proof -
    obtain u where "d \<le> u" "u \<le> now" "s = set_at u" using a(1) f unfolding flight_ok_def by blast
    with a(2) show ?thesis by (intro exI [of _ u]) simp
  qed
  then show ?thesis unfolding flight_ok_def by blast
qed

text \<open>A step that lets time pass, and gives one call a good phase, keeps the invariant.\<close>

lemma vsys_ok_one:
  assumes "vsys_ok F ttl d y" "tm (sy_w y) \<le> tm w'" "phase_ok F ttl (tm w') p"
  shows "vsys_ok F ttl d (y\<lparr>sy_w := w', sy_threads := (sy_threads y)(i := p)\<rparr>)"
proof -
  have "\<forall>j. phase_ok F ttl (tm (sy_w y)) (sy_threads y j)" "flight_ok (tm (sy_w y)) (sy_flight y)" using assms(1) by (simp_all add: vsys_ok_def)
  with assms(2) have "\<forall>j. phase_ok F ttl (tm w') (sy_threads y j)" "flight_ok (tm w') (sy_flight y)"
    by (auto intro: phase_ok_mono flight_ok_mono)
  with assms(1,3) show ?thesis by (simp add: vsys_ok_def)
qed

lemma vsys_ok_step:
  assumes "vsys_step P tm F y y'" "vsys_ok F ttl d y" "0 \<le> ttl"
  shows "vsys_ok F ttl d y'"
  using assms(1)
proof cases
  case (hit i kid s v' w')
  from hit(3) show ?thesis
  proof (cases rule: enter_cases)
    case e: (hit s')
    with assms(2) have "aged F (vv_fetched_at (sy_v y)) s" "vv_ttl (sy_v y) = ttl" by (auto simp: vsys_ok_def)
    with e have "aged F (tm (sy_w y) - ttl) s" by (auto intro: aged_mono)
    with e vsys_ok_one [OF assms(2), of w' "Returned kid (tm (sy_w y)) (Inr s)" i] hit(1) show ?thesis by (simp add: phase_ok_def)
  qed simp_all
next
  case (throttled i kid v' w')
  with enter_time [OF throttled(3)] vsys_ok_one [OF assms(2), of w' "Returned kid (tm (sy_w y)) (Inl ''unknown kid (refetch throttled)'')" i]
  show ?thesis by (cases rule: enter_cases [OF throttled(3)]) (simp_all add: phase_ok_def)
next
  case (stale i kid v' w')
  with enter_time [OF stale(3)] vsys_ok_one [OF assms(2), of w' "Entered kid (tm (sy_w y))" i]
  show ?thesis by (cases rule: enter_cases [OF stale(3)]) (simp_all add: phase_ok_def)
next
  case (unknown i kid v' w')
  from unknown(3) show ?thesis
  proof (cases rule: enter_cases)
    case u: (unknown t3)
    have "spaced d (t3 # sy_polls y)" using assms(2) u(3) by (intro spaced_Cons) (auto simp: vsys_ok_def)
    with u unknown vsys_ok_one [OF assms(2) u(4), of "Entered kid (tm (sy_w y))" i]
    show ?thesis by (simp add: vsys_ok_def phase_ok_def)
  qed simp_all
next
  case (join i kid t)
  have "phase_ok F ttl (tm (sy_w y)) (sy_threads y i)" using assms(2) by (simp add: vsys_ok_def)
  with join(2) have "phase_ok F ttl (tm (sy_w y)) (Flying kid t)" by (simp add: phase_ok_def)
  from vsys_ok_one [OF assms(2) _ this, of i] show ?thesis unfolding join(1) by simp
next
  case (depart i kid t resp w')
  have le: "tm (sy_w y) \<le> tm w'" by (rule fetch_law [OF depart(4)])
  have "flight_ok (tm w') (Some (tm (sy_w y), resp))" using published depart(4) by (auto simp: flight_ok_def)
  with assms(2) depart(1) phase_ok_mono [OF _ le] show ?thesis by (simp add: vsys_ok_def)
next
  case (land t0 resp r v' w')
  have le: "tm (sy_w y) \<le> tm w'" by (rule land_time [OF land(3)])
  have old: "phase_ok F ttl (tm (sy_w y)) (sy_threads y j)" for j using assms(2) by (simp add: vsys_ok_def)
  from land(3) show ?thesis
  proof (cases rule: land_cases)
    case (error err)
    have "phase_ok F ttl (tm w') (land_phase r (sy_threads y j))" for j
      using phase_ok_mono [OF old le, of j] error(1) by (cases "sy_threads y j") (simp_all add: phase_ok_def)
    with error land assms(2) show ?thesis by (simp add: vsys_ok_def flight_ok_def)
  next
    case (fetched raw s t)
    obtain u where u: "t0 \<le> u" "s = set_at u"
      using assms(2) land(2) fetched(1,2) unfolding vsys_ok_def flight_ok_def by metis
    have b: "tm w' \<le> u + F" using land(4) fetched(3) u(1) by simp
    have a: "aged F t' s" if "t' \<le> tm w'" for t' using u(2) b that unfolding aged_def by (intro exI [of _ u]) simp
    have "phase_ok F ttl (tm w') (land_phase r (sy_threads y j))" for j
      using phase_ok_mono [OF old le, of j] fetched(3) a by (cases "sy_threads y j") (simp_all add: phase_ok_def)
    with fetched a land(1) assms(2) show ?thesis by (simp add: vsys_ok_def flight_ok_def)
  qed
next
  case (lost t0 resp err)
  with assms(2) show ?thesis by (simp add: vsys_ok_def flight_ok_def)
next
  case (check i kid t r)
  have l: "phase_ok F ttl (tm (sy_w y)) (Landed kid t r)" using assms(2) check(2) unfolding vsys_ok_def by metis
  have "phase_ok F ttl (tm (sy_w y)) (Returned kid t (keyset_check P kid r))"
  proof (cases r)
    case (Inr s)
    with l have "aged F t s" by (simp add: phase_ok_def)
    with assms(3) have "aged F (t - ttl) s" by (auto intro: aged_mono)
    with Inr show ?thesis by (simp add: keyset_check_def phase_ok_def)
  qed (simp add: keyset_check_def phase_ok_def)
  from vsys_ok_one [OF assms(2) _ this, of i] show ?thesis unfolding check(1) by simp
next
  case (again i kid t r)
  have "phase_ok F ttl (tm (sy_w y)) Idle" by (simp add: phase_ok_def)
  from vsys_ok_one [OF assms(2) _ this, of i] show ?thesis unfolding again(1) by simp
next
  case (pass_time w')
  with assms(2) phase_ok_mono flight_ok_mono show ?thesis unfolding vsys_ok_def by simp blast
qed

lemma vsys_ok_reach:
  assumes "(vsys_step P tm F)\<^sup>*\<^sup>* (vsys_init v w) y" "vv_cached v = None" "0 \<le> vv_ttl v"
  shows "vsys_ok F (vv_ttl v) (vv_refetch_min v) y"
  using assms(1)
proof (induction rule: rtranclp_induct)
  case base
  show ?case using assms(2) by (simp add: vsys_ok_def vsys_init_def spaced_def phase_ok_def flight_ok_def)
next
  case (step y z)
  with assms(3) show ?case by (blast intro: vsys_ok_step)
qed

lemma polls_spaced:
  assumes "(vsys_step P tm F)\<^sup>*\<^sup>* (vsys_init v w) y" "vv_cached v = None" "0 \<le> vv_ttl v" "Suc k < length (sy_polls y)"
  shows "sy_polls y ! Suc k + vv_refetch_min v \<le> sy_polls y ! k"
  using vsys_ok_reach [OF assms(1-3)] assms(4) by (simp add: vsys_ok_def spaced_def)

lemma revoked_key_dies:
  assumes "(vsys_step P tm F)\<^sup>*\<^sup>* (vsys_init v w) y" "vv_cached v = None" "0 \<le> vv_ttl v"
    and "sy_threads y i = Returned kid t (Inr s)" "\<forall>u \<ge> R. \<not> jx_lookup P (set_at u) kid"
  shows "t < R + vv_ttl v + F"
proof -
  have "phase_ok F (vv_ttl v) (tm (sy_w y)) (sy_threads y i)" using vsys_ok_reach [OF assms(1-3)] by (simp add: vsys_ok_def)
  with assms(4) obtain u where u: "s = set_at u" "t - vv_ttl v \<le> u + F" "jx_lookup P s kid" by (auto simp: aged_def phase_ok_def)
  with assms(5) have "\<not> R \<le> u" by blast
  with u(2) show ?thesis by linarith
qed

text \<open>The sequential function, when it is prompt, is one of the interleavings.\<close>

lemma flown:
  assumes "sy_threads y i = Entered kid t" "sy_flight y = None" "refetch P (sy_v y) (sy_w y) = (r, v', w')" "tm w' \<le> tm (sy_w y) + F"
  shows "\<exists>y'. (vsys_step P tm F)\<^sup>*\<^sup>* y y' \<and> sy_threads y' i = Returned kid t (keyset_check P kid r) \<and> sy_v y' = v' \<and> sy_w y' = w'"
proof -
  obtain resp w1 where f: "vp_fetch P (sy_w y) = (resp, w1)" by fastforce
  with assms(3) have l: "refetch_land P resp (sy_v y) w1 = (r, v', w')" by (simp add: refetch_def)
  define y1 where "y1 = y\<lparr>sy_threads := (sy_threads y)(i := Flying kid t)\<rparr>"
  define y2 where "y2 = y1\<lparr>sy_w := w1, sy_flight := Some (tm (sy_w y1), resp)\<rparr>"
  define y3 where "y3 = y2\<lparr>sy_v := v', sy_w := w', sy_flight := None, sy_threads := (\<lambda>j. land_phase r (sy_threads y2 j))\<rparr>"
  define y4 where "y4 = y3\<lparr>sy_threads := (sy_threads y3)(i := Returned kid t (keyset_check P kid r))\<rparr>"
  have "vsys_step P tm F y y1" unfolding y1_def by (rule vsys_step.join [OF assms(1)])
  moreover have "vsys_step P tm F y1 y2" unfolding y2_def
    by (rule vsys_step.depart [of _ i]) (use assms(2) f in \<open>simp_all add: y1_def\<close>)
  moreover have "vsys_step P tm F y2 y3" unfolding y3_def
    by (rule vsys_step.land [of _ "tm (sy_w y)" resp]) (use l assms(4) in \<open>simp_all add: y2_def y1_def\<close>)
  moreover have "vsys_step P tm F y3 y4" unfolding y4_def by (rule vsys_step.check) (simp add: y1_def y2_def y3_def)
  ultimately have "(vsys_step P tm F)\<^sup>*\<^sup>* y y4" by simp
  moreover have "sy_threads y4 i = Returned kid t (keyset_check P kid r)" "sy_v y4 = v'" "sy_w y4 = w'"
    by (simp_all add: y4_def y3_def)
  ultimately show ?thesis by blast
qed

lemma keySet_steps:
  assumes "keySet P kid (sy_v y) (sy_w y) = (r, v', w')" "sy_threads y i = Idle" "sy_flight y = None" "tm w' \<le> tm (sy_w y) + F"
  shows "\<exists>y'. (vsys_step P tm F)\<^sup>*\<^sup>* y y' \<and> sy_threads y' i = Returned kid (tm (sy_w y)) r \<and> sy_v y' = v' \<and> sy_w y' = w'"
proof -
  obtain d v1 w1 where e: "keyset_enter P kid (sy_v y) (sy_w y) = (d, v1, w1)" using prod_cases3 .
  have answered: ?thesis if "vsys_step P tm F y y1" "sy_threads y1 i = Returned kid (tm (sy_w y)) r" "sy_v y1 = v'" "sy_w y1 = w'" for y1
    using that by (blast intro: r_into_rtranclp)
  have fetch: ?thesis if "vsys_step P tm F y y1" "sy_threads y1 i = Entered kid (tm (sy_w y))" "sy_v y1 = v1" "sy_w y1 = w1" "sy_flight y1 = None"
    "d = Stale \<or> d = Unknown" for y1
  proof -
    obtain r1 v2 w2 where f: "refetch P v1 w1 = (r1, v2, w2)" using prod_cases3 .
    with assms(1) e that(6) have "r = keyset_check P kid r1" "v' = v2" "w' = w2" by (auto simp: keySet_def)
    with flown [OF that(2) that(5), of r1 v2 w2 F] that f assms(4) enter_time [OF e] show ?thesis
      by (auto intro: converse_rtranclp_into_rtranclp)
  qed
  show ?thesis
  proof (cases d)
    case (Hit s)
    with assms(1) e have "r = Inr s" "v1 = v'" "w1 = w'" by (simp_all add: keySet_def)
    then show ?thesis by (intro answered [OF vsys_step.hit [OF assms(2) e [unfolded Hit]]]) simp_all
  next
    case Throttled
    with assms(1) e have "r = Inl ''unknown kid (refetch throttled)''" "v1 = v'" "w1 = w'" by (simp_all add: keySet_def)
    then show ?thesis by (intro answered [OF vsys_step.throttled [OF assms(2) e [unfolded Throttled]]]) simp_all
  next
    case Stale
    then show ?thesis using assms(3) by (intro fetch [OF vsys_step.stale [OF assms(2) e [unfolded Stale]]]) simp_all
  next
    case Unknown
    then show ?thesis using assms(3) by (intro fetch [OF vsys_step.unknown [OF assms(2) e [unfolded Unknown]]]) simp_all
  qed
qed

end

section \<open>Validated tokens\<close>

text \<open>
  What the JOSE library documents of \<open>jwt.Parse\<close> with the options of \<open>Verify\<close>: the signature was made
  by a key of the set, issuer and audience are the required ones, and a required expiry lies in
  the future (at the resolution of a second) when it is checked.
\<close>

locale jose_env = jwks_env P tm set_at
  for P :: "('s, 'w) vports" and tm set_at +
  fixes signed_by :: "'s \<Rightarrow> string \<Rightarrow> bool"
  assumes parse_time: "vp_parse P w opts s token = (r, w') \<Longrightarrow> tm w \<le> tm w'"
    and parse_signed: "vp_parse P w opts s token = (Inr parsed, w') \<Longrightarrow> po_require_kid opts \<Longrightarrow> signed_by s token"
    and parse_valid: "vp_parse P w opts s token = (Inr parsed, w') \<Longrightarrow> po_validate opts \<Longrightarrow>
      jt_issuer parsed = po_issuer opts \<and> po_audience opts \<in> set (jt_audience parsed)"
    and parse_exp: "vp_parse P w opts s token = (Inr parsed, w') \<Longrightarrow> po_validate opts \<Longrightarrow> ''exp'' \<in> set (po_required opts) \<Longrightarrow>
      \<exists>t. tm w \<le> t \<and> t \<le> tm w' \<and> unix_of t < unix_of (jt_expiration parsed)"
begin

lemma accepted_token:
  assumes "VisitorVerify P token v w = (Inr i, v', w')"
  obtains kid s w1 parsed t where "headerKID P token = Inr kid" "keySet P kid v w = (Inr s, v', w1)" "signed_by s token"
    "jt_issuer parsed = visitorIssuer" "visitorAudience \<in> set (jt_audience parsed)" "visitor_claims parsed = Inr i"
    "tm w \<le> t" "t \<le> tm w'" "unix_of t < unix_of (jt_expiration parsed)"
proof -
  from assms obtain kid s w1 parsed where k: "headerKID P token = Inr kid" "keySet P kid v w = (Inr s, v', w1)"
      "vp_parse P w1 visitor_opts s token = (Inr parsed, w')" "visitor_claims parsed = Inr i"
    by (rule VisitorVerify_Inr)
  have "signed_by s token" by (rule parse_signed [OF k(3)]) (simp add: visitor_opts_def)
  moreover have "jt_issuer parsed = visitorIssuer" "visitorAudience \<in> set (jt_audience parsed)"
    using parse_valid [OF k(3)] by (simp_all add: visitor_opts_def)
  moreover obtain t where "tm w1 \<le> t" "t \<le> tm w'" "unix_of t < unix_of (jt_expiration parsed)"
    using parse_exp [OF k(3)] by (auto simp: visitor_opts_def)
  ultimately show ?thesis using that k keySet_time [OF k(2)] by (meson order_trans)
qed

end

end
