(* ===== verification/Auth_Responder.thy ===== *)
theory Auth_Responder
  imports Auth_Jwks
begin

text \<open>
  \<open>internal/authcallout/responder.go\<close> (a callout request becomes a signed allow or deny), the HTTP
  source of the key set (\<open>jwks_http.go\<close>), and the choice of verifiers in \<open>cmd/authcallout/main.go\<close>.
  The NATS JWT library, the HTTP client, the connection ids and the clock are parameters. Logging
  and the trace span around a request have no effect on the reply and are left out.
\<close>

section \<open>Responder\<close>

record auth_request =
  ar_token :: string
  ar_user_nkey :: string
  ar_server_id :: string

record user_claims =
  uc_subject :: string
  uc_name :: string
  uc_audience :: string
  uc_pub_allow :: "string list"
  uc_pub_deny :: "string list"
  uc_sub_allow :: "string list"
  uc_sub_deny :: "string list"
  uc_resp :: "int option"
  uc_expires :: int

record response_claims =
  rc_subject :: string
  rc_audience :: string
  rc_jwt :: string
  rc_error :: string

text \<open>The encoders sign with the issuer key.\<close>

record jwt_lib =
  jl_decode_request :: "bytes \<Rightarrow> string + auth_request"
  jl_encode_user :: "user_claims \<Rightarrow> string + string"
  jl_encode_response :: "response_claims \<Rightarrow> string + string"

record 'w Responder =
  rs_verify :: "'w verifier"
  rs_lib :: jwt_lib
  rs_account :: string
  rs_conn_id :: "'w \<Rightarrow> string \<times> 'w"
  rs_visitor_ttl_cap :: duration
  rs_now :: "'w \<Rightarrow> gtime \<times> 'w"

definition defaultVisitorTTLCap :: duration where
  "defaultVisitorTTLCap = 3600 * 1000000000"

definition NewResponder ::
  "(bytes \<Rightarrow> string + jwt_lib) \<Rightarrow> ('w \<Rightarrow> string \<times> 'w) \<Rightarrow> ('w \<Rightarrow> gtime \<times> 'w) \<Rightarrow>
   'w verifier \<Rightarrow> bytes \<Rightarrow> string \<Rightarrow> ('w Responder \<Rightarrow> 'w Responder) list \<Rightarrow> string + 'w Responder" where
  "NewResponder fromSeed defaultConnID now v issuerSeed account opts =
     (case fromSeed issuerSeed of
        Inl err \<Rightarrow> Inl (''authcallout: bad issuer seed: '' @ err)
      | Inr kp \<Rightarrow> Inr (fold (\<lambda>opt. opt) opts
          \<lparr>rs_verify = v, rs_lib = kp, rs_account = account, rs_conn_id = defaultConnID,
           rs_visitor_ttl_cap = defaultVisitorTTLCap, rs_now = now\<rparr>))"

definition WithConnIDGen :: "('w \<Rightarrow> string \<times> 'w) \<Rightarrow> 'w Responder \<Rightarrow> 'w Responder" where
  "WithConnIDGen gen r = r\<lparr>rs_conn_id := gen\<rparr>"

definition WithVisitorTTLCap :: "duration \<Rightarrow> 'w Responder \<Rightarrow> 'w Responder" where
  "WithVisitorTTLCap d r = (if d > 0 then r\<lparr>rs_visitor_ttl_cap := d\<rparr> else r)"

definition cappedExpiry :: "'w Responder \<Rightarrow> identity \<Rightarrow> 'w \<Rightarrow> int \<times> 'w" where
  "cappedExpiry r i w =
     (if id_role i \<noteq> RoleVisitor then (0, w)
      else let (now, w') = rs_now r w;
               exp = now + rs_visitor_ttl_cap r
           in (unix_of (if \<not> is_zero_time (id_expires_at i) \<and> id_expires_at i < exp then id_expires_at i else exp), w'))"

definition respond :: "'w Responder \<Rightarrow> auth_request \<Rightarrow> string \<Rightarrow> string \<Rightarrow> string + string" where
  "respond r req userJWT errMsg =
     jl_encode_response (rs_lib r)
       \<lparr>rc_subject = ar_user_nkey req, rc_audience = ar_server_id req, rc_jwt = userJWT, rc_error = errMsg\<rparr>"

definition user_claims_of :: "'w Responder \<Rightarrow> auth_request \<Rightarrow> identity \<Rightarrow> Grant \<Rightarrow> int \<Rightarrow> user_claims" where
  "user_claims_of r req i grant e =
     \<lparr>uc_subject = ar_user_nkey req, uc_name = id_tenant i @ ''/'' @ id_user i, uc_audience = rs_account r,
      uc_pub_allow = PubAllow grant, uc_pub_deny = PubDeny grant, uc_sub_allow = SubAllow grant, uc_sub_deny = SubDeny grant,
      uc_resp = (if AllowResponses grant then Some 1 else None), uc_expires = e\<rparr>"

definition handle :: "'w Responder \<Rightarrow> bytes \<Rightarrow> 'w \<Rightarrow> (string + string) \<times> identity \<times> 'w" where
  "handle r reqJWT w =
     (case jl_decode_request (rs_lib r) reqJWT of
        Inl err \<Rightarrow> (Inl (''decode auth request: '' @ err), no_identity, w)
      | Inr req \<Rightarrow>
     (case rs_verify r w (ar_token req) of
        (Inl err, w1) \<Rightarrow> (Inl err, no_identity, w1)
      | (Inr i, w1) \<Rightarrow>
     (case rs_conn_id r w1 of
        (conn, w2) \<Rightarrow>
     (case GrantsFor i conn of
        Inl err \<Rightarrow> (Inl err, i, w2)
      | Inr grant \<Rightarrow>
     (case cappedExpiry r i w2 of
        (e, w3) \<Rightarrow>
     (case jl_encode_user (rs_lib r) (user_claims_of r req i grant e) of
        Inl err \<Rightarrow> (Inl (''encode user jwt: '' @ err), i, w3)
      | Inr userJWT \<Rightarrow> (respond r req userJWT '''', i, w3)))))))"

definition deny :: "'w Responder \<Rightarrow> bytes \<Rightarrow> string \<Rightarrow> string + string" where
  "deny r reqJWT reason =
     (case jl_decode_request (rs_lib r) reqJWT of
        Inl err \<Rightarrow> Inl err
      | Inr req \<Rightarrow> respond r req '''' reason)"

text \<open>The callback of \<open>Subscribe\<close>: the reply, if any. An encoder that fails returns the empty token.\<close>

definition on_auth_request :: "'w Responder \<Rightarrow> bytes \<Rightarrow> 'w \<Rightarrow> string option \<times> 'w" where
  "on_auth_request r data w =
     (case handle r data w of
        (res, i, w') \<Rightarrow>
          (let token = (case res of
                          Inr token \<Rightarrow> token
                        | Inl err \<Rightarrow> (case deny r data err of Inr token \<Rightarrow> token | Inl _ \<Rightarrow> ''''))
           in (if token \<noteq> '''' then Some token else None, w')))"

section \<open>The key set over HTTP\<close>

record http_response =
  hr_status :: int
  hr_body :: bytes
  hr_body_err :: "string option"

record 'w http_client =
  hc_new_request :: "string \<Rightarrow> string option"
  hc_do :: "'w \<Rightarrow> string \<Rightarrow> (string + http_response) \<times> 'w"

text \<open>\<open>io.ReadAll(io.LimitReader(_, n))\<close>: a body error counts only before the limit.\<close>

definition read_limited :: "nat \<Rightarrow> http_response \<Rightarrow> string + bytes" where
  "read_limited n resp =
     (if length (hr_body resp) < n then (case hr_body_err resp of Some err \<Rightarrow> Inl err | None \<Rightarrow> Inr (hr_body resp))
      else Inr (take n (hr_body resp)))"

definition jwksFetch :: "'w http_client \<Rightarrow> string \<Rightarrow> 'w \<Rightarrow> (string + bytes) \<times> 'w" where
  "jwksFetch c url w =
     (case hc_new_request c url of
        Some err \<Rightarrow> (Inl err, w)
      | None \<Rightarrow>
     (case hc_do c w url of
        (Inl err, w') \<Rightarrow> (Inl err, w')
      | (Inr resp, w') \<Rightarrow>
          (if hr_status resp div 100 \<noteq> 2 then (Inl (''authcallout: jwks fetch status '' @ go_itoa (hr_status resp)), w')
           else (read_limited 1048576 resp, w'))))"

section \<open>The posture of the binary\<close>

text \<open>
  The verifier that \<open>main\<close> builds from the URL of the key set: the chain of the HMAC verifier and the
  visitor verifier, or in the development posture the HMAC verifier alone, with trusted backends.
\<close>

definition main_verifier ::
  "token_codec \<Rightarrow> bytes \<Rightarrow> ('w \<Rightarrow> gtime) \<Rightarrow> ('s, 'w) vports \<Rightarrow> string \<Rightarrow> ('s VisitorVerifier \<times> 'w) verifier" where
  "main_verifier tc secret now P jwksURL =
     (if jwksURL \<noteq> ''''
      then ChainVerify [hmac_port tc (NewHMACVerifier secret []) (now \<circ> snd), visitor_port P]
      else hmac_port tc (NewHMACVerifier secret [AllowHMACTrustedBackend]) (now \<circ> snd))"

lemma main_verifier_grantable: "verifier_port (main_verifier tc secret now P jwksURL)"
proof -
  have "verifier_port (ChainVerify [hmac_port tc (NewHMACVerifier secret []) (now \<circ> snd), visitor_port P])"
    by (rule chain_grantable) (simp add: hmac.verifier_port_axioms vis.verifier_port_axioms)
  then show ?thesis unfolding main_verifier_def by (simp add: hmac.verifier_port_axioms)
qed

interpretation mainv: verifier_port "main_verifier tc secret now P jwksURL"
  by (rule main_verifier_grantable)

lemma hmac_port_Inr:
  assumes "hmac_port tc v now w token = (Inr i, w')"
  shows "(backend_id i \<longrightarrow> hv_allow_backend v) \<and> \<not> visitor_id i"
  using assms claims_identity_grantable by (fastforce simp: hmac_port_def HMACVerify_Inr)

lemma visitor_port_Inr:
  assumes "visitor_port P w token = (Inr i, w')"
  shows "\<not> backend_id i"
proof -
  obtain v1 w1 where "VisitorVerify P token (fst w) (snd w) = (Inr i, v1, w1)"
    using assms by (cases w') (auto simp: visitor_port_def split: prod.splits)
  then show ?thesis by (rule VisitorVerify_Inr) (simp add: visitor_claims_Inr)
qed

lemma posture:
  assumes "main_verifier tc secret now P jwksURL w token = (Inr i, w')"
  shows "(jwksURL \<noteq> '''' \<longrightarrow> \<not> backend_id i) \<and> (jwksURL = '''' \<longrightarrow> \<not> visitor_id i)"
proof (cases "jwksURL = ''''")
  case True
  with assms hmac_port_Inr [of tc "NewHMACVerifier secret [AllowHMACTrustedBackend]" "now \<circ> snd" w token i w']
  show ?thesis by (simp add: main_verifier_def)
next
  case False
  let ?h = "hmac_port tc (NewHMACVerifier secret []) (now \<circ> snd)"
  have "chain_links [?h, visitor_port P] token ''authcallout: no verifier accepted the token'' w = (Inr i, w')"
    using assms False by (simp add: main_verifier_def ChainVerify_def)
  from chain_accepts [OF this] consider w1 where "?h w1 token = (Inr i, w')" | w1 where "visitor_port P w1 token = (Inr i, w')"
    by auto
  then have "\<not> backend_id i"
  proof cases
    case (1 w1)
    from hmac_port_Inr [OF this] show ?thesis by (simp add: NewHMACVerifier_def)
  next
    case (2 w1)
    then show ?thesis by (rule visitor_port_Inr)
  qed
  with False show ?thesis by simp
qed

section \<open>What a reply says\<close>

text \<open>A reply is an allow for the identity the token verifies to, with that identity's grant, or a deny with a reason.\<close>

definition allows :: "'w Responder \<Rightarrow> auth_request \<Rightarrow> 'w \<Rightarrow> string \<Rightarrow> identity \<Rightarrow> Grant \<Rightarrow> int \<Rightarrow> gtime \<Rightarrow> bool" where
  "allows r req w token i g e now \<longleftrightarrow>
     (\<exists>w1 conn w2 w3 userJWT. now = fst (rs_now r w2) \<and> rs_verify r w (ar_token req) = (Inr i, w1) \<and> rs_conn_id r w1 = (conn, w2) \<and> GrantsFor i conn = Inr g \<and>
        cappedExpiry r i w2 = (e, w3) \<and> jl_encode_user (rs_lib r) (user_claims_of r req i g e) = Inr userJWT \<and>
        respond r req userJWT '''' = Inr token)"

lemma handle_Inr:
  assumes "handle r data w = (Inr token, i, w')"
  shows "\<exists>req g e now. jl_decode_request (rs_lib r) data = Inr req \<and> allows r req w token i g e now"
  using assms by (auto simp: handle_def allows_def split: sum.splits prod.splits)

text \<open>When the token verifies and the encoders work, the reply is an allow.\<close>

lemma verified_allowed:
  assumes "jl_decode_request (rs_lib r) data = Inr req" "rs_verify r w (ar_token req) = (Inr i, w1)" "grantable i"
    and "rs_conn_id r w1 = (conn, w2)" "conn \<noteq> ''''"
    and enc: "\<And>uc. \<exists>t. jl_encode_user (rs_lib r) uc = Inr t" "\<And>rc. \<exists>t. t \<noteq> '''' \<and> jl_encode_response (rs_lib r) rc = Inr t"
  shows "\<exists>token w' g e now. on_auth_request r data w = (Some token, w') \<and> allows r req w token i g e now"
proof -
  obtain g where g: "GrantsFor i conn = Inr g" using assms(3,5) GrantsFor_iff [of i conn] by (auto simp: grantable_def)
  obtain e w3 where e: "cappedExpiry r i w2 = (e, w3)" by fastforce
  obtain u where u: "jl_encode_user (rs_lib r) (user_claims_of r req i g e) = Inr u" using enc(1) by blast
  obtain token where t: "token \<noteq> ''''" "respond r req u '''' = Inr token" using enc(2) unfolding respond_def by blast
  have "handle r data w = (Inr token, i, w3)" using assms(1,2,4) g e u t by (simp add: handle_def)
  then have "on_auth_request r data w = (Some token, w3)" using t(1) by (simp add: on_auth_request_def)
  moreover have "allows r req w token i g e (fst (rs_now r w2))" using assms(2,4) g e u t unfolding allows_def by blast
  ultimately show ?thesis by blast
qed

lemma reply_cases:
  assumes "on_auth_request r data w = (Some token, w')"
  obtains (allow) req i g e now where "jl_decode_request (rs_lib r) data = Inr req" "allows r req w token i g e now"
  | (deny) req err i where "jl_decode_request (rs_lib r) data = Inr req" "handle r data w = (Inl err, i, w')" "respond r req '''' err = Inr token"
proof -
  obtain res i w1 where h: "handle r data w = (res, i, w1)" using prod_cases3 .
  show ?thesis
  proof (cases res)
    case (Inr t)
    with assms h have "t = token" by (auto simp: on_auth_request_def Let_def split: if_splits)
    with h Inr handle_Inr [of r data w token i w1] allow show ?thesis by metis
  next
    case (Inl err)
    with assms h have "deny r data err = Inr token" "w1 = w'"
      by (auto simp: on_auth_request_def Let_def split: if_splits sum.splits)
    then obtain req where "jl_decode_request (rs_lib r) data = Inr req" "respond r req '''' err = Inr token"
      by (auto simp: deny_def split: sum.splits)
    with h Inl \<open>w1 = w'\<close> deny show ?thesis by metis
  qed
qed

lemma capped:
  assumes "cappedExpiry r i w = (e, w')" "rs_now r w = (now, w1)" "id_role i = RoleVisitor"
  shows "e \<le> unix_of (now + rs_visitor_ttl_cap r) \<and> (\<not> is_zero_time (id_expires_at i) \<longrightarrow> e \<le> unix_of (id_expires_at i))"
proof -
  have mono: "unix_of s \<le> unix_of t" if "s \<le> t" for s t
    using that by (simp add: unix_of_def zdiv_mono1)
  show ?thesis using assms by (auto simp: cappedExpiry_def Let_def intro: mono)
qed

lemma allows_capped:
  assumes "allows r req w token i g e now" "id_role i = RoleVisitor"
  shows "e \<le> unix_of (now + rs_visitor_ttl_cap r) \<and> (\<not> is_zero_time (id_expires_at i) \<longrightarrow> e \<le> unix_of (id_expires_at i))"
proof -
  obtain w2 w3 where c: "cappedExpiry r i w2 = (e, w3)" "now = fst (rs_now r w2)" using assms(1) by (auto simp: allows_def)
  then have "rs_now r w2 = (now, snd (rs_now r w2))" by simp
  from capped [OF c(1) this assms(2)] show ?thesis .
qed

end
