(* ===== verification/Auth_Desk.thy ===== *)
theory Auth_Desk
  imports Auth_Responder
begin

text \<open>
  A desk that serves its key set over HTTP and the library that reads its tokens, as one instance
  of the parameters of the visitor verifier: the key set published at a time is a comma-separated
  list of key ids, a token is \<open>kid|tenant|subject|conversation\<close>, and a fetch takes one nanosecond.
  The verifier fetches it through the model of \<open>HTTPJWKSSource.Fetch\<close>.
\<close>

record desk =
  dk_time :: gtime

definition desk_client :: "(gtime \<Rightarrow> string) \<Rightarrow> desk http_client" where
  "desk_client pub =
     \<lparr>hc_new_request = (\<lambda>url. None),
      hc_do = (\<lambda>w url. (Inr \<lparr>hr_status = 200, hr_body = pub (dk_time w + 1), hr_body_err = None\<rparr>, w\<lparr>dk_time := dk_time w + 1\<rparr>))\<rparr>"

definition desk_kid :: "string \<Rightarrow> string" where
  "desk_kid token = hd (split_on (CHR ''|'') token)"

definition desk_signed :: "string \<Rightarrow> string \<Rightarrow> bool" where
  "desk_signed s token \<longleftrightarrow> desk_kid token \<in> set (split_on (CHR '','') s)"

definition desk_token :: "desk \<Rightarrow> parse_opts \<Rightarrow> string \<Rightarrow> jtoken" where
  "desk_token w opts token =
     (let p = split_on (CHR ''|'') token
      in \<lparr>jt_issuer = po_issuer opts, jt_audience = [po_audience opts], jt_subject = p ! 2,
          jt_expiration = dk_time w + 3600 * 1000000000, jt_claims = [(''tid'', JString (p ! 1)), (''cid'', JString (p ! 3))]\<rparr>)"

definition desk_ports :: "(gtime \<Rightarrow> string) \<Rightarrow> (string, desk) vports" where
  "desk_ports pub =
     \<lparr>jx_headers = (\<lambda>token. Inr [(desk_kid token, ''EdDSA'')]),
      jx_parse_set = Inr,
      jx_lookup = (\<lambda>s kid. kid \<in> set (split_on (CHR '','') s)),
      vp_parse = (\<lambda>w opts s token. (if desk_signed s token then Inr (desk_token w opts token) else Inl ''no key'', w)),
      vp_clock = (\<lambda>w. (dk_time w, w)),
      vp_fetch = (\<lambda>w. jwksFetch (desk_client pub) ''https://desk/jwks'' w)\<rparr>"

definition desk_set :: "(gtime \<Rightarrow> string) \<Rightarrow> gtime \<Rightarrow> string" where
  "desk_set pub t = take 1048576 (pub t)"

lemma desk_fetch:
  "vp_fetch (desk_ports pub) w = (Inr (desk_set pub (dk_time w + 1)), w\<lparr>dk_time := dk_time w + 1\<rparr>)"
  by (simp add: desk_ports_def jwksFetch_def desk_client_def desk_set_def read_limited_def)

lemma desk_ports_simps [simp]:
  "jx_headers (desk_ports pub) token = Inr [(desk_kid token, ''EdDSA'')]"
  "jx_parse_set (desk_ports pub) = Inr"
  "jx_lookup (desk_ports pub) s kid \<longleftrightarrow> kid \<in> set (split_on (CHR '','') s)"
  "vp_clock (desk_ports pub) w = (dk_time w, w)"
  "vp_parse (desk_ports pub) w opts s token = (if desk_signed s token then Inr (desk_token w opts token) else Inl ''no key'', w)"
  by (simp_all add: desk_ports_def)

lemma unix_of_add_seconds: "unix_of (t + k * 1000000000) = unix_of t + k"
  by (simp add: unix_of_def)

interpretation desk: jose_env "desk_ports pub" dk_time "desk_set pub" desk_signed
proof
  show "dk_time w \<le> t \<and> t \<le> dk_time w'" if "vp_clock (desk_ports pub) w = (t, w')" for w t w'
    using that by (auto simp: desk_ports_def)
  show "dk_time w \<le> dk_time w'" if "vp_fetch (desk_ports pub) w = (r, w')" for w r w'
    using that unfolding desk_fetch by auto
  show "\<exists>u\<ge>dk_time w. u \<le> dk_time w' \<and> s = desk_set pub u"
    if "vp_fetch (desk_ports pub) w = (Inr raw, w')" "jx_parse_set (desk_ports pub) raw = Inr s" for w raw w' s
    using that unfolding desk_fetch by (intro exI [of _ "dk_time w + 1"]) (auto simp: desk_ports_def)

  show "dk_time w \<le> dk_time w'" if "vp_parse (desk_ports pub) w opts s token = (r, w')" for w opts s token r w'
    using that by (auto simp: desk_ports_def)
  show "desk_signed s token" if "vp_parse (desk_ports pub) w opts s token = (Inr parsed, w')" for w opts s token parsed w'
    using that by (auto simp: desk_ports_def split: if_splits)
  show "jt_issuer parsed = po_issuer opts \<and> po_audience opts \<in> set (jt_audience parsed)"
    if "vp_parse (desk_ports pub) w opts s token = (Inr parsed, w')" for w opts s token parsed w'
    using that by (auto simp: desk_ports_def desk_token_def Let_def split: if_splits)
  show "\<exists>t\<ge>dk_time w. t \<le> dk_time w' \<and> unix_of t < unix_of (jt_expiration parsed)"
    if "vp_parse (desk_ports pub) w opts s token = (Inr parsed, w')" for w opts s token parsed w'
    using that unix_of_add_seconds [of "dk_time w" 3600] by (auto simp: desk_ports_def desk_token_def Let_def split: if_splits)
qed

text \<open>A key that is published until a time and then withdrawn.\<close>

definition rotation :: "gtime \<Rightarrow> string" where
  "rotation t = (if t < 100 then ''k1'' else ''k2'')"

definition first_verifier :: "string VisitorVerifier" where
  "first_verifier = NewVisitorVerifier 50 [WithVisitorRefetchCooldown 10]"

lemma first_keys:
  "keySet (desk_ports rotation) ''k1'' first_verifier \<lparr>dk_time = 10\<rparr> =
     (Inr ''k1'', first_verifier\<lparr>vv_cached := Some ''k1'', vv_fetched_at := 11\<rparr>, \<lparr>dk_time = 11\<rparr>)"
  by (simp add: keySet_def keyset_enter_def refetch_def refetch_land_def keyset_check_def desk_fetch desk_set_def rotation_def first_verifier_def
      NewVisitorVerifier_def WithVisitorRefetchCooldown_def)

definition first_visitor :: identity where
  "first_visitor = no_identity\<lparr>id_tenant := ''t'', id_user := ''v'', id_role := RoleVisitor, id_conversation := ''i'', id_expires_at := 3600000000011\<rparr>"

lemma first_claims: "visitor_claims (desk_token \<lparr>dk_time = 11\<rparr> visitor_opts ''k1|t|v|i'') = Inr first_visitor"
  by code_simp

lemma first_verified:
  "VisitorVerify (desk_ports rotation) ''k1|t|v|i'' first_verifier \<lparr>dk_time = 10\<rparr> =
     (Inr first_visitor, first_verifier\<lparr>vv_cached := Some ''k1'', vv_fetched_at := 11\<rparr>, \<lparr>dk_time = 11\<rparr>)"
proof -
  have "desk_kid ''k1|t|v|i'' = ''k1''" "desk_signed ''k1'' ''k1|t|v|i''" by code_simp+
  then show ?thesis by (simp add: VisitorVerify_def headerKID_def first_keys first_claims)
qed

text \<open>Libraries of the responder that print what they sign.\<close>

definition plain_codec :: token_codec where
  "plain_codec =
     \<lparr>tc_hmac = (\<lambda>secret body. secret @ take 2 body),
      tc_unmarshal = (\<lambda>b. case split_on (CHR '','') b of
          [t, u, r, c] \<Rightarrow> Inr \<lparr>cl_tenant = t, cl_user = u, cl_role = r, cl_capability = c, cl_exp = 0\<rparr>
        | _ \<Rightarrow> Inl ''bad json''),
      tc_marshal = (\<lambda>c. if cl_exp c = 0 \<and> (\<forall>x \<in> {cl_tenant c, cl_user c, cl_role c, cl_capability c}. CHR '','' \<notin> set x)
          then Inr (join_with '','' [cl_tenant c, cl_user c, cl_role c, cl_capability c]) else Inl ''not encodable'')\<rparr>"

definition plain_jwt :: jwt_lib where
  "plain_jwt =
     \<lparr>jl_decode_request = (\<lambda>data. Inr \<lparr>ar_token = data, ar_user_nkey = ''UNKEY'', ar_server_id = ''SRV''\<rparr>),
      jl_encode_user = (\<lambda>uc. Inr (uc_name uc @ '':'' @ join_with '','' (uc_pub_allow uc))),
      jl_encode_response = (\<lambda>rc. Inr (''R:'' @ rc_jwt rc @ '':'' @ rc_error rc))\<rparr>"

definition desk_responder :: "string \<Rightarrow> (string VisitorVerifier \<times> desk) Responder" where
  "desk_responder jwksURL =
     \<lparr>rs_verify = main_verifier plain_codec ''k'' dk_time (desk_ports rotation) jwksURL, rs_lib = plain_jwt, rs_account = ''RP'',
      rs_conn_id = (\<lambda>w. (''c1'', w)), rs_visitor_ttl_cap = defaultVisitorTTLCap, rs_now = (\<lambda>w. (dk_time (snd w), w))\<rparr>"

end
