(* ===== verification/Auth_Claims.thy ===== *)
theory Auth_Claims
  imports Auth_Desk
begin

text \<open>
  The properties of the auth callout: what a minted permission lets through, which tokens are
  accepted, what a reply says, and how the key cache behaves under concurrency and key rotation.
\<close>

section \<open>Permissions\<close>

definition demo_id :: identity where
  "demo_id = no_identity\<lparr>id_tenant := ''t'', id_user := ''a'', id_capability := CapabilityAgentFeed\<rparr>"

definition demo_world :: "string VisitorVerifier \<times> desk" where
  "demo_world = (first_verifier, \<lparr>dk_time = 10\<rparr>)"

definition demo_request :: bytes where
  "demo_request = b64_encode ''t,a,,agent-feed'' @ ''.'' @ b64_encode (''k'' @ take 2 (b64_encode ''t,a,,agent-feed''))"








text \<open>
  Grants fail closed: exactly three kinds of identity get one, with literal names and a connection id: a visitor bound to a
  conversation, a trusted backend without a capability, and a subscriber capability without a role or conversation.
\<close>

theorem grants_fail_closed:
  "(\<exists>g. GrantsFor i conn = Inr g) \<longleftrightarrow>
     validSubjectToken (id_tenant i) = None \<and> validSubjectToken (id_user i) = None \<and> conn \<noteq> '''' \<and>
     (id_role i = RoleVisitor \<and> id_capability i = '''' \<and> validSubjectToken (id_conversation i) = None \<or>
      id_role i = RoleTrustedBackend \<and> id_capability i = '''' \<or>
      id_role i = '''' \<and> IsSubscriberCapability (id_capability i) \<and> id_conversation i = '''')"
  by (simp add: GrantsFor_iff named_id_def visitor_id_def backend_id_def agent_id_def)

section \<open>Tokens\<close>

text \<open>
  \<^bold>\<open>C31.\<close> The HMAC verifier accepts exactly the tokens of two base64 parts whose second part is the keyed digest of the first, and whose
  claims are unexpired, name a literal tenant and user, and carry either a subscriber capability and no role, or, if the
  verifier allows it, the trusted-backend role and no capability; the identity is that of the claims.
\<close>

theorem hmac_accepts_exactly:
  "HMACVerify tc v now token = Inr i \<longleftrightarrow>
     (\<exists>p0 p1 body c. token = p0 @ ''.'' @ p1 \<and> no_dot p0 \<and> no_dot p1 \<and> b64_decode p0 = Inr body \<and>
        b64_decode p1 = Inr (tc_hmac tc (hv_secret v) p0) \<and> tc_unmarshal tc body = Inr c \<and>
        (cl_exp c = 0 \<or> unix_of now \<le> cl_exp c) \<and> validSubjectToken (cl_tenant c) = None \<and> validSubjectToken (cl_user c) = None \<and>
        (IsSubscriberCapability (cl_capability c) \<and> cl_role c = '''' \<and>
           i = no_identity\<lparr>id_tenant := cl_tenant c, id_user := cl_user c, id_capability := cl_capability c\<rparr> \<or>
         cl_capability c = '''' \<and> cl_role c = RoleTrustedBackend \<and> hv_allow_backend v \<and>
           i = no_identity\<lparr>id_tenant := cl_tenant c, id_user := cl_user c, id_role := RoleTrustedBackend\<rparr>))"
  unfolding HMACVerify_Inr claims_identity_Inr ..

text \<open>
  \<^bold>\<open>C32.\<close> Development tokens round trip: a token minted for an identity with literal names in ASCII verifies under the same secret until
  it expires, and gives back tenant, user, role and capability. (\<open>encoding/json\<close> gives back what it wrote only for valid
  UTF-8; a name with other bytes comes back changed, so the hypothesis on the codec is for ASCII names.)
\<close>

definition ascii :: "string \<Rightarrow> bool" where
  "ascii s \<longleftrightarrow> list_all (\<lambda>c. (of_char c :: nat) < 128) s"

theorem dev_token_roundtrip:
  assumes "MintDevToken tc secret i ttl t0 = Inr token"
    and "validSubjectToken (id_tenant i) = None" "validSubjectToken (id_user i) = None" "ascii (id_tenant i)" "ascii (id_user i)"
    and "\<forall>c b. tc_marshal tc c = Inr b \<and> ascii (cl_tenant c) \<and> ascii (cl_user c) \<and> ascii (cl_role c) \<and> ascii (cl_capability c) \<longrightarrow>
      tc_unmarshal tc b = Inr c"
    and "hv_secret v = secret" "id_role i = RoleTrustedBackend \<longrightarrow> hv_allow_backend v"
    and "ttl \<le> 0 \<or> unix_of now \<le> unix_of (t0 + ttl)"
  shows "HMACVerify tc v now token =
    Inr (no_identity\<lparr>id_tenant := id_tenant i, id_user := id_user i, id_role := id_role i, id_capability := id_capability i\<rparr>)"
proof (rule mint_verifies [OF assms(1) _ _ assms(7)])
  fix c b assume c: "tc_marshal tc c = Inr b" "cl_tenant c = id_tenant i" "cl_user c = id_user i"
    "cl_role c = '''' \<or> cl_role c = RoleTrustedBackend" "cl_capability c = '''' \<or> IsSubscriberCapability (cl_capability c)"
  have "ascii ''''" "ascii RoleTrustedBackend" "ascii CapabilityAgentFeed" "ascii CapabilityAgentFeedAdminOperationObserver" by code_simp+
  with c assms(4-6) show "tc_unmarshal tc b = Inr c" by (auto simp: IsSubscriberCapability_def)
qed (use assms in \<open>auto simp: named_id_def backend_id_def\<close>)

lemma plain_codec_law: "tc_marshal plain_codec c = Inr b \<Longrightarrow> tc_unmarshal plain_codec b = Inr c"
proof -
  assume m: "tc_marshal plain_codec c = Inr b"
  let ?ps = "[cl_tenant c, cl_user c, cl_role c, cl_capability c]"
  have "split_on (CHR '','') (join_with '','' ?ps) = ?ps"
    by (rule split_join) (use m in \<open>auto simp: plain_codec_def split: if_splits\<close>)
  moreover have "b = join_with '','' ?ps" "cl_exp c = 0" using m by (auto simp: plain_codec_def split: if_splits)
  ultimately show "tc_unmarshal plain_codec b = Inr c" by (simp add: plain_codec_def)
qed

theorem dev_token_roundtrip_witness:
  "HMACVerify plain_codec (NewHMACVerifier ''k'' []) 5 demo_request = Inr demo_id"
proof -
  have 1: "MintDevToken plain_codec ''k'' demo_id 0 0 = Inr demo_request" by code_simp
  have 2: "validSubjectToken (id_tenant demo_id) = None" "validSubjectToken (id_user demo_id) = None" "ascii (id_tenant demo_id)" "ascii (id_user demo_id)"
    by code_simp+
  show ?thesis
    using dev_token_roundtrip [OF 1 2, of "NewHMACVerifier ''k'' []" 5] plain_codec_law
    by (simp add: NewHMACVerifier_def demo_id_def no_identity_def)
qed



section \<open>Replies\<close>

text \<open>
  \<^bold>\<open>C34.\<close> Every reply is an allow or a deny, never both: an allow carries the grant of the identity that the token verified to, and for a
  visitor an expiry that is neither past the cap nor past the token's own; a deny carries no user token and the reason of the
  failure. A request that cannot be decoded gets no reply.
\<close>

theorem reply_allow_or_deny:
  assumes "on_auth_request r data w = (Some token, w')"
  shows "\<exists>req. jl_decode_request (rs_lib r) data = Inr req \<and>
    ((\<exists>i g e now. allows r req w token i g e now \<and>
        (id_role i = RoleVisitor \<longrightarrow> \<not> AllowResponses g \<and> e \<le> unix_of (now + rs_visitor_ttl_cap r) \<and>
           (id_expires_at i \<noteq> 0 \<longrightarrow> e \<le> unix_of (id_expires_at i)))) \<or>
     (\<exists>err. fst (handle r data w) = Inl err \<and> respond r req '''' err = Inr token))"
  using assms
proof (cases rule: reply_cases)
  case (allow req i g e now)
  have "\<not> AllowResponses g" if "id_role i = RoleVisitor"
  proof -
    obtain conn where "GrantsFor i conn = Inr g" using allow(2) by (auto simp: allows_def)
    then show ?thesis
      by (cases rule: GrantsFor_cases) (use that in \<open>auto simp: visitor_grant_def backend_id_def agent_id_def\<close>)
  qed
  with allow allows_capped [OF allow(2)] show ?thesis by blast
next
  case (deny req err i)
  then show ?thesis by auto
qed

theorem reply_allow_or_deny_witness:
  "\<exists>token w'. on_auth_request (desk_responder '''') ''nonsense'' demo_world = (Some token, w') \<and>
     (\<exists>req err. fst (handle (desk_responder '''') ''nonsense'' demo_world) = Inl err \<and> respond (desk_responder '''') req '''' err = Inr token)"
proof -
  have "fst (on_auth_request (desk_responder '''') ''nonsense'' demo_world) \<noteq> None" by code_simp
  then obtain token w' where r: "on_auth_request (desk_responder '''') ''nonsense'' demo_world = (Some token, w')"
    by (cases "on_auth_request (desk_responder '''') ''nonsense'' demo_world") auto
  have v: "fst (rs_verify (desk_responder '''') demo_world ''nonsense'') = Inl ''authcallout: malformed token''" by code_simp
  have "\<not> allows (desk_responder '''') req demo_world token i g e now"
    if "jl_decode_request (rs_lib (desk_responder '''')) ''nonsense'' = Inr req" for req i g e now
    using v that by (auto simp: allows_def desk_responder_def plain_jwt_def)
  with reply_allow_or_deny [OF r] r show ?thesis by blast
qed

section \<open>The key cache\<close>

text \<open>
  \<^bold>\<open>C35.\<close> A revoked key dies: let desk stop publishing a key at some time. Whatever the interleaving of concurrent verifications, and
  whatever fetches fail meanwhile, no call that begins when the cache TTL and the time of one fetch have passed since then gets a key
  set with that key; an unreachable desk makes the calls fail, it does not extend the life of a key.
\<close>

theorem revoked_key_unused:
  assumes "jwks_env P tm set_at" "(vsys_step P tm F)\<^sup>*\<^sup>* (vsys_init v w) y" "vv_cached v = None" "0 \<le> vv_ttl v"
    and "sy_threads y i = Returned kid t (Inr s)" "\<forall>u \<ge> R. \<not> jx_lookup P (set_at u) kid"
  shows "t < R + vv_ttl v + F"
  by (rule jwks_env.revoked_key_dies [OF assms])

lemma first_call:
  "\<exists>y. (vsys_step (desk_ports rotation) dk_time 1)\<^sup>*\<^sup>* (vsys_init first_verifier \<lparr>dk_time = 10\<rparr>) y \<and>
     sy_threads y 0 = Returned ''k1'' 10 (Inr ''k1'')"
proof -
  have "keySet (desk_ports rotation) ''k1'' (sy_v (vsys_init first_verifier \<lparr>dk_time = 10\<rparr>)) (sy_w (vsys_init first_verifier \<lparr>dk_time = 10\<rparr>)) =
      (Inr ''k1'', first_verifier\<lparr>vv_cached := Some ''k1'', vv_fetched_at := 11\<rparr>, \<lparr>dk_time = 11\<rparr>)"
    by (simp add: vsys_init_def first_keys)
  from desk.keySet_steps [OF this, of 0 1] show ?thesis by (auto simp: vsys_init_def)
qed

theorem revoked_key_unused_witness:
  "\<exists>y t. (vsys_step (desk_ports rotation) dk_time 1)\<^sup>*\<^sup>* (vsys_init first_verifier \<lparr>dk_time = 10\<rparr>) y \<and>
     sy_threads y 0 = Returned ''k1'' t (Inr ''k1'') \<and> t < 151"
proof -
  obtain y t where y: "(vsys_step (desk_ports rotation) dk_time 1)\<^sup>*\<^sup>* (vsys_init first_verifier \<lparr>dk_time = 10\<rparr>) y"
      "sy_threads y 0 = Returned ''k1'' t (Inr ''k1'')" using first_call by blast
  have "vv_cached first_verifier = None" "0 \<le> vv_ttl first_verifier" "vv_ttl first_verifier = 50" by code_simp+
  moreover have "\<forall>u \<ge> 100. \<not> jx_lookup (desk_ports rotation) (desk_set rotation u) ''k1''"
    by (simp add: desk_ports_def desk_set_def rotation_def)
  ultimately show ?thesis using revoked_key_unused [OF desk.jwks_env_axioms y(1) _ _ y(2), of 100] y by auto
qed

text \<open>
  \<^bold>\<open>C36.\<close> A flood of forged key ids is throttled: under every interleaving, two fetches started by unknown key ids are at
  least the cooldown apart.
\<close>

theorem unknown_kid_throttled:
  assumes "jwks_env P tm set_at" "(vsys_step P tm F)\<^sup>*\<^sup>* (vsys_init v w) y" "vv_cached v = None" "0 \<le> vv_ttl v" "Suc k < length (sy_polls y)"
  shows "sy_polls y ! Suc k + vv_refetch_min v \<le> sy_polls y ! k"
  by (rule jwks_env.polls_spaced [OF assms])

lemma two_polls:
  "\<exists>y. (vsys_step (desk_ports rotation) dk_time 1)\<^sup>*\<^sup>* (vsys_init first_verifier \<lparr>dk_time = 10\<rparr>) y \<and> sy_polls y = [30, 11]"
proof -
  let ?P = "desk_ports rotation"
  define v1 where "v1 = first_verifier\<lparr>vv_cached := Some ''k1'', vv_fetched_at := 11\<rparr>"
  define y0 where "y0 = vsys_init first_verifier \<lparr>dk_time = 10\<rparr>"
  obtain y3 where y3: "(vsys_step ?P dk_time 1)\<^sup>*\<^sup>* y0 y3" "sy_v y3 = v1" "sy_w y3 = \<lparr>dk_time = 11\<rparr>" "sy_polls y3 = []" "sy_threads y3 (Suc 0) = Idle" "sy_threads y3 2 = Idle"
  proof -
    define y1 where "y1 = y0\<lparr>sy_v := first_verifier, sy_w := \<lparr>dk_time = 10\<rparr>, sy_threads := (sy_threads y0)(0 := Entered ''k1'' (dk_time (sy_w y0)))\<rparr>"
    define y2 where "y2 = y1\<lparr>sy_threads := (sy_threads y1)(0 := Flying ''k1'' 10)\<rparr>"
    define y3 where "y3 = y2\<lparr>sy_w := \<lparr>dk_time = 11\<rparr>, sy_flight := Some (dk_time (sy_w y2), fst (vp_fetch ?P \<lparr>dk_time = 10\<rparr>))\<rparr>"
    define y4 where "y4 = y3\<lparr>sy_v := v1, sy_w := \<lparr>dk_time = 11\<rparr>, sy_flight := None, sy_threads := (\<lambda>j. land_phase (Inr ''k1'') (sy_threads y3 j))\<rparr>"
    note defs = y4_def y3_def y2_def y1_def y0_def vsys_init_def v1_def first_verifier_def NewVisitorVerifier_def WithVisitorRefetchCooldown_def
    have "vsys_step ?P dk_time 1 y0 y1" unfolding y1_def
      by (rule vsys_step.stale [where kid = "''k1''"]) (simp_all add: defs keyset_enter_def)
    moreover have "vsys_step ?P dk_time 1 y1 y2" unfolding y2_def by (rule vsys_step.join) (simp add: defs)
    moreover have "vsys_step ?P dk_time 1 y2 y3" unfolding y3_def
      by (rule vsys_step.depart [where i = 0]) (simp_all add: defs desk_fetch)
    moreover have "vsys_step ?P dk_time 1 y3 y4" unfolding y4_def
      by (rule vsys_step.land [where d = 10 and resp = "Inr ''k1''"]) (simp_all add: defs refetch_land_def desk_fetch desk_set_def rotation_def)
    ultimately have "(vsys_step ?P dk_time 1)\<^sup>*\<^sup>* y0 y4" by simp
    then show ?thesis by (rule that) (simp_all add: y4_def, simp_all add: defs)
  qed
  define y4 where "y4 = y3\<lparr>sy_v := v1\<lparr>vv_last_unknown := 11\<rparr>, sy_w := \<lparr>dk_time = 11\<rparr>, sy_threads := (sy_threads y3)(1 := Entered ''x'' (dk_time (sy_w y3))),
      sy_polls := vv_last_unknown (v1\<lparr>vv_last_unknown := 11\<rparr>) # sy_polls y3\<rparr>"
  define y5 where "y5 = y4\<lparr>sy_w := \<lparr>dk_time = 30\<rparr>\<rparr>"
  define y6 where "y6 = y5\<lparr>sy_v := v1\<lparr>vv_last_unknown := 30\<rparr>, sy_w := \<lparr>dk_time = 30\<rparr>, sy_threads := (sy_threads y5)(2 := Entered ''x'' (dk_time (sy_w y5))),
      sy_polls := vv_last_unknown (v1\<lparr>vv_last_unknown := 30\<rparr>) # sy_polls y5\<rparr>"
  note defs = y5_def y4_def y3 v1_def first_verifier_def NewVisitorVerifier_def WithVisitorRefetchCooldown_def
  have "vsys_step ?P dk_time 1 y3 y4" unfolding y4_def
    by (rule vsys_step.unknown [where kid = "''x''"]) (simp_all add: defs keyset_enter_def)
  moreover have "vsys_step ?P dk_time 1 y4 y5" unfolding y5_def by (rule vsys_step.pass_time) (simp add: defs)
  moreover have "vsys_step ?P dk_time 1 y5 y6" unfolding y6_def
    by (rule vsys_step.unknown [where kid = "''x''"]) (simp_all add: defs keyset_enter_def)
  ultimately have "(vsys_step ?P dk_time 1)\<^sup>*\<^sup>* y0 y6" using y3(1) by (meson r_into_rtranclp rtranclp_trans)
  moreover have "sy_polls y6 = [30, 11]" by (simp add: y6_def defs)
  ultimately show ?thesis unfolding y0_def by blast
qed

theorem unknown_kid_throttled_witness:
  "\<exists>y. (vsys_step (desk_ports rotation) dk_time 1)\<^sup>*\<^sup>* (vsys_init first_verifier \<lparr>dk_time = 10\<rparr>) y \<and>
     sy_polls y = [30, 11] \<and> 11 + vv_refetch_min first_verifier \<le> 30"
proof -
  obtain y where y: "(vsys_step (desk_ports rotation) dk_time 1)\<^sup>*\<^sup>* (vsys_init first_verifier \<lparr>dk_time = 10\<rparr>) y" "sy_polls y = [30, 11]"
    using two_polls by blast
  have "vv_cached first_verifier = None" "0 \<le> vv_ttl first_verifier" by code_simp+
  from unknown_kid_throttled [OF desk.jwks_env_axioms y(1) this, of 0] y show ?thesis by auto
qed

text \<open>
  \<^bold>\<open>C37.\<close> A visitor token is accepted only when it is genuine: signed by a key of the key set in use whose id is in its header, issued
  by desk for this service, and unexpired while the call runs; the identity is that of its claims and can be granted nothing but
  one conversation or one agent's feed.
\<close>

theorem visitor_token_genuine:
  assumes "jose_env P tm set_at signed_by" "VisitorVerify P token v w = (Inr i, v', w')"
  shows "\<exists>kid s w1 parsed t. headerKID P token = Inr kid \<and> keySet P kid v w = (Inr s, v', w1) \<and> jx_lookup P s kid \<and> signed_by s token \<and>
    jt_issuer parsed = ''desk-ingress'' \<and> ''relaypoint'' \<in> set (jt_audience parsed) \<and>
    tm w \<le> t \<and> t \<le> tm w' \<and> unix_of t < unix_of (jt_expiration parsed) \<and>
    id_user i = jt_subject parsed \<and> claimString parsed ''tid'' = (id_tenant i, True) \<and>
    (id_role i = RoleVisitor \<and> claimString parsed ''cid'' = (id_conversation i, True) \<and> id_expires_at i = jt_expiration parsed \<or>
     id_role i = '''' \<and> claimString parsed ''cap'' = (id_capability i, True)) \<and>
    grantable i"
proof -
  obtain kid s w1 parsed t where k: "headerKID P token = Inr kid" "keySet P kid v w = (Inr s, v', w1)" "signed_by s token"
    "jt_issuer parsed = visitorIssuer" "visitorAudience \<in> set (jt_audience parsed)" "visitor_claims parsed = Inr i"
    "tm w \<le> t" "t \<le> tm w'" "unix_of t < unix_of (jt_expiration parsed)"
    using jose_env.accepted_token [OF assms] .
  note c = visitor_claims_Inr [OF k(6)]
  have "id_tenant i \<noteq> ''''" using c by (auto simp: grantable_def named_id_def validSubjectToken_def)
  with c have tid: "claimString parsed ''tid'' = (id_tenant i, True)"
    by (auto simp: claimString_def split: option.splits jclaim.splits)
  have kinds: "visitor_id i \<or> agent_id i" using c by (auto simp: grantable_def)
  show ?thesis
    by (intro exI [of _ kid] exI [of _ s] exI [of _ w1] exI [of _ parsed] exI [of _ t])
       (use k c tid kinds keySet_lookup [OF k(2)] in \<open>auto simp: visitorIssuer_def visitorAudience_def visitor_id_def agent_id_def\<close>)
qed

theorem visitor_token_genuine_witness:
  "\<exists>v' w'. VisitorVerify (desk_ports rotation) ''k1|t|v|i'' first_verifier \<lparr>dk_time = 10\<rparr> = (Inr first_visitor, v', w') \<and> grantable first_visitor"
  using visitor_token_genuine [OF desk.jose_env_axioms first_verified] first_verified by blast

end
