(* ===== verification/Obs_Trace.thy ===== *)
theory Obs_Trace
  imports Go_Text
begin

text \<open>
  \<open>internal/obs/trace.go\<close>: the W3C trace context that the services accept from messages and pass on.
  and \<open>startOTelSpan\<close> of \<open>internal/obs/otel.go\<close>. The random source and the OpenTelemetry SDK are
  parameters. A context carries at most one trace context and at most one OpenTelemetry span; the closures
  that log and end a span are left out, and so is the name of a span, which only they and the exporter read.
\<close>

record TraceContext =
  tr_trace_id :: string
  tr_span_id :: string
  tr_sampled :: bool

definition zeroTraceID :: string where "zeroTraceID = replicate 32 (CHR ''0'')"
definition zeroSpanID :: string where "zeroSpanID = replicate 16 (CHR ''0'')"
definition maxTraceparentLen :: nat where "maxTraceparentLen = 55"

definition is_hex_digit :: "char \<Rightarrow> bool" where
  "is_hex_digit c \<longleftrightarrow>
     \<not> (((of_char c :: nat) < 48 \<or> (of_char c :: nat) > 57) \<and> ((of_char c :: nat) < 97 \<or> (of_char c :: nat) > 102))"

definition isHex :: "string \<Rightarrow> bool" where
  "isHex s \<longleftrightarrow> list_all is_hex_digit s"

text \<open>The slice expression \<open>s[a:b]\<close>.\<close>

definition go_slice :: "nat \<Rightarrow> nat \<Rightarrow> 'a list \<Rightarrow> 'a list" where
  "go_slice a b s = take (b - a) (drop a s)"

definition ParseTraceparent :: "string \<Rightarrow> TraceContext option" where
  "ParseTraceparent raw =
     (if length raw = 0 \<or> length raw > maxTraceparentLen then None
      else if length raw \<noteq> 55 \<or> raw ! 2 \<noteq> CHR ''-'' \<or> raw ! 35 \<noteq> CHR ''-'' \<or> raw ! 52 \<noteq> CHR ''-'' then None
      else
        let version = go_slice 0 2 raw; traceID = go_slice 3 35 raw; spanID = go_slice 36 52 raw; flags = go_slice 53 55 raw
        in if version \<noteq> ''00'' \<or> \<not> isHex version \<or> \<not> isHex traceID \<or> \<not> isHex spanID \<or> \<not> isHex flags then None
           else if traceID = zeroTraceID \<or> spanID = zeroSpanID then None
           else Some \<lparr>tr_trace_id = traceID, tr_span_id = spanID, tr_sampled = (flags = ''01'')\<rparr>)"

definition Traceparent :: "TraceContext \<Rightarrow> string" where
  "Traceparent tc =
     (let flags = (if tr_sampled tc then ''01'' else ''00'')
      in ''00-'' @ tr_trace_id tc @ ''-'' @ tr_span_id tc @ ''-'' @ flags)"

text \<open>
  The random source fills a prefix of the buffer and may fail; \<open>hex.EncodeToString\<close> writes two digits
  for every byte.
\<close>

type_synonym 'w rand_source = "'w \<Rightarrow> nat \<Rightarrow> bytes \<times> bool \<times> 'w"

definition hex_encode :: "bytes \<Rightarrow> string" where
  "hex_encode b = concat (map (\<lambda>c. [hex_digit (of_char c div 16), hex_digit (of_char c mod 16)]) b)"

definition allZero :: "bytes \<Rightarrow> bool" where
  "allZero b \<longleftrightarrow> list_all (\<lambda>c. c = CHR 0x00) b"

definition randHex :: "'w rand_source \<Rightarrow> nat \<Rightarrow> 'w \<Rightarrow> string \<times> 'w" where
  "randHex rnd n w =
     (case rnd w n of
        (got, failed, w') \<Rightarrow>
          let b = take n (got @ replicate n (CHR 0x00));
              b1 = (if failed then b[0 := CHR 0x01] else b);
              b2 = (if allZero b1 then b1[0 := CHR 0x01] else b1)
          in (hex_encode b2, w'))"

definition newTraceID :: "'w rand_source \<Rightarrow> 'w \<Rightarrow> string \<times> 'w" where
  "newTraceID rnd w = randHex rnd 16 w"

definition newSpanID :: "'w rand_source \<Rightarrow> 'w \<Rightarrow> string \<times> 'w" where
  "newSpanID rnd w = randHex rnd 8 w"

definition FromInbound :: "'w rand_source \<Rightarrow> string \<Rightarrow> 'w \<Rightarrow> TraceContext \<times> 'w" where
  "FromInbound rnd raw w =
     (case ParseTraceparent raw of
        Some parent \<Rightarrow>
          (let (span, w1) = newSpanID rnd w
           in (\<lparr>tr_trace_id = tr_trace_id parent, tr_span_id = span, tr_sampled = tr_sampled parent\<rparr>, w1))
      | None \<Rightarrow>
          (let (trace, w1) = newTraceID rnd w; (span, w2) = newSpanID rnd w1
           in (\<lparr>tr_trace_id = trace, tr_span_id = span, tr_sampled = True\<rparr>, w2)))"

definition no_trace :: TraceContext where
  "no_trace = \<lparr>tr_trace_id = '''', tr_span_id = '''', tr_sampled = False\<rparr>"

text \<open>
  What the code uses of OpenTelemetry: the span context with its ids, its sampling flag and whether it came
  from another process, and the SDK's functions. The tracer starts a span below the one that the context holds.
\<close>

record ('t, 's) span_context =
  sc_trace_id :: 't
  sc_span_id :: 's
  sc_sampled :: bool
  sc_remote :: bool

record ('t, 's, 'w) otel_sdk_port =
  ot_TraceIDFromHex :: "string \<Rightarrow> 't option"
  ot_SpanIDFromHex :: "string \<Rightarrow> 's option"
  ot_trace_string :: "'t \<Rightarrow> string"
  ot_span_string :: "'s \<Rightarrow> string"
  ot_zero :: "('t, 's) span_context"
  ot_IsValid :: "('t, 's) span_context \<Rightarrow> bool"
  ot_Start :: "('t, 's) span_context \<Rightarrow> 'w \<Rightarrow> ('t, 's) span_context \<times> 'w"

record ('t, 's) obs_context =
  cx_trace :: "TraceContext option"
  cx_span :: "('t, 's) span_context option"

definition TraceFromContext :: "('t, 's) obs_context \<Rightarrow> TraceContext \<times> bool" where
  "TraceFromContext ctx =
     (case cx_trace ctx of None \<Rightarrow> (no_trace, False) | Some tc \<Rightarrow> (tc, tr_trace_id tc \<noteq> ''''))"

definition WithTrace :: "('t, 's) obs_context \<Rightarrow> TraceContext \<Rightarrow> ('t, 's) obs_context" where
  "WithTrace ctx tc = ctx\<lparr>cx_trace := Some tc\<rparr>"

definition otelSpanContext :: "('t, 's, 'w) otel_sdk_port \<Rightarrow> TraceContext \<Rightarrow> ('t, 's) span_context" where
  "otelSpanContext ot tc =
     (case ot_TraceIDFromHex ot (tr_trace_id tc) of
        None \<Rightarrow> ot_zero ot
      | Some tid \<Rightarrow>
          (case ot_SpanIDFromHex ot (tr_span_id tc) of
             None \<Rightarrow> ot_zero ot
           | Some sid \<Rightarrow> \<lparr>sc_trace_id = tid, sc_span_id = sid, sc_sampled = tr_sampled tc, sc_remote = True\<rparr>))"

definition span_of_context :: "('t, 's, 'w) otel_sdk_port \<Rightarrow> ('t, 's) obs_context \<Rightarrow> ('t, 's) span_context" where
  "span_of_context ot ctx = (case cx_span ctx of None \<Rightarrow> ot_zero ot | Some sc \<Rightarrow> sc)"

definition startOTelSpan :: "('t, 's, 'w) otel_sdk_port \<Rightarrow> ('t, 's) obs_context \<Rightarrow> 'w \<Rightarrow> ('t, 's) obs_context \<times> 'w" where
  "startOTelSpan ot ctx w =
     (let ctx1 =
        (if \<not> ot_IsValid ot (span_of_context ot ctx) then
           (case TraceFromContext ctx of
              (parent, ok) \<Rightarrow>
                if ok \<and> ot_IsValid ot (otelSpanContext ot parent) then ctx\<lparr>cx_span := Some (otelSpanContext ot parent)\<rparr> else ctx)
         else ctx)
      in case ot_Start ot (span_of_context ot ctx1) w of
           (sc, w1) \<Rightarrow>
             (WithTrace (ctx1\<lparr>cx_span := Some sc\<rparr>)
                \<lparr>tr_trace_id = ot_trace_string ot (sc_trace_id sc), tr_span_id = ot_span_string ot (sc_span_id sc),
                  tr_sampled = sc_sampled sc\<rparr>, w1))"

text \<open>The package variable \<open>tracer\<close> is nil without an exporter.\<close>

definition StartSpan ::
  "('t, 's, 'w) otel_sdk_port option \<Rightarrow> 'w rand_source \<Rightarrow> ('t, 's) obs_context \<Rightarrow> 'w \<Rightarrow> ('t, 's) obs_context \<times> 'w" where
  "StartSpan tracer rnd ctx w =
     (case tracer of
        Some ot \<Rightarrow> startOTelSpan ot ctx w
      | None \<Rightarrow>
          (let (parent, ok) = TraceFromContext ctx;
               (traceID, w1) = (if \<not> ok \<or> tr_trace_id parent = '''' then newTraceID rnd w else (tr_trace_id parent, w));
               (span, w2) = newSpanID rnd w1
           in (WithTrace ctx \<lparr>tr_trace_id = traceID, tr_span_id = span, tr_sampled = tr_sampled parent \<or> \<not> ok\<rparr>, w2)))"

text \<open>From \<open>internal/obs/obs.go\<close>: the header that a message gets (if any), and the context of a received one.\<close>

definition InjectTraceparent :: "('t, 's) obs_context \<Rightarrow> string option" where
  "InjectTraceparent ctx =
     (case TraceFromContext ctx of (tc, ok) \<Rightarrow> if ok then Some (Traceparent tc) else None)"

definition ContextFromTraceparent ::
  "'w rand_source \<Rightarrow> ('t, 's) obs_context \<Rightarrow> string \<Rightarrow> 'w \<Rightarrow> ('t, 's) obs_context \<times> 'w" where
  "ContextFromTraceparent rnd ctx raw w = (case FromInbound rnd raw w of (tc, w') \<Rightarrow> (WithTrace ctx tc, w'))"

section \<open>Parsing and printing\<close>

text \<open>A trace context that may be sent on.\<close>

definition valid_trace :: "TraceContext \<Rightarrow> bool" where
  "valid_trace tc \<longleftrightarrow>
     length (tr_trace_id tc) = 32 \<and> isHex (tr_trace_id tc) \<and> tr_trace_id tc \<noteq> zeroTraceID \<and>
     length (tr_span_id tc) = 16 \<and> isHex (tr_span_id tc) \<and> tr_span_id tc \<noteq> zeroSpanID"

lemma go_slice_parts:
  assumes "length t = 32" "length s = 16" "length f = 2"
  shows "go_slice 0 2 (''00-'' @ t @ ''-'' @ s @ ''-'' @ f) = ''00''"
    "go_slice 3 35 (''00-'' @ t @ ''-'' @ s @ ''-'' @ f) = t"
    "go_slice 36 52 (''00-'' @ t @ ''-'' @ s @ ''-'' @ f) = s"
    "go_slice 53 55 (''00-'' @ t @ ''-'' @ s @ ''-'' @ f) = f"
    "(''00-'' @ t @ ''-'' @ s @ ''-'' @ f) ! 2 = CHR ''-''"
    "(''00-'' @ t @ ''-'' @ s @ ''-'' @ f) ! 35 = CHR ''-''"
    "(''00-'' @ t @ ''-'' @ s @ ''-'' @ f) ! 52 = CHR ''-''"
    "length (''00-'' @ t @ ''-'' @ s @ ''-'' @ f) = 55"
  using assms by (simp_all add: go_slice_def nth_append nth_Cons')

lemma slice_join:
  assumes "length raw = 55" "raw ! 2 = c" "raw ! 35 = c" "raw ! 52 = c"
  shows "raw = go_slice 0 2 raw @ [c] @ go_slice 3 35 raw @ [c] @ go_slice 36 52 raw @ [c] @ go_slice 53 55 raw"
proof -
  have step: "drop a raw = go_slice a b raw @ [c] @ drop (Suc b) raw" if "a \<le> b" "b < 55" "raw ! b = c" for a b
  proof -
    have "drop a raw = take (b - a) (drop a raw) @ drop b raw" using that(1)
      by (metis append_take_drop_id drop_drop le_add_diff_inverse2)
    moreover have "drop b raw = raw ! b # drop (Suc b) raw" using that(2) assms(1) by (simp add: Cons_nth_drop_Suc)
    ultimately show ?thesis using that(3) by (simp add: go_slice_def)
  qed
  have "drop 53 raw = go_slice 53 55 raw" using assms(1) by (simp add: go_slice_def)
  with step [of 0 2] step [of 3 35] step [of 36 52] assms show ?thesis by simp
qed

lemma ParseTraceparent_Some:
  "ParseTraceparent raw = Some tc \<longleftrightarrow>
     (\<exists>flags. raw = ''00-'' @ tr_trace_id tc @ ''-'' @ tr_span_id tc @ ''-'' @ flags \<and> length flags = 2 \<and> isHex flags \<and>
        tr_sampled tc = (flags = ''01'') \<and> valid_trace tc)" (is "?L \<longleftrightarrow> ?R")
proof
  assume ?L
  then have l: "length raw = 55" "raw ! 2 = CHR ''-''" "raw ! 35 = CHR ''-''" "raw ! 52 = CHR ''-''"
    and p: "go_slice 0 2 raw = ''00''" "isHex (go_slice 3 35 raw)" "isHex (go_slice 36 52 raw)" "isHex (go_slice 53 55 raw)"
      "go_slice 3 35 raw \<noteq> zeroTraceID" "go_slice 36 52 raw \<noteq> zeroSpanID"
      "tc = \<lparr>tr_trace_id = go_slice 3 35 raw, tr_span_id = go_slice 36 52 raw, tr_sampled = (go_slice 53 55 raw = ''01'')\<rparr>"
    by (auto simp: ParseTraceparent_def Let_def split: if_splits)
  have "raw = ''00-'' @ tr_trace_id tc @ ''-'' @ tr_span_id tc @ ''-'' @ go_slice 53 55 raw"
    using slice_join [OF l] p(1,7) by simp
  moreover have "length (go_slice 3 35 raw) = 32" "length (go_slice 36 52 raw) = 16" "length (go_slice 53 55 raw) = 2"
    using l(1) by (simp_all add: go_slice_def)
  ultimately show ?R using p by (intro exI [of _ "go_slice 53 55 raw"]) (simp add: valid_trace_def)
next
  assume ?R
  then obtain flags where r: "raw = ''00-'' @ tr_trace_id tc @ ''-'' @ tr_span_id tc @ ''-'' @ flags"
    and f: "length flags = 2" "isHex flags" "tr_sampled tc = (flags = ''01'')" and v: "valid_trace tc" by blast
  note g = go_slice_parts [of "tr_trace_id tc" "tr_span_id tc" flags, folded r]
  have "isHex ''00''" by code_simp
  with g f v show ?L unfolding ParseTraceparent_def Let_def
    by (auto simp: valid_trace_def maxTraceparentLen_def)
qed

lemma parse_print: "valid_trace tc \<Longrightarrow> ParseTraceparent (Traceparent tc) = Some tc"
proof -
  assume v: "valid_trace tc"
  have "isHex ''00''" "isHex ''01''" by code_simp+
  with v show ?thesis unfolding ParseTraceparent_Some
    by (intro exI [of _ "if tr_sampled tc then ''01'' else ''00''"]) (simp add: Traceparent_def Let_def)
qed

section \<open>Fresh ids\<close>

lemma hex_digits: "n \<in> set [0..15] \<Longrightarrow> is_hex_digit (hex_digit n) \<and> (hex_digit n = CHR ''0'' \<longleftrightarrow> n = 0)"
proof -
  have "list_all (\<lambda>n. is_hex_digit (hex_digit n) \<and> (hex_digit n = CHR ''0'' \<longleftrightarrow> n = 0)) [0..15]" by code_simp
  then show "n \<in> set [0..15] \<Longrightarrow> ?thesis" unfolding list_all_iff by blast
qed

lemma byte_digits:
  "is_hex_digit (hex_digit (of_char c div 16))" "is_hex_digit (hex_digit (of_char c mod 16))"
  "hex_digit (of_char c div 16) = CHR ''0'' \<and> hex_digit (of_char c mod 16) = CHR ''0'' \<longleftrightarrow> c = CHR 0x00"
proof -
  have "(of_char c :: int) = int (of_char c)" by (rule of_nat_of_char [symmetric])
  then have b: "0 \<le> (of_char c :: int)" "(of_char c :: int) < 256" using nat_of_char_less_256 [of c] by linarith+
  then have "(of_char c :: int) div 16 \<in> set [0..15]" "(of_char c :: int) mod 16 \<in> set [0..15]" by auto
  note h = hex_digits [OF this(1)] hex_digits [OF this(2)]
  have "(of_char c :: int) div 16 = 0 \<and> (of_char c :: int) mod 16 = 0 \<longleftrightarrow> of_char c = (0 :: int)"
    using div_mult_mod_eq [of "of_char c :: int" 16] by auto
  also have "\<dots> \<longleftrightarrow> (of_char c :: int) = of_char (CHR 0x00)" by simp
  also have "\<dots> \<longleftrightarrow> c = CHR 0x00" by (rule of_char_eq_iff)
  finally have z: "(of_char c :: int) div 16 = 0 \<and> (of_char c :: int) mod 16 = 0 \<longleftrightarrow> c = CHR 0x00" .
  show "is_hex_digit (hex_digit (of_char c div 16))" "is_hex_digit (hex_digit (of_char c mod 16))" using h by blast+
  show "hex_digit (of_char c div 16) = CHR ''0'' \<and> hex_digit (of_char c mod 16) = CHR ''0'' \<longleftrightarrow> c = CHR 0x00"
    unfolding conjunct2 [OF h(1)] conjunct2 [OF h(2)] by (rule z)
qed

lemma hex_encode_props:
  "length (hex_encode b) = 2 * length b" "isHex (hex_encode b)"
  "list_all (\<lambda>c. c = CHR ''0'') (hex_encode b) \<longleftrightarrow> allZero b"
proof -
  show "length (hex_encode b) = 2 * length b" by (induction b) (simp_all add: hex_encode_def)
  show "isHex (hex_encode b)" by (induction b) (simp_all add: hex_encode_def isHex_def byte_digits)
  show "list_all (\<lambda>c. c = CHR ''0'') (hex_encode b) \<longleftrightarrow> allZero b"
    by (induction b) (use byte_digits(3) in \<open>auto simp: hex_encode_def allZero_def\<close>)
qed

lemma randHex_valid:
  assumes "0 < n" "randHex rnd n w = (s, w')"
  shows "length s = 2 * n \<and> isHex s \<and> s \<noteq> replicate (2 * n) (CHR ''0'')"
proof -
  obtain got failed w1 where r: "rnd w n = (got, failed, w1)" using prod_cases3 .
  define b where "b = take n (got @ replicate n (CHR 0x00))"
  define b1 where "b1 = (if failed then b[0 := CHR 0x01] else b)"
  define b2 where "b2 = (if allZero b1 then b1[0 := CHR 0x01] else b1)"
  have s: "s = hex_encode b2" using assms(2) unfolding randHex_def r prod.case Let_def b2_def b1_def b_def by (simp only: prod.inject)
  have len: "length b2 = n" by (simp add: b_def b1_def b2_def)
  have "\<not> allZero b2"
  proof (cases "allZero b1")
    case True
    have "b1 \<noteq> []" using assms(1) by (auto simp: b1_def b_def)
    then have "b2 ! 0 = CHR 0x01" "b2 \<noteq> []" using True by (simp_all add: b2_def)
    then show ?thesis by (auto simp: allZero_def list_all_length)
  next
    case False
    then show ?thesis by (simp add: b2_def)
  qed
  then have "s \<noteq> replicate (2 * n) (CHR ''0'')"
    using hex_encode_props(3) [of b2] unfolding s by (auto simp: list_all_length)
  with len s hex_encode_props show ?thesis by simp
qed

lemma FromInbound_valid:
  assumes "FromInbound rnd raw w = (tc, w')"
  shows "valid_trace tc \<and>
    tr_trace_id tc = (case ParseTraceparent raw of Some p \<Rightarrow> tr_trace_id p | None \<Rightarrow> fst (newTraceID rnd w)) \<and>
    tr_sampled tc = (case ParseTraceparent raw of Some p \<Rightarrow> tr_sampled p | None \<Rightarrow> True)"
proof (cases "ParseTraceparent raw")
  case None
  obtain t w1 where t: "newTraceID rnd w = (t, w1)" by fastforce
  obtain s w2 where s: "newSpanID rnd w1 = (s, w2)" by fastforce
  have "tc = \<lparr>tr_trace_id = t, tr_span_id = s, tr_sampled = True\<rparr>" using assms None t s by (simp add: FromInbound_def)
  with randHex_valid [of 16 rnd w t w1] randHex_valid [of 8 rnd w1 s w2] t s None show ?thesis
    by (simp add: valid_trace_def newTraceID_def newSpanID_def zeroTraceID_def zeroSpanID_def)
next
  case (Some p)
  obtain s w2 where s: "newSpanID rnd w = (s, w2)" by fastforce
  have "tc = \<lparr>tr_trace_id = tr_trace_id p, tr_span_id = s, tr_sampled = tr_sampled p\<rparr>" using assms Some s by (simp add: FromInbound_def)
  moreover have "valid_trace p" using Some by (auto simp: ParseTraceparent_Some)
  ultimately show ?thesis using randHex_valid [of 8 rnd w s w2] s Some
    by (simp add: valid_trace_def newSpanID_def zeroSpanID_def)
qed

section \<open>Spans\<close>

text \<open>
  What the OpenTelemetry SDK documents: \<open>TraceIDFromHex\<close> and \<open>SpanIDFromHex\<close> read the ids that the W3C
  trace context allows, and \<open>String\<close> writes them back; the zero span context is invalid and one made of two
  ids is valid; a span started below a remote parent has the parent's trace id, a valid id of its own, and
  (with the parent-based sampler that \<open>InitTracer\<close> installs) the parent's sampling decision.
\<close>

locale otel_sdk =
  fixes ot :: "('t, 's, 'w) otel_sdk_port"
  assumes trace_hex: "length a = 32 \<Longrightarrow> isHex a \<Longrightarrow> a \<noteq> zeroTraceID \<Longrightarrow> \<exists>t. ot_TraceIDFromHex ot a = Some t \<and> ot_trace_string ot t = a"
    and span_hex: "length a = 16 \<Longrightarrow> isHex a \<Longrightarrow> a \<noteq> zeroSpanID \<Longrightarrow> \<exists>s. ot_SpanIDFromHex ot a = Some s \<and> ot_span_string ot s = a"
    and zero_invalid: "\<not> ot_IsValid ot (ot_zero ot)"
    and parsed_valid: "ot_TraceIDFromHex ot a = Some t \<Longrightarrow> ot_SpanIDFromHex ot b = Some s \<Longrightarrow>
      ot_IsValid ot \<lparr>sc_trace_id = t, sc_span_id = s, sc_sampled = f, sc_remote = r\<rparr>"
    and start_below: "ot_IsValid ot p \<Longrightarrow> sc_remote p \<Longrightarrow> ot_Start ot p w = (sc, w') \<Longrightarrow>
      sc_trace_id sc = sc_trace_id p \<and> sc_sampled sc = sc_sampled p \<and>
      length (ot_span_string ot (sc_span_id sc)) = 16 \<and> isHex (ot_span_string ot (sc_span_id sc)) \<and>
      ot_span_string ot (sc_span_id sc) \<noteq> zeroSpanID"
begin

lemma startOTelSpan_remote:
  assumes v: "valid_trace t" and c: "cx_trace ctx = Some t" "cx_span ctx = None" and e: "startOTelSpan ot ctx w = (c', w')"
  shows "\<exists>tc. cx_trace c' = Some tc \<and> valid_trace tc \<and> tr_trace_id tc = tr_trace_id t \<and> tr_sampled tc = tr_sampled t"
proof -
  obtain i where i: "ot_TraceIDFromHex ot (tr_trace_id t) = Some i" "ot_trace_string ot i = tr_trace_id t"
    using trace_hex [of "tr_trace_id t"] v by (auto simp: valid_trace_def)
  obtain j where j: "ot_SpanIDFromHex ot (tr_span_id t) = Some j"
    using span_hex [of "tr_span_id t"] v by (auto simp: valid_trace_def)
  define p where "p = \<lparr>sc_trace_id = i, sc_span_id = j, sc_sampled = tr_sampled t, sc_remote = True\<rparr>"
  have p: "otelSpanContext ot t = p" "ot_IsValid ot p" using i(1) j parsed_valid [OF i(1) j] by (simp_all add: otelSpanContext_def p_def)
  have t: "TraceFromContext ctx = (t, True)" using c(1) v by (auto simp: TraceFromContext_def valid_trace_def)
  obtain sc w1 where s: "ot_Start ot p w = (sc, w1)" by fastforce
  have "c' = WithTrace (ctx\<lparr>cx_span := Some sc\<rparr>)
      \<lparr>tr_trace_id = ot_trace_string ot (sc_trace_id sc), tr_span_id = ot_span_string ot (sc_span_id sc), tr_sampled = sc_sampled sc\<rparr>"
    using e t c(2) p s zero_invalid by (simp add: startOTelSpan_def span_of_context_def)
  with start_below [OF p(2) _ s] i(2) v show ?thesis by (simp add: p_def WithTrace_def valid_trace_def)
qed

end

text \<open>Either no tracer is installed, or one of the SDK.\<close>

definition tracer_ok :: "('t, 's, 'w) otel_sdk_port option \<Rightarrow> bool" where
  "tracer_ok tracer \<longleftrightarrow> (case tracer of None \<Rightarrow> True | Some ot \<Rightarrow> otel_sdk ot)"

lemma StartSpan_carries_on:
  assumes k: "tracer_ok tracer" and v: "valid_trace t" and c: "cx_trace ctx = Some t" "cx_span ctx = None"
    and e: "StartSpan tracer rnd ctx w = (c', w')"
  shows "\<exists>tc. cx_trace c' = Some tc \<and> valid_trace tc \<and> tr_trace_id tc = tr_trace_id t \<and> tr_sampled tc = tr_sampled t \<and>
    (tracer = None \<longrightarrow> tr_span_id tc = fst (newSpanID rnd w))"
proof (cases tracer)
  case None
  obtain s w2 where s: "newSpanID rnd w = (s, w2)" by fastforce
  have ne: "tr_trace_id t \<noteq> ''''" using v by (auto simp: valid_trace_def)
  have "c' = WithTrace ctx \<lparr>tr_trace_id = tr_trace_id t, tr_span_id = s, tr_sampled = tr_sampled t\<rparr>"
    using e ne c(1) s None by (simp add: StartSpan_def TraceFromContext_def)
  with v s randHex_valid [of 8 rnd w s w2] show ?thesis by (simp add: valid_trace_def WithTrace_def newSpanID_def zeroSpanID_def)
next
  case (Some ot)
  then have "otel_sdk ot" using k by (simp add: tracer_ok_def)
  from otel_sdk.startOTelSpan_remote [OF this v c, of w c' w'] e Some show ?thesis by (simp add: StartSpan_def)
qed

text \<open>The span of a message sent on while a received one is handled: the header carries on the trace.\<close>

lemma relayed_header:
  assumes k: "tracer_ok tracer" "cx_span ctx = None"
    and e: "ContextFromTraceparent rnd ctx raw w = (c1, w1)" "StartSpan tracer rnd c1 w1 = (c2, w2)"
  shows "\<exists>tc hdr. InjectTraceparent c2 = Some hdr \<and> ParseTraceparent hdr = Some tc \<and> cx_trace c2 = Some tc \<and>
    tr_trace_id tc = (case ParseTraceparent raw of Some p \<Rightarrow> tr_trace_id p | None \<Rightarrow> fst (newTraceID rnd w)) \<and>
    tr_sampled tc = (case ParseTraceparent raw of Some p \<Rightarrow> tr_sampled p | None \<Rightarrow> True) \<and>
    (tracer = None \<longrightarrow> tr_span_id tc = fst (newSpanID rnd w1))"
proof -
  obtain t1 where t1: "FromInbound rnd raw w = (t1, w1)" "c1 = WithTrace ctx t1"
    using e(1) by (auto simp: ContextFromTraceparent_def split: prod.splits)
  note v1 = FromInbound_valid [OF t1(1)]
  have c1: "cx_trace c1 = Some t1" "cx_span c1 = None" using k(2) by (simp_all add: t1(2) WithTrace_def)
  obtain tc where tc: "cx_trace c2 = Some tc" "valid_trace tc" "tr_trace_id tc = tr_trace_id t1" "tr_sampled tc = tr_sampled t1"
    "tracer = None \<longrightarrow> tr_span_id tc = fst (newSpanID rnd w1)"
    using StartSpan_carries_on [OF k(1) conjunct1 [OF v1] c1 e(2)] by blast
  have "InjectTraceparent c2 = Some (Traceparent tc)" using tc(1,2) by (auto simp: InjectTraceparent_def TraceFromContext_def valid_trace_def)
  with tc v1 parse_print [OF tc(2)] show ?thesis by simp
qed

text \<open>
  \<^bold>\<open>C38.\<close> The trust boundary of trace headers: whatever header arrives at a handler whose context holds no span yet, even
  if the random source fails, and with or without an OpenTelemetry tracer, the header of a message sent on is well-formed and
  parses back to the current span. A header with version 00, lower-case hex ids that are not all zero and two flag digits hands
  on its trace id and its sampling, and nothing else parses; from any other header nothing is taken: the trace id is a fresh one of
  the random source and the trace is sampled. Without a tracer the id of the span is a fresh one in both cases.
\<close>

theorem trace_boundary:
  assumes "tracer_ok tracer" "cx_span ctx = None"
    "ContextFromTraceparent rnd ctx raw w = (c1, w1)" "StartSpan tracer rnd c1 w1 = (c2, w2)"
  shows "(\<exists>tc hdr. InjectTraceparent c2 = Some hdr \<and> ParseTraceparent hdr = Some tc \<and> cx_trace c2 = Some tc \<and>
      tr_trace_id tc = (case ParseTraceparent raw of Some p \<Rightarrow> tr_trace_id p | None \<Rightarrow> fst (newTraceID rnd w)) \<and>
      tr_sampled tc = (case ParseTraceparent raw of Some p \<Rightarrow> tr_sampled p | None \<Rightarrow> True) \<and>
      (tracer = None \<longrightarrow> tr_span_id tc = fst (newSpanID rnd w1))) \<and>
    (\<forall>p. ParseTraceparent raw = Some p \<longleftrightarrow>
      (\<exists>flags. raw = ''00-'' @ tr_trace_id p @ ''-'' @ tr_span_id p @ ''-'' @ flags \<and> length flags = 2 \<and> isHex flags \<and>
         tr_sampled p = (flags = ''01'') \<and> valid_trace p))"
  using relayed_header [OF assms] ParseTraceparent_Some by blast

text \<open>A random source that always fails, and an SDK whose ids are their hex strings.\<close>

definition no_random :: "unit rand_source" where
  "no_random w n = ([], True, w)"

definition hex_sdk :: "(string, string, unit) otel_sdk_port" where
  "hex_sdk =
     \<lparr>ot_TraceIDFromHex = (\<lambda>s. if length s = 32 \<and> isHex s \<and> s \<noteq> zeroTraceID then Some s else None),
      ot_SpanIDFromHex = (\<lambda>s. if length s = 16 \<and> isHex s \<and> s \<noteq> zeroSpanID then Some s else None),
      ot_trace_string = id, ot_span_string = id,
      ot_zero = \<lparr>sc_trace_id = zeroTraceID, sc_span_id = zeroSpanID, sc_sampled = False, sc_remote = False\<rparr>,
      ot_IsValid = (\<lambda>sc. sc_trace_id sc \<noteq> zeroTraceID \<and> sc_span_id sc \<noteq> zeroSpanID),
      ot_Start = (\<lambda>p w.
        (\<lparr>sc_trace_id = (if sc_trace_id p = zeroTraceID then replicate 32 (CHR ''1'') else sc_trace_id p),
          sc_span_id = replicate 16 (CHR ''5''), sc_sampled = sc_sampled p, sc_remote = False\<rparr>, w))\<rparr>"

interpretation hex: otel_sdk hex_sdk
proof unfold_locales
  have d: "length (replicate 16 (CHR ''5'')) = 16" "isHex (replicate 16 (CHR ''5''))" "replicate 16 (CHR ''5'') \<noteq> zeroSpanID"
    by code_simp+
  show "sc_trace_id sc = sc_trace_id p \<and> sc_sampled sc = sc_sampled p \<and>
      length (ot_span_string hex_sdk (sc_span_id sc)) = 16 \<and> isHex (ot_span_string hex_sdk (sc_span_id sc)) \<and>
      ot_span_string hex_sdk (sc_span_id sc) \<noteq> zeroSpanID"
    if "ot_IsValid hex_sdk p" "sc_remote p" "ot_Start hex_sdk p w = (sc, w')" for p w sc w'
    using that d by (auto simp: hex_sdk_def)
qed (auto simp: hex_sdk_def split: if_splits)

theorem trace_boundary_witness:
  "\<exists>c1 c2 tc hdr. ContextFromTraceparent no_random \<lparr>cx_trace = None, cx_span = None\<rparr>
       (''00-'' @ replicate 32 (CHR ''a'') @ ''-'' @ replicate 16 (CHR ''b'') @ ''-01'') () = (c1, ()) \<and>
     StartSpan (Some hex_sdk) no_random c1 () = (c2, ()) \<and> InjectTraceparent c2 = Some hdr \<and> ParseTraceparent hdr = Some tc \<and>
     tr_trace_id tc = replicate 32 (CHR ''a'')"
proof -
  let ?raw = "''00-'' @ replicate 32 (CHR ''a'') @ ''-'' @ replicate 16 (CHR ''b'') @ ''-01''"
  define c0 :: "(string, string) obs_context" where "c0 = \<lparr>cx_trace = None, cx_span = None\<rparr>"
  define c1 where "c1 = fst (ContextFromTraceparent no_random c0 ?raw ())"
  define c2 where "c2 = fst (StartSpan (Some hex_sdk) no_random c1 ())"
  have 0: "tracer_ok (Some hex_sdk)" "cx_span c0 = None" by (simp_all add: tracer_ok_def hex.otel_sdk_axioms c0_def)
  have 1: "ContextFromTraceparent no_random c0 ?raw () = (c1, ())" by (simp add: prod_eq_iff c1_def)
  have 2: "StartSpan (Some hex_sdk) no_random c1 () = (c2, ())" by (simp add: prod_eq_iff c2_def)
  have "ParseTraceparent ?raw = Some \<lparr>tr_trace_id = replicate 32 (CHR ''a''), tr_span_id = replicate 16 (CHR ''b''), tr_sampled = True\<rparr>"
    by code_simp
  with trace_boundary [OF 0 1 2, THEN conjunct1] 1 2 show ?thesis by (fastforce simp: c0_def)
qed

end
