(* ===== verification/Part_Domain.thy ===== *)
theory Part_Domain
  imports Obs_Trace
begin

text \<open>
  The data and the pure functions of \<open>internal/participation/projector.go\<close>: commands and their
  canonical form, identities, folds, and the validation of what the authority answers. The protobuf
  codec, the check of timestamps and SHA-256 are parameters. Versions are \<open>uint64\<close> in the code and
  \<open>bigint\<close> in the tables; they are natural numbers here, and the table operations refuse a version
  outside \<open>bigint\<close>, so that no sum in the code wraps.
\<close>

section \<open>Errors\<close>

text \<open>An error is the list of errors it wraps: \<open>errors.Join\<close> appends, \<open>errors.Is\<close> is membership.\<close>

datatype perr_kind = ErrInvalid | ErrPermissionDenied | ErrDivergentHistory | ErrUnknownHistory | ErrReconcileExhausted | ErrOther string

type_synonym perr = "perr_kind list"

section \<open>Data\<close>

text \<open>\<open>^[0-9a-f]{8}-[0-9a-f]{4}-7[0-9a-f]{3}-[89ab][0-9a-f]{3}-[0-9a-f]{12}$\<close>\<close>

definition uuid7_at :: "nat \<Rightarrow> char \<Rightarrow> bool" where
  "uuid7_at i c =
     (if i \<in> {8, 13, 18, 23} then c = CHR ''-''
      else if i = 14 then c = CHR ''7''
      else if i = 19 then c \<in> set ''89ab''
      else is_hex_digit c)"

definition uuidv7 :: "string \<Rightarrow> bool" where
  "uuidv7 s \<longleftrightarrow> length s = 36 \<and> list_all (\<lambda>(i, c). uuid7_at i c) (enumerate 0 s)"

type_synonym part_key = "string \<times> string"

record pcommand =
  pc_event_id :: string
  pc_version :: nat
  pc_tenant :: string
  pc_interaction :: string
  pc_participant :: string
  pc_desired :: int
  pc_occurred_at :: "(int \<times> int) option"
  pc_traceparent :: string
  pc_unknown :: bytes

definition ASSIGNED :: int where "ASSIGNED = 1"
definition UNASSIGNED :: int where "UNASSIGNED = 2"

record pidentity =
  pi_event_id :: string
  pi_hash :: bytes
  pi_body :: bytes

definition no_pidentity :: pidentity where
  "no_pidentity = \<lparr>pi_event_id = '''', pi_hash = replicate 32 (CHR 0x00), pi_body = []\<rparr>"

record prec =
  pr_command :: pcommand
  pr_identity :: pidentity

record pfold =
  fo_tenant :: string
  fo_interaction :: string
  fo_version :: nat
  fo_identity :: pidentity
  fo_participants :: "string set"
  fo_provenance :: string

record pintent =
  in_token :: string
  in_key :: part_key
  in_observed :: nat
  in_from :: nat
  in_to :: nat
  in_held :: pidentity

record psnapshot =
  sn_fold :: pfold
  sn_floor :: nat
  sn_provenance :: string

record transport_grant =
  tg_service :: string
  tg_capability :: string
  tg_role :: string

record principal =
  pr_tenant :: string
  pr_grant :: transport_grant

definition CapabilityWrite :: string where "CapabilityWrite = ''Corex-participation-write''"

definition ValidTransportGrant :: "transport_grant \<Rightarrow> string \<Rightarrow> bool" where
  "ValidTransportGrant g capability \<longleftrightarrow> tg_service g \<noteq> '''' \<and> tg_role g = '''' \<and> tg_capability g = capability"

text \<open>The wire messages of the authority.\<close>

record replay_response =
  rr_commands :: "pcommand list"
  rr_head_version :: nat
  rr_head_event_id :: string
  rr_head_hash :: bytes
  rr_floor :: nat
  rr_provenance :: string

record snapshot_response =
  sr_tenant :: string
  sr_interaction :: string
  sr_version :: nat
  sr_head_event_id :: string
  sr_head_hash :: bytes
  sr_participants :: "string list"
  sr_floor :: nat
  sr_provenance :: string

record pcodec =
  pk_time_valid :: "int \<times> int \<Rightarrow> bool"
  pk_marshal :: "pcommand \<Rightarrow> bytes option"
  pk_sha256 :: "bytes \<Rightarrow> bytes"

section \<open>Canonical form\<close>

definition command_ok :: "pcodec \<Rightarrow> pcommand \<Rightarrow> bool" where
  "command_ok K c \<longleftrightarrow>
     uuidv7 (pc_event_id c) \<and> uuidv7 (pc_tenant c) \<and> uuidv7 (pc_interaction c) \<and> uuidv7 (pc_participant c) \<and>
     pc_version c \<noteq> 0 \<and> (pc_desired c = ASSIGNED \<or> pc_desired c = UNASSIGNED) \<and>
     (case pc_occurred_at c of None \<Rightarrow> False | Some t \<Rightarrow> pk_time_valid K t)"

definition Canonical :: "pcodec \<Rightarrow> pcommand option \<Rightarrow> perr + prec" where
  "Canonical K command =
     (case command of
        None \<Rightarrow> Inl [ErrInvalid]
      | Some c \<Rightarrow>
          if \<not> command_ok K c then Inl [ErrInvalid]
          else if ParseTraceparent (pc_traceparent c) = None then Inl [ErrInvalid]
          else
            let normalized = c\<lparr>pc_unknown := []\<rparr>
            in (case pk_marshal K normalized of
                  None \<Rightarrow> Inl [ErrInvalid]
                | Some body \<Rightarrow>
                    Inr \<lparr>pr_command = normalized,
                         pr_identity = \<lparr>pi_event_id = pc_event_id normalized, pi_hash = pk_sha256 K body, pi_body = body\<rparr>\<rparr>))"

definition sameIdentity :: "pidentity \<Rightarrow> pidentity \<Rightarrow> bool" where
  "sameIdentity l r \<longleftrightarrow> pi_event_id l = pi_event_id r \<and> pi_hash l = pi_hash r"

text \<open>The loop of \<open>bytesEqual\<close>.\<close>

definition bytesEqual :: "bytes \<Rightarrow> bytes \<Rightarrow> bool" where
  "bytesEqual l r =
     (if length l \<noteq> length r then False else list_all (\<lambda>i. l ! i = r ! i) [0 ..< length l])"

lemma bytesEqual_iff [simp]: "bytesEqual l r \<longleftrightarrow> l = r"
  by (auto simp: bytesEqual_def list_all_iff intro: nth_equalityI)

section \<open>Folding\<close>

definition apply_desired :: "pcommand \<Rightarrow> string set \<Rightarrow> string set" where
  "apply_desired c ps = (if pc_desired c = ASSIGNED then insert (pc_participant c) ps else ps - {pc_participant c})"

fun foldRecords :: "pfold \<Rightarrow> prec list \<Rightarrow> perr + pfold" where
  "foldRecords next [] = Inr next"
| "foldRecords next (r # rs) =
     (let c = pr_command r
      in if pc_version c \<noteq> fo_version next + 1 \<or>
            (fo_tenant next \<noteq> '''' \<and> (fo_tenant next \<noteq> pc_tenant c \<or> fo_interaction next \<noteq> pc_interaction c))
         then Inl [ErrDivergentHistory]
         else foldRecords
                (next\<lparr>fo_participants := apply_desired c (fo_participants next), fo_tenant := pc_tenant c,
                      fo_interaction := pc_interaction c, fo_version := pc_version c, fo_identity := pr_identity r,
                      fo_provenance := ''''\<rparr>) rs)"

section \<open>Validation of the authority's answers\<close>

fun replay_records :: "pcodec \<Rightarrow> pintent \<Rightarrow> nat \<Rightarrow> pcommand list \<Rightarrow> perr + prec list" where
  "replay_records K intent index [] = Inr []"
| "replay_records K intent index (c # cs) =
     (case Canonical K (Some c) of
        Inl _ \<Rightarrow> Inl [ErrDivergentHistory]
      | Inr r \<Rightarrow>
          if pc_tenant c \<noteq> fst (in_key intent) \<or> pc_interaction c \<noteq> snd (in_key intent) \<or>
             pc_version c \<noteq> in_from intent + index
          then Inl [ErrDivergentHistory]
          else (case replay_records K intent (Suc index) cs of Inl e \<Rightarrow> Inl e | Inr rs \<Rightarrow> Inr (r # rs)))"

definition validateReplay :: "pcodec \<Rightarrow> replay_response option \<Rightarrow> pintent \<Rightarrow> prec \<Rightarrow> perr + prec list" where
  "validateReplay K replay intent held =
     (case replay of
        None \<Rightarrow> Inl [ErrUnknownHistory]
      | Some rp \<Rightarrow>
          if rr_floor rp = 0 \<or> rr_provenance rp = '''' \<or> rr_head_version rp < in_to intent \<or>
             length (rr_commands rp) \<noteq> in_to intent - in_from intent + 1
          then Inl [ErrUnknownHistory]
          else
     (case replay_records K intent 0 (rr_commands rp) of
        Inl e \<Rightarrow> Inl e
      | Inr records \<Rightarrow>
          let lastr = last records
          in if rr_head_version rp = pc_version (pr_command lastr) \<and>
                (rr_head_event_id rp \<noteq> pi_event_id (pr_identity lastr) \<or>
                 length (rr_head_hash rp) \<noteq> length (pi_hash (pr_identity lastr)) \<or>
                 \<not> bytesEqual (rr_head_hash rp) (pi_hash (pr_identity lastr)))
             then Inl [ErrDivergentHistory]
             else if \<not> list_ex (\<lambda>r. pc_version (pr_command r) = pc_version (pr_command held) \<and>
                                     sameIdentity (pr_identity r) (pr_identity held)) records
             then Inl [ErrDivergentHistory]
             else Inr records))"

definition validateSnapshot :: "snapshot_response option \<Rightarrow> pintent \<Rightarrow> prec \<Rightarrow> perr + psnapshot" where
  "validateSnapshot wire intent held =
     (case wire of
        None \<Rightarrow> Inl [ErrUnknownHistory]
      | Some s \<Rightarrow>
          if sr_tenant s \<noteq> fst (in_key intent) \<or> sr_interaction s \<noteq> snd (in_key intent) \<or>
             sr_version s < in_observed intent \<or> sr_version s < pc_version (pr_command held) \<or>
             \<not> uuidv7 (sr_head_event_id s) \<or> length (sr_head_hash s) \<noteq> 32 \<or>
             sr_floor s = 0 \<or> sr_floor s > sr_version s \<or> sr_provenance s = ''''
          then Inl [ErrUnknownHistory]
          else if \<not> list_all uuidv7 (sr_participants s) then Inl [ErrInvalid]
          else Inr \<lparr>sn_fold = \<lparr>fo_tenant = sr_tenant s, fo_interaction = sr_interaction s, fo_version = sr_version s,
                       fo_identity = \<lparr>pi_event_id = sr_head_event_id s, pi_hash = sr_head_hash s, pi_body = []\<rparr>,
                       fo_participants = set (sr_participants s), fo_provenance = sr_provenance s\<rparr>,
                    sn_floor = sr_floor s, sn_provenance = sr_provenance s\<rparr>)"

section \<open>Elementary facts\<close>

lemma Canonical_Inr:
  "Canonical K (Some c) = Inr r \<Longrightarrow>
     command_ok K c \<and> pr_command r = c\<lparr>pc_unknown := []\<rparr> \<and> pi_event_id (pr_identity r) = pc_event_id c \<and>
     (\<exists>body. pk_marshal K (c\<lparr>pc_unknown := []\<rparr>) = Some body \<and> pi_hash (pr_identity r) = pk_sha256 K body \<and> pi_body (pr_identity r) = body)"
  by (auto simp: Canonical_def Let_def split: if_splits option.splits)

lemma Canonical_fields [simp]:
  assumes "Canonical K (Some c) = Inr r"
  shows "pc_tenant (pr_command r) = pc_tenant c" "pc_interaction (pr_command r) = pc_interaction c"
    "pc_version (pr_command r) = pc_version c" "pc_participant (pr_command r) = pc_participant c" "pc_desired (pr_command r) = pc_desired c"
  using Canonical_Inr [OF assms] by simp_all

lemma command_ok_key: "command_ok K c \<Longrightarrow> pc_tenant c \<noteq> '''' \<and> pc_interaction c \<noteq> '''' \<and> 0 < pc_version c"
  by (auto simp: command_ok_def uuidv7_def)

lemma replay_records_Inr:
  assumes "replay_records K intent n cs = Inr rs"
  shows "length rs = length cs \<and>
    (\<forall>j < length cs. Canonical K (Some (cs ! j)) = Inr (rs ! j) \<and> pc_tenant (cs ! j) = fst (in_key intent) \<and>
       pc_interaction (cs ! j) = snd (in_key intent) \<and> pc_version (cs ! j) = in_from intent + n + j)"
  using assms
proof (induction cs arbitrary: n rs)
  case (Cons c cs)
  then obtain r rs' where r: "Canonical K (Some c) = Inr r" "replay_records K intent (Suc n) cs = Inr rs'" "rs = r # rs'"
      "pc_tenant c = fst (in_key intent)" "pc_interaction c = snd (in_key intent)" "pc_version c = in_from intent + n"
    by (auto split: sum.splits if_splits)
  from Cons.IH [OF r(2)] r show ?case by (auto simp: nth_Cons split: nat.splits)
qed simp

end
