(* ===== verification/Part_Projector.thy ===== *)
theory Part_Projector
  imports Part_Domain
begin

text \<open>
  \<open>Projector\<close> of \<open>internal/participation/projector.go\<close>: \<open>Apply\<close> with its reconciliation against the
  authority, over the ports \<open>Store\<close> and \<open>AuthorityPort\<close> and the source of tokens, all acting on a
  world of type \<open>'w\<close>. A projector with a missing port is not constructed here.
\<close>

datatype Result = NoResult | Applied | Duplicate | CompareAndSetLost | Poisoned | AuditedSnapshot

record 'w pstore =
  st_load :: "'w \<Rightarrow> part_key \<Rightarrow> nat \<Rightarrow> (perr + pfold \<times> pidentity option) \<times> 'w"
  st_install :: "'w \<Rightarrow> nat \<Rightarrow> prec list \<Rightarrow> pfold \<Rightarrow> (perr + bool) \<times> 'w"
  st_begin :: "'w \<Rightarrow> pintent \<Rightarrow> prec \<Rightarrow> (perr + pintent \<times> bool) \<times> 'w"
  st_install_reconcile :: "'w \<Rightarrow> pintent \<Rightarrow> prec list \<Rightarrow> pfold \<Rightarrow> (perr + bool) \<times> 'w"
  st_install_historical :: "'w \<Rightarrow> pintent \<Rightarrow> prec \<Rightarrow> (perr + bool) \<times> 'w"
  st_install_snapshot :: "'w \<Rightarrow> pintent \<Rightarrow> psnapshot \<Rightarrow> prec \<Rightarrow> (perr + bool) \<times> 'w"
  st_fail :: "'w \<Rightarrow> pintent \<Rightarrow> prec \<Rightarrow> perr \<Rightarrow> (perr + bool) \<times> 'w"
  st_poison :: "'w \<Rightarrow> prec \<Rightarrow> string \<Rightarrow> perr option \<times> 'w"

record replay_request =
  rq_key :: part_key
  rq_from :: nat
  rq_to :: nat
  rq_id :: string

record snapshot_request =
  sq_key :: part_key
  sq_minimum :: nat
  sq_id :: string

record 'w authority_port =
  au_replay :: "'w \<Rightarrow> replay_request \<Rightarrow> (perr + replay_response option) \<times> 'w"
  au_snapshot :: "'w \<Rightarrow> snapshot_request \<Rightarrow> (perr + snapshot_response option) \<times> 'w"

record 'w part_projector =
  pp_codec :: pcodec
  pp_store :: "'w pstore"
  pp_authority :: "'w authority_port"
  pp_ids :: "'w \<Rightarrow> string \<times> 'w"

definition NewPartProjector :: "pcodec \<Rightarrow> 'w pstore \<Rightarrow> 'w authority_port \<Rightarrow> ('w \<Rightarrow> string \<times> 'w) \<Rightarrow> 'w part_projector" where
  "NewPartProjector K store authority ids = \<lparr>pp_codec = K, pp_store = store, pp_authority = authority, pp_ids = ids\<rparr>"

text \<open>The common end of the store calls that install: an error, a lost compare-and-set, or the result.\<close>

definition installed_result :: "Result \<Rightarrow> (perr + bool) \<times> 'w \<Rightarrow> Result \<times> perr option \<times> 'w" where
  "installed_result ok r =
     (case r of
        (Inl e, w) \<Rightarrow> (NoResult, Some e, w)
      | (Inr installed, w) \<Rightarrow> if \<not> installed then (CompareAndSetLost, None, w) else (ok, None, w))"

definition failReconcile :: "'w part_projector \<Rightarrow> pintent \<Rightarrow> prec \<Rightarrow> perr \<Rightarrow> 'w \<Rightarrow> Result \<times> perr option \<times> 'w" where
  "failReconcile p intent held cause w =
     (case st_fail (pp_store p) w intent held cause of
        (Inl e, w1) \<Rightarrow> (NoResult, Some (cause @ e), w1)
      | (Inr exhausted, w1) \<Rightarrow>
          if exhausted then (Poisoned, Some (ErrReconcileExhausted # cause), w1) else (NoResult, Some cause, w1))"

definition part_snapshot :: "'w part_projector \<Rightarrow> pintent \<Rightarrow> prec \<Rightarrow> 'w \<Rightarrow> Result \<times> perr option \<times> 'w" where
  "part_snapshot p intent held w =
     (case au_snapshot (pp_authority p) w \<lparr>sq_key = in_key intent, sq_minimum = in_observed intent, sq_id = in_token intent\<rparr> of
        (Inl e, w1) \<Rightarrow> failReconcile p intent held e w1
      | (Inr wire, w1) \<Rightarrow>
          (case validateSnapshot wire intent held of
             Inl e \<Rightarrow> (Poisoned, Some e, w1)
           | Inr snap \<Rightarrow> installed_result AuditedSnapshot (st_install_snapshot (pp_store p) w1 intent snap held)))"

text \<open>\<open>reconcile\<close> once the intent is started.\<close>

definition reconcile_started :: "'w part_projector \<Rightarrow> pfold \<Rightarrow> pintent \<Rightarrow> prec \<Rightarrow> bool \<Rightarrow> 'w \<Rightarrow> Result \<times> perr option \<times> 'w" where
  "reconcile_started p fld intent held historical w =
     (case au_replay (pp_authority p) w \<lparr>rq_key = in_key intent, rq_from = in_from intent, rq_to = in_to intent, rq_id = in_token intent\<rparr> of
        (Inl e, w1) \<Rightarrow>
          if ErrUnknownHistory \<in> set e then part_snapshot p intent held w1 else failReconcile p intent held e w1
      | (Inr replay, w1) \<Rightarrow>
          (case validateReplay (pp_codec p) replay intent held of
             Inl e \<Rightarrow> (Poisoned, Some e, w1)
           | Inr records \<Rightarrow>
               if historical
               then installed_result Duplicate (st_install_historical (pp_store p) w1 intent (records ! 0))
               else (case foldRecords fld records of
                       Inl e \<Rightarrow> (Poisoned, Some e, w1)
                     | Inr final \<Rightarrow> installed_result Applied (st_install_reconcile (pp_store p) w1 intent records final))))"

definition reconcile :: "'w part_projector \<Rightarrow> pfold \<Rightarrow> prec \<Rightarrow> bool \<Rightarrow> 'w \<Rightarrow> Result \<times> perr option \<times> 'w" where
  "reconcile p fld held historical w =
     (let v = pc_version (pr_command held);
          (from, to) = (if historical then (v, v) else (fo_version fld + 1, v));
          (token, w1) = pp_ids p w;
          intent = \<lparr>in_token = token, in_key = (pc_tenant (pr_command held), pc_interaction (pr_command held)),
                    in_observed = fo_version fld, in_from = from, in_to = to, in_held = pr_identity held\<rparr>
      in if \<not> uuidv7 token then (Poisoned, Some [ErrInvalid], w1)
         else (case st_begin (pp_store p) w1 intent held of
                 (Inl e, w2) \<Rightarrow> (NoResult, Some e, w2)
               | (Inr (intent', started), w2) \<Rightarrow>
                   if \<not> started then (CompareAndSetLost, None, w2)
                   else reconcile_started p fld intent' held historical w2))"

definition Apply :: "'w part_projector \<Rightarrow> principal \<Rightarrow> pcommand option \<Rightarrow> 'w \<Rightarrow> Result \<times> perr option \<times> 'w" where
  "Apply p who command w =
     (case Canonical (pp_codec p) command of
        Inl _ \<Rightarrow> (Poisoned, Some [ErrPermissionDenied], w)
      | Inr record \<Rightarrow>
     (let c = the command
      in if pr_tenant who \<noteq> pc_tenant c \<or> \<not> ValidTransportGrant (pr_grant who) CapabilityWrite
         then (Poisoned, Some [ErrPermissionDenied], w)
         else
     (case st_load (pp_store p) w (pc_tenant c, pc_interaction c) (pc_version c) of
        (Inl e, w1) \<Rightarrow> (NoResult, Some e, w1)
      | (Inr (fld, retained), w1) \<Rightarrow>
          if pc_version c \<le> fo_version fld then
            (case retained of
               None \<Rightarrow> reconcile p fld record True w1
             | Some i \<Rightarrow>
                 if sameIdentity i (pr_identity record) then (Duplicate, None, w1)
                 else (case st_poison (pp_store p) w1 record ''DIVERGENT_HISTORY'' of
                         (Some e, w2) \<Rightarrow> (Poisoned, Some e, w2)
                       | (None, w2) \<Rightarrow> (Poisoned, Some [ErrDivergentHistory], w2)))
          else if pc_version c > fo_version fld + 1 then reconcile p fld record False w1
          else (case foldRecords fld [record] of
                  Inl e \<Rightarrow> (Poisoned, Some e, w1)
                | Inr final \<Rightarrow> installed_result Applied (st_install (pp_store p) w1 (fo_version fld) [record] final)))))"

section \<open>The consumer\<close>

text \<open>
  \<open>handle\<close> of \<open>internal/participationnats/consumer.go\<close>: what becomes of a message. Decoding is a
  parameter; \<open>ParticipationCommandAddress\<close> (generated next to the protobuf code) gives the subject.
\<close>

datatype verdict = Acked | Termed | Naked

record cmd_message =
  cm_subject :: string
  cm_msg_id :: string
  cm_traceparent :: string
  cm_data :: bytes

definition subjectMatchesPayload :: "string \<Rightarrow> pcommand \<Rightarrow> bool" where
  "subjectMatchesPayload subject c =
     (let tokens = split_on dot subject
      in length tokens = 6 \<and> tokens ! 4 = pc_tenant c \<and> tokens ! 5 = pc_interaction c)"

definition command_address :: "string \<Rightarrow> string \<Rightarrow> string option" where
  "command_address tenant interaction =
     (if \<not> uuidv7 tenant \<or> \<not> uuidv7 interaction then None
      else Some (''corex.participation.commands.v1.'' @ tenant @ ''.'' @ interaction))"

definition consumer_handle ::
  "'w part_projector \<Rightarrow> transport_grant \<Rightarrow> (bytes \<Rightarrow> bool \<times> pcommand) \<Rightarrow> cmd_message \<Rightarrow> 'w \<Rightarrow> verdict \<times> 'w" where
  "consumer_handle p grant unmarshal m w =
     (let (decoded, c) = unmarshal (cm_data m)
      in case Canonical (pp_codec p) (Some c) of
           Inl _ \<Rightarrow> (Termed, w)
         | Inr record \<Rightarrow>
             if \<not> decoded \<or> pc_unknown c \<noteq> [] \<or> command_address (pc_tenant c) (pc_interaction c) \<noteq> Some (cm_subject m) \<or>
                cm_msg_id m \<noteq> pc_event_id c \<or> cm_traceparent m \<noteq> pc_traceparent c \<or>
                pi_body (pr_identity record) \<noteq> cm_data m \<or> \<not> subjectMatchesPayload (cm_subject m) c
             then (Termed, w)
             else (case Apply p \<lparr>pr_tenant = pc_tenant c, pr_grant = grant\<rparr> (Some c) w of
                     (result, err, w') \<Rightarrow>
                       (case err of
                          None \<Rightarrow> (Acked, w')
                        | Some e \<Rightarrow>
                            if result = CompareAndSetLost then (Acked, w')
                            else if ErrInvalid \<in> set e \<or> ErrPermissionDenied \<in> set e \<or> ErrDivergentHistory \<in> set e \<or>
                                    ErrReconcileExhausted \<in> set e
                            then (Termed, w')
                            else (Naked, w'))))"

end
