(* ===== verification/Part_Pg.thy ===== *)
theory Part_Pg
  imports Part_Projector "HOL-Library.AList"
begin

text \<open>
  \<open>internal/participationpg/store.go\<close> over the tables of \<open>db/migrations/000001_baseline.up.sql\<close>: each
  statement of a transaction is a step on the tables, with the primary keys, unique constraints and
  checks that the migration declares; a statement that violates one fails, and the transaction
  rolls back. Columns that no query reads (time stamps, the row ids of the dead letters and alerts,
  the provenance columns of the participant rows) are left out.

  A transaction sees the tables after the transactions of others, and may itself fail, or commit
  and lose the answer: \<open>pg_env\<close> says for each call what others did before it and how it ends.
\<close>

section \<open>Tables\<close>

record fold_head =
  fh_version :: nat
  fh_event :: "string option"
  fh_hash :: "bytes option"
  fh_provenance :: "string option"

record ledger_row =
  lr_event :: string
  lr_hash :: bytes
  lr_body :: "bytes option"

record pending_row =
  pn_interaction :: string
  pn_version :: nat
  pn_hash :: bytes
  pn_body :: bytes
  pn_attempts :: int
  pn_status :: string

record intent_row =
  ir_interaction :: string
  ir_observed :: nat
  ir_from :: nat
  ir_to :: nat
  ir_event :: string
  ir_hash :: bytes
  ir_status :: string

record pgdb =
  db_heads :: "(part_key \<times> fold_head) list"
  db_folded :: "(part_key \<times> string) set"
  db_versions :: "((part_key \<times> nat) \<times> ledger_row) list"
  db_events :: "((string \<times> string) \<times> (string \<times> nat \<times> bytes)) list"
  db_pending :: "((string \<times> string) \<times> pending_row) list"
  db_intents :: "((string \<times> string) \<times> intent_row) list"
  db_dlq :: "((part_key \<times> string \<times> string) \<times> (string \<times> nat \<times> bytes \<times> bytes)) list"
  db_alerts :: "((part_key \<times> string \<times> string) \<times> string) list"

definition sql_error :: perr where "sql_error = [ErrOther ''constraint violation'']"
definition no_rows :: perr where "no_rows = [ErrOther ''no rows in result set'']"

definition bigint :: "nat \<Rightarrow> bool" where "bigint v \<longleftrightarrow> v < 2 ^ 63"

section \<open>The statements\<close>

text \<open>\<open>lockHead\<close>: the row is created when it is missing, then locked and read.\<close>

definition new_head :: fold_head where
  "new_head = \<lparr>fh_version = 0, fh_event = None, fh_hash = None, fh_provenance = None\<rparr>"

definition lockHead :: "part_key \<Rightarrow> pgdb \<Rightarrow> nat \<times> pgdb" where
  "lockHead k db =
     (case map_of (db_heads db) k of
        Some h \<Rightarrow> (fh_version h, db)
      | None \<Rightarrow> (0, db\<lparr>db_heads := AList.update k new_head (db_heads db)\<rparr>))"

definition lockIntentAndHead :: "pintent \<Rightarrow> pgdb \<Rightarrow> bool \<times> pgdb" where
  "lockIntentAndHead intent db =
     (let (current, db1) = lockHead (in_key intent) db
      in if current \<noteq> in_observed intent then (False, db1)
         else (case map_of (db_intents db1) (fst (in_key intent), in_token intent) of
                 None \<Rightarrow> (False, db1)
               | Some r \<Rightarrow> (ir_interaction r = snd (in_key intent) \<and> ir_observed r = in_observed intent \<and>
                            ir_status r = ''pending'', db1)))"

definition insert_version :: "part_key \<Rightarrow> nat \<Rightarrow> ledger_row \<Rightarrow> pgdb \<Rightarrow> perr + pgdb" where
  "insert_version k v row db =
     (if \<not> bigint v \<or> v = 0 \<or> length (lr_hash row) \<noteq> 32 \<or> map_of (db_versions db) (k, v) \<noteq> None then Inl sql_error
      else Inr (db\<lparr>db_versions := AList.update (k, v) row (db_versions db)\<rparr>))"

definition insert_event :: "part_key \<Rightarrow> string \<Rightarrow> nat \<Rightarrow> bytes \<Rightarrow> pgdb \<Rightarrow> perr + pgdb" where
  "insert_event k e v hash db =
     (if \<not> bigint v \<or> v = 0 \<or> length hash \<noteq> 32 \<or> map_of (db_events db) (fst k, e) \<noteq> None \<or>
         list_ex (\<lambda>((t, _), (i, v', _)). t = fst k \<and> i = snd k \<and> v' = v) (db_events db)
      then Inl sql_error
      else Inr (db\<lparr>db_events := AList.update (fst k, e) (snd k, v, hash) (db_events db)\<rparr>))"

text \<open>\<open>insertLedgers\<close> for a command (the code calls it with no other source), under row security for \<open>app\<close>.\<close>

definition insertLedgers :: "string \<Rightarrow> prec \<Rightarrow> pgdb \<Rightarrow> perr + pgdb" where
  "insertLedgers app r db =
     (let c = pr_command r; i = pr_identity r; k = (pc_tenant c, pc_interaction c)
      in if pc_tenant c \<noteq> app then Inl sql_error
         else case insert_version k (pc_version c) \<lparr>lr_event = pi_event_id i, lr_hash = pi_hash i, lr_body = Some (pi_body i)\<rparr> db of
           Inl e \<Rightarrow> Inl e
         | Inr db1 \<Rightarrow> insert_event k (pi_event_id i) (pc_version c) (pi_hash i) db1)"

definition upsert_participant :: "pcommand \<Rightarrow> pgdb \<Rightarrow> pgdb" where
  "upsert_participant c db =
     (let k = (pc_tenant c, pc_interaction c)
      in if pc_desired c = ASSIGNED then db\<lparr>db_folded := insert (k, pc_participant c) (db_folded db)\<rparr>
         else db\<lparr>db_folded := db_folded db - {(k, pc_participant c)}\<rparr>)"

definition update_head :: "part_key \<Rightarrow> fold_head \<Rightarrow> pgdb \<Rightarrow> pgdb" where
  "update_head k h db =
     (if map_of (db_heads db) k = None then db else db\<lparr>db_heads := AList.update k h (db_heads db)\<rparr>)"

fun install_loop :: "string \<Rightarrow> prec list \<Rightarrow> pgdb \<Rightarrow> perr + pgdb" where
  "install_loop app [] db = Inr db"
| "install_loop app (r # rs) db =
     (case insertLedgers app r db of
        Inl e \<Rightarrow> Inl e
      | Inr db1 \<Rightarrow> install_loop app rs (upsert_participant (pr_command r) db1))"

definition installRecords :: "string \<Rightarrow> prec list \<Rightarrow> pfold \<Rightarrow> pgdb \<Rightarrow> perr + pgdb" where
  "installRecords app records final db =
     (case install_loop app records db of
        Inl e \<Rightarrow> Inl e
      | Inr db1 \<Rightarrow>
          if \<not> bigint (fo_version final) then Inl sql_error
          else Inr (update_head (fo_tenant final, fo_interaction final)
                 \<lparr>fh_version = fo_version final, fh_event = Some (pi_event_id (fo_identity final)),
                  fh_hash = Some (pi_hash (fo_identity final)), fh_provenance = None\<rparr> db1))"

definition insertAudit :: "pintent \<Rightarrow> prec \<Rightarrow> string \<Rightarrow> pgdb \<Rightarrow> perr + pgdb" where
  "insertAudit intent r reason db =
     (let k = (in_key intent, pi_event_id (pr_identity r), reason); v = pc_version (pr_command r)
      in if \<not> bigint v then Inl sql_error
         else
           let db1 = (if map_of (db_dlq db) k \<noteq> None then db
                      else db\<lparr>db_dlq := AList.update k (in_token intent, v, pi_hash (pr_identity r), pi_body (pr_identity r)) (db_dlq db)\<rparr>)
           in Inr (if map_of (db_alerts db1) k \<noteq> None then db1
                   else db1\<lparr>db_alerts := AList.update k (in_token intent) (db_alerts db1)\<rparr>))"

definition set_intent_status :: "pintent \<Rightarrow> string \<Rightarrow> pgdb \<Rightarrow> pgdb" where
  "set_intent_status intent status db =
     (case map_of (db_intents db) (fst (in_key intent), in_token intent) of
        Some r \<Rightarrow>
          if ir_status r = ''pending''
          then db\<lparr>db_intents := AList.update (fst (in_key intent), in_token intent) (r\<lparr>ir_status := status\<rparr>) (db_intents db)\<rparr>
          else db
      | None \<Rightarrow> db)"

definition update_pending :: "string \<Rightarrow> string \<Rightarrow> (pending_row \<Rightarrow> pending_row) \<Rightarrow> pgdb \<Rightarrow> pgdb" where
  "update_pending tenant event f db =
     (case map_of (db_pending db) (tenant, event) of
        Some r \<Rightarrow>
          if pn_status r = ''pending'' then db\<lparr>db_pending := AList.update (tenant, event) (f r) (db_pending db)\<rparr> else db
      | None \<Rightarrow> db)"

definition completeReconcile :: "pintent \<Rightarrow> string \<Rightarrow> string \<Rightarrow> pgdb \<Rightarrow> pgdb" where
  "completeReconcile intent intentStatus pendingStatus db =
     update_pending (fst (in_key intent)) (pi_event_id (in_held intent)) (\<lambda>r. r\<lparr>pn_status := pendingStatus\<rparr>)
       (set_intent_status intent intentStatus db)"

definition loadFold :: "part_key \<Rightarrow> pgdb \<Rightarrow> perr + pfold" where
  "loadFold k db =
     (let f = \<lparr>fo_tenant = fst k, fo_interaction = snd k, fo_version = 0, fo_identity = no_pidentity, fo_participants = {},
               fo_provenance = ''''\<rparr>
      in case map_of (db_heads db) k of
           None \<Rightarrow> Inr f
         | Some h \<Rightarrow>
             (let f1 = f\<lparr>fo_version := fh_version h, fo_participants := snd ` {x \<in> db_folded db. fst x = k},
                         fo_provenance := (case fh_provenance h of None \<Rightarrow> '''' | Some s \<Rightarrow> s)\<rparr>
              in if fh_version h > 0
                 then (case (fh_event h, fh_hash h) of
                         (Some e, Some hash) \<Rightarrow>
                           if length hash \<noteq> 32 then Inl [ErrInvalid]
                           else Inr (f1\<lparr>fo_identity := \<lparr>pi_event_id = e, pi_hash = hash, pi_body = []\<rparr>\<rparr>)
                       | _ \<Rightarrow> Inl [ErrInvalid])
                 else Inr f1))"

section \<open>The transactions\<close>

definition tx_load :: "part_key \<Rightarrow> nat \<Rightarrow> pgdb \<Rightarrow> perr + (pfold \<times> pidentity option) \<times> pgdb" where
  "tx_load k v db =
     (case loadFold k db of
        Inl e \<Rightarrow> Inl e
      | Inr f \<Rightarrow>
          if v = 0 then Inr ((f, None), db)
          else if \<not> bigint v then Inl sql_error
          else (case map_of (db_versions db) (k, v) of
                  None \<Rightarrow> Inr ((f, None), db)
                | Some r \<Rightarrow>
                    if length (lr_hash r) \<noteq> 32 then Inr ((f, None), db)
                    else Inr ((f, Some \<lparr>pi_event_id = lr_event r, pi_hash = lr_hash r,
                                       pi_body = (case lr_body r of None \<Rightarrow> [] | Some b \<Rightarrow> b)\<rparr>), db)))"

definition tx_install :: "nat \<Rightarrow> prec list \<Rightarrow> pfold \<Rightarrow> pgdb \<Rightarrow> perr + bool \<times> pgdb" where
  "tx_install expected records final db =
     (let (current, db1) = lockHead (fo_tenant final, fo_interaction final) db
      in if current \<noteq> expected then Inr (False, db1)
         else (case installRecords (fo_tenant final) records final db1 of Inl e \<Rightarrow> Inl e | Inr db2 \<Rightarrow> Inr (True, db2)))"

definition pending_intent :: "part_key \<Rightarrow> pgdb \<Rightarrow> ((string \<times> string) \<times> intent_row) option" where
  "pending_intent k db =
     List.find (\<lambda>((t, _), r). t = fst k \<and> ir_interaction r = snd k \<and> ir_status r = ''pending'') (db_intents db)"

text \<open>The two inserts of \<open>BeginReconcile\<close>; \<open>ON CONFLICT DO NOTHING\<close> leaves the call not started.\<close>

definition begin_insert :: "pintent \<Rightarrow> prec \<Rightarrow> pgdb \<Rightarrow> perr + bool \<times> pgdb" where
  "begin_insert intent held db =
     (let t = fst (in_key intent); i = snd (in_key intent); e = pi_event_id (pr_identity held); v = pc_version (pr_command held)
      in if \<not> bigint v \<or> v = 0 \<or> length (pi_hash (pr_identity held)) \<noteq> 32 then Inl sql_error
         else if map_of (db_pending db) (t, e) \<noteq> None \<or>
                 list_ex (\<lambda>((t', _), r). t' = t \<and> pn_interaction r = i \<and> pn_version r = v) (db_pending db)
         then Inr (False, db)
         else
           let db1 = db\<lparr>db_pending := AList.update (t, e)
                 \<lparr>pn_interaction = i, pn_version = v, pn_hash = pi_hash (pr_identity held), pn_body = pi_body (pr_identity held),
                  pn_attempts = 0, pn_status = ''pending''\<rparr> (db_pending db)\<rparr>
           in if \<not> bigint (in_to intent) \<or> in_from intent = 0 \<or> in_to intent < in_from intent then Inl sql_error
              else if map_of (db_intents db1) (t, in_token intent) \<noteq> None then Inr (False, db1)
              else Inr (True, db1\<lparr>db_intents := AList.update (t, in_token intent)
                     \<lparr>ir_interaction = i, ir_observed = in_observed intent, ir_from = in_from intent, ir_to = in_to intent,
                      ir_event = e, ir_hash = pi_hash (pr_identity held), ir_status = ''pending''\<rparr> (db_intents db1)\<rparr>))"

definition tx_begin :: "pintent \<Rightarrow> prec \<Rightarrow> pgdb \<Rightarrow> perr + (pintent \<times> bool) \<times> pgdb" where
  "tx_begin intent held db =
     (let (current, db1) = lockHead (in_key intent) db
      in if current \<noteq> in_observed intent then Inr ((intent, False), db1)
         else (case pending_intent (in_key intent) db1 of
                 Some ((_, token), r) \<Rightarrow>
                   if ir_observed r \<noteq> in_observed intent \<or> ir_event r \<noteq> pi_event_id (pr_identity held) \<or>
                      length (ir_hash r) \<noteq> length (pi_hash (pr_identity held)) \<or> \<not> bytesEqual (ir_hash r) (pi_hash (pr_identity held))
                   then Inl [ErrDivergentHistory]
                   else Inr ((intent\<lparr>in_token := token, in_observed := ir_observed r, in_from := ir_from r, in_to := ir_to r\<rparr>, True), db1)
               | None \<Rightarrow>
                   (case begin_insert intent held db1 of
                      Inl e \<Rightarrow> Inl e
                    | Inr (started, db2) \<Rightarrow> Inr ((intent, started), db2))))"

definition tx_install_reconcile :: "pintent \<Rightarrow> prec list \<Rightarrow> pfold \<Rightarrow> pgdb \<Rightarrow> perr + bool \<times> pgdb" where
  "tx_install_reconcile intent records final db =
     (let (ok, db1) = lockIntentAndHead intent db
      in if \<not> ok then Inr (False, db1)
         else (case installRecords (fst (in_key intent)) records final db1 of
                 Inl e \<Rightarrow> Inl e
               | Inr db2 \<Rightarrow> Inr (True, completeReconcile intent ''installed'' ''installed'' db2)))"

definition tx_install_historical :: "pintent \<Rightarrow> prec \<Rightarrow> pgdb \<Rightarrow> perr + bool \<times> pgdb" where
  "tx_install_historical intent r db =
     (let (ok, db1) = lockIntentAndHead intent db
      in if \<not> ok then Inr (False, db1)
         else (case insertLedgers (fst (in_key intent)) r db1 of
                 Inl e \<Rightarrow> Inl e
               | Inr db2 \<Rightarrow> Inr (True, completeReconcile intent ''installed'' ''installed'' db2)))"

definition tx_install_snapshot :: "pintent \<Rightarrow> psnapshot \<Rightarrow> prec \<Rightarrow> pgdb \<Rightarrow> perr + bool \<times> pgdb" where
  "tx_install_snapshot intent snap held db =
     (let (ok, db1) = lockIntentAndHead intent db;
          k = in_key intent; f = sn_fold snap; e = pi_event_id (fo_identity f); hash = pi_hash (fo_identity f)
      in if \<not> ok then Inr (False, db1)
         else
           let db2 = db1\<lparr>db_folded := {x \<in> db_folded db1. fst x \<noteq> k} \<union> Pair k ` fo_participants f\<rparr>
           in (case insert_version k (fo_version f) \<lparr>lr_event = e, lr_hash = hash, lr_body = None\<rparr> db2 of
                 Inl err \<Rightarrow> Inl err
               | Inr db3 \<Rightarrow>
              (case insert_event k e (fo_version f) hash db3 of
                 Inl err \<Rightarrow> Inl err
               | Inr db4 \<Rightarrow>
              (case insertAudit intent held ''UNKNOWN_STALE_HISTORY''
                      (update_head k \<lparr>fh_version = fo_version f, fh_event = Some e, fh_hash = Some hash,
                                      fh_provenance = Some (sn_provenance snap)\<rparr> db4) of
                 Inl err \<Rightarrow> Inl err
               | Inr db5 \<Rightarrow> Inr (True, completeReconcile intent ''audited'' ''dlq'' db5)))))"

definition tx_poison :: "prec \<Rightarrow> string \<Rightarrow> pgdb \<Rightarrow> perr + unit \<times> pgdb" where
  "tx_poison r reason db =
     (let intent = \<lparr>in_token = '''', in_key = (pc_tenant (pr_command r), pc_interaction (pr_command r)), in_observed = 0,
                    in_from = 0, in_to = 0, in_held = no_pidentity\<rparr>
      in case insertAudit intent r reason db of Inl e \<Rightarrow> Inl e | Inr db1 \<Rightarrow> Inr ((), db1))"

definition tx_fail :: "pintent \<Rightarrow> prec \<Rightarrow> pgdb \<Rightarrow> perr + bool \<times> pgdb" where
  "tx_fail intent held db =
     (let (ok, db1) = lockIntentAndHead intent db; t = fst (in_key intent); e = pi_event_id (pr_identity held)
      in if \<not> ok then Inr (False, db1)
         else (case map_of (db_pending db1) (t, e) of
                 None \<Rightarrow> Inl no_rows
               | Some r \<Rightarrow>
                   if pn_status r \<noteq> ''pending'' then Inl no_rows
                   else
                     let attempts = pn_attempts r + 1
                     in if attempts < 3 then Inr (False, update_pending t e (\<lambda>r. r\<lparr>pn_attempts := attempts\<rparr>) db1)
                        else (case insertAudit intent held ''RECONCILE_EXHAUSTED'' db1 of
                                Inl err \<Rightarrow> Inl err
                              | Inr db2 \<Rightarrow>
                                  Inr (True, set_intent_status intent ''audited''
                                         (update_pending t e (\<lambda>r. r\<lparr>pn_attempts := attempts, pn_status := ''dlq''\<rparr>) db2)))))"

section \<open>Running a transaction\<close>

datatype tx_end = TxCommits | TxFails perr | AnswerLost perr

record pg_env =
  pe_others :: "nat \<Rightarrow> pgdb \<Rightarrow> pgdb"
  pe_end :: "nat \<Rightarrow> tx_end"

record pg_world =
  pg_db :: pgdb
  pg_calls :: nat

definition withTenantTx :: "pg_env \<Rightarrow> (pgdb \<Rightarrow> perr + 'a \<times> pgdb) \<Rightarrow> pg_world \<Rightarrow> (perr + 'a) \<times> pg_world" where
  "withTenantTx E op w =
     (let n = pg_calls w; db = pe_others E n (pg_db w)
      in case pe_end E n of
           TxFails e \<Rightarrow> (Inl e, \<lparr>pg_db = db, pg_calls = Suc n\<rparr>)
         | TxCommits \<Rightarrow>
             (case op db of Inl e \<Rightarrow> (Inl e, \<lparr>pg_db = db, pg_calls = Suc n\<rparr>)
              | Inr (x, db') \<Rightarrow> (Inr x, \<lparr>pg_db = db', pg_calls = Suc n\<rparr>))
         | AnswerLost e \<Rightarrow>
             (case op db of Inl e' \<Rightarrow> (Inl e', \<lparr>pg_db = db, pg_calls = Suc n\<rparr>)
              | Inr (x, db') \<Rightarrow> (Inl e, \<lparr>pg_db = db', pg_calls = Suc n\<rparr>)))"

definition pg_store :: "pg_env \<Rightarrow> pg_world pstore" where
  "pg_store E =
     \<lparr>st_load = (\<lambda>w k v. withTenantTx E (tx_load k v) w),
      st_install = (\<lambda>w expected records final. withTenantTx E (tx_install expected records final) w),
      st_begin = (\<lambda>w intent held. withTenantTx E (tx_begin intent held) w),
      st_install_reconcile = (\<lambda>w intent records final. withTenantTx E (tx_install_reconcile intent records final) w),
      st_install_historical = (\<lambda>w intent r. withTenantTx E (tx_install_historical intent r) w),
      st_install_snapshot = (\<lambda>w intent snap held. withTenantTx E (tx_install_snapshot intent snap held) w),
      st_fail = (\<lambda>w intent held _. withTenantTx E (tx_fail intent held) w),
      st_poison = (\<lambda>w r reason. case withTenantTx E (tx_poison r reason) w of (Inl e, w') \<Rightarrow> (Some e, w') | (Inr _, w') \<Rightarrow> (None, w'))\<rparr>"

end
