(* ===== verification/Part_History.thy ===== *)
theory Part_History
  imports Part_Projector
begin

text \<open>
  What the participation projector is for: its fold is a prefix of the history of the authority.
  A history gives for every interaction and version the canonical record; a fold is right when it
  holds the members after its version. The locale \<open>participation_env\<close> states what the projector
  relies on (a store that keeps right folds, an authority that answers from its history), and proves
  once what \<open>Apply\<close> guarantees, with other projectors running in between.
\<close>

type_synonym history = "part_key \<Rightarrow> nat \<Rightarrow> prec"

fun members :: "history \<Rightarrow> part_key \<Rightarrow> nat \<Rightarrow> string set" where
  "members H k 0 = {}"
| "members H k (Suc v) = apply_desired (pr_command (H k (Suc v))) (members H k v)"

definition hist_ok :: "history \<Rightarrow> bool" where
  "hist_ok H \<longleftrightarrow>
     (\<forall>k v. 0 < v \<longrightarrow> pc_version (pr_command (H k v)) = v \<and> pc_tenant (pr_command (H k v)) = fst k \<and>
        pc_interaction (pr_command (H k v)) = snd k \<and> length (pi_hash (pr_identity (H k v))) = 32)"

definition fold_is :: "history \<Rightarrow> part_key \<Rightarrow> pfold \<Rightarrow> bool" where
  "fold_is H k f \<longleftrightarrow>
     fo_tenant f = fst k \<and> fo_interaction f = snd k \<and> fo_participants f = members H k (fo_version f) \<and>
     (0 < fo_version f \<longrightarrow> sameIdentity (fo_identity f) (pr_identity (H k (fo_version f))))"

text \<open>A command of the authority: its canonical record is the one of the history.\<close>

definition genuine :: "pcodec \<Rightarrow> history \<Rightarrow> pcommand \<Rightarrow> bool" where
  "genuine K H c \<longleftrightarrow> (\<forall>r. Canonical K (Some c) = Inr r \<longrightarrow> r = H (pc_tenant c, pc_interaction c) (pc_version c))"

abbreviation slice :: "history \<Rightarrow> part_key \<Rightarrow> nat \<Rightarrow> nat \<Rightarrow> prec list" where
  "slice H k a b \<equiv> map (H k) [Suc a ..< Suc b]"

lemma hist_okD:
  assumes "hist_ok H" "0 < v"
  shows "pc_version (pr_command (H k v)) = v" "pc_tenant (pr_command (H k v)) = fst k" "pc_interaction (pr_command (H k v)) = snd k"
    "length (pi_hash (pr_identity (H k v))) = 32"
  using assms unfolding hist_ok_def by blast+

lemma fold_is_step:
  assumes "hist_ok H" "fold_is H k f" "fst k \<noteq> ''''"
  shows "foldRecords f (H k (Suc (fo_version f)) # rs) =
      foldRecords (f\<lparr>fo_participants := members H k (Suc (fo_version f)), fo_tenant := fst k, fo_interaction := snd k,
        fo_version := Suc (fo_version f), fo_identity := pr_identity (H k (Suc (fo_version f))), fo_provenance := ''''\<rparr>) rs"
proof -
  note h = hist_okD [OF assms(1), of "Suc (fo_version f)" k]
  with assms(2,3) show ?thesis by (simp add: fold_is_def Let_def)
qed

lemma fold_slice:
  assumes "hist_ok H" "fold_is H k f" "fst k \<noteq> ''''" "fo_version f \<le> n"
  shows "\<exists>g. foldRecords f (slice H k (fo_version f) n) = Inr g \<and> fold_is H k g \<and> fo_version g = n"
  using assms(2,4)
proof (induction "n - fo_version f" arbitrary: f)
  case 0
  then show ?case by simp
next
  case (Suc m)
  then have lt: "fo_version f < n" by simp
  then have sl: "slice H k (fo_version f) n = H k (Suc (fo_version f)) # slice H k (Suc (fo_version f)) n"
    by (simp add: upt_rec)
  define g where "g = f\<lparr>fo_participants := members H k (Suc (fo_version f)), fo_tenant := fst k, fo_interaction := snd k,
        fo_version := Suc (fo_version f), fo_identity := pr_identity (H k (Suc (fo_version f))), fo_provenance := ''''\<rparr>"
  have "fold_is H k g" "fo_version g = Suc (fo_version f)" by (simp_all add: g_def fold_is_def sameIdentity_def)
  with Suc.hyps(1) [of g] Suc.hyps(2) lt obtain h where "foldRecords g (slice H k (fo_version g) n) = Inr h" "fold_is H k h" "fo_version h = n"
    by fastforce
  then show ?case using fold_is_step [OF assms(1) Suc.prems(1) assms(3), of "slice H k (Suc (fo_version f)) n"] sl
    by (simp add: g_def)
qed

lemma upt_head: "rs = map f [a ..< a + length rs] \<Longrightarrow> rs \<noteq> [] \<Longrightarrow> rs = f a # tl rs"
  by (cases rs) (simp_all del: upt_Suc add: upt_conv_Cons)

text \<open>What a validated replay is: the records of the history from the requested version on.\<close>

lemma validateReplay_slice:
  assumes "validateReplay K replay intent held = Inr records"
    and truthful: "\<And>rp c. replay = Some rp \<Longrightarrow> c \<in> set (rr_commands rp) \<Longrightarrow> genuine K H c"
    and "hist_ok H"
  shows "records = map (H (in_key intent)) [in_from intent ..< in_from intent + length records] \<and> records \<noteq> [] \<and>
    0 < in_from intent \<and> (\<exists>r \<in> set records. pc_version (pr_command r) = pc_version (pr_command held))"
proof -
  obtain rp where rp: "replay = Some rp" using assms(1) by (auto simp: validateReplay_def split: option.splits)
  have rr: "replay_records K intent 0 (rr_commands rp) = Inr records" and len: "length (rr_commands rp) = in_to intent - in_from intent + 1"
    and ex: "list_ex (\<lambda>r. pc_version (pr_command r) = pc_version (pr_command held) \<and> sameIdentity (pr_identity r) (pr_identity held)) records"
    using assms(1) by (auto simp: validateReplay_def rp Let_def split: if_splits sum.splits)
  note props = replay_records_Inr [OF rr]
  have "records ! j = H (in_key intent) (in_from intent + j)" if "j < length records" for j
  proof -
    have j: "j < length (rr_commands rp)" using that props by simp
    let ?c = "rr_commands rp ! j"
    have c: "Canonical K (Some ?c) = Inr (records ! j)" "pc_tenant ?c = fst (in_key intent)" "pc_interaction ?c = snd (in_key intent)"
        "pc_version ?c = in_from intent + j" using props j by auto
    moreover have "genuine K H ?c" using truthful [OF rp, of ?c] j by simp
    ultimately show ?thesis by (simp add: genuine_def)
  qed
  then have "records = map (H (in_key intent)) [in_from intent ..< in_from intent + length records]"
    by (intro nth_equalityI) simp_all
  moreover have ne: "records \<noteq> []" using props len by auto
  moreover have "0 < in_from intent"
  proof -
    have z: "0 < length (rr_commands rp)" using props ne by (metis length_greater_0_conv)
    have "Canonical K (Some (rr_commands rp ! 0)) = Inr (records ! 0)" "pc_version (rr_commands rp ! 0) = in_from intent"
      using conjunct2 [OF props] z by auto
    then show ?thesis using Canonical_Inr command_ok_key by metis
  qed
  moreover have "\<exists>r \<in> set records. pc_version (pr_command r) = pc_version (pr_command held)" using ex by (auto simp: list_ex_iff)
  ultimately show ?thesis by blast
qed

lemma foldRecords_first:
  "foldRecords f (r # rs) = Inr g \<Longrightarrow> pc_version (pr_command r) = Suc (fo_version f)"
  by (auto simp: Let_def split: if_splits)

section \<open>What the projector relies on\<close>

locale participation_env =
  fixes p :: "'w part_projector" and H :: history and inv :: "'w \<Rightarrow> bool" and head :: "'w \<Rightarrow> part_key \<Rightarrow> nat"
  assumes hist: "hist_ok H"
    and load: "inv w \<Longrightarrow> st_load (pp_store p) w k v = (res1, w') \<Longrightarrow>
      inv w' \<and> head w \<le> head w' \<and>
      (\<forall>f i. res1 = Inr (f, i) \<longrightarrow> fold_is H k f \<and> fo_version f \<le> head w' k \<and>
         (\<forall>x. i = Some x \<longrightarrow> sameIdentity x (pr_identity (H k v))))"
    and install: "inv w \<Longrightarrow> st_install (pp_store p) w e (slice H k e (fo_version f)) f = (res2, w') \<Longrightarrow> fold_is H k f \<Longrightarrow>
      0 < fo_version f \<Longrightarrow> e \<le> fo_version f \<Longrightarrow>
      inv w' \<and> head w \<le> head w' \<and> (res2 = Inr True \<longrightarrow> fo_version f \<le> head w' k) \<and> (res2 = Inr False \<longrightarrow> head w' k \<noteq> e)"
    and begin_law: "inv w \<Longrightarrow> st_begin (pp_store p) w intent held = (res3, w') \<Longrightarrow>
      inv w' \<and> head w \<le> head w' \<and>
      (\<forall>intent' started. res3 = Inr (intent', started) \<longrightarrow> in_key intent' = in_key intent \<and> in_observed intent' = in_observed intent)"
    and install_reconcile: "inv w \<Longrightarrow>
      st_install_reconcile (pp_store p) w intent (slice H (in_key intent) (in_observed intent) (fo_version f)) f = (res4, w') \<Longrightarrow>
      fold_is H (in_key intent) f \<Longrightarrow> 0 < fo_version f \<Longrightarrow> in_observed intent \<le> fo_version f \<Longrightarrow>
      inv w' \<and> head w \<le> head w' \<and> (res4 = Inr True \<longrightarrow> fo_version f \<le> head w' (in_key intent))"
    and install_historical: "inv w \<Longrightarrow> st_install_historical (pp_store p) w intent (H (in_key intent) v) = (res5, w') \<Longrightarrow>
      0 < v \<Longrightarrow> inv w' \<and> head w \<le> head w'"
    and install_snapshot: "inv w \<Longrightarrow> st_install_snapshot (pp_store p) w intent snap held = (res6, w') \<Longrightarrow>
      fold_is H (in_key intent) (sn_fold snap) \<Longrightarrow> in_observed intent \<le> fo_version (sn_fold snap) \<Longrightarrow>
      inv w' \<and> head w \<le> head w' \<and> (res6 = Inr True \<longrightarrow> fo_version (sn_fold snap) \<le> head w' (in_key intent))"
    and fail: "inv w \<Longrightarrow> st_fail (pp_store p) w intent held cause = (res7, w') \<Longrightarrow> inv w' \<and> head w \<le> head w'"
    and poison: "inv w \<Longrightarrow> st_poison (pp_store p) w rec reason = (res8, w') \<Longrightarrow> inv w' \<and> head w \<le> head w'"
    and ids: "inv w \<Longrightarrow> pp_ids p w = (t, w') \<Longrightarrow> inv w' \<and> head w \<le> head w'"
    and replay: "inv w \<Longrightarrow> au_replay (pp_authority p) w q = (res9, w') \<Longrightarrow>
      inv w' \<and> head w \<le> head w' \<and> (\<forall>rp c. res9 = Inr (Some rp) \<and> c \<in> set (rr_commands rp) \<longrightarrow> genuine (pp_codec p) H c)"
    and snapshot: "inv w \<Longrightarrow> au_snapshot (pp_authority p) w sq = (res10, w') \<Longrightarrow>
      inv w' \<and> head w \<le> head w' \<and>
      (\<forall>s. res10 = Inr (Some s) \<longrightarrow> set (sr_participants s) = members H (sr_tenant s, sr_interaction s) (sr_version s) \<and>
         sr_head_event_id s = pi_event_id (pr_identity (H (sr_tenant s, sr_interaction s) (sr_version s))) \<and>
         sr_head_hash s = pi_hash (pr_identity (H (sr_tenant s, sr_interaction s) (sr_version s))))"
begin

definition good :: "'w \<Rightarrow> 'w \<Rightarrow> bool" where
  "good w w' \<longleftrightarrow> inv w' \<and> head w \<le> head w'"

lemma good_trans: "good w w' \<Longrightarrow> good w' w'' \<Longrightarrow> good w w''"
  by (auto simp: good_def)

lemma good_head: "good w w' \<Longrightarrow> head w k \<le> head w' k"
  by (auto simp: good_def dest: le_funD)

lemma installed_result_good:
  assumes "installed_result ok (r, w1) = (res, err, w')"
  shows "w' = w1 \<and> (err = None \<longrightarrow> r = Inr True \<and> res = ok \<or> r = Inr False \<and> res = CompareAndSetLost) \<and> (err \<noteq> None \<longrightarrow> res = NoResult)"
  using assms by (auto simp: installed_result_def split: sum.splits if_splits)

lemma failReconcile_good:
  assumes "inv w" "failReconcile p intent held cause w = (res, err, w')"
  shows "good w w' \<and> err \<noteq> None"
proof -
  obtain r w1 where f: "st_fail (pp_store p) w intent held cause = (r, w1)" by fastforce
  from fail [OF assms(1) f] assms(2) f show ?thesis
    by (auto simp: failReconcile_def good_def split: sum.splits if_splits)
qed

lemma part_snapshot_good:
  assumes "inv w" "part_snapshot p intent held w = (res, err, w')"
  shows "good w w' \<and> (err = None \<and> res \<noteq> CompareAndSetLost \<longrightarrow> pc_version (pr_command held) \<le> head w' (in_key intent))"
proof -
  let ?q = "\<lparr>sq_key = in_key intent, sq_minimum = in_observed intent, sq_id = in_token intent\<rparr>"
  obtain r w1 where a: "au_snapshot (pp_authority p) w ?q = (r, w1)" by fastforce
  note s = snapshot [OF assms(1) a]
  then have g1: "good w w1" "inv w1" by (simp_all add: good_def)
  show ?thesis
  proof (cases r)
    case (Inl e)
    with assms(2) a have "failReconcile p intent held e w1 = (res, err, w')" by (simp add: part_snapshot_def)
    from failReconcile_good [OF g1(2) this] g1(1) show ?thesis by (blast intro: good_trans)
  next
    case (Inr wire)
    show ?thesis
    proof (cases "validateSnapshot wire intent held")
      case (Inl e)
      with assms(2) a Inr g1 show ?thesis by (auto simp: part_snapshot_def)
    next
      case v: (Inr snap)
      obtain sr where sr: "wire = Some sr" "sr_tenant sr = fst (in_key intent)" "sr_interaction sr = snd (in_key intent)"
          "in_observed intent \<le> sr_version sr" "pc_version (pr_command held) \<le> sr_version sr"
          "fo_version (sn_fold snap) = sr_version sr" "fo_tenant (sn_fold snap) = sr_tenant sr" "fo_interaction (sn_fold snap) = sr_interaction sr"
          "fo_participants (sn_fold snap) = set (sr_participants sr)" "pi_event_id (fo_identity (sn_fold snap)) = sr_head_event_id sr"
          "pi_hash (fo_identity (sn_fold snap)) = sr_head_hash sr"
        using v by (auto simp: validateSnapshot_def split: option.splits if_splits)
      with s Inr have fi: "fold_is H (in_key intent) (sn_fold snap)" by (simp add: fold_is_def sameIdentity_def)
      obtain ri w2 where i: "st_install_snapshot (pp_store p) w1 intent snap held = (ri, w2)" by fastforce
      note isn = install_snapshot [OF g1(2) i fi, unfolded sr(6), OF sr(4)]
      have ir: "installed_result AuditedSnapshot (ri, w2) = (res, err, w')"
        using assms(2) a Inr v i by (simp add: part_snapshot_def)
      note r = installed_result_good [OF ir]
      have "good w w'" using isn r good_trans [OF g1(1), of w'] by (simp add: good_def)
      moreover have "pc_version (pr_command held) \<le> head w' (in_key intent)" if "err = None \<and> res \<noteq> CompareAndSetLost"
        using isn r that sr(5) by auto
      ultimately show ?thesis by blast
    qed
  qed
qed

lemma reconcile_started_good:
  assumes "inv w" "reconcile_started p fld intent held historical w = (res, err, w')"
    and "fold_is H (in_key intent) fld" "fo_version fld = in_observed intent" "fst (in_key intent) \<noteq> ''''"
    and "historical \<Longrightarrow> pc_version (pr_command held) \<le> head w (in_key intent)"
  shows "good w w' \<and> (err = None \<and> res \<noteq> CompareAndSetLost \<longrightarrow> pc_version (pr_command held) \<le> head w' (in_key intent))"
proof -
  let ?q = "\<lparr>rq_key = in_key intent, rq_from = in_from intent, rq_to = in_to intent, rq_id = in_token intent\<rparr>"
  obtain r w1 where a: "au_replay (pp_authority p) w ?q = (r, w1)" by fastforce
  note rp = replay [OF assms(1) a]
  then have g1: "good w w1" "inv w1" by (simp_all add: good_def)
  show ?thesis
  proof (cases r)
    case (Inl e)
    with assms(2) a consider "part_snapshot p intent held w1 = (res, err, w')" | "failReconcile p intent held e w1 = (res, err, w')"
      by (auto simp: reconcile_started_def split: if_splits)
    then show ?thesis
    proof cases
      case 1
      from part_snapshot_good [OF g1(2) 1] show ?thesis using good_trans [OF g1(1)] by blast
    next
      case 2
      from failReconcile_good [OF g1(2) 2] show ?thesis using good_trans [OF g1(1)] by blast
    qed
  next
    case (Inr rpo)
    show ?thesis
    proof (cases "validateReplay (pp_codec p) rpo intent held")
      case (Inl e)
      with assms(2) a Inr g1 show ?thesis by (auto simp: reconcile_started_def)
    next
      case v: (Inr records)
      have sl: "records = map (H (in_key intent)) [in_from intent ..< in_from intent + length records]" "records \<noteq> []"
          "0 < in_from intent" "\<exists>x \<in> set records. pc_version (pr_command x) = pc_version (pr_command held)"
        using validateReplay_slice [OF v _ hist] rp Inr by auto
      show ?thesis
      proof (cases historical)
        case True
        obtain ri w2 where i: "st_install_historical (pp_store p) w1 intent (records ! 0) = (ri, w2)" by fastforce
        have "records ! 0 = H (in_key intent) (in_from intent)" using upt_head [OF sl(1,2)] by (metis nth_Cons_0)
        from install_historical [OF g1(2) i [unfolded this] sl(3)] have g2: "good w1 w2" by (simp add: good_def)
        have ir: "installed_result Duplicate (ri, w2) = (res, err, w')"
          using assms(2) a Inr v i True by (simp add: reconcile_started_def)
        note r = installed_result_good [OF ir]
        have "good w w'" using r good_trans [OF g1(1) g2] by simp
        moreover have "pc_version (pr_command held) \<le> head w' (in_key intent)"
          using assms(6) [OF True] good_head [OF \<open>good w w'\<close>, of "in_key intent"] by linarith
        ultimately show ?thesis by blast
      next
        case False
        show ?thesis
        proof (cases "foldRecords fld records")
          case (Inl e)
          with assms(2) a Inr v False g1 show ?thesis by (auto simp: reconcile_started_def)
        next
          case f: (Inr final)
          define n where "n = in_from intent + length records - 1"
          have hd: "records = H (in_key intent) (in_from intent) # tl records" by (rule upt_head [OF sl(1,2)])
          have frm: "in_from intent = Suc (fo_version fld)"
            using foldRecords_first [of fld "H (in_key intent) (in_from intent)" "tl records" final] f hd hist_okD(1) [OF hist sl(3)] by simp
          have rec: "records = slice H (in_key intent) (fo_version fld) n" using sl(1) frm sl(2) by (simp add: n_def)
          have le: "fo_version fld \<le> n" using frm by (simp add: n_def)
          obtain g where g: "foldRecords fld (slice H (in_key intent) (fo_version fld) n) = Inr g" "fold_is H (in_key intent) g" "fo_version g = n"
            using fold_slice [OF hist assms(3,5) le] by blast
          then have fin: "fold_is H (in_key intent) final" "fo_version final = n" using f rec by auto
          have "0 < n" using frm sl(2) by (cases records) (simp_all add: n_def)
          obtain ri w2 where i: "st_install_reconcile (pp_store p) w1 intent records final = (ri, w2)" by fastforce
          have i': "st_install_reconcile (pp_store p) w1 intent (slice H (in_key intent) (in_observed intent) (fo_version final)) final = (ri, w2)"
            using i rec fin(2) assms(4) by simp
          have ge: "in_observed intent \<le> fo_version final" using le fin(2) assms(4) by simp
          note ins = install_reconcile [OF g1(2) i' fin(1) _ ge]
          have ir: "installed_result Applied (ri, w2) = (res, err, w')"
            using assms(2) a Inr v f i False by (simp add: reconcile_started_def)
          note r = installed_result_good [OF ir]
          have "good w w'" using ins r fin(2) \<open>0 < n\<close> good_trans [OF g1(1), of w'] by (simp add: good_def)
          moreover have "pc_version (pr_command held) \<le> n"
          proof -
            obtain x where "x \<in> set records" "pc_version (pr_command x) = pc_version (pr_command held)" using sl(4) by blast
            moreover then obtain v where "x = H (in_key intent) v" "0 < v" "v \<le> n" using rec le by (auto simp: less_Suc_eq_le)
            ultimately show ?thesis using hist_okD(1) [OF hist, of v "in_key intent"] by simp
          qed
          ultimately show ?thesis using ins r fin(2) \<open>0 < n\<close> by auto
        qed
      qed
    qed
  qed
qed

lemma reconcile_good:
  assumes "inv w" "reconcile p fld held historical w = (res, err, w')" "fold_is H k fld" "fst k \<noteq> ''''"
    and "k = (pc_tenant (pr_command held), pc_interaction (pr_command held))"
    and "historical \<Longrightarrow> pc_version (pr_command held) \<le> head w k"
  shows "good w w' \<and> (err = None \<and> res \<noteq> CompareAndSetLost \<longrightarrow> pc_version (pr_command held) \<le> head w' k)"
proof -
  obtain token w1 where t: "pp_ids p w = (token, w1)" by fastforce
  then have g1: "good w w1" "inv w1" using ids [OF assms(1) t] by (simp_all add: good_def)
  define intent where "intent = \<lparr>in_token = token, in_key = k, in_observed = fo_version fld,
      in_from = (if historical then pc_version (pr_command held) else fo_version fld + 1), in_to = pc_version (pr_command held), in_held = pr_identity held\<rparr>"
  obtain rb w2 where b: "st_begin (pp_store p) w1 intent held = (rb, w2)" by fastforce
  note bl = begin_law [OF g1(2) b]
  have g2: "good w w2" "inv w2" using bl good_trans [OF g1(1), of w2] by (simp_all add: good_def)
  have re: "reconcile p fld held historical w =
      (if \<not> uuidv7 token then (Poisoned, Some [ErrInvalid], w1)
       else (case rb of
               Inl e \<Rightarrow> (NoResult, Some e, w2)
             | Inr (intent', started) \<Rightarrow>
                 if \<not> started then (CompareAndSetLost, None, w2) else reconcile_started p fld intent' held historical w2))"
    using t b by (auto simp: reconcile_def Let_def intent_def assms(5) split: sum.splits)
  show ?thesis
  proof (cases "uuidv7 token")
    case False
    with re assms(2) g1 show ?thesis by auto
  next
    case True
    show ?thesis
    proof (cases rb)
      case (Inl e)
      with re assms(2) True g2 show ?thesis by auto
    next
      case (Inr ist)
      obtain intent' started where ist: "ist = (intent', started)" by fastforce
      have key: "in_key intent' = k" "in_observed intent' = fo_version fld" using bl Inr ist by (auto simp: intent_def)
      show ?thesis
      proof (cases started)
        case False
        with re assms(2) True Inr ist g2 show ?thesis by auto
      next
        case st: True
        have rs: "reconcile_started p fld intent' held historical w2 = (res, err, w')" using re assms(2) True Inr ist st by simp
        have "good w2 w' \<and> (err = None \<and> res \<noteq> CompareAndSetLost \<longrightarrow> pc_version (pr_command held) \<le> head w' (in_key intent'))"
        proof (rule reconcile_started_good [OF g2(2) rs])
          show "pc_version (pr_command held) \<le> head w2 (in_key intent')" if historical
            using assms(6) [OF that] good_head [OF g2(1), of k] key(1) by simp
        qed (use assms(3,4) key in simp_all)
        then show ?thesis using good_trans [OF g2(1)] key(1) by blast
      qed
    qed
  qed
qed

text \<open>\<open>Apply\<close> of a command of the authority keeps every fold right and never moves a head back; unless the
  call reports an error or a lost compare-and-set, the command is in the fold afterwards.\<close>

lemma Apply_good:
  assumes "inv w" "Apply p who (Some c) w = (res, err, w')" "genuine (pp_codec p) H c"
  shows "good w w' \<and> (err = None \<and> res \<noteq> CompareAndSetLost \<longrightarrow> pc_version c \<le> head w' (pc_tenant c, pc_interaction c))"
proof (cases "Canonical (pp_codec p) (Some c)")
  case (Inl e)
  with assms show ?thesis by (auto simp: Apply_def good_def)
next
  case (Inr rcd)
  let ?k = "(pc_tenant c, pc_interaction c)"
  have rec: "rcd = H ?k (pc_version c)" using assms(3) Inr by (simp add: genuine_def)
  note cf = Canonical_fields [OF Inr]
  have key: "?k = (pc_tenant (pr_command rcd), pc_interaction (pr_command rcd))" using cf by simp
  have ne: "pc_tenant c \<noteq> ''''" "0 < pc_version c" using Canonical_Inr [OF Inr] command_ok_key by blast+
  show ?thesis
  proof (cases "pr_tenant who \<noteq> pc_tenant c \<or> \<not> ValidTransportGrant (pr_grant who) CapabilityWrite")
    case True
    with assms Inr show ?thesis by (auto simp: Apply_def good_def)
  next
    case auth: False
    obtain rl w1 where l: "st_load (pp_store p) w ?k (pc_version c) = (rl, w1)" by fastforce
    note ll = load [OF assms(1) l]
    have g1: "good w w1" "inv w1" using ll by (simp_all add: good_def)
    show ?thesis
    proof (cases rl)
      case (Inl e)
      with assms(2) Inr auth l g1 show ?thesis by (auto simp: Apply_def Let_def)
    next
      case rl: (Inr fi)
      obtain fld retained where fi: "fi = (fld, retained)" by fastforce
      have f: "fold_is H ?k fld" "fo_version fld \<le> head w1 ?k" and ret: "\<And>x. retained = Some x \<Longrightarrow> sameIdentity x (pr_identity rcd)"
        using ll rl fi rec by auto
      have ap: "Apply p who (Some c) w =
          (if pc_version c \<le> fo_version fld then
             (case retained of
                None \<Rightarrow> reconcile p fld rcd True w1
              | Some i \<Rightarrow>
                  if sameIdentity i (pr_identity rcd) then (Duplicate, None, w1)
                  else (case st_poison (pp_store p) w1 rcd ''DIVERGENT_HISTORY'' of
                          (Some e, w2) \<Rightarrow> (Poisoned, Some e, w2)
                        | (None, w2) \<Rightarrow> (Poisoned, Some [ErrDivergentHistory], w2)))
           else if pc_version c > fo_version fld + 1 then reconcile p fld rcd False w1
           else (case foldRecords fld [rcd] of
                   Inl e \<Rightarrow> (Poisoned, Some e, w1)
                 | Inr final \<Rightarrow> installed_result Applied (st_install (pp_store p) w1 (fo_version fld) [rcd] final)))"
        using Inr auth l rl fi by (simp add: Apply_def)
      have step: ?thesis if "good w1 w' \<and> (err = None \<and> res \<noteq> CompareAndSetLost \<longrightarrow> pc_version (pr_command rcd) \<le> head w' ?k)"
        using that good_trans [OF g1(1)] cf by auto
      consider (dup) "pc_version c \<le> fo_version fld" "retained \<noteq> None" | (old) "pc_version c \<le> fo_version fld" "retained = None"
        | (gap) "pc_version c > fo_version fld + 1" | (nxt) "pc_version c = fo_version fld + 1" by linarith
      then show ?thesis
      proof cases
        case dup
        then obtain x where "retained = Some x" by blast
        with ap assms(2) ret dup(1) have "w' = w1" by simp
        with dup(1) f(2) g1 show ?thesis by (auto simp: good_def)
      next
        case old
        with ap assms(2) have rc: "reconcile p fld rcd True w1 = (res, err, w')" by simp
        have v: "pc_version (pr_command rcd) \<le> head w1 ?k" using cf(3) old(1) f(2) by simp
        show ?thesis by (rule step [OF reconcile_good [OF g1(2) rc f(1) _ key]]) (use ne v in simp_all)
      next
        case gap
        with ap assms(2) have rc: "reconcile p fld rcd False w1 = (res, err, w')" by simp
        show ?thesis by (rule step [OF reconcile_good [OF g1(2) rc f(1) _ key]]) (simp_all add: ne)
      next
        case nxt
        have sl: "[rcd] = slice H ?k (fo_version fld) (Suc (fo_version fld))" using rec nxt by simp
        obtain g where g: "foldRecords fld [rcd] = Inr g" "fold_is H ?k g" "fo_version g = Suc (fo_version fld)"
          using fold_slice [OF hist f(1), of "Suc (fo_version fld)"] ne sl by auto
        obtain ri w2 where i: "st_install (pp_store p) w1 (fo_version fld) [rcd] g = (ri, w2)" by fastforce
        have i': "st_install (pp_store p) w1 (fo_version fld) (slice H ?k (fo_version fld) (fo_version g)) g = (ri, w2)"
          using i sl g(3) by simp
        have ge: "fo_version fld \<le> fo_version g" using g(3) by simp
        note ins = install [OF g1(2) i' g(2) _ ge]
        have ir: "installed_result Applied (ri, w2) = (res, err, w')" using ap assms(2) nxt g(1) i by simp
        note r = installed_result_good [OF ir]
        show ?thesis using ins r g(3) cf nxt by (intro step) (auto simp: good_def)
      qed
    qed
  qed
qed

end

end
