(* ===== verification/Part_Pg_Laws.thy ===== *)
theory Part_Pg_Laws
  imports Part_Pg Part_History
begin

text \<open>
  The Postgres store keeps right folds: every transaction preserves \<open>db_ok\<close> and moves no head back, also
  when it fails or loses its answer and when other projectors commit in between. The store with any
  truthful authority is thereby a \<open>participation_env\<close> (the sublocale at the end).
\<close>

definition db_head :: "pgdb \<Rightarrow> part_key \<Rightarrow> nat" where
  "db_head db k = (case map_of (db_heads db) k of None \<Rightarrow> 0 | Some h \<Rightarrow> fh_version h)"

definition head_ok :: "history \<Rightarrow> part_key \<Rightarrow> fold_head \<Rightarrow> bool" where
  "head_ok H k h \<longleftrightarrow> fh_version h = 0 \<or>
     fh_event h = Some (pi_event_id (pr_identity (H k (fh_version h)))) \<and> fh_hash h = Some (pi_hash (pr_identity (H k (fh_version h))))"

definition row_ok :: "history \<Rightarrow> part_key \<times> nat \<Rightarrow> ledger_row \<Rightarrow> bool" where
  "row_ok H kv row \<longleftrightarrow>
     lr_event row = pi_event_id (pr_identity (H (fst kv) (snd kv))) \<and> lr_hash row = pi_hash (pr_identity (H (fst kv) (snd kv)))"

definition folded :: "pgdb \<Rightarrow> part_key \<Rightarrow> string set" where
  "folded db k = {x. (k, x) \<in> db_folded db}"

definition db_ok :: "history \<Rightarrow> pgdb \<Rightarrow> bool" where
  "db_ok H db \<longleftrightarrow>
     (\<forall>k h. map_of (db_heads db) k = Some h \<longrightarrow> head_ok H k h) \<and>
     (\<forall>k. folded db k = members H k (db_head db k)) \<and>
     (\<forall>kv row. map_of (db_versions db) kv = Some row \<longrightarrow> row_ok H kv row)"

declare split_paired_All [simp del] split_paired_Ex [simp del]

lemma db_okD:
  assumes "db_ok H db"
  shows "\<And>k h. map_of (db_heads db) k = Some h \<Longrightarrow> head_ok H k h" "\<And>k. folded db k = members H k (db_head db k)"
    "\<forall>kv row. map_of (db_versions db) kv = Some row \<longrightarrow> row_ok H kv row"
  using assms unfolding db_ok_def by blast+

lemma db_okI:
  assumes "\<And>k h. map_of (db_heads db) k = Some h \<Longrightarrow> head_ok H k h" "\<And>k. folded db k = members H k (db_head db k)"
    "\<And>kv row. map_of (db_versions db) kv = Some row \<Longrightarrow> row_ok H kv row"
  shows "db_ok H db"
  using assms unfolding db_ok_def by blast

lemma head_le:
  assumes "db_head db' k = v" "\<forall>k'. k' \<noteq> k \<longrightarrow> db_head db' k' = db_head db k'" "db_head db k \<le> v"
  shows "db_head db \<le> db_head db'"
proof (rule le_funI)
  fix k'
  show "db_head db k' \<le> db_head db' k'" using assms by (cases "k' = k") auto
qed

text \<open>The tables that matter for the fold.\<close>

definition same_fold :: "pgdb \<Rightarrow> pgdb \<Rightarrow> bool" where
  "same_fold db db' \<longleftrightarrow> db_heads db' = db_heads db \<and> db_folded db' = db_folded db \<and> db_versions db' = db_versions db"

lemma same_fold_ok: "same_fold db db' \<Longrightarrow> db_ok H db' = db_ok H db \<and> db_head db' = db_head db"
  by (simp add: same_fold_def db_ok_def db_head_def folded_def fun_eq_iff)

lemma same_fold_trans: "same_fold a b \<Longrightarrow> same_fold b c \<Longrightarrow> same_fold a c"
  by (simp add: same_fold_def)

lemma insertAudit_same: "insertAudit intent r reason db = Inr db' \<Longrightarrow> same_fold db db'"
  by (auto simp: insertAudit_def same_fold_def Let_def split: if_splits)

lemma set_intent_status_same: "same_fold db (set_intent_status intent status db)"
  by (auto simp: set_intent_status_def same_fold_def split: option.splits)

lemma update_pending_same: "same_fold db (update_pending t e f db)"
  by (auto simp: update_pending_def same_fold_def split: option.splits)

lemma completeReconcile_same: "same_fold db (completeReconcile intent a b db)"
  unfolding completeReconcile_def by (rule same_fold_trans [OF set_intent_status_same update_pending_same])

lemma insert_event_same: "insert_event k e v hash db = Inr db' \<Longrightarrow> same_fold db db'"
  by (auto simp: insert_event_def same_fold_def split: if_splits)

lemma begin_insert_same: "begin_insert intent held db = Inr (s, db') \<Longrightarrow> same_fold db db'"
  by (auto simp: begin_insert_def same_fold_def Let_def split: if_splits)

lemma lockHead_ok:
  assumes "lockHead k db = (v, db')"
  shows "v = db_head db k \<and> db_head db' = db_head db \<and> (db_ok H db \<longrightarrow> db_ok H db') \<and> map_of (db_heads db') k \<noteq> None \<and>
    db_folded db' = db_folded db \<and> db_versions db' = db_versions db \<and> db_intents db' = db_intents db \<and> db_pending db' = db_pending db"
proof (cases "map_of (db_heads db) k")
  case None
  with assms have db': "v = 0" "db' = db\<lparr>db_heads := AList.update k new_head (db_heads db)\<rparr>" by (auto simp: lockHead_def)
  have hd: "db_head db' = db_head db" using None by (auto simp: db' db_head_def fun_eq_iff new_head_def)
  have "db_ok H db'" if "db_ok H db"
    using that None hd by (auto simp: db_ok_def db' head_ok_def new_head_def folded_def)
  with hd None show ?thesis by (simp add: db' db_head_def)
next
  case (Some h)
  with assms show ?thesis by (auto simp: lockHead_def db_head_def)
qed

lemma lockIntentAndHead_ok:
  assumes "lockIntentAndHead intent db = (ok, db')"
  shows "db_head db' = db_head db \<and> (db_ok H db \<longrightarrow> db_ok H db') \<and> map_of (db_heads db') (in_key intent) \<noteq> None \<and>
    (ok \<longrightarrow> db_head db (in_key intent) = in_observed intent)"
proof -
  obtain v db1 where l: "lockHead (in_key intent) db = (v, db1)" by fastforce
  from lockHead_ok [OF l, of H] assms l show ?thesis
    by (auto simp: lockIntentAndHead_def Let_def split: if_splits option.splits)
qed

lemma insert_version_ok:
  assumes "insert_version k v row db = Inr db'" "row_ok H (k, v) row"
  shows "db_heads db' = db_heads db \<and> db_folded db' = db_folded db \<and>
    ((\<forall>kv row. map_of (db_versions db) kv = Some row \<longrightarrow> row_ok H kv row) \<longrightarrow>
     (\<forall>kv row. map_of (db_versions db') kv = Some row \<longrightarrow> row_ok H kv row))"
  using assms by (auto simp: insert_version_def split: if_splits)

lemma insertLedgers_ok:
  assumes "insertLedgers app (H k v) db = Inr db'" "hist_ok H" "0 < v"
  shows "db_heads db' = db_heads db \<and> db_folded db' = db_folded db \<and>
    ((\<forall>kv row. map_of (db_versions db) kv = Some row \<longrightarrow> row_ok H kv row) \<longrightarrow>
     (\<forall>kv row. map_of (db_versions db') kv = Some row \<longrightarrow> row_ok H kv row))"
proof -
  note h = hist_okD [OF assms(2,3), of k]
  let ?row = "\<lparr>lr_event = pi_event_id (pr_identity (H k v)), lr_hash = pi_hash (pr_identity (H k v)), lr_body = Some (pi_body (pr_identity (H k v)))\<rparr>"
  have k: "(pc_tenant (pr_command (H k v)), pc_interaction (pr_command (H k v))) = k" using h by simp
  obtain db1 where i: "insert_version k v ?row db = Inr db1" "insert_event k (pi_event_id (pr_identity (H k v))) v (pi_hash (pr_identity (H k v))) db1 = Inr db'"
    using assms(1) unfolding insertLedgers_def Let_def k h(1) by (auto split: if_splits sum.splits)
  have "row_ok H (k, v) ?row" by (simp add: row_ok_def)
  from insert_version_ok [OF i(1) this] insert_event_same [OF i(2)] show ?thesis by (simp add: same_fold_def)
qed

lemma install_loop_ok:
  assumes "install_loop app (slice H k a b) db = Inr db'" "hist_ok H" "a \<le> b" "folded db k = members H k a"
    and "\<forall>kv row. map_of (db_versions db) kv = Some row \<longrightarrow> row_ok H kv row"
  shows "db_heads db' = db_heads db \<and> folded db' k = members H k b \<and> (\<forall>k'. k' \<noteq> k \<longrightarrow> folded db' k' = folded db k') \<and>
    (\<forall>kv row. map_of (db_versions db') kv = Some row \<longrightarrow> row_ok H kv row)"
  using assms(1,3,4,5)
proof (induction "b - a" arbitrary: a db)
  case 0
  then show ?case by simp
next
  case (Suc n)
  then have sl: "slice H k a b = H k (Suc a) # slice H k (Suc a) b" by (simp add: upt_rec)
  obtain db1 where l: "insertLedgers app (H k (Suc a)) db = Inr db1"
      "install_loop app (slice H k (Suc a) b) (upsert_participant (pr_command (H k (Suc a))) db1) = Inr db'"
    using Suc.prems(1) sl by (auto split: sum.splits)
  note i = insertLedgers_ok [OF l(1) assms(2)]
  let ?db2 = "upsert_participant (pr_command (H k (Suc a))) db1"
  note h = hist_okD [OF assms(2), of "Suc a" k]
  have up: "db_heads ?db2 = db_heads db1" "db_versions ?db2 = db_versions db1"
      "folded ?db2 k = apply_desired (pr_command (H k (Suc a))) (folded db1 k)" "\<And>k'. k' \<noteq> k \<Longrightarrow> folded ?db2 k' = folded db1 k'"
    using h by (auto simp: upsert_participant_def Let_def folded_def apply_desired_def)
  have f1: "folded db1 = folded db" using i by (simp add: folded_def fun_eq_iff)
  have n: "n = b - Suc a" "Suc a \<le> b" using Suc.hyps(2) by simp_all
  have m: "folded ?db2 k = members H k (Suc a)" using up(3) f1 Suc.prems(3) by simp
  have rows: "\<forall>kv row. map_of (db_versions ?db2) kv = Some row \<longrightarrow> row_ok H kv row" using i Suc.prems(4) up(2) by simp
  note ih = Suc.hyps(1) [OF n(1) l(2) n(2) m rows]
  have hd: "db_heads ?db2 = db_heads db" using up(1) i by simp
  have oth: "folded ?db2 k' = folded db k'" if "k' \<noteq> k" for k' using up(4) [OF that] f1 by simp
  show ?case using ih unfolding hd by (simp add: oth)
qed

lemma installRecords_ok:
  assumes "installRecords app (slice H k a (fo_version f)) f db = Inr db'" "hist_ok H" "db_ok H db" "fold_is H k f" "0 < fo_version f"
    and "map_of (db_heads db) k \<noteq> None" "db_head db k = a" "a \<le> fo_version f"
  shows "db_ok H db' \<and> db_head db' k = fo_version f \<and> (\<forall>k'. k' \<noteq> k \<longrightarrow> db_head db' k' = db_head db k')"
proof -
  let ?h = "\<lparr>fh_version = fo_version f, fh_event = Some (pi_event_id (fo_identity f)), fh_hash = Some (pi_hash (fo_identity f)), fh_provenance = None\<rparr>"
  obtain db1 where l: "install_loop app (slice H k a (fo_version f)) db = Inr db1" "db' = update_head k ?h db1"
    using assms(1,4) by (auto simp: installRecords_def fold_is_def split: sum.splits if_splits)
  have i: "db_heads db1 = db_heads db" "folded db1 k = members H k (fo_version f)" "\<And>k'. k' \<noteq> k \<Longrightarrow> folded db1 k' = folded db k'"
      "\<And>kv row. map_of (db_versions db1) kv = Some row \<Longrightarrow> row_ok H kv row"
    using install_loop_ok [OF l(1) assms(2,8) _ db_okD(3) [OF assms(3)]] db_okD(2) [OF assms(3), of k] assms(7) by blast+
  have db': "db_heads db' = AList.update k ?h (db_heads db)" "db_folded db' = db_folded db1" "db_versions db' = db_versions db1"
    using l(2) i(1) assms(6) by (simp_all add: update_head_def)
  have hd: "db_head db' k' = (if k' = k then fo_version f else db_head db k')" for k' by (simp add: db_head_def db')
  have "head_ok H k ?h" using assms(4,5) by (simp add: head_ok_def fold_is_def sameIdentity_def)
  then have "\<And>k' h. map_of (db_heads db') k' = Some h \<Longrightarrow> head_ok H k' h"
    using db_okD(1) [OF assms(3)] by (auto simp: db' split: if_splits)
  moreover have "folded db' k' = members H k' (db_head db' k')" for k'
  proof -
    have "folded db' k' = folded db1 k'" by (simp add: folded_def db')
    then show ?thesis using i(2) i(3) [of k'] db_okD(2) [OF assms(3), of k'] by (simp add: hd)
  qed
  ultimately have "db_ok H db'" using i(4) by (intro db_okI) (simp_all add: db')
  with hd show ?thesis by simp
qed

section \<open>The transactions\<close>

text \<open>A transaction that keeps right folds and moves no head back.\<close>

definition keeps :: "history \<Rightarrow> (pgdb \<Rightarrow> perr + 'a \<times> pgdb) \<Rightarrow> ('a \<Rightarrow> pgdb \<Rightarrow> bool) \<Rightarrow> bool" where
  "keeps H op Q \<longleftrightarrow> (\<forall>db x db'. db_ok H db \<longrightarrow> op db = Inr (x, db') \<longrightarrow> db_ok H db' \<and> db_head db \<le> db_head db' \<and> Q x db')"

lemma keepsI:
  "(\<And>db x db'. db_ok H db \<Longrightarrow> op db = Inr (x, db') \<Longrightarrow> db_ok H db' \<and> db_head db \<le> db_head db' \<and> Q x db') \<Longrightarrow> keeps H op Q"
  by (simp add: keeps_def)

lemma loadFold_ok:
  assumes "loadFold k db = Inr f" "db_ok H db"
  shows "fold_is H k f \<and> fo_version f = db_head db k"
proof (cases "map_of (db_heads db) k")
  case None
  with assms show ?thesis by (auto simp: loadFold_def fold_is_def db_head_def)
next
  case (Some h)
  have ho: "head_ok H k h" using assms(2) Some unfolding db_ok_def by blast
  have "folded db k = members H k (db_head db k)" using assms(2) unfolding db_ok_def by blast
  then have fo: "folded db k = members H k (fh_version h)" using Some by (simp add: db_head_def)
  have "snd ` {x \<in> db_folded db. fst x = k} = folded db k" by (force simp: folded_def)
  with Some assms(1) ho fo show ?thesis
    by (auto simp: loadFold_def Let_def fold_is_def db_head_def head_ok_def sameIdentity_def split: if_splits option.splits)
qed

lemma tx_load_keeps:
  "keeps H (tx_load k v) (\<lambda>x db'. \<forall>f i. x = (f, i) \<longrightarrow> fold_is H k f \<and> fo_version f \<le> db_head db' k \<and>
     (\<forall>x. i = Some x \<longrightarrow> sameIdentity x (pr_identity (H k v))))"
proof (rule keepsI)
  fix db x db'
  assume ok: "db_ok H db" and t: "tx_load k v db = Inr (x, db')"
  obtain f i where x: "x = (f, i)" by fastforce
  have f: "loadFold k db = Inr f" "db' = db" using t x by (auto simp: tx_load_def split: sum.splits if_splits option.splits)
  have "sameIdentity y (pr_identity (H k v))" if y: "i = Some y" for y
  proof -
    obtain row where "map_of (db_versions db) (k, v) = Some row" "pi_event_id y = lr_event row" "pi_hash y = lr_hash row"
      using t y f x by (auto simp: tx_load_def split: if_splits option.splits)
    moreover have "row_ok H (k, v) row" using db_okD(3) [OF ok] calculation by blast
    ultimately show ?thesis by (simp add: row_ok_def sameIdentity_def)
  qed
  with ok f x loadFold_ok [OF f(1) ok] show "db_ok H db' \<and> db_head db \<le> db_head db' \<and> (\<forall>f i. x = (f, i) \<longrightarrow> fold_is H k f \<and> fo_version f \<le> db_head db' k \<and>
     (\<forall>x. i = Some x \<longrightarrow> sameIdentity x (pr_identity (H k v))))" by simp
qed

lemma tx_install_keeps:
  assumes "hist_ok H" "fold_is H k f" "0 < fo_version f" "e \<le> fo_version f"
  shows "keeps H (tx_install e (slice H k e (fo_version f)) f)
    (\<lambda>x db'. (x \<longrightarrow> fo_version f \<le> db_head db' k) \<and> (\<not> x \<longrightarrow> db_head db' k \<noteq> e))"
proof (rule keepsI)
  fix db x db'
  assume ok: "db_ok H db" and t: "tx_install e (slice H k e (fo_version f)) f db = Inr (x, db')"
  have k: "(fo_tenant f, fo_interaction f) = k" using assms(2) by (simp add: fold_is_def)
  obtain v db1 where l: "lockHead k db = (v, db1)" by fastforce
  note lo = lockHead_ok [OF l, of H]
  show "db_ok H db' \<and> db_head db \<le> db_head db' \<and> (x \<longrightarrow> fo_version f \<le> db_head db' k) \<and> (\<not> x \<longrightarrow> db_head db' k \<noteq> e)"
  proof (cases "v = e")
    case False
    with t l k lo ok show ?thesis by (auto simp: tx_install_def Let_def)
  next
    case True
    then obtain db2 where i: "installRecords (fo_tenant f) (slice H k e (fo_version f)) f db1 = Inr db2" "x" "db' = db2"
      using t l k by (auto simp: tx_install_def Let_def split: sum.splits)
    have "db_ok H db1" "map_of (db_heads db1) k \<noteq> None" "db_head db1 k = e" using lo ok True by auto
    note ir = installRecords_ok [OF i(1) assms(1) this(1) assms(2,3) this(2,3) assms(4)]
    have "db_head db \<le> db_head db2"
      using ir lo True assms(4) by (intro head_le [of db2 k "fo_version f"]) simp_all
    with ir i show ?thesis by simp
  qed
qed

lemma tx_begin_keeps:
  "keeps H (tx_begin intent held) (\<lambda>x db'. \<forall>intent' s. x = (intent', s) \<longrightarrow> in_key intent' = in_key intent \<and> in_observed intent' = in_observed intent)"
proof (rule keepsI)
  fix db x db'
  assume ok: "db_ok H db" and t: "tx_begin intent held db = Inr (x, db')"
  obtain v db1 where l: "lockHead (in_key intent) db = (v, db1)" by fastforce
  note lo = lockHead_ok [OF l, of H]
  have "same_fold db1 db' \<and> in_key (fst x) = in_key intent \<and> in_observed (fst x) = in_observed intent"
    using t l by (auto simp: tx_begin_def Let_def same_fold_def split: if_splits option.splits sum.splits prod.splits
        dest: begin_insert_same [unfolded same_fold_def])
  with same_fold_ok [of db1 db' H] lo ok show "db_ok H db' \<and> db_head db \<le> db_head db' \<and>
      (\<forall>intent' s. x = (intent', s) \<longrightarrow> in_key intent' = in_key intent \<and> in_observed intent' = in_observed intent)"
    by auto
qed

lemma tx_install_reconcile_keeps:
  assumes "hist_ok H" "fold_is H (in_key intent) f" "0 < fo_version f" "in_observed intent \<le> fo_version f"
  shows "keeps H (tx_install_reconcile intent (slice H (in_key intent) (in_observed intent) (fo_version f)) f)
    (\<lambda>x db'. x \<longrightarrow> fo_version f \<le> db_head db' (in_key intent))"
proof (rule keepsI)
  fix db x db'
  let ?k = "in_key intent"
  assume ok: "db_ok H db" and t: "tx_install_reconcile intent (slice H ?k (in_observed intent) (fo_version f)) f db = Inr (x, db')"
  obtain b db1 where l: "lockIntentAndHead intent db = (b, db1)" by fastforce
  note lo = lockIntentAndHead_ok [OF l, of H]
  show "db_ok H db' \<and> db_head db \<le> db_head db' \<and> (x \<longrightarrow> fo_version f \<le> db_head db' ?k)"
  proof (cases b)
    case False
    with t l lo ok show ?thesis by (auto simp: tx_install_reconcile_def Let_def)
  next
    case True
    then obtain db2 where i: "installRecords (fst ?k) (slice H ?k (in_observed intent) (fo_version f)) f db1 = Inr db2"
        "db' = completeReconcile intent ''installed'' ''installed'' db2"
      using t l by (auto simp: tx_install_reconcile_def Let_def split: sum.splits)
    have "db_ok H db1" "map_of (db_heads db1) ?k \<noteq> None" "db_head db1 ?k = in_observed intent" using lo ok True by auto
    note ir = installRecords_ok [OF i(1) assms(1) this(1) assms(2,3) this(2,3) assms(4)]
    have "db_head db \<le> db_head db2"
      using ir lo True assms(4) by (intro head_le [of db2 ?k "fo_version f"]) simp_all
    with ir same_fold_ok [OF completeReconcile_same] i(2) show ?thesis by simp
  qed
qed

lemma tx_install_historical_keeps:
  assumes "hist_ok H" "0 < v"
  shows "keeps H (tx_install_historical intent (H (in_key intent) v)) (\<lambda>_ _. True)"
proof (rule keepsI)
  fix db x db'
  assume ok: "db_ok H db" and t: "tx_install_historical intent (H (in_key intent) v) db = Inr (x, db')"
  obtain b db1 where l: "lockIntentAndHead intent db = (b, db1)" by fastforce
  note lo = lockIntentAndHead_ok [OF l, of H]
  show "db_ok H db' \<and> db_head db \<le> db_head db' \<and> True"
  proof (cases b)
    case False
    with t l lo ok show ?thesis by (auto simp: tx_install_historical_def Let_def)
  next
    case True
    then obtain db2 where i: "insertLedgers (fst (in_key intent)) (H (in_key intent) v) db1 = Inr db2"
        "db' = completeReconcile intent ''installed'' ''installed'' db2"
      using t l by (auto simp: tx_install_historical_def Let_def split: sum.splits)
    note il = insertLedgers_ok [OF i(1) assms]
    have o1: "db_ok H db1" "db_head db1 = db_head db" using lo ok by auto
    have hd: "db_head db2 = db_head db1" using il by (simp add: db_head_def fun_eq_iff)
    have fo: "folded db2 k = folded db1 k" for k using il by (simp add: folded_def)
    have rows: "row_ok H kv row" if "map_of (db_versions db2) kv = Some row" for kv row
      using il db_okD(3) [OF o1(1)] that by simp
    have heads: "head_ok H k h" if "map_of (db_heads db2) k = Some h" for k h
      using il db_okD(1) [OF o1(1)] that by simp
    have ok2: "db_ok H db2"
    proof (rule db_okI)
      show "folded db2 k = members H k (db_head db2 k)" for k using db_okD(2) [OF o1(1), of k] hd fo by simp
    qed (use rows heads in blast)+
    show ?thesis using ok2 same_fold_ok [OF completeReconcile_same] i(2) hd o1(2) by simp
  qed
qed

lemma tx_install_snapshot_keeps:
  assumes "fold_is H (in_key intent) (sn_fold snap)" "in_observed intent \<le> fo_version (sn_fold snap)"
  shows "keeps H (tx_install_snapshot intent snap held) (\<lambda>x db'. x \<longrightarrow> fo_version (sn_fold snap) \<le> db_head db' (in_key intent))"
proof (rule keepsI)
  fix db x db'
  let ?k = "in_key intent" and ?f = "sn_fold snap" and ?e = "pi_event_id (fo_identity (sn_fold snap))" and ?hash = "pi_hash (fo_identity (sn_fold snap))"
  assume ok: "db_ok H db" and t: "tx_install_snapshot intent snap held db = Inr (x, db')"
  obtain b db1 where l: "lockIntentAndHead intent db = (b, db1)" by fastforce
  note lo = lockIntentAndHead_ok [OF l, of H]
  show "db_ok H db' \<and> db_head db \<le> db_head db' \<and> (x \<longrightarrow> fo_version ?f \<le> db_head db' ?k)"
  proof (cases b)
    case False
    with t l lo ok show ?thesis by (auto simp: tx_install_snapshot_def Let_def)
  next
    case True
    let ?db2 = "db1\<lparr>db_folded := {x \<in> db_folded db1. fst x \<noteq> ?k} \<union> Pair ?k ` fo_participants ?f\<rparr>"
    let ?h = "\<lparr>fh_version = fo_version ?f, fh_event = Some ?e, fh_hash = Some ?hash, fh_provenance = Some (sn_provenance snap)\<rparr>"
    obtain db3 db4 db5 where s: "insert_version ?k (fo_version ?f) \<lparr>lr_event = ?e, lr_hash = ?hash, lr_body = None\<rparr> ?db2 = Inr db3"
        "insert_event ?k ?e (fo_version ?f) ?hash db3 = Inr db4" "insertAudit intent held ''UNKNOWN_STALE_HISTORY'' (update_head ?k ?h db4) = Inr db5"
        "db' = completeReconcile intent ''audited'' ''dlq'' db5"
      using t l True by (auto simp: tx_install_snapshot_def Let_def split: sum.splits)
    have "0 < fo_version ?f" using s(1) by (auto simp: insert_version_def split: if_splits)
    with assms(1) have same: "?e = pi_event_id (pr_identity (H ?k (fo_version ?f)))" "?hash = pi_hash (pr_identity (H ?k (fo_version ?f)))"
      by (simp_all add: fold_is_def sameIdentity_def)
    have o1: "db_ok H db1" "db_head db1 = db_head db" "map_of (db_heads db1) ?k \<noteq> None" "db_head db ?k = in_observed intent" using lo ok True by auto
    have "row_ok H (?k, fo_version ?f) \<lparr>lr_event = ?e, lr_hash = ?hash, lr_body = None\<rparr>" using same by (simp add: row_ok_def)
    note iv = insert_version_ok [OF s(1) this]
    have v3: "db_heads db3 = db_heads db1" "db_folded db3 = db_folded ?db2" using iv by simp_all
    have v3r: "\<And>kv row. map_of (db_versions db3) kv = Some row \<Longrightarrow> row_ok H kv row" using iv db_okD(3) [OF o1(1)] by simp
    define db6 where "db6 = update_head ?k ?h db4"
    have v6: "db_heads db6 = AList.update ?k ?h (db_heads db1)" "db_folded db6 = db_folded ?db2" "db_versions db6 = db_versions db3"
      using insert_event_same [OF s(2)] v3 o1(3) by (auto simp add: db6_def update_head_def same_fold_def)
    have hd: "db_head db6 k' = (if k' = ?k then fo_version ?f else db_head db k')" for k'
      using o1(2) by (simp add: db_head_def v6 fun_eq_iff)
    have "head_ok H ?k ?h" using same by (simp add: head_ok_def)
    then have "\<And>k' h. map_of (db_heads db6) k' = Some h \<Longrightarrow> head_ok H k' h" using db_okD(1) [OF o1(1)] by (auto simp: v6 split: if_splits)
    moreover have "folded db6 k' = members H k' (db_head db6 k')" for k'
    proof (cases "k' = ?k")
      case True
      then show ?thesis using assms(1) by (auto simp: hd folded_def v6 fold_is_def)
    next
      case False
      then have "folded db6 k' = folded db1 k'" by (auto simp: folded_def v6)
      with False db_okD(2) [OF o1(1), of k'] o1(2) show ?thesis by (simp add: hd)
    qed
    ultimately have ok6: "db_ok H db6" using v3r by (intro db_okI) (simp_all add: v6)
    have "same_fold db6 db'"
      using same_fold_trans [OF insertAudit_same [OF s(3)] completeReconcile_same] s(4) by (simp add: db6_def)
    from same_fold_ok [OF this, of H] ok6 hd o1(4) assms(2) show ?thesis by (auto simp: le_fun_def)
  qed
qed

lemma tx_poison_keeps: "keeps H (tx_poison r reason) (\<lambda>_ _. True)"
  by (rule keepsI) (auto simp: tx_poison_def Let_def split: sum.splits dest!: insertAudit_same same_fold_ok [of _ _ H])

lemma tx_fail_keeps: "keeps H (tx_fail intent held) (\<lambda>_ _. True)"
proof (rule keepsI)
  fix db x db'
  assume ok: "db_ok H db" and t: "tx_fail intent held db = Inr (x, db')"
  obtain b db1 where l: "lockIntentAndHead intent db = (b, db1)" by fastforce
  note lo = lockIntentAndHead_ok [OF l, of H]
  have "same_fold db1 db'"
  proof (cases b)
    case False
    with t l show ?thesis by (auto simp: tx_fail_def Let_def same_fold_def)
  next
    case True
    with t l show ?thesis
      by (auto simp: tx_fail_def Let_def split: option.splits if_splits sum.splits
          intro: update_pending_same same_fold_trans [OF insertAudit_same same_fold_trans [OF update_pending_same set_intent_status_same]])
  qed
  from same_fold_ok [OF this, of H] lo ok show "db_ok H db' \<and> db_head db \<le> db_head db' \<and> True" by auto
qed

section \<open>The store as the projector relies on it\<close>

text \<open>Other projectors keep right folds and move no head back.\<close>

definition peers_ok :: "history \<Rightarrow> pg_env \<Rightarrow> bool" where
  "peers_ok H E \<longleftrightarrow>
     (\<forall>n db. db_ok H db \<longrightarrow> db_ok H (pe_others E n db) \<and> db_head db \<le> db_head (pe_others E n db))"

text \<open>The authority answers from its history: a replay holds commands of the history, a snapshot its members
  and its head identity at the version. Its calls and the source of tokens leave the tables alone.\<close>

definition replay_truthful :: "pcodec \<Rightarrow> history \<Rightarrow> pg_world authority_port \<Rightarrow> bool" where
  "replay_truthful K H auth \<longleftrightarrow>
     (\<forall>w q r w'. au_replay auth w q = (r, w') \<longrightarrow> pg_db w' = pg_db w \<and>
        (\<forall>rp c. r = Inr (Some rp) \<and> c \<in> set (rr_commands rp) \<longrightarrow> genuine K H c))"

definition snapshot_truthful :: "history \<Rightarrow> pg_world authority_port \<Rightarrow> bool" where
  "snapshot_truthful H auth \<longleftrightarrow>
     (\<forall>w q r w'. au_snapshot auth w q = (r, w') \<longrightarrow> pg_db w' = pg_db w \<and>
        (\<forall>s. r = Inr (Some s) \<longrightarrow> set (sr_participants s) = members H (sr_tenant s, sr_interaction s) (sr_version s) \<and>
           sr_head_event_id s = pi_event_id (pr_identity (H (sr_tenant s, sr_interaction s) (sr_version s))) \<and>
           sr_head_hash s = pi_hash (pr_identity (H (sr_tenant s, sr_interaction s) (sr_version s)))))"

definition quiet_ids :: "(pg_world \<Rightarrow> string \<times> pg_world) \<Rightarrow> bool" where
  "quiet_ids ids \<longleftrightarrow> (\<forall>w t w'. ids w = (t, w') \<longrightarrow> pg_db w' = pg_db w)"

lemma withTenantTx_keeps:
  assumes "keeps H op Q" "peers_ok H E" "db_ok H (pg_db w)" "withTenantTx E op w = (r, w')"
  shows "db_ok H (pg_db w') \<and> db_head (pg_db w) \<le> db_head (pg_db w') \<and> (\<forall>x. r = Inr x \<longrightarrow> Q x (pg_db w'))"
proof -
  let ?db = "pe_others E (pg_calls w) (pg_db w)"
  have o: "db_ok H ?db" "db_head (pg_db w) \<le> db_head ?db" using assms(2,3) unfolding peers_ok_def by blast+
  have k: "db_ok H db' \<and> db_head (pg_db w) \<le> db_head db' \<and> Q x db'" if "op ?db = Inr (x, db')" for x db'
    using assms(1) o that unfolding keeps_def by (blast intro: order_trans)
  show ?thesis
    using assms(4) o k by (auto simp: withTenantTx_def Let_def split: tx_end.splits sum.splits)
qed

theorem pg_participation_env:
  assumes "hist_ok H" "peers_ok H E" "replay_truthful K H auth" "snapshot_truthful H auth" "quiet_ids ids"
  shows "participation_env (NewPartProjector K (pg_store E) auth ids) H (\<lambda>w. db_ok H (pg_db w)) (\<lambda>w. db_head (pg_db w))"
proof (unfold_locales, goal_cases)
  case 1
  show ?case by (rule assms)
next
  case (2 w k v res1 w')
  then have "withTenantTx E (tx_load k v) w = (res1, w')" by (simp add: NewPartProjector_def pg_store_def)
  from withTenantTx_keeps [OF tx_load_keeps assms(2) 2(1) this] show ?case by blast
next
  case (3 w e k f res2 w')
  then have "withTenantTx E (tx_install e (slice H k e (fo_version f)) f) w = (res2, w')" by (simp add: NewPartProjector_def pg_store_def)
  from withTenantTx_keeps [OF tx_install_keeps [OF assms(1) 3(3,4,5)] assms(2) 3(1) this] show ?case by blast
next
  case (4 w intent held res3 w')
  then have "withTenantTx E (tx_begin intent held) w = (res3, w')" by (simp add: NewPartProjector_def pg_store_def)
  from withTenantTx_keeps [OF tx_begin_keeps assms(2) 4(1) this] show ?case by blast
next
  case (5 w intent f res4 w')
  then have "withTenantTx E (tx_install_reconcile intent (slice H (in_key intent) (in_observed intent) (fo_version f)) f) w = (res4, w')"
    by (simp add: NewPartProjector_def pg_store_def)
  from withTenantTx_keeps [OF tx_install_reconcile_keeps [OF assms(1) 5(3,4,5)] assms(2) 5(1) this] show ?case by blast
next
  case (6 w intent v res5 w')
  then have "withTenantTx E (tx_install_historical intent (H (in_key intent) v)) w = (res5, w')" by (simp add: NewPartProjector_def pg_store_def)
  from withTenantTx_keeps [OF tx_install_historical_keeps [OF assms(1) 6(3)] assms(2) 6(1) this] show ?case by blast
next
  case (7 w intent snap held res6 w')
  then have "withTenantTx E (tx_install_snapshot intent snap held) w = (res6, w')" by (simp add: NewPartProjector_def pg_store_def)
  from withTenantTx_keeps [OF tx_install_snapshot_keeps [OF 7(3,4)] assms(2) 7(1) this] show ?case by blast
next
  case (8 w intent held cause res7 w')
  then have "withTenantTx E (tx_fail intent held) w = (res7, w')" by (simp add: NewPartProjector_def pg_store_def)
  from withTenantTx_keeps [OF tx_fail_keeps assms(2) 8(1) this] show ?case by blast
next
  case (9 w rcd reason res8 w')
  then obtain r where "withTenantTx E (tx_poison rcd reason) w = (r, w')"
    by (auto simp: NewPartProjector_def pg_store_def split: prod.splits sum.splits)
  from withTenantTx_keeps [OF tx_poison_keeps assms(2) 9(1) this] show ?case by blast
next
  case (10 w t w')
  then show ?case using assms(5) by (simp add: NewPartProjector_def quiet_ids_def)
next
  case (11 w q res9 w')
  then have "au_replay auth w q = (res9, w')" by (simp add: NewPartProjector_def)
  with assms(3) have "pg_db w' = pg_db w" "\<forall>rp c. res9 = Inr (Some rp) \<and> c \<in> set (rr_commands rp) \<longrightarrow> genuine K H c"
    unfolding replay_truthful_def by blast+
  with 11(1) show ?case by (simp add: NewPartProjector_def)
next
  case (12 w sq res10 w')
  then have "au_snapshot auth w sq = (res10, w')" by (simp add: NewPartProjector_def)
  with assms(4) have "pg_db w' = pg_db w" "\<forall>s. res10 = Inr (Some s) \<longrightarrow>
      set (sr_participants s) = members H (sr_tenant s, sr_interaction s) (sr_version s) \<and>
         sr_head_event_id s = pi_event_id (pr_identity (H (sr_tenant s, sr_interaction s) (sr_version s))) \<and>
         sr_head_hash s = pi_hash (pr_identity (H (sr_tenant s, sr_interaction s) (sr_version s)))"
    unfolding snapshot_truthful_def by blast+
  with 12(1) show ?case by simp
qed

end
