(* ===== verification/Js_Streams.thy ===== *)
theory Js_Streams
  imports RP_Prelude
begin

text \<open>
  The JetStream streams that the services create: the interaction log of \<open>internal/signaling/store.go\<close> and
  the agent feed of \<open>internal/projector/nats.go\<close>. \<open>AddStream\<close>, \<open>UpdateStream\<close> and \<open>DeleteStream\<close> of the client library
  are the fields of \<open>stream_js\<close>, acting on a world of type \<open>'w\<close>.
\<close>

datatype storage_kind = FileStorage | MemoryStorage

datatype retention_kind = LimitsPolicy | InterestPolicy | WorkQueuePolicy

datatype discard_kind = DiscardOld | DiscardNew

datatype js_error = ErrStreamNotFound | JsOther string

record stream_config =
  sc_name :: string
  sc_subjects :: "string list"
  sc_storage :: storage_kind
  sc_retention :: retention_kind
  sc_discard :: discard_kind
  sc_max_age :: duration
  sc_max_bytes :: int
  sc_duplicates :: duration
  sc_max_per_subject :: int

record 'w stream_js =
  sj_add :: "'w \<Rightarrow> stream_config \<Rightarrow> js_error option \<times> 'w"
  sj_update :: "'w \<Rightarrow> stream_config \<Rightarrow> js_error option \<times> 'w"
  sj_delete :: "'w \<Rightarrow> string \<Rightarrow> js_error option \<times> 'w"

section \<open>The interaction log\<close>

definition LogStreamName :: string where "LogStreamName = ''INTERACTION_LOGS''"

definition logStreamMaxAge :: duration where "logStreamMaxAge = 365 * 24 * 3600000000000"

definition logStreamDedupWindow :: duration where "logStreamDedupWindow = 3600000000000"

definition logStreamConfig :: stream_config where
  "logStreamConfig =
     \<lparr>sc_name = LogStreamName, sc_subjects = [''tenant.*.interaction.*.log''], sc_storage = FileStorage, sc_retention = LimitsPolicy,
      sc_discard = DiscardOld, sc_max_age = logStreamMaxAge, sc_max_bytes = -1, sc_duplicates = logStreamDedupWindow, sc_max_per_subject = -1\<rparr>"

definition ensureStream ::
  "('w \<Rightarrow> stream_config \<Rightarrow> js_error option \<times> 'w) \<Rightarrow> ('w \<Rightarrow> stream_config \<Rightarrow> js_error option \<times> 'w) \<Rightarrow> stream_config \<Rightarrow> 'w \<Rightarrow>
   js_error option \<times> 'w" where
  "ensureStream add upd cfg w =
     (case add w cfg of
        (None, w1) \<Rightarrow> (None, w1)
      | (Some _, w1) \<Rightarrow> (case upd w1 cfg of (None, w2) \<Rightarrow> (None, w2) | (Some uerr, w2) \<Rightarrow> (Some uerr, w2)))"

definition EnsureLogStream :: "'w stream_js \<Rightarrow> 'w \<Rightarrow> js_error option \<times> 'w" where
  "EnsureLogStream js w = ensureStream (sj_add js) (sj_update js) logStreamConfig w"

definition ResetLogStream :: "'w stream_js \<Rightarrow> 'w \<Rightarrow> js_error option \<times> 'w" where
  "ResetLogStream js w =
     (case sj_delete js w LogStreamName of
        (Some e, w1) \<Rightarrow> if e \<noteq> ErrStreamNotFound then (Some e, w1) else sj_add js w1 logStreamConfig
      | (None, w1) \<Rightarrow> sj_add js w1 logStreamConfig)"

section \<open>The agent feed\<close>

definition feedStream :: string where "feedStream = ''AGENT_FEED''"

definition feed_stream_config :: "duration \<Rightarrow> duration \<Rightarrow> stream_config" where
  "feed_stream_config maxAge dedupWindow =
     \<lparr>sc_name = feedStream, sc_subjects = [''tenant.*.agent.*.feed.*'', ''tenant.*.agent.dlq.feed''], sc_storage = FileStorage,
      sc_retention = LimitsPolicy, sc_discard = DiscardOld, sc_max_age = maxAge, sc_max_bytes = 0, sc_duplicates = dedupWindow, sc_max_per_subject = 256\<rparr>"

definition EnsureFeedStream :: "'w stream_js \<Rightarrow> duration \<Rightarrow> duration \<Rightarrow> 'w \<Rightarrow> js_error option \<times> 'w" where
  "EnsureFeedStream js maxAge dedupWindow w =
     (let cfg = feed_stream_config (if maxAge \<le> 0 then 3600000000000 else maxAge) (if dedupWindow \<le> 0 then 600000000000 else dedupWindow)
      in case sj_add js w cfg of
           (None, w1) \<Rightarrow> (None, w1)
         | (Some e, w1) \<Rightarrow> (case sj_update js w1 cfg of (None, w2) \<Rightarrow> (None, w2) | (Some _, w2) \<Rightarrow> (Some e, w2)))"

text \<open>When both calls fail the two report different errors.\<close>

lemma ensure_errors:
  assumes "sj_add js w cfg = (Some e, w1)" "sj_update js w1 cfg = (Some u, w2)"
  shows "ensureStream (sj_add js) (sj_update js) cfg w = (Some u, w2)"
    and "cfg = feed_stream_config a d \<Longrightarrow> 0 < a \<Longrightarrow> 0 < d \<Longrightarrow> EnsureFeedStream js a d w = (Some e, w2)"
  using assms by (simp_all add: ensureStream_def EnsureFeedStream_def)

end
