(* ===== verification/Part_Consumer.thy ===== *)
theory Part_Consumer
  imports Part_Pg_Laws Js_Streams
begin

text \<open>
  The rest of \<open>internal/participationnats/consumer.go\<close>: the command stream, the construction of the
  consumer and its loop, and what any sequence of deliveries does to the folds. JetStream is a port
  acting on a world of type \<open>'w\<close>.
\<close>

section \<open>The command stream\<close>

record cmd_stream =
  cs_name :: string
  cs_subjects :: "string list"
  cs_storage :: storage_kind
  cs_retention :: retention_kind

record 'w cmd_js =
  cj_info :: "'w \<Rightarrow> string \<Rightarrow> (js_error + cmd_stream) \<times> 'w"
  cj_add :: "'w \<Rightarrow> cmd_stream \<Rightarrow> js_error option \<times> 'w"

datatype setup_error = SetupInvalid | SetupJs js_error

definition command_stream :: cmd_stream where
  "command_stream =
     \<lparr>cs_name = ''PARTICIPATION_COMMANDS'', cs_subjects = [''corex.participation.commands.v1.*.*''],
      cs_storage = FileStorage, cs_retention = WorkQueuePolicy\<rparr>"

definition EnsureCommandStream :: "'w cmd_js option \<Rightarrow> 'w \<Rightarrow> setup_error option \<times> 'w" where
  "EnsureCommandStream port w =
     (case port of
        None \<Rightarrow> (Some SetupInvalid, w)
      | Some js \<Rightarrow>
          (case cj_info js w (cs_name command_stream) of
             (Inl ErrStreamNotFound, w1) \<Rightarrow> (case cj_add js w1 command_stream of (e, w2) \<Rightarrow> (map_option SetupJs e, w2))
           | (Inl e, w1) \<Rightarrow> (Some (SetupJs e), w1)
           | (Inr info, w1) \<Rightarrow>
               if cs_name info \<noteq> cs_name command_stream \<or> cs_retention info \<noteq> cs_retention command_stream \<or>
                  cs_storage info \<noteq> cs_storage command_stream \<or> length (cs_subjects info) \<noteq> 1 \<or>
                  cs_subjects info ! 0 \<noteq> cs_subjects command_stream ! 0
               then (Some SetupInvalid, w1)
               else (None, w1)))"

text \<open>\<open>NewConsumer\<close>: what it refuses before it subscribes, and what the subscription returns.\<close>

definition NewConsumer :: "bool \<Rightarrow> transport_grant \<Rightarrow> ('w \<Rightarrow> js_error option \<times> 'w) \<Rightarrow> 'w \<Rightarrow> (setup_error + transport_grant) \<times> 'w" where
  "NewConsumer ports_set grant subscribe w =
     (if \<not> ports_set \<or> tg_service grant \<noteq> ''corex'' \<or> \<not> ValidTransportGrant grant CapabilityWrite
      then (Inl SetupInvalid, w)
      else (case subscribe w of (Some e, w1) \<Rightarrow> (Inl (SetupJs e), w1) | (None, w1) \<Rightarrow> (Inr grant, w1)))"

section \<open>The loop\<close>

datatype fetch_outcome = Fetched "cmd_message list" | FetchTimeout | FetchFailed string

primrec handle_all ::
  "'w part_projector \<Rightarrow> transport_grant \<Rightarrow> (bytes \<Rightarrow> bool \<times> pcommand) \<Rightarrow> cmd_message list \<Rightarrow> 'w \<Rightarrow> verdict list \<times> 'w" where
  "handle_all p grant unmarshal [] w = ([], w)"
| "handle_all p grant unmarshal (m # ms) w =
     (case consumer_handle p grant unmarshal m w of
        (v, w1) \<Rightarrow> (case handle_all p grant unmarshal ms w1 of (vs, w2) \<Rightarrow> (v # vs, w2)))"

text \<open>\<open>Run\<close>: a timeout of \<open>Fetch\<close> is no error; any other error ends the loop, silently when the context is done.\<close>

partial_function (option) consumer_run ::
  "'w part_projector \<Rightarrow> transport_grant \<Rightarrow> (bytes \<Rightarrow> bool \<times> pcommand) \<Rightarrow> ('w \<Rightarrow> fetch_outcome \<times> 'w) \<Rightarrow> ('w \<Rightarrow> bool) \<Rightarrow> 'w \<Rightarrow>
   (string option \<times> 'w) option" where
  "consumer_run p grant unmarshal fetch cancelled w =
     (case fetch w of
        (FetchTimeout, w1) \<Rightarrow> consumer_run p grant unmarshal fetch cancelled w1
      | (FetchFailed e, w1) \<Rightarrow> Some (if cancelled w1 then None else Some e, w1)
      | (Fetched ms, w1) \<Rightarrow> consumer_run p grant unmarshal fetch cancelled (snd (handle_all p grant unmarshal ms w1)))"

section \<open>What they guarantee\<close>

lemma EnsureCommandStream_ok:
  assumes "EnsureCommandStream (Some js) w = (None, w')"
    and add: "\<And>w1 c w2. cj_add js w1 c = (None, w2) \<Longrightarrow> \<exists>w3. cj_info js w2 (cs_name c) = (Inr c, w3)"
    and info: "\<And>w1 n r w2. cj_info js w1 n = (r, w2) \<Longrightarrow> cj_info js w2 n = (r, w2)"
  shows "\<exists>c w3. cj_info js w' (cs_name command_stream) = (Inr c, w3) \<and> cs_retention c = WorkQueuePolicy \<and>
    cs_storage c = FileStorage \<and> cs_subjects c = cs_subjects command_stream"
proof -
  obtain r w1 where i: "cj_info js w (cs_name command_stream) = (r, w1)" by fastforce
  show ?thesis
  proof (cases r)
    case (Inl e)
    with assms(1) i have "cj_add js w1 command_stream = (None, w')"
      by (auto simp: EnsureCommandStream_def split: js_error.splits prod.splits)
    from add [OF this] show ?thesis by (auto simp: command_stream_def)
  next
    case (Inr c)
    with assms(1) i have "w' = w1" "cs_retention c = WorkQueuePolicy" "cs_storage c = FileStorage" "length (cs_subjects c) = 1"
        "cs_subjects c ! 0 = cs_subjects command_stream ! 0"
      by (auto simp: EnsureCommandStream_def command_stream_def split: if_splits)
    moreover then have "cs_subjects c = cs_subjects command_stream" by (cases "cs_subjects c") (auto simp: command_stream_def)
    ultimately show ?thesis using info [OF i] Inr by blast
  qed
qed

lemma NewConsumer_grant:
  "NewConsumer b grant subscribe w = (Inr g, w') \<Longrightarrow> b \<and> g = grant \<and> tg_service g = ''corex'' \<and> ValidTransportGrant g CapabilityWrite"
  by (auto simp: NewConsumer_def split: if_splits prod.splits option.splits)

context participation_env
begin

text \<open>One message, then any sequence of them.\<close>

lemma consumer_handle_good:
  assumes "inv w" "consumer_handle p grant unmarshal m w = (v, w')" "genuine (pp_codec p) H (snd (unmarshal (cm_data m)))"
  shows "good w w'"
proof -
  obtain d c where u: "unmarshal (cm_data m) = (d, c)" by fastforce
  let ?who = "\<lparr>pr_tenant = pc_tenant c, pr_grant = grant\<rparr>"
  obtain res err w1 where a: "Apply p ?who (Some c) w = (res, err, w1)" by (metis prod_cases3)
  have "w' = w \<or> w' = w1" using assms(2) u a
    by (auto simp: consumer_handle_def Let_def split: sum.splits if_splits option.splits)
  moreover have "good w w1" using Apply_good [OF assms(1) a] assms(3) u by simp
  moreover have "good w w" using assms(1) by (simp add: good_def)
  ultimately show ?thesis by blast
qed

lemma handle_all_good:
  assumes "inv w" "handle_all p grant unmarshal ms w = (vs, w')" "\<And>m. m \<in> set ms \<Longrightarrow> genuine (pp_codec p) H (snd (unmarshal (cm_data m)))"
  shows "good w w'"
  using assms
proof (induction ms arbitrary: w vs)
  case Nil
  then show ?case by (simp add: good_def)
next
  case (Cons m ms)
  obtain v w1 where m: "consumer_handle p grant unmarshal m w = (v, w1)" by fastforce
  obtain vs1 w2 where r: "handle_all p grant unmarshal ms w1 = (vs1, w2)" by fastforce
  have g: "good w w1" using consumer_handle_good [OF Cons.prems(1) m] Cons.prems(3) by simp
  have "w2 = w'" using Cons.prems(2) m r by simp
  then have "good w1 w'" using Cons.IH [of w1 vs1] r g Cons.prems(3) by (simp add: good_def)
  then show ?case by (rule good_trans [OF g])
qed

text \<open>The loop, whenever it ends: with a cancelled context it returns no error.\<close>

lemma consumer_run_good:
  assumes "consumer_run p grant unmarshal fetch cancelled w = Some (err, w')" "inv w"
    and "\<And>w r w1. inv w \<Longrightarrow> fetch w = (r, w1) \<Longrightarrow> good w w1 \<and>
      (\<forall>ms m. r = Fetched ms \<and> m \<in> set ms \<longrightarrow> genuine (pp_codec p) H (snd (unmarshal (cm_data m))))"
  shows "good w w' \<and> (cancelled w' \<longrightarrow> err = None)"
proof -
  let ?P = "\<lambda>p' g u f c w y. (p', g, u, f, c) = (p, grant, unmarshal, fetch, cancelled) \<longrightarrow> inv w \<longrightarrow>
      good w (snd y) \<and> (cancelled (snd y) \<longrightarrow> fst y = None)"
  have "?P p grant unmarshal fetch cancelled w (err, w')"
  proof (rule consumer_run.raw_induct [where P = ?P, OF _ assms(1)], intro impI)
    fix rn p' g u f c w y
    assume ih: "\<And>p' g u f c w y. rn p' g u f c w = Some y \<Longrightarrow> ?P p' g u f c w y"
      and run: "(case f w of (Fetched ms, w1) \<Rightarrow> rn p' g u f c (snd (handle_all p' g u ms w1))
        | (FetchTimeout, w1) \<Rightarrow> rn p' g u f c w1
        | (FetchFailed e, w1) \<Rightarrow> Some (if c w1 then None else Some e, w1)) = Some y"
      and eq: "(p', g, u, f, c) = (p, grant, unmarshal, fetch, cancelled)" and inv: "inv w"
    obtain r w1 where f: "fetch w = (r, w1)" by fastforce
    have g1: "good w w1" "inv w1" using assms(3) [OF inv f] by (simp_all add: good_def)
    show "good w (snd y) \<and> (cancelled (snd y) \<longrightarrow> fst y = None)"
    proof (cases r)
      case (Fetched ms)
      obtain vs w2 where h: "handle_all p grant unmarshal ms w1 = (vs, w2)" by fastforce
      have g2: "good w1 w2" using handle_all_good [OF g1(2) h] assms(3) [OF inv f] Fetched by blast
      have "rn p grant unmarshal fetch cancelled w2 = Some y" using run eq f Fetched h by simp
      from ih [OF this] g2 good_trans [OF good_trans [OF g1(1) g2]] show ?thesis by (simp add: good_def)
    next
      case FetchTimeout
      have "rn p grant unmarshal fetch cancelled w1 = Some y" using run eq f FetchTimeout by simp
      from ih [OF this] g1 good_trans [OF g1(1)] show ?thesis by simp
    next
      case (FetchFailed e)
      with run eq f g1 show ?thesis by auto
    qed
  qed
  then show ?thesis using assms(2) by simp
qed

end

end
