(* ===== verification/Part_Replica.thy ===== *)
theory Part_Replica
  imports Part_Consumer
begin

text \<open>
  A fleet of projectors beside an authority that keeps a log: the log of commands per interaction gives
  the history, the authority answers replays from it down to its floor and snapshots at its head, and
  the other projectors run their transactions at arbitrary points. The interpretation at the end shows
  that the Postgres store and such an authority are a \<open>participation_env\<close>, for any codec, log, floor,
  schedule and faults.
\<close>

section \<open>The authority\<close>

type_synonym clog = "part_key \<Rightarrow> pcommand list"

definition blank_record :: "part_key \<Rightarrow> nat \<Rightarrow> prec" where
  "blank_record k v =
     \<lparr>pr_command = \<lparr>pc_event_id = '''', pc_version = v, pc_tenant = fst k, pc_interaction = snd k, pc_participant = '''',
        pc_desired = UNASSIGNED, pc_occurred_at = None, pc_traceparent = '''', pc_unknown = []\<rparr>,
      pr_identity = no_pidentity\<rparr>"

definition logged :: "pcodec \<Rightarrow> clog \<Rightarrow> part_key \<Rightarrow> nat \<Rightarrow> prec option" where
  "logged K L k v =
     (if v = 0 \<or> length (L k) < v then None
      else (case Canonical K (Some (L k ! (v - 1))) of
              Inl _ \<Rightarrow> None
            | Inr r \<Rightarrow>
                if pc_tenant (pr_command r) = fst k \<and> pc_interaction (pr_command r) = snd k \<and> pc_version (pr_command r) = v \<and>
                   length (pi_hash (pr_identity r)) = 32
                then Some r else None))"

definition history_of :: "pcodec \<Rightarrow> clog \<Rightarrow> history" where
  "history_of K L k v = (case logged K L k v of Some r \<Rightarrow> r | None \<Rightarrow> blank_record k v)"

primrec member_list :: "history \<Rightarrow> part_key \<Rightarrow> nat \<Rightarrow> string list" where
  "member_list H k 0 = []"
| "member_list H k (Suc v) =
     (let c = pr_command (H k (Suc v))
      in if pc_desired c = ASSIGNED then List.insert (pc_participant c) (member_list H k v)
         else removeAll (pc_participant c) (member_list H k v))"

definition log_authority :: "pcodec \<Rightarrow> clog \<Rightarrow> (part_key \<Rightarrow> nat) \<Rightarrow> pg_world authority_port" where
  "log_authority K L floor =
     \<lparr>au_replay = (\<lambda>w q.
        (let k = rq_key q; vs = [rq_from q ..< Suc (rq_to q)]; n = length (L k); i = pr_identity (history_of K L k n)
         in if rq_from q < floor k \<or> list_ex (\<lambda>v. logged K L k v = None) vs then (Inl [ErrUnknownHistory], w)
            else (Inr (Some \<lparr>rr_commands = map (\<lambda>v. pr_command (history_of K L k v)) vs, rr_head_version = n,
                             rr_head_event_id = pi_event_id i, rr_head_hash = pi_hash i, rr_floor = max 1 (floor k),
                             rr_provenance = ''log''\<rparr>), w))),
      au_snapshot = (\<lambda>w q.
        (let k = sq_key q; n = length (L k); i = pr_identity (history_of K L k n)
         in (Inr (Some \<lparr>sr_tenant = fst k, sr_interaction = snd k, sr_version = n, sr_head_event_id = pi_event_id i,
                        sr_head_hash = pi_hash i, sr_participants = member_list (history_of K L) k n,
                        sr_floor = max 1 (floor k), sr_provenance = ''log''\<rparr>), w)))\<rparr>"

section \<open>The other projectors\<close>

definition fold_at :: "history \<Rightarrow> part_key \<Rightarrow> nat \<Rightarrow> pfold" where
  "fold_at H k n =
     \<lparr>fo_tenant = fst k, fo_interaction = snd k, fo_version = n, fo_identity = pr_identity (H k n),
      fo_participants = members H k n, fo_provenance = ''''\<rparr>"

datatype peer_tx =
    PeerInstall part_key nat
  | PeerBegin pintent prec
  | PeerReconcile pintent nat
  | PeerHistorical pintent nat
  | PeerSnapshot pintent prec nat
  | PeerFail pintent prec
  | PeerPoison prec string

definition committed :: "(pgdb \<Rightarrow> perr + 'a \<times> pgdb) \<Rightarrow> pgdb \<Rightarrow> pgdb" where
  "committed op db = (case op db of Inl _ \<Rightarrow> db | Inr (_, db') \<Rightarrow> db')"

fun peer_step :: "history \<Rightarrow> peer_tx \<Rightarrow> pgdb \<Rightarrow> pgdb" where
  "peer_step H (PeerInstall k n) db =
     (let a = db_head db k in if n \<le> a then db else committed (tx_install a (slice H k a n) (fold_at H k n)) db)"
| "peer_step H (PeerBegin intent held) db = committed (tx_begin intent held) db"
| "peer_step H (PeerReconcile intent n) db =
     (if n \<le> in_observed intent then db
      else committed (tx_install_reconcile intent (slice H (in_key intent) (in_observed intent) n) (fold_at H (in_key intent) n)) db)"
| "peer_step H (PeerHistorical intent v) db =
     (if v = 0 then db else committed (tx_install_historical intent (H (in_key intent) v)) db)"
| "peer_step H (PeerSnapshot intent held n) db =
     (if n < in_observed intent then db
      else committed (tx_install_snapshot intent \<lparr>sn_fold = fold_at H (in_key intent) n, sn_floor = 1, sn_provenance = ''peer''\<rparr> held) db)"
| "peer_step H (PeerFail intent held) db = committed (tx_fail intent held) db"
| "peer_step H (PeerPoison r reason) db = committed (tx_poison r reason) db"

definition fleet_env :: "history \<Rightarrow> (nat \<Rightarrow> peer_tx list) \<Rightarrow> (nat \<Rightarrow> tx_end) \<Rightarrow> pg_env" where
  "fleet_env H schedule ends = \<lparr>pe_others = (\<lambda>n. fold (peer_step H) (schedule n)), pe_end = ends\<rparr>"

section \<open>They keep the contract\<close>

lemma history_of_ok: "hist_ok (history_of K L)"
  by (auto simp: hist_ok_def history_of_def logged_def blank_record_def no_pidentity_def split: option.splits sum.splits if_splits)

lemma fold_at_is: "fold_is H k (fold_at H k n)"
  by (simp add: fold_is_def fold_at_def sameIdentity_def)

lemma member_list_set: "set (member_list H k n) = members H k n"
  by (induction n) (simp_all add: Let_def apply_desired_def)

lemma committed_keeps:
  assumes "keeps H op Q" "db_ok H db"
  shows "db_ok H (committed op db) \<and> db_head db \<le> db_head (committed op db)"
  using assms unfolding keeps_def committed_def by (auto split: sum.splits)

lemma peer_step_ok:
  assumes "hist_ok H" "db_ok H db"
  shows "db_ok H (peer_step H t db) \<and> db_head db \<le> db_head (peer_step H t db)"
proof (cases t)
  case (PeerInstall k n)
  have v: "fo_version (fold_at H k n) = n" by (simp add: fold_at_def)
  show ?thesis
  proof (cases "n \<le> db_head db k")
    case False
    then have "keeps H (tx_install (db_head db k) (slice H k (db_head db k) n) (fold_at H k n))
        (\<lambda>x db'. (x \<longrightarrow> n \<le> db_head db' k) \<and> (\<not> x \<longrightarrow> db_head db' k \<noteq> db_head db k))"
      using tx_install_keeps [OF assms(1) fold_at_is [of H k n], of "db_head db k"] by (simp only: v)
    from committed_keeps [OF this assms(2)] False PeerInstall show ?thesis by (simp add: Let_def)
  qed (simp add: PeerInstall assms)
next
  case (PeerBegin intent held)
  then show ?thesis using committed_keeps [OF tx_begin_keeps assms(2)] by simp
next
  case (PeerReconcile intent n)
  have v: "fo_version (fold_at H (in_key intent) n) = n" by (simp add: fold_at_def)
  show ?thesis
  proof (cases "n \<le> in_observed intent")
    case False
    then have "keeps H (tx_install_reconcile intent (slice H (in_key intent) (in_observed intent) n) (fold_at H (in_key intent) n))
        (\<lambda>x db'. x \<longrightarrow> n \<le> db_head db' (in_key intent))"
      using tx_install_reconcile_keeps [OF assms(1) fold_at_is [of H "in_key intent" n]] by (simp only: v)
    from committed_keeps [OF this assms(2)] False PeerReconcile show ?thesis by simp
  qed (simp add: PeerReconcile assms)
next
  case (PeerHistorical intent v)
  then show ?thesis using committed_keeps [OF tx_install_historical_keeps assms(2)] assms by simp
next
  case (PeerSnapshot intent held n)
  let ?s = "\<lparr>sn_fold = fold_at H (in_key intent) n, sn_floor = 1, sn_provenance = ''peer''\<rparr>"
  show ?thesis
  proof (cases "n < in_observed intent")
    case False
    then have "keeps H (tx_install_snapshot intent ?s held) (\<lambda>x db'. x \<longrightarrow> fo_version (sn_fold ?s) \<le> db_head db' (in_key intent))"
      by (intro tx_install_snapshot_keeps) (simp_all add: fold_at_is, simp add: fold_at_def)
    from committed_keeps [OF this assms(2)] False PeerSnapshot show ?thesis by simp
  qed (simp add: PeerSnapshot assms)
next
  case (PeerFail intent held)
  then show ?thesis using committed_keeps [OF tx_fail_keeps assms(2)] by simp
next
  case (PeerPoison r reason)
  then show ?thesis using committed_keeps [OF tx_poison_keeps assms(2)] by simp
qed

lemma fleet_peers_ok:
  assumes "hist_ok H"
  shows "peers_ok H (fleet_env H schedule ends)"
proof -
  have "db_ok H (fold (peer_step H) ts db) \<and> db_head db \<le> db_head (fold (peer_step H) ts db)" if "db_ok H db" for ts db
    using that
  proof (induction ts arbitrary: db)
    case (Cons t ts)
    from peer_step_ok [OF assms Cons.prems] Cons.IH [of "peer_step H t db"] show ?case by (auto intro: order_trans)
  qed simp
  then show ?thesis by (simp add: peers_ok_def fleet_env_def)
qed

lemma logged_canonical:
  assumes "logged K L k v = Some r"
  shows "Canonical K (Some (pr_command r)) = Inr r"
proof -
  define c where "c = L k ! (v - 1)"
  have r: "Canonical K (Some c) = Inr r" using assms by (auto simp: logged_def c_def split: if_splits sum.splits)
  have "pr_command r = c\<lparr>pc_unknown := []\<rparr>" using Canonical_Inr [OF r] by simp
  then show ?thesis using r by (auto simp: Canonical_def command_ok_def Let_def split: if_splits option.splits)
qed

lemma logged_genuine:
  assumes "logged K L k v = Some r"
  shows "genuine K (history_of K L) (pr_command (history_of K L k v))"
proof -
  have r: "pc_tenant (pr_command r) = fst k" "pc_interaction (pr_command r) = snd k" "pc_version (pr_command r) = v"
    using assms by (auto simp: logged_def split: if_splits sum.splits)
  have h: "history_of K L k v = r" using assms by (simp add: history_of_def)
  with r logged_canonical [OF assms] show ?thesis by (simp add: genuine_def del: Canonical_fields)
qed

lemma log_replay_truthful: "replay_truthful K (history_of K L) (log_authority K L floor)"
  unfolding replay_truthful_def
proof (intro allI impI conjI)
  fix w q r w'
  assume a: "au_replay (log_authority K L floor) w q = (r, w')"
  show "pg_db w' = pg_db w" using a by (auto simp: log_authority_def Let_def split: if_splits)
  fix rp c
  assume rp: "r = Inr (Some rp) \<and> c \<in> set (rr_commands rp)"
  then obtain v where v: "v \<in> set [rq_from q ..< Suc (rq_to q)]" "c = pr_command (history_of K L (rq_key q) v)"
      "\<not> list_ex (\<lambda>v. logged K L (rq_key q) v = None) [rq_from q ..< Suc (rq_to q)]"
    using a by (auto simp: log_authority_def Let_def simp del: upt_Suc split: if_splits)
  from v(3) have "\<forall>v \<in> set [rq_from q ..< Suc (rq_to q)]. logged K L (rq_key q) v \<noteq> None" by (simp add: list_ex_iff del: upt_Suc)
  from bspec [OF this v(1)] have "logged K L (rq_key q) v \<noteq> None" .
  then show "genuine K (history_of K L) c" using logged_genuine v(2) by blast
qed

lemma log_snapshot_truthful: "snapshot_truthful (history_of K L) (log_authority K L floor)"
  by (auto simp: snapshot_truthful_def log_authority_def Let_def member_list_set)

interpretation fleet: participation_env
    "NewPartProjector K (pg_store (fleet_env (history_of K L) schedule ends)) (log_authority K L floor) (\<lambda>w. (token (pg_calls w), w))"
    "history_of K L" "\<lambda>w. db_ok (history_of K L) (pg_db w)" "\<lambda>w. db_head (pg_db w)"
  for K L schedule ends floor token
  by (rule pg_participation_env)
    (simp_all add: history_of_ok fleet_peers_ok log_replay_truthful log_snapshot_truthful quiet_ids_def)

end
