(* ===== verification/Part_Claims.thy ===== *)
theory Part_Claims
  imports Part_Replica
begin

text \<open>
  The properties of the participation projector with its Postgres store and NATS consumer, and the facts
  about single transactions that they rest on.
\<close>

section \<open>A calm store\<close>

text \<open>No other projector interferes and every transaction commits.\<close>

definition calm_env :: pg_env where
  "calm_env = \<lparr>pe_others = (\<lambda>_ db. db), pe_end = (\<lambda>_. TxCommits)\<rparr>"

lemma calm_tx:
  "op (pg_db w) = Inr (x, db') \<Longrightarrow> withTenantTx calm_env op w = (Inr x, \<lparr>pg_db = db', pg_calls = Suc (pg_calls w)\<rparr>)"
  "op (pg_db w) = Inl e \<Longrightarrow> withTenantTx calm_env op w = (Inl e, \<lparr>pg_db = pg_db w, pg_calls = Suc (pg_calls w)\<rparr>)"
  by (simp_all add: withTenantTx_def calm_env_def)

lemma NewPartProjector_codec: "pp_codec (NewPartProjector K store auth ids) = K"
  by (simp add: NewPartProjector_def)

lemma calm_peers: "peers_ok H calm_env"
  by (simp add: peers_ok_def calm_env_def)

lemma lockHead_at:
  "\<exists>db'. lockHead k db = (db_head db k, db') \<and> db_versions db' = db_versions db \<and> db_events db' = db_events db \<and>
     db_intents db' = db_intents db \<and> db_pending db' = db_pending db"
  by (auto simp: lockHead_def db_head_def split: option.splits)

lemma loadFold_total:
  assumes "hist_ok H" "db_ok H db"
  shows "\<exists>f. loadFold k db = Inr f"
proof (cases "map_of (db_heads db) k")
  case None
  then show ?thesis by (simp add: loadFold_def)
next
  case (Some h)
  have "head_ok H k h" by (rule db_okD(1) [OF assms(2) Some])
  with Some hist_okD(4) [OF assms(1), of "fh_version h" k] show ?thesis by (auto simp: loadFold_def head_ok_def Let_def)
qed

text \<open>The ledgers have no row in the way of the versions after \<open>a\<close> up to \<open>n\<close>.\<close>

definition fresh_ledgers :: "history \<Rightarrow> part_key \<Rightarrow> nat \<Rightarrow> nat \<Rightarrow> pgdb \<Rightarrow> bool" where
  "fresh_ledgers H k a n db \<longleftrightarrow>
     (\<forall>v \<in> {a <.. n}. map_of (db_versions db) (k, v) = None \<and> map_of (db_events db) (fst k, pi_event_id (pr_identity (H k v))) = None \<and>
        (\<forall>e h. ((fst k, e), (snd k, v, h)) \<notin> set (db_events db))) \<and>
     distinct (map (\<lambda>v. pi_event_id (pr_identity (H k v))) [Suc a ..< Suc n])"

lemma set_AList_update: "set (AList.update k v xs) \<subseteq> insert (k, v) (set xs)"
  by (induction xs) auto

lemma insertLedgers_fresh:
  assumes "fresh_ledgers H k a n db" "hist_ok H" "a < n" "bigint n"
  shows "\<exists>db'. insertLedgers (fst k) (H k (Suc a)) db = Inr db' \<and> fresh_ledgers H k (Suc a) n db'"
proof -
  note h = hist_okD [OF assms(2), of "Suc a" k]
  have k: "(pc_tenant (pr_command (H k (Suc a))), pc_interaction (pr_command (H k (Suc a)))) = k" using h by simp
  let ?e = "\<lambda>v. pi_event_id (pr_identity (H k v))" and ?h = "pi_hash (pr_identity (H k (Suc a)))"
  have f: "map_of (db_versions db) (k, Suc a) = None" "map_of (db_events db) (fst k, ?e (Suc a)) = None"
      "\<And>e h. ((fst k, e), (snd k, Suc a, h)) \<notin> set (db_events db)"
    using assms(1,3) unfolding fresh_ledgers_def by force+
  have b: "bigint (Suc a)" using assms(3,4) by (simp add: bigint_def)
  define db' where "db' = db\<lparr>db_versions := AList.update (k, Suc a) \<lparr>lr_event = ?e (Suc a), lr_hash = ?h, lr_body = Some (pi_body (pr_identity (H k (Suc a))))\<rparr> (db_versions db),
      db_events := AList.update (fst k, ?e (Suc a)) (snd k, Suc a, ?h) (db_events db)\<rparr>"
  have "\<not> list_ex (\<lambda>((t, _), (i, v', _)). t = fst k \<and> i = snd k \<and> v' = Suc a) (db_events db)"
    using f(3) by (fastforce simp: list_ex_iff)
  then have "insertLedgers (fst k) (H k (Suc a)) db = Inr db'"
    unfolding insertLedgers_def Let_def k h(1) using f(1,2) b h
    by (simp add: insert_version_def insert_event_def db'_def)
  moreover have "fresh_ledgers H k (Suc a) n db'"
  proof -
    have d: "distinct (map ?e [Suc a ..< Suc n])" using assms(1) by (simp add: fresh_ledgers_def)
    have up: "[Suc a ..< Suc n] = Suc a # [Suc (Suc a) ..< Suc n]" using assms(3) by (simp add: upt_rec)
    have dist: "?e v \<noteq> ?e (Suc a)" if "v \<in> {Suc a <.. n}" for v
    proof -
      have "v \<in> set [Suc (Suc a) ..< Suc n]" using that by auto
      then have "?e v \<in> ?e ` set [Suc (Suc a) ..< Suc n]" by (rule imageI)
      moreover have "?e (Suc a) \<notin> ?e ` set [Suc (Suc a) ..< Suc n]" using d unfolding up by (simp del: upt_Suc)
      ultimately show ?thesis by metis
    qed
    have "map_of (db_versions db') (k, v) = None \<and> map_of (db_events db') (fst k, ?e v) = None \<and>
        (\<forall>e h. ((fst k, e), (snd k, v, h)) \<notin> set (db_events db'))" if v: "v \<in> {Suc a <.. n}" for v
    proof -
      have "v \<in> {a <.. n}" using v by simp
      with assms(1) have old: "map_of (db_versions db) (k, v) = None" "map_of (db_events db) (fst k, ?e v) = None"
          "\<And>e h. ((fst k, e), (snd k, v, h)) \<notin> set (db_events db)" unfolding fresh_ledgers_def by blast+
      have "((fst k, e), (snd k, v, h)) \<notin> set (db_events db')" for e h
        using old(3) v set_AList_update [of "(fst k, ?e (Suc a))" "(snd k, Suc a, ?h)" "db_events db"] by (auto simp: db'_def)
      with old dist [OF v] v show ?thesis by (simp add: db'_def)
    qed
    moreover have "distinct (map ?e [Suc (Suc a) ..< Suc n])" using d unfolding up by (simp del: upt_Suc)
    ultimately show ?thesis by (simp add: fresh_ledgers_def del: upt_Suc)
  qed
  ultimately show ?thesis by blast
qed

lemma install_loop_fresh:
  assumes "fresh_ledgers H k a n db" "hist_ok H" "a \<le> n" "bigint n"
  shows "\<exists>db'. install_loop (fst k) (slice H k a n) db = Inr db'"
  using assms(1,3)
proof (induction "n - a" arbitrary: a db)
  case 0
  then show ?case by simp
next
  case (Suc m)
  then have sl: "slice H k a n = H k (Suc a) # slice H k (Suc a) n" by (simp add: upt_rec)
  obtain db1 where d: "insertLedgers (fst k) (H k (Suc a)) db = Inr db1" "fresh_ledgers H k (Suc a) n db1"
    using insertLedgers_fresh [OF Suc.prems(1) assms(2) _ assms(4)] Suc.hyps(2) zero_less_diff [of n a] by force
  have "fresh_ledgers H k (Suc a) n (upsert_participant (pr_command (H k (Suc a))) db1)"
    using d(2) by (auto simp: fresh_ledgers_def upsert_participant_def Let_def simp del: upt_Suc)
  with Suc.hyps(1) [of "Suc a"] Suc.hyps(2) sl d(1) show ?case by (simp del: upt_Suc)
qed

lemma installRecords_fresh:
  assumes "fresh_ledgers H k a (fo_version f) db" "hist_ok H" "a \<le> fo_version f" "bigint (fo_version f)"
  shows "\<exists>db'. installRecords (fst k) (slice H k a (fo_version f)) f db = Inr db'"
proof -
  obtain db1 where l: "install_loop (fst k) (slice H k a (fo_version f)) db = Inr db1" using install_loop_fresh [OF assms] by blast
  then show ?thesis using assms(4) unfolding installRecords_def l by simp
qed

section \<open>Transactions that succeed\<close>

lemma tx_load_calm:
  assumes "hist_ok H" "db_ok H db" "bigint v"
  shows "\<exists>f i. tx_load k v db = Inr ((f, i), db) \<and> fold_is H k f \<and> fo_version f = db_head db k"
proof -
  obtain f where f: "loadFold k db = Inr f" using loadFold_total [OF assms(1,2)] by blast
  from loadFold_ok [OF this assms(2)] f assms(3) show ?thesis by (auto simp: tx_load_def split: option.splits)
qed

lemma tx_install_calm:
  assumes "hist_ok H" "db_ok H db" "fold_is H k f" "fresh_ledgers H k (db_head db k) (fo_version f) db" "bigint (fo_version f)"
    "db_head db k < fo_version f"
  shows "\<exists>db'. tx_install (db_head db k) (slice H k (db_head db k) (fo_version f)) f db = Inr (True, db') \<and>
    db_ok H db' \<and> db_head db' k = fo_version f"
proof -
  let ?a = "db_head db k"
  have k: "(fo_tenant f, fo_interaction f) = k" "fo_tenant f = fst k" using assms(3) by (simp_all add: fold_is_def)
  obtain db1 where l: "lockHead k db = (?a, db1)" "db_versions db1 = db_versions db" "db_events db1 = db_events db"
    using lockHead_at by blast
  note lo = lockHead_ok [OF l(1), of H]
  have "fresh_ledgers H k ?a (fo_version f) db1" using assms(4) l by (simp add: fresh_ledgers_def)
  then obtain db2 where i: "installRecords (fst k) (slice H k ?a (fo_version f)) f db1 = Inr db2"
    using installRecords_fresh [OF _ assms(1) less_imp_le [OF assms(6)] assms(5)] by blast
  have "db_ok H db1" "map_of (db_heads db1) k \<noteq> None" "db_head db1 k = ?a" using lo assms(2) by auto
  from installRecords_ok [OF i assms(1) this(1) assms(3) _ this(2,3)] assms(6) have "db_ok H db2 \<and> db_head db2 k = fo_version f" by simp
  with l(1) i k show ?thesis by (simp add: tx_install_def Let_def)
qed

text \<open>Nothing stands in the way of a new intent: none is pending, and neither the event, the version nor the token was held before.\<close>

definition unclaimed :: "pgdb \<Rightarrow> part_key \<Rightarrow> string \<Rightarrow> nat \<Rightarrow> string \<Rightarrow> bool" where
  "unclaimed db k e v token \<longleftrightarrow>
     pending_intent k db = None \<and> map_of (db_pending db) (fst k, e) = None \<and>
     \<not> list_ex (\<lambda>((t', _), r). t' = fst k \<and> pn_interaction r = snd k \<and> pn_version r = v) (db_pending db) \<and>
     map_of (db_intents db) (fst k, token) = None"

lemma tx_begin_calm:
  assumes "unclaimed db (in_key intent) (pi_event_id (pr_identity held)) (pc_version (pr_command held)) (in_token intent)"
    and "db_head db (in_key intent) = in_observed intent" "bigint (pc_version (pr_command held))" "0 < pc_version (pr_command held)"
    and "length (pi_hash (pr_identity held)) = 32" "bigint (in_to intent)" "0 < in_from intent" "in_from intent \<le> in_to intent"
  shows "\<exists>db'. tx_begin intent held db = Inr ((intent, True), db') \<and> db_head db' = db_head db \<and> (db_ok H db \<longrightarrow> db_ok H db') \<and>
    db_versions db' = db_versions db \<and> db_events db' = db_events db \<and>
    (\<exists>r. map_of (db_intents db') (fst (in_key intent), in_token intent) = Some r \<and> ir_interaction r = snd (in_key intent) \<and>
       ir_observed r = in_observed intent \<and> ir_status r = ''pending'')"
proof -
  let ?k = "in_key intent"
  obtain db1 where l: "lockHead ?k db = (db_head db ?k, db1)" "db_versions db1 = db_versions db" "db_events db1 = db_events db"
      "db_intents db1 = db_intents db" "db_pending db1 = db_pending db" using lockHead_at by blast
  note lo = lockHead_ok [OF l(1), of H]
  have u: "unclaimed db1 ?k (pi_event_id (pr_identity held)) (pc_version (pr_command held)) (in_token intent)"
    using assms(1) l by (simp add: unclaimed_def pending_intent_def)
  obtain db2 where b: "begin_insert intent held db1 = Inr (True, db2)" "db_versions db2 = db_versions db1" "db_events db2 = db_events db1"
      "\<exists>r. map_of (db_intents db2) (fst ?k, in_token intent) = Some r \<and> ir_interaction r = snd ?k \<and> ir_observed r = in_observed intent \<and> ir_status r = ''pending''"
    using u assms by (simp add: begin_insert_def unclaimed_def Let_def)
  from same_fold_ok [OF begin_insert_same [OF b(1)], of H] lo l b u assms(2) show ?thesis
    by (simp add: tx_begin_def unclaimed_def)
qed

lemma tx_install_reconcile_calm:
  assumes "hist_ok H" "db_ok H db" "fold_is H (in_key intent) f" "bigint (fo_version f)" "in_observed intent < fo_version f"
    and "fresh_ledgers H (in_key intent) (in_observed intent) (fo_version f) db" "db_head db (in_key intent) = in_observed intent"
    and "map_of (db_intents db) (fst (in_key intent), in_token intent) = Some r" "ir_interaction r = snd (in_key intent)"
      "ir_observed r = in_observed intent" "ir_status r = ''pending''"
  shows "\<exists>db'. tx_install_reconcile intent (slice H (in_key intent) (in_observed intent) (fo_version f)) f db = Inr (True, db') \<and>
    db_ok H db' \<and> db_head db' (in_key intent) = fo_version f"
proof -
  let ?k = "in_key intent"
  obtain db1 where l: "lockHead ?k db = (db_head db ?k, db1)" "db_versions db1 = db_versions db" "db_events db1 = db_events db"
      "db_intents db1 = db_intents db" using lockHead_at by blast
  note lo = lockHead_ok [OF l(1), of H]
  have li: "lockIntentAndHead intent db = (True, db1)" using l assms(7-11) by (simp add: lockIntentAndHead_def)
  have "fresh_ledgers H ?k (in_observed intent) (fo_version f) db1" using assms(6) l by (simp add: fresh_ledgers_def)
  then obtain db2 where i: "installRecords (fst ?k) (slice H ?k (in_observed intent) (fo_version f)) f db1 = Inr db2"
    using installRecords_fresh [OF _ assms(1) less_imp_le [OF assms(5)] assms(4)] by blast
  have "db_ok H db1" "map_of (db_heads db1) ?k \<noteq> None" "db_head db1 ?k = in_observed intent" using lo assms(2,7) by auto
  from installRecords_ok [OF i assms(1) this(1) assms(3) _ this(2,3)] assms(5) have "db_ok H db2 \<and> db_head db2 ?k = fo_version f" by simp
  with same_fold_ok [OF completeReconcile_same] li i show ?thesis by (simp add: tx_install_reconcile_def)
qed

text \<open>An authority that answers the replay from \<open>a\<close> to \<open>n\<close> in full.\<close>

definition answers :: "history \<Rightarrow> pg_world authority_port \<Rightarrow> part_key \<Rightarrow> nat \<Rightarrow> nat \<Rightarrow> bool" where
  "answers H auth k a n \<longleftrightarrow>
     (\<forall>w t. \<exists>rp w'. au_replay auth w \<lparr>rq_key = k, rq_from = Suc a, rq_to = n, rq_id = t\<rparr> = (Inr (Some rp), w') \<and> pg_db w' = pg_db w \<and>
        rr_commands rp = map (\<lambda>v. pr_command (H k v)) [Suc a ..< Suc n] \<and> rr_floor rp \<noteq> 0 \<and> rr_provenance rp \<noteq> '''' \<and>
        n \<le> rr_head_version rp \<and>
        (rr_head_version rp = n \<longrightarrow> rr_head_event_id rp = pi_event_id (pr_identity (H k n)) \<and> rr_head_hash rp = pi_hash (pr_identity (H k n))))"

definition canonical_history :: "pcodec \<Rightarrow> history \<Rightarrow> part_key \<Rightarrow> nat \<Rightarrow> nat \<Rightarrow> bool" where
  "canonical_history K H k a n \<longleftrightarrow> (\<forall>v \<in> {a <.. n}. Canonical K (Some (pr_command (H k v))) = Inr (H k v))"

lemma replay_records_slice:
  assumes "hist_ok H" "in_key intent = k" "in_from intent = Suc a" "canonical_history K H k a n" "a + i \<le> n"
  shows "replay_records K intent i (map (\<lambda>v. pr_command (H k v)) [Suc (a + i) ..< Suc n]) = Inr (slice H k (a + i) n)"
  using assms(5)
proof (induction "n - (a + i)" arbitrary: i)
  case 0
  then show ?case by simp
next
  case (Suc m)
  then have lt: "a + i < n" by simp
  then have up: "[Suc (a + i) ..< Suc n] = Suc (a + i) # [Suc (a + Suc i) ..< Suc n]" by (simp add: upt_rec)
  have c: "Canonical K (Some (pr_command (H k (Suc (a + i))))) = Inr (H k (Suc (a + i)))"
    using assms(4) lt by (simp add: canonical_history_def)
  have "m = n - (a + Suc i)" "a + Suc i \<le> n" using Suc.hyps(2) by simp_all
  note ih = Suc.hyps(1) [OF this]
  note h = hist_okD [OF assms(1), of "Suc (a + i)" k, simplified]
  show ?case unfolding up list.map replay_records.simps c using ih by (simp add: h assms(2,3) del: upt_Suc)
qed

lemma validateReplay_answer:
  assumes "hist_ok H" "canonical_history K H k a n" "a < n" "in_key intent = k" "in_from intent = Suc a" "in_to intent = n"
    and "rr_commands rp = map (\<lambda>v. pr_command (H k v)) [Suc a ..< Suc n]" "rr_floor rp \<noteq> 0" "rr_provenance rp \<noteq> ''''" "n \<le> rr_head_version rp"
    and "rr_head_version rp = n \<Longrightarrow> rr_head_event_id rp = pi_event_id (pr_identity (H k n)) \<and> rr_head_hash rp = pi_hash (pr_identity (H k n))"
  shows "validateReplay K (Some rp) intent (H k n) = Inr (slice H k a n)"
proof -
  have rr: "replay_records K intent 0 (rr_commands rp) = Inr (slice H k a n)"
    using replay_records_slice [OF assms(1,4,5,2), of 0] assms(3,7) by (simp del: upt_Suc)
  have la: "last (slice H k a n) = H k n" using assms(3) by simp
  have len: "length (rr_commands rp) = in_to intent - in_from intent + 1" using assms(3,5,6,7) by (simp del: upt_Suc)
  have v: "pc_version (pr_command (H k n)) = n" using hist_okD(1) [OF assms(1)] assms(3) by simp
  have "H k n \<in> set (slice H k a n)" using assms(3) by simp
  then have ex: "list_ex (\<lambda>r. pc_version (pr_command r) = n \<and> sameIdentity (pr_identity r) (pr_identity (H k n))) (slice H k a n)"
    unfolding list_ex_iff using v by (intro bexI [of _ "H k n"]) (simp_all add: sameIdentity_def)
  show ?thesis using rr la len v ex assms(6-11) by (simp add: validateReplay_def Let_def del: upt_Suc)
qed

lemma reconcile_calm:
  assumes H: "hist_ok H" and ok: "db_ok H (pg_db w)" and f: "fold_is H k f" "fo_version f = db_head (pg_db w) k"
    and n: "bigint n" "db_head (pg_db w) k < n" and k: "fst k \<noteq> ''''"
    and fr: "fresh_ledgers H k (db_head (pg_db w) k) n (pg_db w)" and ch: "canonical_history K H k (db_head (pg_db w) k) n"
    and an: "answers H auth k (db_head (pg_db w) k) n" and q: "quiet_ids ids"
    and t: "uuidv7 (fst (ids w))" "unclaimed (pg_db w) k (pi_event_id (pr_identity (H k n))) n (fst (ids w))"
  shows "\<exists>w'. reconcile (NewPartProjector K (pg_store calm_env) auth ids) f (H k n) False w = (Applied, None, w') \<and>
    db_ok H (pg_db w') \<and> db_head (pg_db w') k = n"
proof -
  let ?a = "db_head (pg_db w) k"
  obtain token w1 where i1: "ids w = (token, w1)" by fastforce
  have i: "ids w = (token, w1)" "pg_db w1 = pg_db w" using q i1 unfolding quiet_ids_def by blast+
  define intent where "intent = \<lparr>in_token = token, in_key = k, in_observed = ?a, in_from = Suc ?a, in_to = n, in_held = pr_identity (H k n)\<rparr>"
  note h = hist_okD [OF H, of n k]
  have "\<exists>db'. tx_begin intent (H k n) (pg_db w) = Inr ((intent, True), db') \<and> db_head db' = db_head (pg_db w) \<and> (db_ok H (pg_db w) \<longrightarrow> db_ok H db') \<and>
    db_versions db' = db_versions (pg_db w) \<and> db_events db' = db_events (pg_db w) \<and>
    (\<exists>r. map_of (db_intents db') (fst (in_key intent), in_token intent) = Some r \<and> ir_interaction r = snd (in_key intent) \<and>
       ir_observed r = in_observed intent \<and> ir_status r = ''pending'')"
    by (rule tx_begin_calm) (use t i n h in \<open>simp_all add: intent_def\<close>)
  then obtain db2 r where b: "tx_begin intent (H k n) (pg_db w) = Inr ((intent, True), db2)" "db_head db2 = db_head (pg_db w)" "db_ok H db2"
      "db_versions db2 = db_versions (pg_db w)" "db_events db2 = db_events (pg_db w)"
      "map_of (db_intents db2) (fst (in_key intent), in_token intent) = Some r" "ir_interaction r = snd (in_key intent)"
      "ir_observed r = in_observed intent" "ir_status r = ''pending''" using ok by blast
  define w2 where "w2 = \<lparr>pg_db = db2, pg_calls = Suc (pg_calls w1)\<rparr>"
  obtain rp w3 where a: "au_replay auth w2 \<lparr>rq_key = k, rq_from = Suc ?a, rq_to = n, rq_id = token\<rparr> = (Inr (Some rp), w3)" "pg_db w3 = db2"
      "rr_commands rp = map (\<lambda>v. pr_command (H k v)) [Suc ?a ..< Suc n]" "rr_floor rp \<noteq> 0" "rr_provenance rp \<noteq> ''''" "n \<le> rr_head_version rp"
      "rr_head_version rp = n \<longrightarrow> rr_head_event_id rp = pi_event_id (pr_identity (H k n)) \<and> rr_head_hash rp = pi_hash (pr_identity (H k n))"
  proof -
    from an [unfolded answers_def, rule_format, of w2 token] that show thesis by (elim exE conjE) (simp add: w2_def)
  qed
  have it: "in_key intent = k" "in_from intent = Suc ?a" "in_to intent = n" by (simp_all add: intent_def)
  have v: "validateReplay K (Some rp) intent (H k n) = Inr (slice H k ?a n)"
    by (rule validateReplay_answer [OF H ch n(2) it a(3-6) mp [OF a(7)]])
  obtain g where g: "foldRecords f (slice H k ?a n) = Inr g" "fold_is H k g" "fo_version g = n"
    using fold_slice [OF H f(1) k, of n] f(2) n(2) by auto
  have "\<exists>db'. tx_install_reconcile intent (slice H (in_key intent) (in_observed intent) (fo_version g)) g db2 = Inr (True, db') \<and>
      db_ok H db' \<and> db_head db' (in_key intent) = fo_version g"
  proof (rule tx_install_reconcile_calm [OF H b(3) _ _ _ _ _ b(6-9)])
    show "fresh_ledgers H (in_key intent) (in_observed intent) (fo_version g) db2"
      using fr b(4,5) g(3) by (simp add: intent_def fresh_ledgers_def)
  qed (use g n b(2) in \<open>simp_all add: intent_def\<close>)
  then obtain db3 where ins: "tx_install_reconcile intent (slice H k ?a n) g db2 = Inr (True, db3)" "db_ok H db3" "db_head db3 k = n"
    using g(3) by (auto simp add: intent_def simp del: upt_Suc)
  have "withTenantTx calm_env (tx_begin intent (H k n)) w1 = (Inr (intent, True), w2)"
    using calm_tx(1) [of "tx_begin intent (H k n)" w1] b(1) i(2) by (simp add: w2_def)
  moreover have "withTenantTx calm_env (tx_install_reconcile intent (slice H k ?a n) g) w3 = (Inr True, \<lparr>pg_db = db3, pg_calls = Suc (pg_calls w3)\<rparr>)"
    using calm_tx(1) [of "tx_install_reconcile intent (slice H k ?a n) g" w3] ins(1) a(2) by (simp del: upt_Suc)
  ultimately have "reconcile (NewPartProjector K (pg_store calm_env) auth ids) f (H k n) False w = (Applied, None, \<lparr>pg_db = db3, pg_calls = Suc (pg_calls w3)\<rparr>)"
    using i t(1) a(1) v g(1) f(2) h n(2)
    by (simp add: reconcile_def NewPartProjector_def pg_store_def reconcile_started_def installed_result_def intent_def del: upt_Suc)
  with ins show ?thesis by auto
qed

lemma Apply_calm:
  assumes "hist_ok H" "db_ok H (pg_db w)" "Canonical K (Some c) = Inr (H k (pc_version c))" "k = (pc_tenant c, pc_interaction c)"
    and "pr_tenant who = pc_tenant c" "ValidTransportGrant (pr_grant who) CapabilityWrite"
    and "bigint (pc_version c)" "db_head (pg_db w) k < pc_version c"
    and "fresh_ledgers H k (db_head (pg_db w) k) (pc_version c) (pg_db w)"
    and "canonical_history K H k (db_head (pg_db w) k) (pc_version c)" "answers H auth k (db_head (pg_db w) k) (pc_version c)" "quiet_ids ids"
    and "\<forall>w'. pg_db w' = pg_db w \<longrightarrow> uuidv7 (fst (ids w')) \<and>
      unclaimed (pg_db w) k (pi_event_id (pr_identity (H k (pc_version c)))) (pc_version c) (fst (ids w'))"
  shows "\<exists>w'. Apply (NewPartProjector K (pg_store calm_env) auth ids) who (Some c) w = (Applied, None, w') \<and>
    db_ok H (pg_db w') \<and> db_head (pg_db w') k = pc_version c"
proof -
  let ?p = "NewPartProjector K (pg_store calm_env) auth ids" and ?a = "db_head (pg_db w) k" and ?n = "pc_version c"
  obtain f i where f: "tx_load k ?n (pg_db w) = Inr ((f, i), pg_db w)" "fold_is H k f" "fo_version f = ?a"
    using tx_load_calm [OF assms(1,2,7)] by blast
  define w1 where "w1 = \<lparr>pg_db = pg_db w, pg_calls = Suc (pg_calls w)\<rparr>"
  have ld: "st_load (pp_store ?p) w k ?n = (Inr (f, i), w1)"
    using calm_tx(1) [of "tx_load k ?n" w] f(1) by (simp add: NewPartProjector_def pg_store_def w1_def)
  have tn: "fst k \<noteq> ''''" using Canonical_Inr [OF assms(3)] command_ok_key assms(4) by auto
  have ap: "Apply ?p who (Some c) w =
      (if ?n > ?a + 1 then reconcile ?p f (H k ?n) False w1
       else (case foldRecords f [H k ?n] of
               Inl e \<Rightarrow> (Poisoned, Some e, w1)
             | Inr final \<Rightarrow> installed_result Applied (st_install (pp_store ?p) w1 ?a [H k ?n] final)))"
    using assms(3,5,6,8) ld f(3) by (simp add: Apply_def NewPartProjector_codec assms(4) [symmetric] del: foldRecords.simps split: sum.split)
  show ?thesis
  proof (cases "?n > ?a + 1")
    case True
    have "\<exists>w'. reconcile ?p f (H k ?n) False w1 = (Applied, None, w') \<and> db_ok H (pg_db w') \<and> db_head (pg_db w') k = ?n"
      by (rule reconcile_calm [OF assms(1)]) (use assms(2,7-13) f tn in \<open>simp_all add: w1_def\<close>)
    with ap True show ?thesis by simp
  next
    case False
    then have n: "?n = Suc ?a" using assms(8) by simp
    then have sl: "[H k ?n] = slice H k ?a ?n" by simp
    obtain g where g: "foldRecords f [H k ?n] = Inr g" "fold_is H k g" "fo_version g = ?n"
      using fold_slice [OF assms(1) f(2) tn, of ?n] f(3) n sl by auto
    obtain db' where t: "tx_install ?a [H k ?n] g (pg_db w1) = Inr (True, db')" "db_ok H db'" "db_head db' k = ?n"
      using tx_install_calm [OF assms(1,2) g(2)] assms(7-9) g(3) sl by (auto simp: w1_def simp del: upt_Suc)
    have "st_install (pp_store ?p) w1 ?a [H k ?n] g = (Inr True, \<lparr>pg_db = db', pg_calls = Suc (pg_calls w1)\<rparr>)"
      using calm_tx(1) [of "tx_install ?a [H k ?n] g" w1] t(1) by (simp add: NewPartProjector_def pg_store_def)
    with ap False g(1) t show ?thesis by (simp add: installed_result_def)
  qed
qed


section \<open>A concrete fleet\<close>

definition demo_tenant :: string where "demo_tenant = ''0190aaaa-0000-7000-8000-000000000001''"
definition demo_interaction :: string where "demo_interaction = ''0190aaaa-0000-7000-8000-000000000002''"
definition demo_key :: part_key where "demo_key = (demo_tenant, demo_interaction)"

definition demo_command :: "string \<Rightarrow> nat \<Rightarrow> string \<Rightarrow> int \<Rightarrow> pcommand" where
  "demo_command e v participant desired =
     \<lparr>pc_event_id = ''0190aaaa-0000-7000-9000-00000000000'' @ e, pc_version = v, pc_tenant = demo_tenant, pc_interaction = demo_interaction,
      pc_participant = ''0190aaaa-0000-7000-a000-00000000000'' @ participant, pc_desired = desired, pc_occurred_at = Some (0, 0),
      pc_traceparent = ''00-0af7651916cd43dd8448eb211c80319c-b7ad6b7169203331-01'', pc_unknown = []\<rparr>"

definition demo_log :: clog where
  "demo_log k = (if k = demo_key then [demo_command ''1'' 1 ''a'' ASSIGNED, demo_command ''2'' 2 ''b'' ASSIGNED, demo_command ''3'' 3 ''a'' UNASSIGNED] else [])"

definition demo_codec :: pcodec where
  "demo_codec = \<lparr>pk_time_valid = (\<lambda>_. True), pk_marshal = (\<lambda>c. Some (pc_event_id c @ pc_participant c)), pk_sha256 = (\<lambda>b. drop 4 (take 36 b))\<rparr>"

definition demo_history :: history where "demo_history = history_of demo_codec demo_log"

definition demo_token :: "pg_world \<Rightarrow> string \<times> pg_world" where
  "demo_token w = (''0190aaaa-0000-7000-b000-000000000009'', w)"

definition empty_db :: pgdb where
  "empty_db = \<lparr>db_heads = [], db_folded = {}, db_versions = [], db_events = [], db_pending = [], db_intents = [], db_dlq = [], db_alerts = []\<rparr>"

definition demo_world :: pg_world where "demo_world = \<lparr>pg_db = empty_db, pg_calls = 0\<rparr>"

definition demo_writer :: principal where
  "demo_writer = \<lparr>pr_tenant = demo_tenant, pr_grant = \<lparr>tg_service = ''corex'', tg_capability = CapabilityWrite, tg_role = ''''\<rparr>\<rparr>"

definition demo_projector :: "pg_env \<Rightarrow> pg_world part_projector" where
  "demo_projector E = NewPartProjector demo_codec (pg_store E) (log_authority demo_codec demo_log (\<lambda>_. 0)) demo_token"

text \<open>Another projector installs the first version before our third transaction, and our second transaction loses its answer.\<close>

definition demo_race :: pg_env where
  "demo_race = fleet_env demo_history (\<lambda>n. if n = 2 then [PeerInstall demo_key 1] else []) (\<lambda>n. if n = 1 then AnswerLost [ErrOther ''connection reset''] else TxCommits)"

definition demo_message :: "nat \<Rightarrow> cmd_message" where
  "demo_message n =
     \<lparr>cm_subject = ''corex.participation.commands.v1.'' @ demo_tenant @ ''.'' @ demo_interaction, cm_msg_id = pc_event_id (demo_log demo_key ! n),
      cm_traceparent = pc_traceparent (demo_log demo_key ! n), cm_data = pc_event_id (demo_log demo_key ! n) @ pc_participant (demo_log demo_key ! n)\<rparr>"

definition demo_unmarshal :: "bytes \<Rightarrow> bool \<times> pcommand" where
  "demo_unmarshal b =
     (if b = cm_data (demo_message 0) then (True, demo_log demo_key ! 0)
      else if b = cm_data (demo_message 1) then (True, demo_log demo_key ! 1)
      else (True, demo_log demo_key ! 2))"

lemma empty_db_ok: "db_ok H empty_db"
  by (rule db_okI) (simp_all add: empty_db_def folded_def db_head_def)

lemma demo_quiet: "quiet_ids demo_token"
  by (simp add: quiet_ids_def demo_token_def)

lemma demo_canonical:
  "Canonical demo_codec (Some (demo_log demo_key ! 0)) = Inr (demo_history demo_key 1)"
  "Canonical demo_codec (Some (demo_log demo_key ! 1)) = Inr (demo_history demo_key 2)"
  "Canonical demo_codec (Some (demo_log demo_key ! 2)) = Inr (demo_history demo_key 3)"
  by code_simp+

lemma demo_genuine:
  "genuine demo_codec demo_history (demo_log demo_key ! 0)" "genuine demo_codec demo_history (demo_log demo_key ! 1)"
  "genuine demo_codec demo_history (demo_log demo_key ! 2)"
  using demo_canonical by (simp_all add: genuine_def) (simp_all add: demo_log_def demo_command_def demo_key_def)

section \<open>The claims\<close>

text \<open>
  \<^bold>\<open>C8.\<close> The participation fold is always a prefix of the authority's history. Whatever messages the
  consumer handles, in whatever order and however often, while other projectors commit in between and
  transactions fail or lose their answer: the participants stored for an interaction are exactly those
  that the history gives at the stored version, and no stored version ever moves back.
\<close>

theorem participation_prefix:
  assumes "hist_ok H" "peers_ok H E" "replay_truthful K H auth" "snapshot_truthful H auth" "quiet_ids ids"
    and "\<forall>m \<in> set ms. genuine K H (snd (unmarshal (cm_data m)))" and "db_ok H (pg_db w)"
    and "handle_all (NewPartProjector K (pg_store E) auth ids) grant unmarshal ms w = (vs, w')"
  shows "folded (pg_db w') k = members H k (db_head (pg_db w') k) \<and> db_head (pg_db w) k \<le> db_head (pg_db w') k"
proof -
  note env = pg_participation_env [OF assms(1-5)]
  have "participation_env.good (\<lambda>w. db_ok H (pg_db w)) (\<lambda>w. db_head (pg_db w)) w w'"
    by (rule participation_env.handle_all_good [OF env assms(7,8)]) (use assms(6) in \<open>simp add: NewPartProjector_def\<close>)
  then have "db_ok H (pg_db w')" "db_head (pg_db w) \<le> db_head (pg_db w')" by (simp_all add: participation_env.good_def [OF env])
  then show ?thesis using db_okD(2) by (auto dest: le_funD)
qed

theorem participation_prefix_witness:
  "let w' = snd (handle_all (demo_projector demo_race) (pr_grant demo_writer) demo_unmarshal [demo_message 2, demo_message 0, demo_message 2] demo_world)
   in folded (pg_db w') demo_key = members demo_history demo_key (db_head (pg_db w') demo_key) \<and>
      db_head (pg_db demo_world) demo_key \<le> db_head (pg_db w') demo_key"
proof -
  let ?ms = "[demo_message 2, demo_message 0, demo_message 2]"
  obtain vs w' where h: "handle_all (demo_projector demo_race) (pr_grant demo_writer) demo_unmarshal ?ms demo_world = (vs, w')" by fastforce
  have g: "\<forall>m \<in> set ?ms. genuine demo_codec demo_history (snd (demo_unmarshal (cm_data m)))"
    using demo_genuine by (simp add: demo_unmarshal_def)
  have ok: "db_ok demo_history (pg_db demo_world)" by (simp add: demo_world_def empty_db_ok)
  have "folded (pg_db w') demo_key = members demo_history demo_key (db_head (pg_db w') demo_key) \<and>
      db_head (pg_db demo_world) demo_key \<le> db_head (pg_db w') demo_key"
    by (rule participation_prefix [OF _ _ _ _ demo_quiet g ok h [unfolded demo_projector_def]])
      (simp_all add: demo_history_def history_of_ok demo_race_def fleet_peers_ok log_replay_truthful log_snapshot_truthful)
  then show ?thesis using h by simp
qed

text \<open>
  \<^bold>\<open>C17.\<close> What \<open>Apply\<close> reports as done is in the fold: a command of the authority for which it returns no
  error and not a lost compare-and-set has its version at or below the stored head, with the stored
  participants those of the history.
\<close>

theorem applied_in_fold:
  assumes "hist_ok H" "peers_ok H E" "replay_truthful K H auth" "snapshot_truthful H auth" "quiet_ids ids"
    and "genuine K H c" and "db_ok H (pg_db w)"
    and "Apply (NewPartProjector K (pg_store E) auth ids) who (Some c) w = (res, None, w')" "res \<noteq> CompareAndSetLost"
  shows "pc_version c \<le> db_head (pg_db w') (pc_tenant c, pc_interaction c) \<and>
    folded (pg_db w') (pc_tenant c, pc_interaction c) =
      members H (pc_tenant c, pc_interaction c) (db_head (pg_db w') (pc_tenant c, pc_interaction c))"
proof -
  note env = pg_participation_env [OF assms(1-5)]
  have gen: "genuine (pp_codec (NewPartProjector K (pg_store E) auth ids)) H c" using assms(6) by (simp add: NewPartProjector_def)
  note a = participation_env.Apply_good [OF env assms(7,8) gen]
  then have "db_ok H (pg_db w')" by (simp add: participation_env.good_def [OF env])
  with a assms(9) show ?thesis using db_okD(2) by blast
qed


text \<open>
  \<^bold>\<open>C39.\<close> A command that contradicts what was accepted at its version changes no fold: \<open>Apply\<close> returns
  \<open>ErrDivergentHistory\<close>, the folds and ledgers stay as they are, and the command is in the dead letters
  with an alert.
\<close>

theorem divergent_poisoned:
  assumes "hist_ok H" "db_ok H (pg_db w)" "Canonical K (Some c) = Inr r" "k = (pc_tenant c, pc_interaction c)"
    and "pr_tenant who = pc_tenant c" "ValidTransportGrant (pr_grant who) CapabilityWrite"
    and "bigint (pc_version c)" "pc_version c \<le> db_head (pg_db w) k"
    and "map_of (db_versions (pg_db w)) (k, pc_version c) = Some row" "length (lr_hash row) = 32"
    and "lr_event row \<noteq> pc_event_id c \<or> lr_hash row \<noteq> pi_hash (pr_identity r)"
  shows "\<exists>w'. Apply (NewPartProjector K (pg_store calm_env) auth ids) who (Some c) w = (Poisoned, Some [ErrDivergentHistory], w') \<and>
    same_fold (pg_db w) (pg_db w') \<and> (k, pc_event_id c, ''DIVERGENT_HISTORY'') \<in> fst ` set (db_dlq (pg_db w')) \<and>
    (k, pc_event_id c, ''DIVERGENT_HISTORY'') \<in> fst ` set (db_alerts (pg_db w'))"
proof -
  let ?p = "NewPartProjector K (pg_store calm_env) auth ids" and ?n = "pc_version c"
  note cr = Canonical_Inr [OF assms(3)]
  have pos: "0 < ?n" using cr command_ok_key by blast
  define i where "i = \<lparr>pi_event_id = lr_event row, pi_hash = lr_hash row, pi_body = (case lr_body row of None \<Rightarrow> [] | Some b \<Rightarrow> b)\<rparr>"
  obtain f j where f0: "tx_load k ?n (pg_db w) = Inr ((f, j), pg_db w)" "fo_version f = db_head (pg_db w) k"
    using tx_load_calm [OF assms(1,2,7)] by blast
  then have f: "tx_load k ?n (pg_db w) = Inr ((f, Some i), pg_db w)"
    using assms(7,9,10) pos by (auto simp: tx_load_def i_def split: sum.splits)
  define w1 where "w1 = \<lparr>pg_db = pg_db w, pg_calls = Suc (pg_calls w)\<rparr>"
  obtain db' where p: "tx_poison r ''DIVERGENT_HISTORY'' (pg_db w1) = Inr ((), db')" "same_fold (pg_db w) db'"
      "(k, pc_event_id c, ''DIVERGENT_HISTORY'') \<in> fst ` set (db_dlq db')" "(k, pc_event_id c, ''DIVERGENT_HISTORY'') \<in> fst ` set (db_alerts db')"
    using assms(4,7) cr by (force simp: tx_poison_def insertAudit_def Let_def w1_def same_fold_def map_of_eq_None_iff update_conv' dom_map_of_conv_image_fst [symmetric])
  have "st_load (pp_store ?p) w k ?n = (Inr (f, Some i), w1)"
    using calm_tx(1) [of "tx_load k ?n" w] f by (simp add: NewPartProjector_def pg_store_def w1_def)
  moreover have "st_poison (pp_store ?p) w1 r ''DIVERGENT_HISTORY'' = (None, \<lparr>pg_db = db', pg_calls = Suc (pg_calls w1)\<rparr>)"
    using calm_tx(1) [of "tx_poison r ''DIVERGENT_HISTORY''" w1] p(1) by (simp add: NewPartProjector_def pg_store_def)
  moreover have "\<not> sameIdentity i (pr_identity r)" using assms(11) cr by (auto simp: sameIdentity_def i_def)
  ultimately have "Apply ?p who (Some c) w = (Poisoned, Some [ErrDivergentHistory], \<lparr>pg_db = db', pg_calls = Suc (pg_calls w1)\<rparr>)"
    using assms(3,5,6,8) f0(2) by (simp add: Apply_def NewPartProjector_codec assms(4) [symmetric])
  with p show ?thesis by simp
qed

section \<open>Where the store stands in its own way\<close>

text \<open>A snapshot at the version that the ledger already holds is refused, however often it is tried.\<close>

lemma snapshot_at_head_refused:
  assumes "lockIntentAndHead intent db = (True, db1)" "map_of (db_versions db) (in_key intent, fo_version (sn_fold snap)) \<noteq> None"
  shows "tx_install_snapshot intent snap held db = Inl sql_error"
proof -
  obtain v db2 where l: "lockHead (in_key intent) db = (v, db2)" by fastforce
  have "db1 = db2" using assms(1) l by (auto simp: lockIntentAndHead_def split: if_splits option.splits)
  then have "db_versions db1 = db_versions db" using lockHead_ok [OF l] by blast
  with assms show ?thesis by (simp add: tx_install_snapshot_def insert_version_def)
qed

text \<open>A pending intent of another event refuses every command that would start one.\<close>

lemma pending_intent_blocks:
  assumes "db_head db (in_key intent) = in_observed intent" "pending_intent (in_key intent) db = Some (tok, r)"
    and "ir_event r \<noteq> pi_event_id (pr_identity held)"
  shows "tx_begin intent held db = Inl [ErrDivergentHistory]"
proof -
  obtain db1 where l: "lockHead (in_key intent) db = (db_head db (in_key intent), db1)" "db_intents db1 = db_intents db" using lockHead_at by blast
  then have "pending_intent (in_key intent) db1 = Some (tok, r)" using assms(2) by (simp add: pending_intent_def)
  with l assms(1,3) show ?thesis by (cases tok) (simp add: tx_begin_def)
qed

text \<open>A command whose reconciliation another projector overtook is reported as lost.\<close>

lemma overtaken_begin_lost:
  assumes "db_head db (in_key intent) \<noteq> in_observed intent"
  shows "\<exists>db'. tx_begin intent held db = Inr ((intent, False), db')"
  using assms lockHead_at [of "in_key intent" db] by (auto simp: tx_begin_def)

section \<open>They are not vacuous\<close>

lemma demo_logged:
  "logged demo_codec demo_log demo_key 1 = Some (demo_history demo_key 1)"
  "logged demo_codec demo_log demo_key 2 = Some (demo_history demo_key 2)"
  "logged demo_codec demo_log demo_key 3 = Some (demo_history demo_key 3)"
  by code_simp+

lemma demo_events:
  "map (\<lambda>v. pi_event_id (pr_identity (demo_history demo_key v))) [1, 2, 3] =
     [''0190aaaa-0000-7000-9000-000000000001'', ''0190aaaa-0000-7000-9000-000000000002'', ''0190aaaa-0000-7000-9000-000000000003'']"
  by code_simp

lemma demo_hist_ok: "hist_ok demo_history"
  by (simp add: demo_history_def history_of_ok)

lemma demo_upto: "{0 <.. 3} = {1, 2, 3 :: nat}" "[Suc 0 ..< Suc 3] = [1, 2, 3]" "[Suc 0 ..< 4] = [1, 2, 3]"
  by (auto simp: upt_rec)

lemma demo_canonical_history: "canonical_history demo_codec demo_history demo_key 0 3"
  using logged_canonical [OF demo_logged(1)] logged_canonical [OF demo_logged(2)] logged_canonical [OF demo_logged(3)]
  by (simp add: canonical_history_def demo_upto)

lemma demo_fresh: "fresh_ledgers demo_history demo_key 0 3 empty_db"
  using demo_events unfolding fresh_ledgers_def demo_upto by (simp add: empty_db_def)

lemma demo_answers: "answers demo_history (log_authority demo_codec demo_log (\<lambda>_. 0)) demo_key 0 3"
proof -
  have n: "length (demo_log demo_key) = 3" by (simp add: demo_log_def)
  show ?thesis unfolding answers_def log_authority_def demo_history_def [symmetric]
    by (simp add: Let_def n demo_upto(2,3) demo_logged [simplified] demo_logged del: upt_Suc)
qed


lemma demo_fields:
  "pc_version (demo_log demo_key ! 2) = 3" "(pc_tenant (demo_log demo_key ! 2), pc_interaction (demo_log demo_key ! 2)) = demo_key"
  by (simp_all add: demo_log_def demo_command_def demo_key_def)

lemma demo_ids:
  "\<forall>w'. pg_db w' = pg_db demo_world \<longrightarrow> uuidv7 (fst (demo_token w')) \<and> unclaimed (pg_db demo_world) demo_key e v (fst (demo_token w'))"
proof -
  have "uuidv7 ''0190aaaa-0000-7000-b000-000000000009''" by code_simp
  then show ?thesis by (simp add: demo_token_def unclaimed_def demo_world_def empty_db_def pending_intent_def)
qed

lemmas demo_setting =
  demo_hist_ok empty_db_ok demo_canonical(3) demo_fields demo_fresh demo_canonical_history demo_answers demo_quiet demo_ids

lemma demo_head: "db_head empty_db demo_key = 0" "pg_db demo_world = empty_db"
  by (simp_all add: demo_world_def empty_db_def db_head_def)


theorem applied_in_fold_witness:
  "\<exists>res w'. Apply (demo_projector calm_env) demo_writer (Some (demo_log demo_key ! 2)) demo_world = (res, None, w') \<and> res \<noteq> CompareAndSetLost \<and>
     3 \<le> db_head (pg_db w') demo_key \<and> folded (pg_db w') demo_key = members demo_history demo_key (db_head (pg_db w') demo_key)"
proof -
  let ?c = "demo_log demo_key ! 2" and ?p = "NewPartProjector demo_codec (pg_store calm_env) (log_authority demo_codec demo_log (\<lambda>_. 0)) demo_token"
  have "\<exists>w'. Apply ?p demo_writer (Some ?c) demo_world = (Applied, None, w') \<and> db_ok demo_history (pg_db w') \<and> db_head (pg_db w') demo_key = pc_version ?c"
    by (rule Apply_calm)
      (use demo_setting demo_ids in \<open>simp_all add: demo_head demo_fields bigint_def ValidTransportGrant_def demo_writer_def\<close>,
       simp add: demo_log_def demo_command_def)
  then obtain w' where a: "Apply ?p demo_writer (Some ?c) demo_world = (Applied, None, w')" by blast
  have ok: "db_ok demo_history (pg_db demo_world)" by (simp add: demo_head empty_db_ok)
  have "pc_version ?c \<le> db_head (pg_db w') (pc_tenant ?c, pc_interaction ?c) \<and>
      folded (pg_db w') (pc_tenant ?c, pc_interaction ?c) =
        members demo_history (pc_tenant ?c, pc_interaction ?c) (db_head (pg_db w') (pc_tenant ?c, pc_interaction ?c))"
    by (rule applied_in_fold [OF demo_hist_ok calm_peers _ _ demo_quiet demo_genuine(3) ok a])
      (simp_all add: demo_history_def log_replay_truthful log_snapshot_truthful)
  then show ?thesis using a unfolding demo_fields demo_projector_def by blast
qed

text \<open>A store that holds the first version, and a different command for it.\<close>

definition held_db :: "history \<Rightarrow> part_key \<Rightarrow> pgdb" where
  "held_db H k =
     (let i = pr_identity (H k 1)
      in empty_db\<lparr>db_heads := [(k, \<lparr>fh_version = 1, fh_event = Some (pi_event_id i), fh_hash = Some (pi_hash i), fh_provenance = None\<rparr>)],
        db_folded := {(k, pc_participant (pr_command (H k 1)))},
        db_versions := [((k, 1), \<lparr>lr_event = pi_event_id i, lr_hash = pi_hash i, lr_body = None\<rparr>)]\<rparr>)"

definition demo_held :: pg_world where "demo_held = \<lparr>pg_db = held_db demo_history demo_key, pg_calls = 0\<rparr>"

definition demo_forged :: pcommand where "demo_forged = demo_command ''7'' 1 ''c'' ASSIGNED"

lemma held_db_head: "db_head (held_db H k) k' = (if k' = k then 1 else 0)"
  by (simp add: held_db_def db_head_def Let_def empty_db_def)

lemma held_db_ok:
  assumes "pc_desired (pr_command (H k 1)) = ASSIGNED"
  shows "db_ok H (held_db H k)"
proof (rule db_okI)
  show "folded (held_db H k) k' = members H k' (db_head (held_db H k) k')" for k'
    using assms unfolding held_db_head by (auto simp: folded_def held_db_def Let_def empty_db_def apply_desired_def)
qed (auto simp: held_db_def Let_def empty_db_def head_ok_def row_ok_def split: if_splits)

lemma demo_held_ok: "db_ok demo_history (pg_db demo_held)"
proof -
  have "pc_desired (pr_command (demo_history demo_key 1)) = ASSIGNED" by code_simp
  then show ?thesis using held_db_ok [of demo_history demo_key] by (simp add: demo_held_def)
qed

theorem divergent_poisoned_witness:
  "\<exists>w'. Apply (demo_projector calm_env) demo_writer (Some demo_forged) demo_held = (Poisoned, Some [ErrDivergentHistory], w') \<and>
     same_fold (pg_db demo_held) (pg_db w') \<and> (demo_key, pc_event_id demo_forged, ''DIVERGENT_HISTORY'') \<in> fst ` set (db_dlq (pg_db w')) \<and>
     (demo_key, pc_event_id demo_forged, ''DIVERGENT_HISTORY'') \<in> fst ` set (db_alerts (pg_db w'))"
proof -
  define row where "row = \<lparr>lr_event = pi_event_id (pr_identity (demo_history demo_key 1)), lr_hash = pi_hash (pr_identity (demo_history demo_key 1)), lr_body = None\<rparr>"
  have can: "\<exists>r. Canonical demo_codec (Some demo_forged) = Inr r"
  proof -
    have "case Canonical demo_codec (Some demo_forged) of Inr _ \<Rightarrow> True | Inl _ \<Rightarrow> False" by code_simp
    then show ?thesis by (auto split: sum.splits)
  qed
  then obtain r where r: "Canonical demo_codec (Some demo_forged) = Inr r" by blast
  have e: "pi_event_id (pr_identity (demo_history demo_key 1)) = ''0190aaaa-0000-7000-9000-000000000001''" using demo_events by simp
  have "length (lr_hash row) = 32" using hist_okD(4) [OF demo_hist_ok] by (simp add: row_def)
  moreover have k: "demo_key = (pc_tenant demo_forged, pc_interaction demo_forged)" "pc_version demo_forged = 1" "pr_tenant demo_writer = pc_tenant demo_forged"
    by (simp_all add: demo_forged_def demo_command_def demo_key_def demo_writer_def)
  moreover have "lr_event row \<noteq> pc_event_id demo_forged" by (simp add: row_def e [simplified] demo_forged_def demo_command_def)
  moreover have "ValidTransportGrant (pr_grant demo_writer) CapabilityWrite" by (simp add: ValidTransportGrant_def demo_writer_def)
  moreover have "map_of (db_versions (pg_db demo_held)) (demo_key, 1) = Some row" by (simp add: demo_held_def held_db_def Let_def row_def)
  moreover have "db_head (pg_db demo_held) demo_key = 1" by (simp add: demo_held_def held_db_head)
  ultimately show ?thesis unfolding demo_projector_def
    by (intro divergent_poisoned [OF demo_hist_ok demo_held_ok r k(1), where row = row]) (simp_all add: bigint_def)
qed

end
