(* ===== verification/Delivery_Service.thy ===== *)
theory Delivery_Service
  imports Obs_Trace Go_Bytes
begin

text \<open>
  \<open>internal/delivery/service.go\<close> and \<open>internal/deliverygrpc/server.go\<close>: accepting a delivery
  authorization, and the status codes of the gRPC boundary. The protobuf codec, SHA-256, the UUID
  library and the conversion of timestamps are the fields of \<open>dcodec\<close>: \<open>dk_uuid\<close> is \<open>uuid.Parse\<close>
  with the version, whether the variant is RFC 4122, and the rendering by \<open>String\<close>.
\<close>

section \<open>Data\<close>

record dauth =
  da_id :: string
  da_event :: string
  da_tenant :: string
  da_reservation :: string
  da_interaction :: string
  da_target :: string
  da_fencing :: string
  da_version :: nat
  da_deadline :: "(int \<times> int) option"
  da_traceparent :: string
  da_unknown :: bytes

record dreceipt =
  rc_receipt :: string
  rc_auth :: string
  rc_event :: string
  rc_tenant :: string
  rc_reservation :: string
  rc_interaction :: string
  rc_target :: string
  rc_accepted :: "int \<times> int"
  rc_deadline :: "(int \<times> int) option"
  rc_seq :: nat
  rc_issuer :: string
  rc_visibility :: int

record dcodec =
  dk_marshal_auth :: "dauth \<Rightarrow> bytes option"
  dk_marshal_receipt :: "dreceipt \<Rightarrow> bytes option"
  dk_unmarshal_receipt :: "bytes \<Rightarrow> dreceipt option"
  dk_sha256 :: "bytes \<Rightarrow> bytes"
  dk_uuid :: "string \<Rightarrow> (nat \<times> bool \<times> string) option"
  dk_deadline_valid :: "int \<times> int \<Rightarrow> bool"
  dk_timestamp :: "int \<Rightarrow> int \<times> int"

datatype derr =
    ErrUnauthenticated
  | ErrDeliveryDenied
  | ErrInvalidAuthorization
  | ErrIdempotencyConflict
  | ErrUnknownAcknowledgement
  | ErrAcknowledgementHash
  | DNoRows
  | DOther string

record dprincipal =
  dp_service :: string
  dp_tenant :: string
  dp_capabilities :: "string list"

record append_input =
  ai_auth :: dauth
  ai_receipt :: string
  ai_issuer :: string
  ai_hash :: bytes
  ai_body :: bytes

record append_result =
  ar_receipt :: string
  ar_accepted :: int
  ar_seq :: nat

definition CapabilityDeliveryWrite :: string where "CapabilityDeliveryWrite = ''corex-delivery-write''"
definition acceptDeliveryMethod :: string where "acceptDeliveryMethod = ''/relaypoint.delivery.v1.DeliveryService/AcceptDelivery''"
definition issuerServiceID :: string where "issuerServiceID = ''relaypoint''"
definition PENDING_NOT_VISIBLE :: int where "PENDING_NOT_VISIBLE = 1"

section \<open>Validation and canonical form\<close>

text \<open>\<open>^00-[0-9a-f]{32}-[0-9a-f]{16}-0[01]$\<close>\<close>

definition trace_at :: "nat \<Rightarrow> char \<Rightarrow> bool" where
  "trace_at i c =
     (if i \<in> {0, 1, 53} then c = CHR ''0''
      else if i \<in> {2, 35, 52} then c = CHR ''-''
      else if i = 54 then c = CHR ''0'' \<or> c = CHR ''1''
      else is_hex_digit c)"

definition traceparentPattern :: "string \<Rightarrow> bool" where
  "traceparentPattern s \<longleftrightarrow> length s = 55 \<and> list_all (\<lambda>(i, c). trace_at i c) (enumerate 0 s)"

definition requireUUIDv7 :: "dcodec \<Rightarrow> string \<Rightarrow> derr option" where
  "requireUUIDv7 K value =
     (case dk_uuid K value of
        None \<Rightarrow> Some ErrInvalidAuthorization
      | Some (version, rfc4122, s) \<Rightarrow>
          if version \<noteq> 7 \<or> \<not> rfc4122 \<or> s \<noteq> value then Some ErrInvalidAuthorization else None)"

text \<open>The fields are a Go map: the order of the checks is arbitrary, the error is the same kind for each.\<close>

definition validateAuthorization :: "dcodec \<Rightarrow> dauth option \<Rightarrow> derr option" where
  "validateAuthorization K authorization =
     (case authorization of
        None \<Rightarrow> Some ErrInvalidAuthorization
      | Some a \<Rightarrow>
          if list_ex (\<lambda>v. requireUUIDv7 K v \<noteq> None)
               [da_id a, da_event a, da_tenant a, da_reservation a, da_interaction a, da_target a, da_fencing a]
          then Some ErrInvalidAuthorization
          else if da_version a = 0 then Some ErrInvalidAuthorization
          else if (case da_deadline a of None \<Rightarrow> True | Some t \<Rightarrow> \<not> dk_deadline_valid K t) then Some ErrInvalidAuthorization
          else if \<not> traceparentPattern (da_traceparent a) then Some ErrInvalidAuthorization
          else None)"

definition canonical_id :: "dcodec \<Rightarrow> string \<Rightarrow> string" where
  "canonical_id K v = (case dk_uuid K v of None \<Rightarrow> v | Some (_, _, s) \<Rightarrow> s)"

text \<open>The string fields whose name ends in \<open>_id\<close>; the fencing token is not one of them.\<close>

definition normalizeAuthorization :: "dcodec \<Rightarrow> dauth \<Rightarrow> dauth" where
  "normalizeAuthorization K a =
     a\<lparr>da_unknown := [], da_id := canonical_id K (da_id a), da_event := canonical_id K (da_event a),
       da_tenant := canonical_id K (da_tenant a), da_reservation := canonical_id K (da_reservation a),
       da_interaction := canonical_id K (da_interaction a), da_target := canonical_id K (da_target a)\<rparr>"

definition writeHashPart :: "bytes \<Rightarrow> bytes" where
  "writeHashPart value = be64 (int (length value) mod 2 ^ 64) @ value"

definition authorizationHashAndBody :: "dcodec \<Rightarrow> dauth \<Rightarrow> derr + bytes \<times> bytes" where
  "authorizationHashAndBody K a =
     (case dk_marshal_auth K a of
        None \<Rightarrow> Inl (DOther ''marshal authorization'')
      | Some body \<Rightarrow>
          Inr (dk_sha256 K (writeHashPart acceptDeliveryMethod @ writeHashPart (da_tenant a) @ writeHashPart body), body))"

definition HashAuthorization :: "dcodec \<Rightarrow> dauth option \<Rightarrow> derr + bytes" where
  "HashAuthorization K authorization =
     (case validateAuthorization K authorization of
        Some e \<Rightarrow> Inl e
      | None \<Rightarrow>
          (case authorizationHashAndBody K (normalizeAuthorization K (the authorization)) of
             Inl e \<Rightarrow> Inl e
           | Inr (hash, _) \<Rightarrow> Inr hash))"

primrec hasCapability :: "string list \<Rightarrow> string \<Rightarrow> bool" where
  "hasCapability [] wanted = False"
| "hasCapability (c # cs) wanted = (if c = wanted then True else hasCapability cs wanted)"

section \<open>Accepting\<close>

record 'w dstore =
  ds_append :: "'w \<Rightarrow> append_input \<Rightarrow> (derr + append_result) \<times> 'w"

definition receipt_of :: "dcodec \<Rightarrow> dauth \<Rightarrow> string \<Rightarrow> append_result \<Rightarrow> dreceipt" where
  "receipt_of K a issuer res =
     \<lparr>rc_receipt = ar_receipt res, rc_auth = da_id a, rc_event = da_event a, rc_tenant = da_tenant a,
      rc_reservation = da_reservation a, rc_interaction = da_interaction a, rc_target = da_target a,
      rc_accepted = dk_timestamp K (ar_accepted res), rc_deadline = da_deadline a, rc_seq = ar_seq res,
      rc_issuer = issuer, rc_visibility = PENDING_NOT_VISIBLE\<rparr>"

definition AcceptDelivery ::
  "dcodec \<Rightarrow> 'w dstore \<Rightarrow> ('w \<Rightarrow> string \<times> 'w) \<Rightarrow> dprincipal \<Rightarrow> dauth option \<Rightarrow> 'w \<Rightarrow> (derr + dreceipt) \<times> 'w" where
  "AcceptDelivery K store newID who authorization w =
     (if dp_service who \<noteq> ''corex'' then (Inl ErrUnauthenticated, w)
      else if \<not> hasCapability (dp_capabilities who) CapabilityDeliveryWrite then (Inl ErrDeliveryDenied, w)
      else
     (case authorization of
        None \<Rightarrow> (Inl ErrDeliveryDenied, w)
      | Some a \<Rightarrow>
          if dp_tenant who = '''' \<or> dp_tenant who \<noteq> da_tenant a then (Inl ErrDeliveryDenied, w)
          else
     (case validateAuthorization K (Some a) of
        Some e \<Rightarrow> (Inl e, w)
      | None \<Rightarrow>
     (let normalized = normalizeAuthorization K a
      in case authorizationHashAndBody K normalized of
           Inl e \<Rightarrow> (Inl e, w)
         | Inr (hash, body) \<Rightarrow>
             (let (receiptID, w1) = newID w
              in case requireUUIDv7 K receiptID of
                   Some e \<Rightarrow> (Inl e, w1)
                 | None \<Rightarrow>
                     (case ds_append store w1 \<lparr>ai_auth = normalized, ai_receipt = receiptID, ai_issuer = issuerServiceID,
                                              ai_hash = hash, ai_body = body\<rparr> of
                        (Inl e, w2) \<Rightarrow> (Inl e, w2)
                      | (Inr res, w2) \<Rightarrow> (Inr (receipt_of K normalized issuerServiceID res), w2)))))))"

section \<open>The gRPC boundary\<close>

datatype grpc_code = Unauthenticated | PermissionDenied | InvalidArgument | AlreadyExists | Internal

definition grpc_status :: "derr \<Rightarrow> grpc_code" where
  "grpc_status e =
     (if e = ErrUnauthenticated then Unauthenticated
      else if e = ErrDeliveryDenied then PermissionDenied
      else if e = ErrInvalidAuthorization then InvalidArgument
      else if e = ErrIdempotencyConflict then AlreadyExists
      else Internal)"

definition grpc_AcceptDelivery ::
  "('w \<Rightarrow> (string + dprincipal) \<times> 'w) \<Rightarrow> (dprincipal \<Rightarrow> dauth option \<Rightarrow> 'w \<Rightarrow> (derr + dreceipt) \<times> 'w) \<Rightarrow>
   dauth option \<Rightarrow> 'w \<Rightarrow> (grpc_code + dreceipt) \<times> 'w" where
  "grpc_AcceptDelivery resolve accept authorization w =
     (case resolve w of
        (Inl _, w1) \<Rightarrow> (Inl Unauthenticated, w1)
      | (Inr who, w1) \<Rightarrow>
          (case accept who authorization w1 of
             (Inr receipt, w2) \<Rightarrow> (Inr receipt, w2)
           | (Inl e, w2) \<Rightarrow> (Inl (grpc_status e), w2)))"

section \<open>Elementary facts\<close>

lemma requireUUIDv7_canonical: "requireUUIDv7 K v = None \<Longrightarrow> canonical_id K v = v"
  by (auto simp: requireUUIDv7_def canonical_id_def split: option.splits prod.splits if_splits)

text \<open>After validation only unknown fields are left to normalise.\<close>

lemma normalize_valid:
  assumes "validateAuthorization K (Some a) = None"
  shows "normalizeAuthorization K a = a\<lparr>da_unknown := []\<rparr>"
  using assms by (auto simp: validateAuthorization_def normalizeAuthorization_def requireUUIDv7_canonical split: if_splits)

lemma hasCapability_set: "hasCapability cs c \<longleftrightarrow> c \<in> set cs"
  by (induction cs) auto

lemma AcceptDelivery_Inr:
  assumes "AcceptDelivery K store newID who authorization w = (Inr r, w')"
  shows "\<exists>a hash body res receiptID w1.
    authorization = Some a \<and> dp_service who = ''corex'' \<and> CapabilityDeliveryWrite \<in> set (dp_capabilities who) \<and> dp_tenant who = da_tenant a \<and>
    validateAuthorization K (Some a) = None \<and> authorizationHashAndBody K (a\<lparr>da_unknown := []\<rparr>) = Inr (hash, body) \<and> newID w = (receiptID, w1) \<and>
    requireUUIDv7 K receiptID = None \<and>
    ds_append store w1 \<lparr>ai_auth = a\<lparr>da_unknown := []\<rparr>, ai_receipt = receiptID, ai_issuer = issuerServiceID, ai_hash = hash, ai_body = body\<rparr> = (Inr res, w') \<and>
    r = receipt_of K (a\<lparr>da_unknown := []\<rparr>) issuerServiceID res"
proof -
  obtain a where a: "authorization = Some a" "dp_service who = ''corex''" "CapabilityDeliveryWrite \<in> set (dp_capabilities who)" "dp_tenant who = da_tenant a"
      "validateAuthorization K (Some a) = None"
    using assms by (auto simp: AcceptDelivery_def hasCapability_set split: if_splits option.splits)
  note n = normalize_valid [OF a(5)]
  obtain receiptID w1 where i: "newID w = (receiptID, w1)" by fastforce
  obtain hash body where h: "authorizationHashAndBody K (a\<lparr>da_unknown := []\<rparr>) = Inr (hash, body)" "requireUUIDv7 K receiptID = None"
    using assms a i n by (auto simp: AcceptDelivery_def hasCapability_set Let_def split: if_splits option.splits sum.splits prod.splits)
  obtain res where "ds_append store w1 \<lparr>ai_auth = a\<lparr>da_unknown := []\<rparr>, ai_receipt = receiptID, ai_issuer = issuerServiceID, ai_hash = hash, ai_body = body\<rparr> = (Inr res, w')"
      "r = receipt_of K (a\<lparr>da_unknown := []\<rparr>) issuerServiceID res"
    using assms a i n h by (auto simp: AcceptDelivery_def hasCapability_set Let_def split: if_splits prod.splits sum.splits)
  with a i h show ?thesis by blast
qed

end
