(* ===== verification/Delivery_Worker.thy ===== *)
theory Delivery_Worker
  imports Delivery_Service
begin

text \<open>
  \<open>internal/delivery/worker.go\<close>: the acknowledgement request with its hash, and one turn of the worker
  that claims a receipt from the outbox and acknowledges it at the router.
\<close>

definition acknowledgeDeliveryMethod :: string where
  "acknowledgeDeliveryMethod = ''/kafaconnect.routing.v1.ReservationService/AcknowledgeDelivery''"

definition AckApplied :: nat where "AckApplied = 1"
definition AckAlreadyApplied :: nat where "AckAlreadyApplied = 2"
definition AckTerminalExpired :: nat where "AckTerminalExpired = 3"

record ack_result =
  kr_disposition :: nat
  kr_version :: nat
  kr_event :: string

record ack_claim =
  kc_receipt :: dreceipt
  kc_token :: string
  kc_version :: nat
  kc_fencing :: string
  kc_hash :: bytes

record ack_request =
  kq_request :: string
  kq_tenant :: string
  kq_reservation :: string
  kq_interaction :: string
  kq_version :: nat
  kq_fencing :: string
  kq_receipt :: dreceipt

definition ack_equal :: "ack_request \<Rightarrow> ack_request \<Rightarrow> bool" where
  "ack_equal r other \<longleftrightarrow>
     kq_request r = kq_request other \<and> kq_tenant r = kq_tenant other \<and> kq_reservation r = kq_reservation other \<and>
     kq_interaction r = kq_interaction other \<and> kq_version r = kq_version other \<and> kq_fencing r = kq_fencing other \<and>
     kq_receipt r = kq_receipt other"

definition ack_preimage :: "bytes \<Rightarrow> ack_request \<Rightarrow> bytes" where
  "ack_preimage receipt r =
     concat (map writeHashPart [acknowledgeDeliveryMethod, kq_tenant r, kq_request r, kq_reservation r, kq_interaction r]) @
     writeHashPart (be64 (int (kq_version r))) @ writeHashPart (kq_fencing r) @ writeHashPart receipt"

definition ack_hash :: "dcodec \<Rightarrow> ack_request \<Rightarrow> derr + bytes" where
  "ack_hash K r =
     (case dk_marshal_receipt K (kq_receipt r) of
        None \<Rightarrow> Inl (DOther ''marshal receipt'')
      | Some receipt \<Rightarrow> Inr (dk_sha256 K (ack_preimage receipt r)))"

record 'w ack_store =
  as_claim :: "'w \<Rightarrow> string \<Rightarrow> (derr + ack_claim option) \<times> 'w"
  as_complete :: "'w \<Rightarrow> string \<Rightarrow> string \<Rightarrow> string \<Rightarrow> ack_result \<Rightarrow> derr option \<times> 'w"
  as_retry :: "'w \<Rightarrow> string \<Rightarrow> string \<Rightarrow> string \<Rightarrow> derr \<Rightarrow> derr option \<times> 'w"

record 'w ack_worker =
  aw_codec :: dcodec
  aw_store :: "'w ack_store"
  aw_router :: "'w \<Rightarrow> ack_request \<Rightarrow> (derr + ack_result) \<times> 'w"
  aw_tenant :: string

definition claim_request :: "ack_claim \<Rightarrow> ack_request" where
  "claim_request claim =
     \<lparr>kq_request = rc_receipt (kc_receipt claim), kq_tenant = rc_tenant (kc_receipt claim),
      kq_reservation = rc_reservation (kc_receipt claim), kq_interaction = rc_interaction (kc_receipt claim),
      kq_version = kc_version claim, kq_fencing = kc_fencing claim, kq_receipt = kc_receipt claim\<rparr>"

text \<open>The three failures give the claim back; the error is that of \<open>Retry\<close> when it fails too.\<close>

definition give_back :: "'w ack_worker \<Rightarrow> ack_claim \<Rightarrow> derr \<Rightarrow> 'w \<Rightarrow> derr option \<times> 'w" where
  "give_back k claim e w =
     (case as_retry (aw_store k) w (aw_tenant k) (rc_receipt (kc_receipt claim)) (kc_token claim) e of
        (Some e', w') \<Rightarrow> (Some e', w')
      | (None, w') \<Rightarrow> (Some e, w'))"

definition ProcessOne :: "'w ack_worker \<Rightarrow> 'w \<Rightarrow> derr option \<times> 'w" where
  "ProcessOne k w =
     (case as_claim (aw_store k) w (aw_tenant k) of
        (Inl e, w1) \<Rightarrow> (Some e, w1)
      | (Inr None, w1) \<Rightarrow> (None, w1)
      | (Inr (Some claim), w1) \<Rightarrow>
     (let request = claim_request claim
      in case ack_hash (aw_codec k) request of
           Inl e \<Rightarrow> give_back k claim e w1
         | Inr hash \<Rightarrow>
             if hash \<noteq> kc_hash claim then give_back k claim ErrAcknowledgementHash w1
             else
     (case aw_router k w1 request of
        (Inl e, w2) \<Rightarrow> give_back k claim e w2
      | (Inr result, w2) \<Rightarrow>
          if kr_disposition result \<noteq> AckApplied \<and> kr_disposition result \<noteq> AckAlreadyApplied \<and> kr_disposition result \<noteq> AckTerminalExpired
          then give_back k claim ErrUnknownAcknowledgement w2
          else as_complete (aw_store k) w2 (aw_tenant k) (kq_request request) (kc_token claim) result)))"

text \<open>The framed parts determine the request.\<close>

lemma writeHashPart_sized: "writeHashPart = sized"
  by (simp add: writeHashPart_def sized_def fun_eq_iff)

definition ack_parts :: "bytes \<Rightarrow> ack_request \<Rightarrow> bytes list" where
  "ack_parts receipt r =
     [acknowledgeDeliveryMethod, kq_tenant r, kq_request r, kq_reservation r, kq_interaction r, be64 (int (kq_version r)), kq_fencing r, receipt]"

lemma ack_preimage_parts: "ack_preimage receipt r = concat (map sized (ack_parts receipt r))"
  by (simp add: ack_preimage_def ack_parts_def writeHashPart_sized)

lemma ack_preimage_inject:
  assumes "\<forall>b \<in> set (ack_parts x r). int (length b) < 2 ^ 64" "\<forall>b \<in> set (ack_parts y s). int (length b) < 2 ^ 64"
    and "int (kq_version r) < 2 ^ 64" "int (kq_version s) < 2 ^ 64" "ack_preimage x r = ack_preimage y s"
  shows "kq_tenant r = kq_tenant s \<and> kq_request r = kq_request s \<and> kq_reservation r = kq_reservation s \<and>
    kq_interaction r = kq_interaction s \<and> kq_version r = kq_version s \<and> kq_fencing r = kq_fencing s \<and> x = y"
proof -
  have "ack_parts x r = ack_parts y s"
    using concat_sized_inject [OF _ assms(1,2)] assms(5) by (simp add: ack_preimage_parts) (simp add: ack_parts_def)
  then show ?thesis using be64_inject [of "int (kq_version r)" "int (kq_version s)"] assms(3,4) by (simp add: ack_parts_def)
qed

end
