(* ===== verification/Route_Projection.thy ===== *)
theory Route_Projection
  imports Go_Bytes
begin

text \<open>
  \<open>internal/routeprojection/projector.go\<close>: route facts, their validation, hash and fold, and the
  projector that applies them over a store and the router. The UUID library (\<open>ru_uuid\<close> is
  \<open>uuid.Parse\<close> with version, variant and rendering) and SHA-256 are parameters. Versions are \<open>uint64\<close>
  in the code and \<open>bigint\<close> in the tables, which refuse a version outside it, so no sum wraps.
\<close>

section \<open>Data\<close>

definition CapabilityProjectionRead :: string where "CapabilityProjectionRead = ''router.projection.read''"

datatype rerr = RDivergentHistory | RUnknownHistory | RInvalidFact | RInvalidReplay | RAuthorizationPending | ROther string

definition FactReserved :: nat where "FactReserved = 1"
definition FactRinging :: nat where "FactRinging = 2"
definition FactTerminal :: nat where "FactTerminal = 3"

definition Hidden :: nat where "Hidden = 0"
definition Visible :: nat where "Visible = 1"

record route_fact =
  rf_tenant :: string
  rf_interaction :: string
  rf_event :: string
  rf_version :: nat
  rf_kind :: nat
  rf_auth :: string
  rf_receipt :: string
  rf_generation :: nat
  rf_lease :: gtime

record route_identity =
  ri_event :: string
  ri_hash :: bytes

record route_state =
  rt_version :: nat
  rt_event :: string
  rt_hash :: bytes
  rt_visibility :: nat
  rt_auth :: string
  rt_receipt :: string
  rt_generation :: nat
  rt_lease :: gtime

text \<open>\<open>Projection\<close> is the folded state with its key and the database clock.\<close>

record projection =
  rp_tenant :: string
  rp_interaction :: string
  rp_state :: route_state
  rp_now :: gtime

record route_intent =
  rx_token :: string
  rx_tenant :: string
  rx_interaction :: string
  rx_observed :: nat
  rx_from :: nat
  rx_to :: nat
  rx_event :: string
  rx_hash :: bytes

record projection_principal =
  jp_service :: string
  jp_tenant :: string
  jp_capability :: string

record route_replay =
  ry_facts :: "route_fact list"
  ry_head :: nat

record route_snapshot =
  rn_projection :: projection
  rn_floor :: nat
  rn_provenance :: string

record auth_binding =
  ab_interaction :: string
  ab_receipt :: string

record rcodec =
  ru_uuid :: "string \<Rightarrow> (nat \<times> bool \<times> string) option"
  ru_sha256 :: "bytes \<Rightarrow> bytes"

datatype ApplyResult = RNone | RApplied | RDuplicate | RCompareAndSetLost | RPoisoned | RAuditedUnknownHistory

section \<open>Facts\<close>

definition validUUIDv7 :: "rcodec \<Rightarrow> string \<Rightarrow> bool" where
  "validUUIDv7 K value =
     (case ru_uuid K value of
        None \<Rightarrow> False
      | Some (version, rfc4122, s) \<Rightarrow> version = 7 \<and> rfc4122 \<and> s = value)"

definition validateFact :: "rcodec \<Rightarrow> route_fact \<Rightarrow> rerr option" where
  "validateFact K f =
     (if \<not> list_all (validUUIDv7 K) [rf_tenant f, rf_interaction f, rf_event f] then Some RInvalidFact
      else if rf_version f = 0 \<or> rf_kind f < FactReserved \<or> rf_kind f > FactTerminal then Some RInvalidFact
      else if rf_kind f = FactRinging \<and>
              (\<not> validUUIDv7 K (rf_auth f) \<or> \<not> validUUIDv7 K (rf_receipt f) \<or>
               rf_generation f \<noteq> rf_version f \<or> is_zero_time (rf_lease f))
      then Some RInvalidFact
      else if rf_kind f = FactTerminal \<and> (rf_generation f = 0 \<or> rf_generation f \<ge> rf_version f) then Some RInvalidFact
      else None)"

definition writePart :: "bytes \<Rightarrow> bytes" where
  "writePart value = be64 (int (length value) mod 2 ^ 64) @ value"

text \<open>\<open>UnixNano\<close> of an instant counted from the zero time, as \<open>uint64\<close>.\<close>

definition unix_nano :: "gtime \<Rightarrow> int" where
  "unix_nano t = (t - 62135596800000000000) mod 2 ^ 64"

definition route_preimage :: "route_fact \<Rightarrow> bytes" where
  "route_preimage f =
     concat (map writePart [rf_tenant f, rf_interaction f, rf_event f]) @ writePart (be64 (int (rf_version f))) @
     writePart [char_of (rf_kind f)] @ writePart (rf_auth f) @ writePart (rf_receipt f) @
     writePart (be64 (int (rf_generation f))) @ writePart (be64 (unix_nano (rf_lease f)))"

definition HashRouteFact :: "rcodec \<Rightarrow> route_fact \<Rightarrow> bytes" where
  "HashRouteFact K f = ru_sha256 K (route_preimage f)"

definition fold_fact :: "rcodec \<Rightarrow> route_fact \<Rightarrow> route_state \<Rightarrow> route_state" where
  "fold_fact K f s =
     (let s1 = s\<lparr>rt_version := rf_version f, rt_event := rf_event f, rt_hash := HashRouteFact K f\<rparr>
      in if rf_kind f = FactRinging
         then s1\<lparr>rt_visibility := Visible, rt_auth := rf_auth f, rt_receipt := rf_receipt f,
                 rt_generation := rf_generation f, rt_lease := rf_lease f\<rparr>
         else if rf_kind f = FactReserved \<or> rf_kind f = FactTerminal
         then (let s2 = s1\<lparr>rt_visibility := Hidden\<rparr> in if rf_kind f = FactTerminal then s2\<lparr>rt_lease := 0\<rparr> else s2)
         else s1)"

fun fold_loop :: "rcodec \<Rightarrow> string \<Rightarrow> string \<Rightarrow> route_state \<Rightarrow> route_fact list \<Rightarrow> rerr + route_state" where
  "fold_loop K tenant interaction s [] = Inr s"
| "fold_loop K tenant interaction s (f # fs) =
     (if validateFact K f \<noteq> None \<or> rf_version f \<noteq> rt_version s + 1 then Inl RInvalidReplay
      else if rf_tenant f \<noteq> tenant \<or> rf_interaction f \<noteq> interaction then Inl RInvalidReplay
      else fold_loop K tenant interaction (fold_fact K f s) fs)"

definition FoldBatch :: "rcodec \<Rightarrow> projection \<Rightarrow> route_fact list \<Rightarrow> rerr + route_state" where
  "FoldBatch K p facts =
     (let (tenant, interaction) =
            (if rp_tenant p = '''' \<and> facts \<noteq> [] then (rf_tenant (hd facts), rf_interaction (hd facts))
             else (rp_tenant p, rp_interaction p))
      in fold_loop K tenant interaction (rp_state p) facts)"

definition zero_hash :: bytes where "zero_hash = replicate 32 (CHR 0x00)"

definition validateRouteSnapshot :: "rcodec \<Rightarrow> route_snapshot \<Rightarrow> route_intent \<Rightarrow> route_fact \<Rightarrow> rerr option" where
  "validateRouteSnapshot K snapshot intent held =
     (let p = rn_projection snapshot; s = rp_state p
      in if rp_tenant p \<noteq> rf_tenant held \<or> rp_interaction p \<noteq> rf_interaction held \<or> rt_version s = 0 \<or>
            rt_version s < rx_observed intent
         then Some RInvalidReplay
         else if rn_floor snapshot = 0 \<or> rn_floor snapshot > rt_version s \<or> rn_provenance snapshot = '''' then Some RInvalidReplay
         else if \<not> validUUIDv7 K (rt_event s) \<or> rt_hash s = zero_hash then Some RInvalidReplay
         else if rt_visibility s \<noteq> Hidden \<and> rt_visibility s \<noteq> Visible then Some RInvalidReplay
         else if rt_visibility s = Visible \<and>
                 (\<not> validUUIDv7 K (rt_auth s) \<or> \<not> validUUIDv7 K (rt_receipt s) \<or>
                  rt_generation s \<noteq> rt_version s \<or> is_zero_time (rt_lease s))
         then Some RInvalidReplay
         else None)"

section \<open>The projector\<close>

record 'w route_store =
  rs_load :: "'w \<Rightarrow> string \<Rightarrow> string \<Rightarrow> nat \<Rightarrow> (rerr + projection \<times> route_identity option) \<times> 'w"
  rs_authorization :: "'w \<Rightarrow> string \<Rightarrow> string \<Rightarrow> (rerr + auth_binding option) \<times> 'w"
  rs_install :: "'w \<Rightarrow> nat \<Rightarrow> route_fact list \<Rightarrow> route_state \<Rightarrow> (rerr + bool) \<times> 'w"
  rs_begin :: "'w \<Rightarrow> route_intent \<Rightarrow> (rerr + route_intent \<times> bool) \<times> 'w"
  rs_install_reconcile :: "'w \<Rightarrow> route_intent \<Rightarrow> route_fact list \<Rightarrow> route_state \<Rightarrow> (rerr + bool) \<times> 'w"
  rs_install_historical :: "'w \<Rightarrow> route_intent \<Rightarrow> route_fact \<Rightarrow> (rerr + bool) \<times> 'w"
  rs_install_snapshot :: "'w \<Rightarrow> route_intent \<Rightarrow> route_snapshot \<Rightarrow> route_fact \<Rightarrow> (rerr + bool) \<times> 'w"
  rs_poison :: "'w \<Rightarrow> route_fact \<Rightarrow> string \<Rightarrow> rerr option \<times> 'w"

record 'w router_port =
  ro_replay :: "'w \<Rightarrow> projection_principal \<Rightarrow> string \<Rightarrow> string \<Rightarrow> nat \<Rightarrow> nat \<Rightarrow> (rerr + route_replay) \<times> 'w"
  ro_snapshot :: "'w \<Rightarrow> projection_principal \<Rightarrow> string \<Rightarrow> string \<Rightarrow> (rerr + route_snapshot) \<times> 'w"

record 'w route_projector =
  rj_codec :: rcodec
  rj_store :: "'w route_store"
  rj_router :: "'w router_port"
  rj_ids :: "'w \<Rightarrow> string \<times> 'w"

fun validateAuthorizationBindings :: "'w route_store \<Rightarrow> route_fact list \<Rightarrow> 'w \<Rightarrow> rerr option \<times> 'w" where
  "validateAuthorizationBindings store [] w = (None, w)"
| "validateAuthorizationBindings store (f # fs) w =
     (if rf_kind f \<noteq> FactRinging then validateAuthorizationBindings store fs w
      else (case rs_authorization store w (rf_tenant f) (rf_auth f) of
              (Inl e, w1) \<Rightarrow> (Some e, w1)
            | (Inr None, w1) \<Rightarrow> (Some RAuthorizationPending, w1)
            | (Inr (Some b), w1) \<Rightarrow>
                if ab_interaction b \<noteq> rf_interaction f \<or> ab_receipt b \<noteq> rf_receipt f then (Some RAuthorizationPending, w1)
                else validateAuthorizationBindings store fs w1))"

definition route_installed :: "ApplyResult \<Rightarrow> (rerr + bool) \<times> 'w \<Rightarrow> ApplyResult \<times> rerr option \<times> 'w" where
  "route_installed ok r =
     (case r of
        (Inl e, w) \<Rightarrow> (RNone, Some e, w)
      | (Inr installed, w) \<Rightarrow> if \<not> installed then (RCompareAndSetLost, None, w) else (ok, None, w))"

definition poison_divergent :: "'w route_projector \<Rightarrow> route_fact \<Rightarrow> 'w \<Rightarrow> ApplyResult \<times> rerr option \<times> 'w" where
  "poison_divergent p f w =
     (case rs_poison (rj_store p) w f ''route projection: divergent history'' of
        (Some e, w1) \<Rightarrow> (RPoisoned, Some e, w1)
      | (None, w1) \<Rightarrow> (RPoisoned, Some RDivergentHistory, w1))"

definition snapshot_fact :: "route_snapshot \<Rightarrow> route_fact" where
  "snapshot_fact snapshot =
     (let p = rn_projection snapshot
      in \<lparr>rf_tenant = rp_tenant p, rf_interaction = rp_interaction p, rf_event = '''', rf_version = 0, rf_kind = FactRinging,
          rf_auth = rt_auth (rp_state p), rf_receipt = rt_receipt (rp_state p), rf_generation = 0, rf_lease = 0\<rparr>)"

definition snapshotUnknown ::
  "'w route_projector \<Rightarrow> projection_principal \<Rightarrow> route_intent \<Rightarrow> route_fact \<Rightarrow> 'w \<Rightarrow> ApplyResult \<times> rerr option \<times> 'w" where
  "snapshotUnknown p who intent held w =
     (case ro_snapshot (rj_router p) w who (rf_tenant held) (rf_interaction held) of
        (Inl e, w1) \<Rightarrow> (RNone, Some e, w1)
      | (Inr snapshot, w1) \<Rightarrow>
          if validateRouteSnapshot (rj_codec p) snapshot intent held \<noteq> None then (RPoisoned, Some RInvalidReplay, w1)
          else
     (case (if rt_visibility (rp_state (rn_projection snapshot)) = Visible
            then validateAuthorizationBindings (rj_store p) [snapshot_fact snapshot] w1 else (None, w1)) of
        (Some e, w2) \<Rightarrow> (RNone, Some e, w2)
      | (None, w2) \<Rightarrow> route_installed RAuditedUnknownHistory (rs_install_snapshot (rj_store p) w2 intent snapshot held)))"

definition reconcile_historical ::
  "'w route_projector \<Rightarrow> route_intent \<Rightarrow> route_fact \<Rightarrow> route_replay \<Rightarrow> 'w \<Rightarrow> ApplyResult \<times> rerr option \<times> 'w" where
  "reconcile_historical p intent held replay w =
     (if length (ry_facts replay) \<noteq> 1 \<or> rf_version (hd (ry_facts replay)) \<noteq> rf_version held then (RPoisoned, Some RInvalidReplay, w)
      else
        let replayed = hd (ry_facts replay)
        in if rf_event replayed \<noteq> rf_event held \<or> HashRouteFact (rj_codec p) replayed \<noteq> HashRouteFact (rj_codec p) held
           then poison_divergent p held w
           else (case validateAuthorizationBindings (rj_store p) (ry_facts replay) w of
                   (Some e, w1) \<Rightarrow> (RNone, Some e, w1)
                 | (None, w1) \<Rightarrow> route_installed RDuplicate (rs_install_historical (rj_store p) w1 intent replayed)))"

definition reconcile_gap ::
  "'w route_projector \<Rightarrow> projection \<Rightarrow> route_intent \<Rightarrow> route_fact \<Rightarrow> route_replay \<Rightarrow> 'w \<Rightarrow> ApplyResult \<times> rerr option \<times> 'w" where
  "reconcile_gap p proj intent held replay w =
     (if list_ex (\<lambda>f. rf_tenant f \<noteq> rf_tenant held \<or> rf_interaction f \<noteq> rf_interaction held) (ry_facts replay)
      then (RPoisoned, Some RInvalidReplay, w)
      else
     (case validateAuthorizationBindings (rj_store p) (ry_facts replay) w of
        (Some e, w1) \<Rightarrow> (RNone, Some e, w1)
      | (None, w1) \<Rightarrow>
     (case FoldBatch (rj_codec p) proj (ry_facts replay) of
        Inl _ \<Rightarrow> (RPoisoned, Some RInvalidReplay, w1)
      | Inr final \<Rightarrow>
          if ry_facts replay = [] \<or> rf_version (last (ry_facts replay)) < rf_version held \<or>
             ry_head replay < rf_version (last (ry_facts replay))
          then (RPoisoned, Some RInvalidReplay, w1)
          else if \<not> list_ex (\<lambda>f. rf_version f = rf_version held \<and> rf_event f = rf_event held \<and>
                                  HashRouteFact (rj_codec p) f = HashRouteFact (rj_codec p) held) (ry_facts replay)
          then (RPoisoned, Some RInvalidReplay, w1)
          else route_installed RApplied (rs_install_reconcile (rj_store p) w1 intent (ry_facts replay) final))))"

definition route_reconcile ::
  "'w route_projector \<Rightarrow> projection \<Rightarrow> route_fact \<Rightarrow> bool \<Rightarrow> 'w \<Rightarrow> ApplyResult \<times> rerr option \<times> 'w" where
  "route_reconcile p proj held historical w =
     (let (token, w1) = rj_ids p w
      in if \<not> validUUIDv7 (rj_codec p) token then (RNone, Some RInvalidFact, w1)
         else
     (let (from, to) = (if historical then (rf_version held, rf_version held) else (rt_version (rp_state proj) + 1, rf_version held));
          intent = \<lparr>rx_token = token, rx_tenant = rf_tenant held, rx_interaction = rf_interaction held,
                    rx_observed = rt_version (rp_state proj), rx_from = from, rx_to = to, rx_event = rf_event held,
                    rx_hash = HashRouteFact (rj_codec p) held\<rparr>;
          who = \<lparr>jp_service = ''relaypoint'', jp_tenant = rf_tenant held, jp_capability = CapabilityProjectionRead\<rparr>
      in case rs_begin (rj_store p) w1 intent of
           (Inl e, w2) \<Rightarrow> (RNone, Some e, w2)
         | (Inr (intent', started), w2) \<Rightarrow>
             if \<not> started then (RCompareAndSetLost, None, w2)
             else
     (case ro_replay (rj_router p) w2 who (rf_tenant held) (rf_interaction held) from to of
        (Inl e, w3) \<Rightarrow> if e \<noteq> RUnknownHistory then (RNone, Some e, w3) else snapshotUnknown p who intent' held w3
      | (Inr replay, w3) \<Rightarrow>
          if historical then reconcile_historical p intent' held replay w3
          else reconcile_gap p proj intent' held replay w3)))"

definition route_Apply :: "'w route_projector \<Rightarrow> route_fact \<Rightarrow> 'w \<Rightarrow> ApplyResult \<times> rerr option \<times> 'w" where
  "route_Apply p f w =
     (case validateFact (rj_codec p) f of
        Some e \<Rightarrow> (RPoisoned, Some e, w)
      | None \<Rightarrow>
     (case rs_load (rj_store p) w (rf_tenant f) (rf_interaction f) (rf_version f) of
        (Inl e, w1) \<Rightarrow> (RNone, Some e, w1)
      | (Inr (proj, retained), w1) \<Rightarrow>
          if rf_version f \<le> rt_version (rp_state proj) then
            (case retained of
               None \<Rightarrow> route_reconcile p proj f True w1
             | Some i \<Rightarrow>
                 if ri_event i = rf_event f \<and> ri_hash i = HashRouteFact (rj_codec p) f then (RDuplicate, None, w1)
                 else poison_divergent p f w1)
          else if rf_version f > rt_version (rp_state proj) + 1 then route_reconcile p proj f False w1
          else
     (case validateAuthorizationBindings (rj_store p) [f] w1 of
        (Some e, w2) \<Rightarrow> (RNone, Some e, w2)
      | (None, w2) \<Rightarrow>
     (case FoldBatch (rj_codec p) proj [f] of
        Inl e \<Rightarrow> (RPoisoned, Some e, w2)
      | Inr final \<Rightarrow> route_installed RApplied (rs_install (rj_store p) w2 (rt_version (rp_state proj)) [f] final)))))"

definition route_visible :: "'w route_projector \<Rightarrow> string \<Rightarrow> string \<Rightarrow> 'w \<Rightarrow> (rerr + bool) \<times> 'w" where
  "route_visible p tenant interaction w =
     (case rs_load (rj_store p) w tenant interaction 0 of
        (Inl e, w1) \<Rightarrow> (Inl e, w1)
      | (Inr (proj, _), w1) \<Rightarrow>
          if rt_visibility (rp_state proj) \<noteq> Visible \<or> is_zero_time (rp_now proj) then (Inr False, w1)
          else (Inr (rp_now proj < rt_lease (rp_state proj)), w1))"

section \<open>The hash and the fold\<close>

lemma writePart_sized: "writePart = sized"
  by (simp add: writePart_def sized_def fun_eq_iff)

definition route_parts :: "route_fact \<Rightarrow> bytes list" where
  "route_parts f =
     [rf_tenant f, rf_interaction f, rf_event f, be64 (int (rf_version f)), [char_of (rf_kind f)], rf_auth f, rf_receipt f,
      be64 (int (rf_generation f)), be64 (unix_nano (rf_lease f))]"

lemma route_preimage_parts: "route_preimage f = concat (map sized (route_parts f))"
  by (simp add: route_preimage_def route_parts_def writePart_sized)

text \<open>Instants that \<open>UnixNano\<close> tells apart: within \<open>2^64\<close> nanoseconds from the smallest one.\<close>

definition nano_range :: "gtime \<Rightarrow> bool" where
  "nano_range t \<longleftrightarrow> 62135596800000000000 \<le> t \<and> t < 62135596800000000000 + 2 ^ 64"

lemma unix_nano_inject: "nano_range s \<Longrightarrow> nano_range t \<Longrightarrow> unix_nano s = unix_nano t \<Longrightarrow> s = t"
  by (simp add: nano_range_def unix_nano_def)

lemma fold_loop_append:
  "fold_loop K t i s (fs @ gs) = (case fold_loop K t i s fs of Inl e \<Rightarrow> Inl e | Inr s' \<Rightarrow> fold_loop K t i s' gs)"
  by (induction fs arbitrary: s) simp_all

lemma fold_fact_version [simp]: "rt_version (fold_fact K f s) = rf_version f"
  by (simp add: fold_fact_def Let_def)

lemma fold_loop_version: "fold_loop K t i s fs = Inr s' \<Longrightarrow> rt_version s' = rt_version s + length fs"
  by (induction fs arbitrary: s) (auto split: if_splits)

text \<open>What a visible state comes from: the last fact, a ringing one.\<close>

lemma fold_fact_visible:
  assumes "validateFact K f = None" "rt_visibility (fold_fact K f s) = Visible"
  shows "rf_kind f = FactRinging \<and> rt_auth (fold_fact K f s) = rf_auth f \<and> rt_receipt (fold_fact K f s) = rf_receipt f"
proof -
  have "rf_kind f = FactReserved \<or> rf_kind f = FactRinging \<or> rf_kind f = FactTerminal"
    using assms(1) by (auto simp: validateFact_def FactReserved_def FactRinging_def FactTerminal_def split: if_splits)
  then show ?thesis using assms(2)
    by (auto simp: fold_fact_def Let_def Visible_def Hidden_def FactReserved_def FactRinging_def FactTerminal_def split: if_splits)
qed

lemma fold_loop_visible:
  assumes "fold_loop K t i s fs = Inr s'" "fs \<noteq> []" "rt_visibility s' = Visible"
  shows "\<exists>f \<in> set fs. rf_kind f = FactRinging \<and> rf_tenant f = t \<and> rf_interaction f = i \<and> rt_auth s' = rf_auth f \<and> rt_receipt s' = rf_receipt f"
proof -
  obtain gs f where fs: "fs = gs @ [f]" using assms(2) by (metis rev_exhaust)
  then obtain s1 where s1: "fold_loop K t i s gs = Inr s1" "s' = fold_fact K f s1" "validateFact K f = None" "rf_tenant f = t" "rf_interaction f = i"
    using assms(1) by (auto simp: fold_loop_append split: sum.splits if_splits)
  from fold_fact_visible [OF s1(3)] s1 assms(3) have "rf_kind f = FactRinging \<and> rt_auth s' = rf_auth f \<and> rt_receipt s' = rf_receipt f" by simp
  with fs s1(4,5) show ?thesis by (intro bexI [of _ f]) simp_all
qed

end
