(* ===== verification/Delivery_Pg.thy ===== *)
theory Delivery_Pg
  imports Delivery_Worker Route_Projection "HOL-Library.AList"
begin

text \<open>
  \<open>internal/deliverypg\<close> over the tables of \<open>db/migrations/000001_baseline.up.sql\<close>: the authorization
  store and acknowledgement outbox (\<open>store.go\<close>) and the route projection (\<open>projection.go\<close>). A
  transaction is a step on the tables with the keys and checks of the migration. UUID columns hold the
  canonical text; columns that no query reads are left out. \<open>tx_ctx\<close> is what the server contributes to
  one transaction: its clock (read once), the number that the identity column draws, and the outbox rows that
  others hold locked. \<open>dg_env\<close> says for every call what others did before it and how it ends.
\<close>

section \<open>Tables\<close>

record auth_row =
  az_event :: string
  az_interaction :: string
  az_receipt :: string
  az_accepted :: gtime
  az_seq :: nat
  az_hash :: bytes

record outbox_row =
  ob_version :: nat
  ob_fencing :: string
  ob_body :: bytes
  ob_hash :: bytes
  ob_status :: string
  ob_token :: "string option"
  ob_until :: "gtime option"
  ob_attempts :: nat
  ob_next :: gtime
  ob_result :: "(string \<times> nat \<times> string) option"

record route_head =
  hd_version :: nat
  hd_event :: "string option"
  hd_hash :: "bytes option"
  hd_visibility :: string
  hd_auth :: "string option"
  hd_receipt :: "string option"
  hd_generation :: nat
  hd_lease :: "gtime option"

record route_intent_row =
  xr_interaction :: string
  xr_observed :: nat
  xr_from :: nat
  xr_to :: nat
  xr_event :: string
  xr_hash :: bytes
  xr_status :: string

record ddb =
  dd_auths :: "((string \<times> string) \<times> auth_row) list"
  dd_log :: "((string \<times> nat) \<times> (string \<times> string)) list"
  dd_outbox :: "((string \<times> string) \<times> outbox_row) list"
  dd_heads :: "((string \<times> string) \<times> route_head) list"
  dd_versions :: "((string \<times> string \<times> nat) \<times> (string \<times> bytes)) list"
  dd_events :: "((string \<times> string) \<times> (string \<times> nat \<times> bytes)) list"
  dd_intents :: "((string \<times> string) \<times> route_intent_row) list"
  dd_dlq :: "((string \<times> string \<times> string \<times> string) \<times> (nat \<times> bytes)) list"
  dd_alerts :: "((string \<times> string) \<times> string) list"

record tx_ctx =
  tc_now :: gtime
  tc_seq :: nat
  tc_locked :: "string \<Rightarrow> bool"

definition dsql_error :: derr where "dsql_error = DOther ''constraint violation''"
definition rsql_error :: rerr where "rsql_error = ROther ''constraint violation''"

definition pg_bigint :: "nat \<Rightarrow> bool" where "pg_bigint v \<longleftrightarrow> v < 2 ^ 63"

section \<open>Accepting an authorization\<close>

definition ack_of_append :: "append_input \<Rightarrow> dreceipt \<Rightarrow> ack_request" where
  "ack_of_append inp receipt =
     (let a = ai_auth inp
      in \<lparr>kq_request = rc_receipt receipt, kq_tenant = da_tenant a, kq_reservation = da_reservation a, kq_interaction = da_interaction a,
          kq_version = da_version a, kq_fencing = da_fencing a, kq_receipt = receipt\<rparr>)"

definition insert_delivery_log :: "append_input \<Rightarrow> nat \<Rightarrow> ddb \<Rightarrow> derr + ddb" where
  "insert_delivery_log inp n db =
     (let t = da_tenant (ai_auth inp); a = da_id (ai_auth inp)
      in if length (ai_hash inp) \<noteq> 32 \<or> map_of (dd_log db) (t, n) \<noteq> None \<or>
            list_ex (\<lambda>((t', _), (a', r')). t' = t \<and> (a' = a \<or> r' = ai_receipt inp)) (dd_log db)
         then Inl dsql_error
         else Inr (db\<lparr>dd_log := AList.update (t, n) (a, ai_receipt inp) (dd_log db)\<rparr>))"

definition insert_authorization :: "append_input \<Rightarrow> append_result \<Rightarrow> ddb \<Rightarrow> derr + ddb" where
  "insert_authorization inp res db =
     (let a = ai_auth inp; t = da_tenant a
      in if \<not> pg_bigint (da_version a) \<or> da_version a = 0 \<or> map_of (dd_auths db) (t, da_id a) \<noteq> None \<or>
            list_ex (\<lambda>((t', _), r). t' = t \<and> (az_event r = da_event a \<or> az_receipt r = ar_receipt res)) (dd_auths db)
         then Inl dsql_error
         else Inr (db\<lparr>dd_auths := AList.update (t, da_id a)
                \<lparr>az_event = da_event a, az_interaction = da_interaction a, az_receipt = ar_receipt res, az_accepted = ar_accepted res,
                 az_seq = ar_seq res, az_hash = ai_hash inp\<rparr> (dd_auths db)\<rparr>))"

definition insert_outbox :: "append_input \<Rightarrow> append_result \<Rightarrow> bytes \<Rightarrow> bytes \<Rightarrow> ddb \<Rightarrow> derr + ddb" where
  "insert_outbox inp res body hash db =
     (let a = ai_auth inp; k = (da_tenant a, ar_receipt res)
      in if length hash \<noteq> 32 \<or> map_of (dd_outbox db) k \<noteq> None then Inl dsql_error
         else Inr (db\<lparr>dd_outbox := AList.update k
                \<lparr>ob_version = da_version a, ob_fencing = da_fencing a, ob_body = body, ob_hash = hash, ob_status = ''pending'',
                 ob_token = None, ob_until = None, ob_attempts = 0, ob_next = ar_accepted res, ob_result = None\<rparr> (dd_outbox db)\<rparr>))"

definition tx_append :: "dcodec \<Rightarrow> tx_ctx \<Rightarrow> append_input \<Rightarrow> ddb \<Rightarrow> derr + append_result \<times> ddb" where
  "tx_append K c inp db =
     (let a = ai_auth inp
      in case map_of (dd_auths db) (da_tenant a, da_id a) of
           Some r \<Rightarrow>
             if az_hash r \<noteq> ai_hash inp then Inl ErrIdempotencyConflict
             else Inr (\<lparr>ar_receipt = az_receipt r, ar_accepted = az_accepted r, ar_seq = az_seq r\<rparr>, db)
         | None \<Rightarrow>
     (let res = \<lparr>ar_receipt = ai_receipt inp, ar_accepted = tc_now c, ar_seq = tc_seq c\<rparr>;
          receipt = receipt_of K a (ai_issuer inp) res
      in case insert_delivery_log inp (tc_seq c) db of
           Inl e \<Rightarrow> Inl e
         | Inr db1 \<Rightarrow>
     (case dk_marshal_receipt K receipt of
        None \<Rightarrow> Inl (DOther ''marshal receipt'')
      | Some body \<Rightarrow>
     (case ack_hash K (ack_of_append inp receipt) of
        Inl e \<Rightarrow> Inl e
      | Inr hash \<Rightarrow>
     (case insert_authorization inp res db1 of
        Inl e \<Rightarrow> Inl e
      | Inr db2 \<Rightarrow> (case insert_outbox inp res body hash db2 of Inl e \<Rightarrow> Inl e | Inr db3 \<Rightarrow> Inr (res, db3)))))))"

section \<open>The outbox\<close>

fun text_less :: "string \<Rightarrow> string \<Rightarrow> bool" where
  "text_less _ [] = False"
| "text_less [] (_ # _) = True"
| "text_less (c # cs) (d # ds) =
     ((of_char c :: nat) < of_char d \<or> c = d \<and> text_less cs ds)"

definition claimable :: "gtime \<Rightarrow> outbox_row \<Rightarrow> bool" where
  "claimable now r \<longleftrightarrow>
     ob_next r \<le> now \<and>
     (ob_status r = ''pending'' \<or> (ob_status r = ''claimed'' \<and> (case ob_until r of None \<Rightarrow> False | Some u \<Rightarrow> u \<le> now)))"

type_synonym outbox_entry = "(string \<times> string) \<times> outbox_row"

definition earlier :: "outbox_entry \<Rightarrow> outbox_entry \<Rightarrow> bool" where
  "earlier x y \<longleftrightarrow> ob_next (snd x) < ob_next (snd y) \<or> ob_next (snd x) = ob_next (snd y) \<and> text_less (snd (fst x)) (snd (fst y))"

fun first_candidate :: "outbox_entry list \<Rightarrow> outbox_entry option" where
  "first_candidate [] = None"
| "first_candidate (x # xs) =
     (case first_candidate xs of None \<Rightarrow> Some x | Some y \<Rightarrow> Some (if earlier y x then y else x))"

definition claimTTL :: duration where "claimTTL = 30000000000"

definition tx_claim :: "tx_ctx \<Rightarrow> string \<Rightarrow> string \<Rightarrow> ddb \<Rightarrow> derr + outbox_row \<times> ddb" where
  "tx_claim c tenant token db =
     (case first_candidate (filter (\<lambda>((t, r), row). t = tenant \<and> \<not> tc_locked c r \<and> claimable (tc_now c) row) (dd_outbox db)) of
        None \<Rightarrow> Inl DNoRows
      | Some (k, row) \<Rightarrow>
          let row' = row\<lparr>ob_status := ''claimed'', ob_token := Some token, ob_until := Some (tc_now c + claimTTL)\<rparr>
          in Inr (row', db\<lparr>dd_outbox := AList.update k row' (dd_outbox db)\<rparr>))"

definition ackDisposition :: "nat \<Rightarrow> string" where
  "ackDisposition d =
     (if d = AckApplied then ''APPLIED''
      else if d = AckAlreadyApplied then ''ALREADY_APPLIED''
      else if d = AckTerminalExpired then ''TERMINAL_EXPIRED''
      else ''UNKNOWN'')"

text \<open>The two updates apply to the row that is claimed with the given token, and fail when there is none.\<close>

definition update_claimed ::
  "string \<Rightarrow> string \<Rightarrow> string \<Rightarrow> (outbox_row \<Rightarrow> outbox_row) \<Rightarrow> ddb \<Rightarrow> derr + unit \<times> ddb" where
  "update_claimed tenant receipt token f db =
     (case map_of (dd_outbox db) (tenant, receipt) of
        None \<Rightarrow> Inl DNoRows
      | Some r \<Rightarrow>
          if ob_token r = Some token \<and> ob_status r = ''claimed''
          then Inr ((), db\<lparr>dd_outbox := AList.update (tenant, receipt) (f r) (dd_outbox db)\<rparr>)
          else Inl DNoRows)"

definition tx_complete :: "(string \<Rightarrow> bool) \<Rightarrow> string \<Rightarrow> string \<Rightarrow> string \<Rightarrow> ack_result \<Rightarrow> ddb \<Rightarrow> derr + unit \<times> ddb" where
  "tx_complete uuid_text tenant receipt token res db =
     (if \<not> pg_bigint (kr_version res) \<or> (kr_event res \<noteq> '''' \<and> \<not> uuid_text (kr_event res)) then Inl dsql_error
      else update_claimed tenant receipt token
             (\<lambda>r. r\<lparr>ob_status := ''completed'', ob_result := Some (ackDisposition (kr_disposition res), kr_version res, kr_event res),
                    ob_token := None, ob_until := None\<rparr>) db)"

definition tx_retry :: "tx_ctx \<Rightarrow> string \<Rightarrow> string \<Rightarrow> string \<Rightarrow> ddb \<Rightarrow> derr + unit \<times> ddb" where
  "tx_retry c tenant receipt token db =
     update_claimed tenant receipt token
       (\<lambda>r. r\<lparr>ob_status := ''pending'', ob_attempts := ob_attempts r + 1, ob_next := tc_now c, ob_token := None, ob_until := None\<rparr>) db"

section \<open>The route projection\<close>

definition new_route_head :: route_head where
  "new_route_head =
     \<lparr>hd_version = 0, hd_event = None, hd_hash = None, hd_visibility = ''hidden'', hd_auth = None, hd_receipt = None,
      hd_generation = 0, hd_lease = None\<rparr>"

text \<open>\<open>ensureProjectionHead\<close> and the locking read of its version.\<close>

definition lock_route_head :: "string \<Rightarrow> string \<Rightarrow> ddb \<Rightarrow> nat \<times> ddb" where
  "lock_route_head tenant interaction db =
     (case map_of (dd_heads db) (tenant, interaction) of
        Some h \<Rightarrow> (hd_version h, db)
      | None \<Rightarrow> (0, db\<lparr>dd_heads := AList.update (tenant, interaction) new_route_head (dd_heads db)\<rparr>))"

definition visibilityName :: "nat \<Rightarrow> string" where
  "visibilityName v = (if v = Visible then ''visible'' else ''hidden'')"

definition nullableTime :: "gtime \<Rightarrow> gtime option" where
  "nullableTime t = (if is_zero_time t then None else Some t)"

definition nullif :: "string \<Rightarrow> string option" where "nullif s = (if s = '''' then None else Some s)"

text \<open>\<open>copy(dst[:], src)\<close> into a 32-byte array.\<close>

definition copy32 :: "bytes \<Rightarrow> bytes" where "copy32 b = take 32 (b @ zero_hash)"

definition route_head_of :: "(gtime \<Rightarrow> gtime) \<Rightarrow> route_state \<Rightarrow> route_head" where
  "route_head_of tz s =
     \<lparr>hd_version = rt_version s, hd_event = Some (rt_event s), hd_hash = Some (rt_hash s), hd_visibility = visibilityName (rt_visibility s),
      hd_auth = nullif (rt_auth s), hd_receipt = nullif (rt_receipt s), hd_generation = rt_generation s,
      hd_lease = map_option tz (nullableTime (rt_lease s))\<rparr>"

definition set_route_head :: "(gtime \<Rightarrow> gtime) \<Rightarrow> string \<Rightarrow> string \<Rightarrow> route_state \<Rightarrow> ddb \<Rightarrow> rerr + ddb" where
  "set_route_head tz tenant interaction s db =
     (if \<not> pg_bigint (rt_version s) \<or> \<not> pg_bigint (rt_generation s) \<or> length (rt_hash s) \<noteq> 32 then Inl rsql_error
      else if map_of (dd_heads db) (tenant, interaction) = None then Inr db
      else Inr (db\<lparr>dd_heads := AList.update (tenant, interaction) (route_head_of tz s) (dd_heads db)\<rparr>))"

definition projection_of :: "string \<Rightarrow> string \<Rightarrow> gtime \<Rightarrow> route_head option \<Rightarrow> projection" where
  "projection_of tenant interaction now h =
     \<lparr>rp_tenant = tenant, rp_interaction = interaction,
      rp_state =
        (case h of
           None \<Rightarrow> \<lparr>rt_version = 0, rt_event = '''', rt_hash = zero_hash, rt_visibility = Hidden, rt_auth = '''', rt_receipt = '''',
                    rt_generation = 0, rt_lease = 0\<rparr>
         | Some r \<Rightarrow>
             \<lparr>rt_version = hd_version r, rt_event = case_option '''' id (hd_event r), rt_hash = copy32 (case_option [] id (hd_hash r)),
              rt_visibility = (if hd_visibility r = ''visible'' then Visible else Hidden), rt_auth = case_option '''' id (hd_auth r),
              rt_receipt = case_option '''' id (hd_receipt r), rt_generation = hd_generation r, rt_lease = case_option 0 id (hd_lease r)\<rparr>),
      rp_now = now\<rparr>"

definition tx_route_load :: "tx_ctx \<Rightarrow> string \<Rightarrow> string \<Rightarrow> nat \<Rightarrow> ddb \<Rightarrow> rerr + (projection \<times> route_identity option) \<times> ddb" where
  "tx_route_load c tenant interaction v db =
     (let p = projection_of tenant interaction (tc_now c) (map_of (dd_heads db) (tenant, interaction))
      in if v = 0 then Inr ((p, None), db)
         else if \<not> pg_bigint v then Inl rsql_error
         else Inr ((p, map_option (\<lambda>(e, hash). \<lparr>ri_event = e, ri_hash = copy32 hash\<rparr>) (map_of (dd_versions db) (tenant, interaction, v))), db))"

definition tx_authorization :: "string \<Rightarrow> string \<Rightarrow> ddb \<Rightarrow> rerr + auth_binding option \<times> ddb" where
  "tx_authorization tenant auth db =
     Inr (map_option (\<lambda>r. \<lparr>ab_interaction = az_interaction r, ab_receipt = az_receipt r\<rparr>) (map_of (dd_auths db) (tenant, auth)), db)"

definition pendingIntentMatches :: "string \<Rightarrow> string \<Rightarrow> string \<Rightarrow> nat \<Rightarrow> ddb \<Rightarrow> bool" where
  "pendingIntentMatches tenant token interaction observed db =
     (case map_of (dd_intents db) (tenant, token) of
        None \<Rightarrow> False
      | Some r \<Rightarrow> xr_interaction r = interaction \<and> xr_observed r = observed \<and> xr_status r = ''pending'')"

text \<open>\<open>json.Marshal\<close> fails on an instant outside the years 0 to 9999.\<close>

definition json_time :: "gtime \<Rightarrow> bool" where
  "json_time t \<longleftrightarrow> - 31622400000000000 \<le> t \<and> t < 315537897600000000000"

definition insert_route_version :: "string \<Rightarrow> string \<Rightarrow> nat \<Rightarrow> string \<Rightarrow> bytes \<Rightarrow> ddb \<Rightarrow> rerr + ddb" where
  "insert_route_version tenant interaction v e hash db =
     (if \<not> pg_bigint v \<or> v = 0 \<or> length hash \<noteq> 32 \<or> map_of (dd_versions db) (tenant, interaction, v) \<noteq> None then Inl rsql_error
      else Inr (db\<lparr>dd_versions := AList.update (tenant, interaction, v) (e, hash) (dd_versions db)\<rparr>))"

definition insert_route_event :: "string \<Rightarrow> string \<Rightarrow> nat \<Rightarrow> string \<Rightarrow> bytes \<Rightarrow> ddb \<Rightarrow> rerr + ddb" where
  "insert_route_event tenant interaction v e hash db =
     (if \<not> pg_bigint v \<or> v = 0 \<or> length hash \<noteq> 32 \<or> map_of (dd_events db) (tenant, e) \<noteq> None \<or>
         list_ex (\<lambda>((t, _), (i, v', _)). t = tenant \<and> i = interaction \<and> v' = v) (dd_events db)
      then Inl rsql_error
      else Inr (db\<lparr>dd_events := AList.update (tenant, e) (interaction, v, hash) (dd_events db)\<rparr>))"

definition insertFactLedgers :: "rcodec \<Rightarrow> string \<Rightarrow> route_fact \<Rightarrow> ddb \<Rightarrow> rerr + ddb" where
  "insertFactLedgers K app f db =
     (let hash = HashRouteFact K f
      in if \<not> json_time (rf_lease f) then Inl (ROther ''json'')
         else if rf_tenant f \<noteq> app then Inl rsql_error
         else (case insert_route_version (rf_tenant f) (rf_interaction f) (rf_version f) (rf_event f) hash db of
                 Inl e \<Rightarrow> Inl e
               | Inr db1 \<Rightarrow> insert_route_event (rf_tenant f) (rf_interaction f) (rf_version f) (rf_event f) hash db1))"

fun insert_facts :: "rcodec \<Rightarrow> string \<Rightarrow> route_fact list \<Rightarrow> ddb \<Rightarrow> rerr + ddb" where
  "insert_facts K app [] db = Inr db"
| "insert_facts K app (f # fs) db =
     (case insertFactLedgers K app f db of Inl e \<Rightarrow> Inl e | Inr db1 \<Rightarrow> insert_facts K app fs db1)"

definition set_route_intent :: "string \<Rightarrow> string \<Rightarrow> string \<Rightarrow> ddb \<Rightarrow> ddb" where
  "set_route_intent tenant token status db =
     (case map_of (dd_intents db) (tenant, token) of
        Some r \<Rightarrow>
          if xr_status r = ''pending''
          then db\<lparr>dd_intents := AList.update (tenant, token) (r\<lparr>xr_status := status\<rparr>) (dd_intents db)\<rparr> else db
      | None \<Rightarrow> db)"

text \<open>\<open>installBatchTx\<close>; the empty token means that there is no intent.\<close>

definition installBatchTx ::
  "rcodec \<Rightarrow> (gtime \<Rightarrow> gtime) \<Rightarrow> string \<Rightarrow> string \<Rightarrow> nat \<Rightarrow> route_fact list \<Rightarrow> route_state \<Rightarrow> string \<Rightarrow> ddb \<Rightarrow> rerr + bool \<times> ddb" where
  "installBatchTx K tz tenant interaction expected facts final token db =
     (let (current, db1) = lock_route_head tenant interaction db
      in if current \<noteq> expected then Inr (False, db1)
         else if token \<noteq> '''' \<and> \<not> pendingIntentMatches tenant token interaction expected db1 then Inr (False, db1)
         else (case insert_facts K tenant facts db1 of
                 Inl e \<Rightarrow> Inl e
               | Inr db2 \<Rightarrow>
                   (case set_route_head tz tenant interaction final db2 of
                      Inl e \<Rightarrow> Inl e
                    | Inr db3 \<Rightarrow> Inr (True, if token \<noteq> '''' then set_route_intent tenant token ''installed'' db3 else db3))))"

definition tx_install_batch ::
  "rcodec \<Rightarrow> (gtime \<Rightarrow> gtime) \<Rightarrow> nat \<Rightarrow> route_fact list \<Rightarrow> route_state \<Rightarrow> ddb \<Rightarrow> rerr + bool \<times> ddb" where
  "tx_install_batch K tz expected facts final db =
     installBatchTx K tz (rf_tenant (hd facts)) (rf_interaction (hd facts)) expected facts final '''' db"

definition tx_install_reconcile_batch ::
  "rcodec \<Rightarrow> (gtime \<Rightarrow> gtime) \<Rightarrow> route_intent \<Rightarrow> route_fact list \<Rightarrow> route_state \<Rightarrow> ddb \<Rightarrow> rerr + bool \<times> ddb" where
  "tx_install_reconcile_batch K tz intent facts final db =
     installBatchTx K tz (rx_tenant intent) (rx_interaction intent) (rx_observed intent) facts final (rx_token intent) db"

definition pending_route_intent :: "string \<Rightarrow> string \<Rightarrow> ddb \<Rightarrow> ((string \<times> string) \<times> route_intent_row) option" where
  "pending_route_intent tenant interaction db =
     List.find (\<lambda>((t, _), r). t = tenant \<and> xr_interaction r = interaction \<and> xr_status r = ''pending'') (dd_intents db)"

definition tx_route_begin :: "route_intent \<Rightarrow> ddb \<Rightarrow> rerr + (route_intent \<times> bool) \<times> ddb" where
  "tx_route_begin proposed db =
     (let (current, db1) = lock_route_head (rx_tenant proposed) (rx_interaction proposed) db
      in if current \<noteq> rx_observed proposed then Inr ((proposed, False), db1)
         else (case pending_route_intent (rx_tenant proposed) (rx_interaction proposed) db1 of
                 Some ((_, token), r) \<Rightarrow>
                   (let retained = proposed\<lparr>rx_token := token, rx_observed := xr_observed r, rx_from := xr_from r, rx_to := xr_to r,
                                            rx_event := xr_event r, rx_hash := copy32 (xr_hash r)\<rparr>
                    in Inr ((retained, rx_observed retained = rx_observed proposed \<and> rx_from retained = rx_from proposed \<and>
                                       rx_to retained = rx_to proposed \<and> rx_event retained = rx_event proposed \<and>
                                       rx_hash retained = rx_hash proposed), db1))
               | None \<Rightarrow>
                   if \<not> pg_bigint (rx_observed proposed) \<or> \<not> pg_bigint (rx_to proposed) \<or> rx_from proposed = 0 \<or>
                      rx_to proposed < rx_from proposed \<or> length (rx_hash proposed) \<noteq> 32 \<or>
                      map_of (dd_intents db1) (rx_tenant proposed, rx_token proposed) \<noteq> None
                   then Inl rsql_error
                   else Inr ((proposed, True), db1\<lparr>dd_intents := AList.update (rx_tenant proposed, rx_token proposed)
                          \<lparr>xr_interaction = rx_interaction proposed, xr_observed = rx_observed proposed, xr_from = rx_from proposed,
                           xr_to = rx_to proposed, xr_event = rx_event proposed, xr_hash = rx_hash proposed, xr_status = ''pending''\<rparr>
                          (dd_intents db1)\<rparr>)))"

text \<open>The common opening of the two remaining installs: the head and the pending intent.\<close>

definition lock_route_intent :: "route_intent \<Rightarrow> ddb \<Rightarrow> bool \<times> ddb" where
  "lock_route_intent intent db =
     (let (current, db1) = lock_route_head (rx_tenant intent) (rx_interaction intent) db
      in (current = rx_observed intent \<and>
          pendingIntentMatches (rx_tenant intent) (rx_token intent) (rx_interaction intent) (rx_observed intent) db1, db1))"

definition tx_install_identity :: "rcodec \<Rightarrow> route_intent \<Rightarrow> route_fact \<Rightarrow> ddb \<Rightarrow> rerr + bool \<times> ddb" where
  "tx_install_identity K intent f db =
     (let (ok, db1) = lock_route_intent intent db
      in if \<not> ok then Inr (False, db1)
         else (case insertFactLedgers K (rx_tenant intent) f db1 of
                 Inl e \<Rightarrow> Inl e
               | Inr db2 \<Rightarrow> Inr (True, set_route_intent (rx_tenant intent) (rx_token intent) ''installed'' db2)))"

definition insert_route_dlq :: "string \<Rightarrow> string \<Rightarrow> string \<Rightarrow> nat \<Rightarrow> bytes \<Rightarrow> string \<Rightarrow> ddb \<Rightarrow> rerr + ddb" where
  "insert_route_dlq tenant interaction e v hash reason db =
     (if \<not> pg_bigint v \<or> v = 0 \<or> length hash \<noteq> 32 then Inl rsql_error
      else if map_of (dd_dlq db) (tenant, interaction, e, reason) \<noteq> None then Inr db
      else Inr (db\<lparr>dd_dlq := AList.update (tenant, interaction, e, reason) (v, hash) (dd_dlq db)\<rparr>))"

definition insert_route_alert :: "string \<Rightarrow> string \<Rightarrow> string \<Rightarrow> ddb \<Rightarrow> ddb" where
  "insert_route_alert tenant token interaction db =
     (if map_of (dd_alerts db) (tenant, token) \<noteq> None then db
      else db\<lparr>dd_alerts := AList.update (tenant, token) interaction (dd_alerts db)\<rparr>)"

definition tx_install_route_snapshot ::
  "rcodec \<Rightarrow> (gtime \<Rightarrow> gtime) \<Rightarrow> route_intent \<Rightarrow> route_snapshot \<Rightarrow> route_fact \<Rightarrow> ddb \<Rightarrow> rerr + bool \<times> ddb" where
  "tx_install_route_snapshot K tz intent snapshot held db =
     (let (ok, db1) = lock_route_intent intent db; t = rx_tenant intent; i = rx_interaction intent; s = rp_state (rn_projection snapshot)
      in if \<not> ok then Inr (False, db1)
         else if \<not> pg_bigint (rn_floor snapshot) then Inl rsql_error
         else
     (case set_route_head tz t i s db1 of
        Inl e \<Rightarrow> Inl e
      | Inr db2 \<Rightarrow>
          if \<not> json_time (rt_lease s) \<or> \<not> json_time (rp_now (rn_projection snapshot)) then Inl (ROther ''json'')
          else
     (case insert_route_version t i (rt_version s) (rt_event s) (rt_hash s) db2 of
        Inl e \<Rightarrow> Inl e
      | Inr db3 \<Rightarrow>
     (case insert_route_event t i (rt_version s) (rt_event s) (rt_hash s) db3 of
        Inl e \<Rightarrow> Inl e
      | Inr db4 \<Rightarrow>
          if \<not> json_time (rf_lease held) then Inl (ROther ''json'')
          else
     (case insert_route_dlq t i (rf_event held) (rf_version held) (HashRouteFact K held) ''UNKNOWN_STALE_HISTORY'' db4 of
        Inl e \<Rightarrow> Inl e
      | Inr db5 \<Rightarrow> Inr (True, set_route_intent t (rx_token intent) ''audited'' (insert_route_alert t (rx_token intent) i db5)))))))"

definition tx_route_poison :: "rcodec \<Rightarrow> route_fact \<Rightarrow> ddb \<Rightarrow> rerr + unit \<times> ddb" where
  "tx_route_poison K f db =
     map_sum id (Pair ())
       (insert_route_dlq (rf_tenant f) (rf_interaction f) (rf_event f) (rf_version f) (HashRouteFact K f) ''DIVERGENT_HISTORY'' db)"

section \<open>Running a transaction\<close>

datatype dtx_end = DCommits | DFails string | DAnswerLost string

record dg_env =
  de_others :: "nat \<Rightarrow> ddb \<Rightarrow> ddb"
  de_ctx :: "nat \<Rightarrow> tx_ctx"
  de_end :: "nat \<Rightarrow> dtx_end"
  de_timestamptz :: "gtime \<Rightarrow> gtime"
  de_uuid_text :: "string \<Rightarrow> bool"

record dg_world =
  dg_db :: ddb
  dg_calls :: nat

definition delivery_tx :: "dg_env \<Rightarrow> (string \<Rightarrow> 'e) \<Rightarrow> (tx_ctx \<Rightarrow> ddb \<Rightarrow> 'e + 'a \<times> ddb) \<Rightarrow> dg_world \<Rightarrow> ('e + 'a) \<times> dg_world" where
  "delivery_tx E err op w =
     (let n = dg_calls w; db = de_others E n (dg_db w)
      in case de_end E n of
           DFails e \<Rightarrow> (Inl (err e), \<lparr>dg_db = db, dg_calls = Suc n\<rparr>)
         | DCommits \<Rightarrow>
             (case op (de_ctx E n) db of Inl e \<Rightarrow> (Inl e, \<lparr>dg_db = db, dg_calls = Suc n\<rparr>)
              | Inr (x, db') \<Rightarrow> (Inr x, \<lparr>dg_db = db', dg_calls = Suc n\<rparr>))
         | DAnswerLost e \<Rightarrow>
             (case op (de_ctx E n) db of Inl e' \<Rightarrow> (Inl e', \<lparr>dg_db = db, dg_calls = Suc n\<rparr>)
              | Inr (x, db') \<Rightarrow> (Inl (err e), \<lparr>dg_db = db', dg_calls = Suc n\<rparr>)))"

definition pg_dstore :: "dcodec \<Rightarrow> dg_env \<Rightarrow> dg_world dstore" where
  "pg_dstore K E = \<lparr>ds_append = (\<lambda>w inp. delivery_tx E DOther (\<lambda>c. tx_append K c inp) w)\<rparr>"

definition pg_claim :: "dcodec \<Rightarrow> dg_env \<Rightarrow> (dg_world \<Rightarrow> string \<times> dg_world) \<Rightarrow> dg_world \<Rightarrow> string \<Rightarrow> (derr + ack_claim option) \<times> dg_world" where
  "pg_claim K E newID w tenant =
     (let (token, w1) = newID w
      in case delivery_tx E DOther (\<lambda>c. tx_claim c tenant token) w1 of
           (Inl e, w2) \<Rightarrow> if e = DNoRows then (Inr None, w2) else (Inl e, w2)
         | (Inr row, w2) \<Rightarrow>
             (case dk_unmarshal_receipt K (ob_body row) of
                None \<Rightarrow> (Inl (DOther ''decode delivery receipt''), w2)
              | Some receipt \<Rightarrow>
                  (Inr (Some \<lparr>kc_receipt = receipt, kc_token = token, kc_version = ob_version row, kc_fencing = ob_fencing row,
                             kc_hash = copy32 (ob_hash row)\<rparr>), w2)))"

definition unit_result :: "('e + unit) \<times> 'w \<Rightarrow> 'e option \<times> 'w" where
  "unit_result r = (case r of (Inl e, w) \<Rightarrow> (Some e, w) | (Inr _, w) \<Rightarrow> (None, w))"

definition pg_ack_store :: "dcodec \<Rightarrow> dg_env \<Rightarrow> (dg_world \<Rightarrow> string \<times> dg_world) \<Rightarrow> dg_world ack_store" where
  "pg_ack_store K E newID =
     \<lparr>as_claim = pg_claim K E newID,
      as_complete = (\<lambda>w tenant receipt token res. unit_result (delivery_tx E DOther (\<lambda>_. tx_complete (de_uuid_text E) tenant receipt token res) w)),
      as_retry = (\<lambda>w tenant receipt token _. unit_result (delivery_tx E DOther (\<lambda>c. tx_retry c tenant receipt token) w))\<rparr>"

definition pg_route_store :: "rcodec \<Rightarrow> dg_env \<Rightarrow> dg_world route_store" where
  "pg_route_store K E =
     \<lparr>rs_load = (\<lambda>w t i v. delivery_tx E ROther (\<lambda>c. tx_route_load c t i v) w),
      rs_authorization = (\<lambda>w t a. delivery_tx E ROther (\<lambda>_. tx_authorization t a) w),
      rs_install = (\<lambda>w expected facts final.
        if facts = [] then (Inl RInvalidReplay, w)
        else delivery_tx E ROther (\<lambda>_. tx_install_batch K (de_timestamptz E) expected facts final) w),
      rs_begin = (\<lambda>w intent. delivery_tx E ROther (\<lambda>_. tx_route_begin intent) w),
      rs_install_reconcile = (\<lambda>w intent facts final.
        if facts = [] then (Inl RInvalidReplay, w)
        else delivery_tx E ROther (\<lambda>_. tx_install_reconcile_batch K (de_timestamptz E) intent facts final) w),
      rs_install_historical = (\<lambda>w intent f. delivery_tx E ROther (\<lambda>_. tx_install_identity K intent f) w),
      rs_install_snapshot = (\<lambda>w intent snapshot held. delivery_tx E ROther (\<lambda>_. tx_install_route_snapshot K (de_timestamptz E) intent snapshot held) w),
      rs_poison = (\<lambda>w f _.
        if \<not> json_time (rf_lease f) then (Some (ROther ''json''), w)
        else unit_result (delivery_tx E ROther (\<lambda>_. tx_route_poison K f) w))\<rparr>"

end
