(* ===== verification/Delivery_Laws.thy ===== *)
theory Delivery_Laws
  imports Delivery_Pg
begin

text \<open>
  What the delivery tables keep under every interleaving of transactions: accepted authorizations and
  their outbox rows stay, a completed row stays completed, and an outbox row holds the receipt that its
  hash was made from.
\<close>

section \<open>Interleavings\<close>

datatype dop =
    OpAppend tx_ctx append_input
  | OpClaim tx_ctx string string
  | OpComplete string string string ack_result
  | OpRetry tx_ctx string string string
  | OpInstall nat "route_fact list" route_state
  | OpReconcile route_intent "route_fact list" route_state
  | OpBegin route_intent
  | OpIdentity route_intent route_fact
  | OpSnapshot route_intent route_snapshot route_fact
  | OpPoison route_fact

record dsetup =
  se_codec :: dcodec
  se_rcodec :: rcodec
  se_timestamptz :: "gtime \<Rightarrow> gtime"
  se_uuid_text :: "string \<Rightarrow> bool"

definition committed_db :: "('e + 'a \<times> ddb) \<Rightarrow> ddb \<Rightarrow> ddb" where
  "committed_db r db = (case r of Inl _ \<Rightarrow> db | Inr (_, db') \<Rightarrow> db')"

fun dop_step :: "dsetup \<Rightarrow> dop \<Rightarrow> ddb \<Rightarrow> ddb" where
  "dop_step S (OpAppend c inp) db = committed_db (tx_append (se_codec S) c inp db) db"
| "dop_step S (OpClaim c t token) db = committed_db (tx_claim c t token db) db"
| "dop_step S (OpComplete t r token res) db = committed_db (tx_complete (se_uuid_text S) t r token res db) db"
| "dop_step S (OpRetry c t r token) db = committed_db (tx_retry c t r token db) db"
| "dop_step S (OpInstall e fs s) db = committed_db (tx_install_batch (se_rcodec S) (se_timestamptz S) e fs s db) db"
| "dop_step S (OpReconcile x fs s) db = committed_db (tx_install_reconcile_batch (se_rcodec S) (se_timestamptz S) x fs s db) db"
| "dop_step S (OpBegin x) db = committed_db (tx_route_begin x db) db"
| "dop_step S (OpIdentity x f) db = committed_db (tx_install_identity (se_rcodec S) x f db) db"
| "dop_step S (OpSnapshot x sn f) db = committed_db (tx_install_route_snapshot (se_rcodec S) (se_timestamptz S) x sn f db) db"
| "dop_step S (OpPoison f) db = committed_db (tx_route_poison (se_rcodec S) f db) db"

abbreviation dops :: "dsetup \<Rightarrow> dop list \<Rightarrow> ddb \<Rightarrow> ddb" where
  "dops S \<equiv> fold (dop_step S)"

section \<open>What a transaction leaves alone\<close>

definition same_delivery :: "ddb \<Rightarrow> ddb \<Rightarrow> bool" where
  "same_delivery db db' \<longleftrightarrow> dd_auths db' = dd_auths db \<and> dd_log db' = dd_log db \<and> dd_outbox db' = dd_outbox db"

lemma same_delivery_refl [simp]: "same_delivery db db"
  by (simp add: same_delivery_def)

lemma same_delivery_trans: "same_delivery a b \<Longrightarrow> same_delivery b c \<Longrightarrow> same_delivery a c"
  by (simp add: same_delivery_def)

lemma lock_route_head_same: "lock_route_head t i db = (v, db') \<Longrightarrow> same_delivery db db'"
  by (auto simp: lock_route_head_def same_delivery_def split: option.splits)

lemma insertFactLedgers_same: "insertFactLedgers K app f db = Inr db' \<Longrightarrow> same_delivery db db' \<and> dd_heads db' = dd_heads db"
  by (auto simp: insertFactLedgers_def insert_route_version_def insert_route_event_def same_delivery_def Let_def split: if_splits sum.splits)

lemma insert_facts_same: "insert_facts K app fs db = Inr db' \<Longrightarrow> same_delivery db db' \<and> dd_heads db' = dd_heads db"
proof (induction fs arbitrary: db)
  case (Cons f fs)
  then obtain db1 where "insertFactLedgers K app f db = Inr db1" "insert_facts K app fs db1 = Inr db'" by (auto split: sum.splits)
  with insertFactLedgers_same Cons.IH show ?case using same_delivery_trans by metis
qed simp

lemma set_route_intent_same: "same_delivery db (set_route_intent t token s db) \<and> dd_heads (set_route_intent t token s db) = dd_heads db"
  by (auto simp: set_route_intent_def same_delivery_def split: option.splits)

lemma set_route_head_same: "set_route_head tz t i s db = Inr db' \<Longrightarrow> same_delivery db db'"
  by (auto simp: set_route_head_def same_delivery_def split: if_splits)

lemma installBatchTx_same:
  assumes "installBatchTx K tz t i e fs s token db = Inr (x, db')"
  shows "same_delivery db db'"
proof -
  obtain v db1 where l: "lock_route_head t i db = (v, db1)" by fastforce
  note l1 = lock_route_head_same [OF l]
  from assms l consider "db' = db1" | db2 db3 where "insert_facts K t fs db1 = Inr db2" "set_route_head tz t i s db2 = Inr db3"
      "db' = (if token \<noteq> '''' then set_route_intent t token ''installed'' db3 else db3)"
    by (auto simp: installBatchTx_def split: if_splits sum.splits)
  then show ?thesis
  proof cases
    case 2
    have "same_delivery db3 db'" using 2(3) set_route_intent_same by simp
    with l1 insert_facts_same [OF 2(1)] set_route_head_same [OF 2(2)] show ?thesis using same_delivery_trans by blast
  qed (use l1 in simp)
qed

lemma tx_route_begin_same:
  assumes "tx_route_begin x db = Inr (r, db')"
  shows "same_delivery db db'"
proof -
  obtain v db1 where l: "lock_route_head (rx_tenant x) (rx_interaction x) db = (v, db1)" by fastforce
  have "same_delivery db1 db'" using assms l
    by (auto simp: tx_route_begin_def same_delivery_def Let_def split: if_splits option.splits)
  with lock_route_head_same [OF l] show ?thesis by (rule same_delivery_trans)
qed

lemma lock_route_intent_same: "lock_route_intent x db = (ok, db') \<Longrightarrow> same_delivery db db'"
  by (auto simp: lock_route_intent_def split: prod.splits dest: lock_route_head_same)

lemma tx_install_identity_same:
  assumes "tx_install_identity K x f db = Inr (r, db')"
  shows "same_delivery db db'"
proof -
  obtain ok db1 where l: "lock_route_intent x db = (ok, db1)" by fastforce
  have "same_delivery db1 db'"
  proof (cases ok)
    case False
    with assms l show ?thesis by (simp add: tx_install_identity_def)
  next
    case True
    then obtain db2 where "insertFactLedgers K (rx_tenant x) f db1 = Inr db2" "db' = set_route_intent (rx_tenant x) (rx_token x) ''installed'' db2"
      using assms l by (auto simp: tx_install_identity_def split: sum.splits)
    with insertFactLedgers_same set_route_intent_same show ?thesis using same_delivery_trans by blast
  qed
  with lock_route_intent_same [OF l] show ?thesis by (rule same_delivery_trans)
qed

lemma insert_route_dlq_same: "insert_route_dlq t i e v h reason db = Inr db' \<Longrightarrow> same_delivery db db' \<and> dd_heads db' = dd_heads db"
  by (auto simp: insert_route_dlq_def same_delivery_def split: if_splits)

lemma insert_route_rows_same:
  "insert_route_version t i v e h db = Inr db' \<Longrightarrow> same_delivery db db' \<and> dd_heads db' = dd_heads db"
  "insert_route_event t i v e h db = Inr db' \<Longrightarrow> same_delivery db db' \<and> dd_heads db' = dd_heads db"
  "same_delivery db (insert_route_alert t token i db) \<and> dd_heads (insert_route_alert t token i db) = dd_heads db"
  by (auto simp: insert_route_version_def insert_route_event_def insert_route_alert_def same_delivery_def split: if_splits)

text \<open>What the snapshot transaction does, step by step.\<close>

lemma tx_install_route_snapshot_cases:
  assumes "tx_install_route_snapshot K tz x sn f db = Inr (r, db')" "lock_route_intent x db = (ok, db1)"
  shows "db' = db1 \<and> \<not> r \<or>
    (\<exists>db2. set_route_head tz (rx_tenant x) (rx_interaction x) (rp_state (rn_projection sn)) db1 = Inr db2 \<and> same_delivery db2 db' \<and> dd_heads db' = dd_heads db2)"
proof (cases ok)
  case False
  with assms show ?thesis by (simp add: tx_install_route_snapshot_def)
next
  case True
  let ?t = "rx_tenant x" and ?i = "rx_interaction x" and ?s = "rp_state (rn_projection sn)"
  obtain db2 db3 db4 db5 where s: "set_route_head tz ?t ?i ?s db1 = Inr db2"
      "insert_route_version ?t ?i (rt_version ?s) (rt_event ?s) (rt_hash ?s) db2 = Inr db3"
      "insert_route_event ?t ?i (rt_version ?s) (rt_event ?s) (rt_hash ?s) db3 = Inr db4"
      "insert_route_dlq ?t ?i (rf_event f) (rf_version f) (HashRouteFact K f) ''UNKNOWN_STALE_HISTORY'' db4 = Inr db5"
      "db' = set_route_intent ?t (rx_token x) ''audited'' (insert_route_alert ?t (rx_token x) ?i db5)"
    using assms True by (auto simp: tx_install_route_snapshot_def Let_def split: if_splits sum.splits)
  note steps = insert_route_rows_same(1) [OF s(2)] insert_route_rows_same(2) [OF s(3)] insert_route_dlq_same [OF s(4)]
    insert_route_rows_same(3) [of db5 ?t "rx_token x" ?i] set_route_intent_same [of "insert_route_alert ?t (rx_token x) ?i db5" ?t "rx_token x" "''audited''"]
  have "same_delivery db2 db' \<and> dd_heads db' = dd_heads db2" using steps s(5) by (simp add: same_delivery_def)
  with s(1) show ?thesis by blast
qed

lemma tx_install_route_snapshot_same:
  assumes "tx_install_route_snapshot K tz x sn f db = Inr (r, db')"
  shows "same_delivery db db'"
proof -
  obtain ok db1 where l: "lock_route_intent x db = (ok, db1)" by fastforce
  have "same_delivery db1 db'"
    using tx_install_route_snapshot_cases [OF assms l] set_route_head_same same_delivery_trans by (metis same_delivery_refl)
  with lock_route_intent_same [OF l] show ?thesis by (rule same_delivery_trans)
qed

lemma tx_route_poison_same: "tx_route_poison K f db = Inr (r, db') \<Longrightarrow> same_delivery db db' \<and> dd_heads db' = dd_heads db"
  by (cases "insert_route_dlq (rf_tenant f) (rf_interaction f) (rf_event f) (rf_version f) (HashRouteFact K f) ''DIVERGENT_HISTORY'' db")
    (auto simp: tx_route_poison_def dest: insert_route_dlq_same)

text \<open>The operations of the projection leave the delivery tables alone.\<close>

fun delivery_op :: "dop \<Rightarrow> bool" where
  "delivery_op (OpAppend _ _) = True"
| "delivery_op (OpClaim _ _ _) = True"
| "delivery_op (OpComplete _ _ _ _) = True"
| "delivery_op (OpRetry _ _ _ _) = True"
| "delivery_op _ = False"

lemma projection_op_same:
  assumes "\<not> delivery_op op"
  shows "same_delivery db (dop_step S op db)"
  using assms
  by (cases op) (auto simp: committed_db_def tx_install_batch_def tx_install_reconcile_batch_def split: sum.splits
      dest!: installBatchTx_same tx_route_begin_same tx_install_identity_same tx_install_route_snapshot_same tx_route_poison_same)

section \<open>Accepting, claiming, completing\<close>

definition fresh_outbox :: "append_input \<Rightarrow> append_result \<Rightarrow> bytes \<Rightarrow> bytes \<Rightarrow> outbox_row" where
  "fresh_outbox inp res body hash =
     \<lparr>ob_version = da_version (ai_auth inp), ob_fencing = da_fencing (ai_auth inp), ob_body = body, ob_hash = hash, ob_status = ''pending'',
      ob_token = None, ob_until = None, ob_attempts = 0, ob_next = ar_accepted res, ob_result = None\<rparr>"

definition fresh_auth :: "append_input \<Rightarrow> append_result \<Rightarrow> auth_row" where
  "fresh_auth inp res =
     \<lparr>az_event = da_event (ai_auth inp), az_interaction = da_interaction (ai_auth inp), az_receipt = ar_receipt res,
      az_accepted = ar_accepted res, az_seq = ar_seq res, az_hash = ai_hash inp\<rparr>"

definition result_of_row :: "auth_row \<Rightarrow> append_result" where
  "result_of_row r = \<lparr>ar_receipt = az_receipt r, ar_accepted = az_accepted r, ar_seq = az_seq r\<rparr>"

lemma tx_append_known:
  assumes "map_of (dd_auths db) (da_tenant (ai_auth inp), da_id (ai_auth inp)) = Some r"
  shows "tx_append K c inp db = (if az_hash r = ai_hash inp then Inr (result_of_row r, db) else Inl ErrIdempotencyConflict)"
  using assms by (simp add: tx_append_def result_of_row_def)

lemma tx_append_new:
  assumes "map_of (dd_auths db) (da_tenant (ai_auth inp), da_id (ai_auth inp)) = None" "tx_append K c inp db = Inr (res, db')"
  shows "res = \<lparr>ar_receipt = ai_receipt inp, ar_accepted = tc_now c, ar_seq = tc_seq c\<rparr> \<and>
    (\<exists>body hash. dk_marshal_receipt K (receipt_of K (ai_auth inp) (ai_issuer inp) res) = Some body \<and>
       ack_hash K (ack_of_append inp (receipt_of K (ai_auth inp) (ai_issuer inp) res)) = Inr hash \<and> length hash = 32 \<and>
       map_of (dd_outbox db) (da_tenant (ai_auth inp), ar_receipt res) = None \<and>
       dd_auths db' = AList.update (da_tenant (ai_auth inp), da_id (ai_auth inp)) (fresh_auth inp res) (dd_auths db) \<and>
       dd_outbox db' = AList.update (da_tenant (ai_auth inp), ar_receipt res) (fresh_outbox inp res body hash) (dd_outbox db) \<and>
       dd_heads db' = dd_heads db)"
proof -
  let ?a = "ai_auth inp" and ?res = "\<lparr>ar_receipt = ai_receipt inp, ar_accepted = tc_now c, ar_seq = tc_seq c\<rparr>"
  let ?rc = "receipt_of K ?a (ai_issuer inp) ?res"
  note e = assms(2) [unfolded tx_append_def Let_def assms(1) option.case]
  obtain db1 where s1: "insert_delivery_log inp (tc_seq c) db = Inr db1"
    using e by (cases "insert_delivery_log inp (tc_seq c) db") simp_all
  obtain body where s2: "dk_marshal_receipt K ?rc = Some body" using e s1 by (cases "dk_marshal_receipt K ?rc") simp_all
  obtain hash where s3: "ack_hash K (ack_of_append inp ?rc) = Inr hash"
    using e s1 s2 by (cases "ack_hash K (ack_of_append inp ?rc)") simp_all
  obtain db2 where s4: "insert_authorization inp ?res db1 = Inr db2" using e s1 s2 s3 by (cases "insert_authorization inp ?res db1") simp_all
  have s5: "insert_outbox inp ?res body hash db2 = Inr db'" "res = ?res"
    using e s1 s2 s3 s4 by (cases "insert_outbox inp ?res body hash db2"; simp)+
  note s = s1 s2 s3 s4 s5
  have "dd_auths db1 = dd_auths db" "dd_outbox db1 = dd_outbox db" "dd_heads db1 = dd_heads db"
    using s(1) by (auto simp: insert_delivery_log_def Let_def split: if_splits)
  moreover have "dd_auths db2 = AList.update (da_tenant ?a, da_id ?a) (fresh_auth inp ?res) (dd_auths db1)" "dd_outbox db2 = dd_outbox db1" "dd_heads db2 = dd_heads db1"
    using s(4) by (auto simp: insert_authorization_def Let_def fresh_auth_def split: if_splits)
  moreover have "length hash = 32" "map_of (dd_outbox db2) (da_tenant ?a, ai_receipt inp) = None"
      "dd_outbox db' = AList.update (da_tenant ?a, ai_receipt inp) (fresh_outbox inp ?res body hash) (dd_outbox db2)" "dd_auths db' = dd_auths db2" "dd_heads db' = dd_heads db2"
    using s(5) by (auto simp: insert_outbox_def Let_def fresh_outbox_def split: if_splits)
  ultimately show ?thesis using s(2,3,6) by simp
qed

lemma first_candidate_in: "first_candidate xs = Some x \<Longrightarrow> x \<in> set xs"
  by (induction xs arbitrary: x) (auto split: option.splits if_splits)

lemma tx_claim_Inr:
  assumes "tx_claim c t token db = Inr (row', db')" "distinct (map fst (dd_outbox db))"
  shows "\<exists>r row. map_of (dd_outbox db) (t, r) = Some row \<and> claimable (tc_now c) row \<and> \<not> tc_locked c r \<and>
    row' = row\<lparr>ob_status := ''claimed'', ob_token := Some token, ob_until := Some (tc_now c + claimTTL)\<rparr> \<and>
    db' = db\<lparr>dd_outbox := AList.update (t, r) row' (dd_outbox db)\<rparr>"
proof -
  obtain k row where f: "first_candidate (filter (\<lambda>((t', r), row). t' = t \<and> \<not> tc_locked c r \<and> claimable (tc_now c) row) (dd_outbox db)) = Some (k, row)"
      "row' = row\<lparr>ob_status := ''claimed'', ob_token := Some token, ob_until := Some (tc_now c + claimTTL)\<rparr>"
      "db' = db\<lparr>dd_outbox := AList.update k row' (dd_outbox db)\<rparr>"
    using assms(1) by (auto simp: tx_claim_def Let_def split: option.splits)
  obtain r where k: "k = (t, r)" "(k, row) \<in> set (dd_outbox db)" "claimable (tc_now c) row" "\<not> tc_locked c r"
    using first_candidate_in [OF f(1)] by (cases k) auto
  with f assms(2) show ?thesis by (metis map_of_eq_Some_iff)
qed

lemma update_claimed_Inr:
  assumes "update_claimed t r token f db = Inr (x, db')"
  shows "\<exists>row. map_of (dd_outbox db) (t, r) = Some row \<and> ob_token row = Some token \<and> ob_status row = ''claimed'' \<and>
    db' = db\<lparr>dd_outbox := AList.update (t, r) (f row) (dd_outbox db)\<rparr>"
  using assms by (auto simp: update_claimed_def split: option.splits if_splits)

section \<open>What stays\<close>

definition same_row :: "outbox_row \<Rightarrow> outbox_row \<Rightarrow> bool" where
  "same_row r r' \<longleftrightarrow>
     ob_version r' = ob_version r \<and> ob_fencing r' = ob_fencing r \<and> ob_body r' = ob_body r \<and> ob_hash r' = ob_hash r \<and>
     (ob_status r = ''completed'' \<longrightarrow> r' = r)"

definition tables_grow :: "ddb \<Rightarrow> ddb \<Rightarrow> bool" where
  "tables_grow db db' \<longleftrightarrow>
     (\<forall>k r. map_of (dd_auths db) k = Some r \<longrightarrow> map_of (dd_auths db') k = Some r) \<and>
     (\<forall>k r. map_of (dd_outbox db) k = Some r \<longrightarrow> (\<exists>r'. map_of (dd_outbox db') k = Some r' \<and> same_row r r')) \<and>
     (distinct (map fst (dd_outbox db)) \<longrightarrow> distinct (map fst (dd_outbox db')))"

lemma same_row_trans: "same_row a b \<Longrightarrow> same_row b c \<Longrightarrow> same_row a c"
  by (auto simp: same_row_def)

lemma same_row_refl: "same_row a a"
  by (simp add: same_row_def)

lemma grows_same: "same_delivery db db' \<Longrightarrow> tables_grow db db'"
  using same_row_refl by (auto simp: tables_grow_def same_delivery_def)

lemma tables_grow_trans: "tables_grow a b \<Longrightarrow> tables_grow b c \<Longrightarrow> tables_grow a c"
  unfolding tables_grow_def using same_row_trans by meson

lemma grows_update:
  assumes "map_of (dd_outbox db) k = Some r" "same_row r r'" "db' = db\<lparr>dd_outbox := AList.update k r' (dd_outbox db)\<rparr>"
  shows "tables_grow db db'"
  using assms same_row_refl by (auto simp: tables_grow_def distinct_update)

lemma grows_append:
  assumes "tx_append K c inp db = Inr (res, db')"
  shows "tables_grow db db'"
proof (cases "map_of (dd_auths db) (da_tenant (ai_auth inp), da_id (ai_auth inp))")
  case None
  from tx_append_new [OF None assms] None show ?thesis using same_row_refl by (auto simp: tables_grow_def distinct_update)
next
  case (Some r)
  with assms tx_append_known [OF Some, of K c] grows_same show ?thesis by (auto split: if_splits)
qed

lemma grows_claim:
  assumes "tx_claim c t token db = Inr (row', db')" "distinct (map fst (dd_outbox db))"
  shows "tables_grow db db'"
proof -
  obtain r row where c: "map_of (dd_outbox db) (t, r) = Some row" "claimable (tc_now c) row"
      "row' = row\<lparr>ob_status := ''claimed'', ob_token := Some token, ob_until := Some (tc_now c + claimTTL)\<rparr>"
      "db' = db\<lparr>dd_outbox := AList.update (t, r) row' (dd_outbox db)\<rparr>" using tx_claim_Inr [OF assms] by blast
  have "same_row row row'" using c(2,3) by (auto simp: same_row_def claimable_def)
  from grows_update [OF c(1) this c(4)] show ?thesis .
qed

lemma grows_claimed:
  assumes "update_claimed t r token f db = Inr (x, db')" "\<And>row. ob_status row = ''claimed'' \<Longrightarrow> same_row row (f row)"
  shows "tables_grow db db'"
proof -
  obtain row where c: "map_of (dd_outbox db) (t, r) = Some row" "ob_status row = ''claimed''"
      "db' = db\<lparr>dd_outbox := AList.update (t, r) (f row) (dd_outbox db)\<rparr>" using update_claimed_Inr [OF assms(1)] by blast
  from grows_update [OF c(1) assms(2) [OF c(2)] c(3)] show ?thesis .
qed

lemma tx_complete_Inr: "tx_complete u t r token res db = Inr (x, db') \<Longrightarrow>
    update_claimed t r token (\<lambda>r. r\<lparr>ob_status := ''completed'', ob_result := Some (ackDisposition (kr_disposition res), kr_version res, kr_event res),
      ob_token := None, ob_until := None\<rparr>) db = Inr (x, db')"
  by (auto simp: tx_complete_def split: if_splits)

lemma dop_grows:
  assumes "distinct (map fst (dd_outbox db))"
  shows "tables_grow db (dop_step S op db)"
proof (cases "delivery_op op")
  case False
  then show ?thesis by (intro grows_same projection_op_same)
next
  case True
  have refl: "tables_grow db db" by (simp add: grows_same)
  show ?thesis
  proof (cases op)
    case (OpComplete t r token res)
    have "tables_grow db db'" if "tx_complete (se_uuid_text S) t r token res db = Inr (x, db')" for x db'
      using tx_complete_Inr [OF that] by (rule grows_claimed) (simp add: same_row_def)
    then show ?thesis using OpComplete refl by (auto simp: committed_db_def split: sum.splits)
  next
    case (OpRetry c t r token)
    have "tables_grow db db'" if "tx_retry c t r token db = Inr (x, db')" for x db'
      using that unfolding tx_retry_def by (rule grows_claimed) (simp add: same_row_def)
    then show ?thesis using OpRetry refl by (auto simp: committed_db_def split: sum.splits)
  qed (use True refl assms in \<open>auto simp: committed_db_def split: sum.splits dest: grows_append grows_claim\<close>)
qed

lemma dops_grow:
  assumes "distinct (map fst (dd_outbox db))"
  shows "tables_grow db (dops S ops db)"
  using assms
proof (induction ops arbitrary: db)
  case (Cons op ops)
  have g: "tables_grow db (dop_step S op db)" by (rule dop_grows [OF Cons.prems])
  then have "distinct (map fst (dd_outbox (dop_step S op db)))" using Cons.prems by (simp add: tables_grow_def)
  from tables_grow_trans [OF g Cons.IH [OF this]] show ?case by simp
qed (simp add: grows_same)

section \<open>Receipts in the outbox\<close>

text \<open>The claim that the outbox row of a receipt gives.\<close>

definition row_claim :: "dreceipt \<Rightarrow> outbox_row \<Rightarrow> ack_claim" where
  "row_claim rc ob = \<lparr>kc_receipt = rc, kc_token = case_option '''' id (ob_token ob), kc_version = ob_version ob, kc_fencing = ob_fencing ob, kc_hash = ob_hash ob\<rparr>"

definition receipt_in :: "dcodec \<Rightarrow> string \<times> string \<Rightarrow> outbox_row \<Rightarrow> dreceipt \<Rightarrow> bool" where
  "receipt_in K k ob rc \<longleftrightarrow>
     dk_marshal_receipt K rc = Some (ob_body ob) \<and> rc_tenant rc = fst k \<and> rc_receipt rc = snd k \<and> length (ob_hash ob) = 32 \<and>
     ack_hash K (claim_request (row_claim rc ob)) = Inr (ob_hash ob)"

definition auth_queued :: "dcodec \<Rightarrow> string \<times> string \<Rightarrow> auth_row \<Rightarrow> ddb \<Rightarrow> bool" where
  "auth_queued K k row db \<longleftrightarrow>
     (\<exists>ob rc. map_of (dd_outbox db) (fst k, az_receipt row) = Some ob \<and> receipt_in K (fst k, az_receipt row) ob rc \<and>
        rc_auth rc = snd k \<and> rc_interaction rc = az_interaction row \<and> rc_seq rc = az_seq row)"

definition delivery_ok :: "dcodec \<Rightarrow> ddb \<Rightarrow> bool" where
  "delivery_ok K db \<longleftrightarrow>
     distinct (map fst (dd_outbox db)) \<and>
     (\<forall>k row. map_of (dd_auths db) k = Some row \<longrightarrow> auth_queued K k row db) \<and>
     (\<forall>k ob. map_of (dd_outbox db) k = Some ob \<longrightarrow> (\<exists>rc. receipt_in K k ob rc \<and>
        (\<exists>row. map_of (dd_auths db) (fst k, rc_auth rc) = Some row \<and> az_receipt row = snd k \<and> az_interaction row = rc_interaction rc)))"

lemma receipt_in_same_row: "same_row ob ob' \<Longrightarrow> receipt_in K k ob rc \<Longrightarrow> receipt_in K k ob' rc"
  unfolding receipt_in_def same_row_def by (auto simp: row_claim_def claim_request_def)

lemma auth_queued_grows:
  assumes "tables_grow db db'" "auth_queued K k row db"
  shows "auth_queued K k row db'"
proof -
  obtain ob rc where q: "map_of (dd_outbox db) (fst k, az_receipt row) = Some ob" "receipt_in K (fst k, az_receipt row) ob rc" "rc_auth rc = snd k"
      "rc_interaction rc = az_interaction row" "rc_seq rc = az_seq row" using assms(2) by (auto simp: auth_queued_def)
  then obtain ob' where "map_of (dd_outbox db') (fst k, az_receipt row) = Some ob'" "same_row ob ob'" using assms(1) unfolding tables_grow_def by blast
  with q receipt_in_same_row show ?thesis unfolding auth_queued_def by blast
qed

text \<open>A step that adds no authorization and no outbox row keeps the invariant.\<close>

lemma delivery_ok_update:
  assumes "delivery_ok K db" "tables_grow db db'" "dd_auths db' = dd_auths db" "\<And>k. map_of (dd_outbox db') k \<noteq> None \<Longrightarrow> map_of (dd_outbox db) k \<noteq> None"
  shows "delivery_ok K db'"
  unfolding delivery_ok_def
proof (intro conjI allI impI)
  show "distinct (map fst (dd_outbox db'))" using assms(1,2) by (simp add: delivery_ok_def tables_grow_def)
next
  fix k row
  assume "map_of (dd_auths db') k = Some row"
  then have "auth_queued K k row db" using assms(1,3) unfolding delivery_ok_def by metis
  with assms(2) show "auth_queued K k row db'" by (rule auth_queued_grows)
next
  fix k ob'
  assume ob': "map_of (dd_outbox db') k = Some ob'"
  then obtain ob where ob: "map_of (dd_outbox db) k = Some ob" using assms(4) [of k] by auto
  then obtain rc row where rc: "receipt_in K k ob rc" "map_of (dd_auths db) (fst k, rc_auth rc) = Some row" "az_receipt row = snd k" "az_interaction row = rc_interaction rc"
    using assms(1) unfolding delivery_ok_def by blast
  have "same_row ob ob'" using assms(2) ob ob' unfolding tables_grow_def by (metis option.inject)
  from receipt_in_same_row [OF this rc(1)] rc assms(3) show "\<exists>rc. receipt_in K k ob' rc \<and>
        (\<exists>row. map_of (dd_auths db') (fst k, rc_auth rc) = Some row \<and> az_receipt row = snd k \<and> az_interaction row = rc_interaction rc)" by auto
qed

lemma delivery_ok_append:
  assumes "delivery_ok K db" "tx_append K c inp db = Inr (res, db')"
  shows "delivery_ok K db'"
proof (cases "map_of (dd_auths db) (da_tenant (ai_auth inp), da_id (ai_auth inp))")
  case (Some r)
  with assms tx_append_known [OF Some, of K c] show ?thesis by (auto split: if_splits)
next
  case None
  let ?a = "ai_auth inp" and ?rc = "receipt_of K (ai_auth inp) (ai_issuer inp) res"
  obtain body hash where n: "dk_marshal_receipt K ?rc = Some body" "ack_hash K (ack_of_append inp ?rc) = Inr hash" "length hash = 32"
      "map_of (dd_outbox db) (da_tenant ?a, ar_receipt res) = None"
      "dd_auths db' = AList.update (da_tenant ?a, da_id ?a) (fresh_auth inp res) (dd_auths db)"
      "dd_outbox db' = AList.update (da_tenant ?a, ar_receipt res) (fresh_outbox inp res body hash) (dd_outbox db)"
    using tx_append_new [OF None assms(2)] by blast
  note g = grows_append [OF assms(2)]
  have "claim_request (row_claim ?rc (fresh_outbox inp res body hash)) = ack_of_append inp ?rc"
    by (simp add: fresh_outbox_def row_claim_def claim_request_def receipt_of_def ack_of_append_def Let_def)
  then have rin: "receipt_in K (da_tenant ?a, ar_receipt res) (fresh_outbox inp res body hash) ?rc"
    using n(1,2,3) by (simp add: receipt_in_def) (simp add: fresh_outbox_def receipt_of_def)
  have f: "rc_auth ?rc = da_id ?a" "rc_interaction ?rc = da_interaction ?a" "rc_seq ?rc = ar_seq res" by (simp_all add: receipt_of_def)
  show ?thesis unfolding delivery_ok_def
  proof (intro conjI allI impI)
    show "distinct (map fst (dd_outbox db'))" using assms(1) g by (simp add: delivery_ok_def tables_grow_def)
  next
    fix k row
    assume row: "map_of (dd_auths db') k = Some row"
    show "auth_queued K k row db'"
    proof (cases "k = (da_tenant ?a, da_id ?a)")
      case True
      with row n(5) have "row = fresh_auth inp res" by simp
      with True n(6) rin f show ?thesis unfolding auth_queued_def
        by (intro exI [of _ "fresh_outbox inp res body hash"] exI [of _ ?rc]) (simp add: fresh_auth_def)
    next
      case False
      with row n(5) have "map_of (dd_auths db) k = Some row" by simp
      then have "auth_queued K k row db" using assms(1) unfolding delivery_ok_def by blast
      with g show ?thesis by (rule auth_queued_grows)
    qed
  next
    fix k ob
    assume ob: "map_of (dd_outbox db') k = Some ob"
    show "\<exists>rc. receipt_in K k ob rc \<and>
        (\<exists>row. map_of (dd_auths db') (fst k, rc_auth rc) = Some row \<and> az_receipt row = snd k \<and> az_interaction row = rc_interaction rc)"
    proof (cases "k = (da_tenant ?a, ar_receipt res)")
      case True
      with ob n(6) have "ob = fresh_outbox inp res body hash" by simp
      with True rin f n(5) show ?thesis by (intro exI [of _ ?rc]) (simp add: fresh_auth_def)
    next
      case False
      with ob n(6) have "map_of (dd_outbox db) k = Some ob" by simp
      then obtain rc row where "receipt_in K k ob rc" "map_of (dd_auths db) (fst k, rc_auth rc) = Some row" "az_receipt row = snd k" "az_interaction row = rc_interaction rc"
        using assms(1) unfolding delivery_ok_def by blast
      with g show ?thesis unfolding tables_grow_def by blast
    qed
  qed
qed

lemma delivery_ok_step:
  assumes "delivery_ok (se_codec S) db"
  shows "delivery_ok (se_codec S) (dop_step S op db)"
proof -
  have d: "distinct (map fst (dd_outbox db))" using assms by (simp add: delivery_ok_def)
  have upd: "delivery_ok (se_codec S) db'" if "tables_grow db db'" "db' = db\<lparr>dd_outbox := AList.update k r (dd_outbox db)\<rparr>" "map_of (dd_outbox db) k \<noteq> None" for db' k r
    by (rule delivery_ok_update [OF assms that(1)]) (use that(2,3) in \<open>auto split: if_splits\<close>)
  note g = dop_grows [OF d, of S op]
  have other: ?thesis if "\<not> delivery_op op"
    by (rule delivery_ok_update [OF assms g]) (use projection_op_same [OF that, of db S] in \<open>simp_all add: same_delivery_def\<close>)
  show ?thesis
  proof (cases op)
    case (OpAppend c inp)
    then show ?thesis using assms by (auto simp: committed_db_def split: sum.splits dest: delivery_ok_append)
  next
    case (OpClaim c t token)
    show ?thesis
    proof (cases "tx_claim c t token db")
      case (Inr x)
      then obtain row' db' where x: "tx_claim c t token db = Inr (row', db')" by (cases x) auto
      from tx_claim_Inr [OF this d] g OpClaim x show ?thesis by (auto simp: committed_db_def intro: upd)
    qed (use assms OpClaim in \<open>simp add: committed_db_def\<close>)
  next
    case (OpComplete t r token res)
    show ?thesis
    proof (cases "tx_complete (se_uuid_text S) t r token res db")
      case (Inr x)
      then obtain y db' where x: "tx_complete (se_uuid_text S) t r token res db = Inr (y, db')" by (cases x) auto
      from update_claimed_Inr [OF tx_complete_Inr [OF x]] g OpComplete x show ?thesis by (auto simp: committed_db_def intro: upd)
    qed (use assms OpComplete in \<open>simp add: committed_db_def\<close>)
  next
    case (OpRetry c t r token)
    show ?thesis
    proof (cases "tx_retry c t r token db")
      case (Inr x)
      then obtain y db' where x: "tx_retry c t r token db = Inr (y, db')" by (cases x) auto
      from update_claimed_Inr [OF x [unfolded tx_retry_def]] g OpRetry x show ?thesis by (auto simp: committed_db_def intro: upd)
    qed (use assms OpRetry in \<open>simp add: committed_db_def\<close>)
  qed (use other in simp_all)
qed

lemma delivery_ok_dops: "delivery_ok (se_codec S) db \<Longrightarrow> delivery_ok (se_codec S) (dops S ops db)"
  by (induction ops arbitrary: db) (simp_all add: delivery_ok_step)

end
