(* ===== verification/Route_Laws.thy ===== *)
theory Route_Laws
  imports Delivery_Laws
begin

text \<open>
  A route becomes visible only under an accepted delivery authorization. The locale \<open>route_env\<close> states
  what the projector relies on (a store whose authorizations stay and whose heads are written as asked),
  and proves that \<open>Apply\<close> keeps it; the Postgres store with other services running in between is one.
\<close>

section \<open>What the projector relies on\<close>

locale route_env =
  fixes p :: "'w route_projector" and inv :: "'w \<Rightarrow> bool" and later :: "'w \<Rightarrow> 'w \<Rightarrow> bool"
    and bound :: "'w \<Rightarrow> string \<Rightarrow> string \<Rightarrow> auth_binding \<Rightarrow> bool"
  assumes later_refl: "later w w"
    and later_trans: "later w w1 \<Longrightarrow> later w1 w2 \<Longrightarrow> later w w2"
    and bound_later: "later w w1 \<Longrightarrow> bound w t a b \<Longrightarrow> bound w1 t a b"
    and load: "inv w \<Longrightarrow> rs_load (rj_store p) w t i v = (r1, w') \<Longrightarrow> inv w' \<and> later w w' \<and>
      (\<forall>proj x. r1 = Inr (proj, x) \<longrightarrow> rp_tenant proj = t \<and> rp_interaction proj = i)"
    and authorization: "inv w \<Longrightarrow> rs_authorization (rj_store p) w t a = (r2, w') \<Longrightarrow> inv w' \<and> later w w' \<and>
      (\<forall>b. r2 = Inr (Some b) \<longrightarrow> bound w' t a b)"
    and install: "inv w \<Longrightarrow> rs_install (rj_store p) w e fs s = (r3, w') \<Longrightarrow>
      rt_visibility s = Visible \<longrightarrow> bound w (rf_tenant (hd fs)) (rt_auth s) \<lparr>ab_interaction = rf_interaction (hd fs), ab_receipt = rt_receipt s\<rparr> \<Longrightarrow>
      inv w' \<and> later w w'"
    and begin_law: "inv w \<Longrightarrow> rs_begin (rj_store p) w x = (r4, w') \<Longrightarrow> inv w' \<and> later w w' \<and>
      (\<forall>x' started. r4 = Inr (x', started) \<longrightarrow> rx_tenant x' = rx_tenant x \<and> rx_interaction x' = rx_interaction x)"
    and install_reconcile: "inv w \<Longrightarrow> rs_install_reconcile (rj_store p) w x fs s = (r5, w') \<Longrightarrow>
      rt_visibility s = Visible \<longrightarrow> bound w (rx_tenant x) (rt_auth s) \<lparr>ab_interaction = rx_interaction x, ab_receipt = rt_receipt s\<rparr> \<Longrightarrow>
      inv w' \<and> later w w'"
    and install_historical: "inv w \<Longrightarrow> rs_install_historical (rj_store p) w x f = (r6, w') \<Longrightarrow> inv w' \<and> later w w'"
    and install_snapshot: "inv w \<Longrightarrow> rs_install_snapshot (rj_store p) w x sn f = (r7, w') \<Longrightarrow>
      rt_visibility (rp_state (rn_projection sn)) = Visible \<longrightarrow>
        bound w (rx_tenant x) (rt_auth (rp_state (rn_projection sn)))
          \<lparr>ab_interaction = rx_interaction x, ab_receipt = rt_receipt (rp_state (rn_projection sn))\<rparr> \<Longrightarrow>
      inv w' \<and> later w w'"
    and poison: "inv w \<Longrightarrow> rs_poison (rj_store p) w f reason = (r8, w') \<Longrightarrow> inv w' \<and> later w w'"
    and ids: "inv w \<Longrightarrow> rj_ids p w = (token, w') \<Longrightarrow> inv w' \<and> later w w'"
    and replay: "inv w \<Longrightarrow> ro_replay (rj_router p) w who t i m n = (r9, w') \<Longrightarrow> inv w' \<and> later w w'"
    and snapshot: "inv w \<Longrightarrow> ro_snapshot (rj_router p) w who t i = (r10, w') \<Longrightarrow> inv w' \<and> later w w'"
begin

definition fine :: "'w \<Rightarrow> 'w \<Rightarrow> bool" where
  "fine w w' \<longleftrightarrow> inv w' \<and> later w w'"

lemma fine_trans: "fine w w1 \<Longrightarrow> fine w1 w2 \<Longrightarrow> fine w w2"
  unfolding fine_def using later_trans by blast

lemma fine_inv: "fine w w1 \<Longrightarrow> inv w1"
  by (simp add: fine_def)

lemma route_installed_fine: "route_installed ok (r, w1) = (res, err, w') \<Longrightarrow> w' = w1"
  by (auto simp: route_installed_def split: sum.splits if_splits)

text \<open>When the bindings validate, every ringing fact is bound, and stays so.\<close>

lemma bindings_fine:
  assumes "inv w" "validateAuthorizationBindings (rj_store p) fs w = (err, w')"
  shows "fine w w' \<and> (err = None \<longrightarrow> (\<forall>f \<in> set fs. rf_kind f = FactRinging \<longrightarrow>
    bound w' (rf_tenant f) (rf_auth f) \<lparr>ab_interaction = rf_interaction f, ab_receipt = rf_receipt f\<rparr>))"
  using assms
proof (induction fs arbitrary: w)
  case Nil
  then show ?case by (simp add: fine_def later_refl)
next
  case (Cons f fs)
  show ?case
  proof (cases "rf_kind f = FactRinging")
    case False
    with Cons.prems(2) have r: "validateAuthorizationBindings (rj_store p) fs w = (err, w')" by simp
    from Cons.IH [OF Cons.prems(1) r] False show ?thesis by auto
  next
    case True
    obtain r w1 where a: "rs_authorization (rj_store p) w (rf_tenant f) (rf_auth f) = (r, w1)" by fastforce
    note au = authorization [OF Cons.prems(1) a]
    have f1: "fine w w1" using au by (simp add: fine_def)
    show ?thesis
    proof (cases "\<exists>b. r = Inr (Some b) \<and> ab_interaction b = rf_interaction f \<and> ab_receipt b = rf_receipt f")
      case True
      then obtain b where b: "r = Inr (Some b)" "b = \<lparr>ab_interaction = rf_interaction f, ab_receipt = rf_receipt f\<rparr>" by (metis auth_binding.equality unit.exhaust auth_binding.select_convs)
      have rest: "validateAuthorizationBindings (rj_store p) fs w1 = (err, w')" using Cons.prems(2) \<open>rf_kind f = FactRinging\<close> a b by simp
      note ih = Cons.IH [OF fine_inv [OF f1] rest]
      have "bound w1 (rf_tenant f) (rf_auth f) \<lparr>ab_interaction = rf_interaction f, ab_receipt = rf_receipt f\<rparr>" using au b by simp
      then have "bound w' (rf_tenant f) (rf_auth f) \<lparr>ab_interaction = rf_interaction f, ab_receipt = rf_receipt f\<rparr>"
        using bound_later ih unfolding fine_def by blast
      with ih fine_trans [OF f1] show ?thesis by auto
    next
      case False
      with Cons.prems(2) \<open>rf_kind f = FactRinging\<close> a have "w' = w1 \<and> err \<noteq> None" by (auto split: sum.splits option.splits if_splits)
      with f1 show ?thesis by auto
    qed
  qed
qed

lemma poison_fine:
  assumes "inv w" "poison_divergent p f w = (res, err, w')"
  shows "fine w w'"
  using assms poison [OF assms(1)] by (auto simp: poison_divergent_def fine_def split: prod.splits option.splits)

lemma snapshotUnknown_fine:
  assumes "inv w" "snapshotUnknown p who x held w = (res, err, w')" "rx_tenant x = rf_tenant held" "rx_interaction x = rf_interaction held"
  shows "fine w w'"
proof -
  obtain r w1 where a: "ro_snapshot (rj_router p) w who (rf_tenant held) (rf_interaction held) = (r, w1)" by fastforce
  have f1: "fine w w1" using snapshot [OF assms(1) a] by (simp add: fine_def)
  show ?thesis
  proof (cases "\<exists>sn. r = Inr sn \<and> validateRouteSnapshot (rj_codec p) sn x held = None")
    case False
    with assms(2) a have "w' = w1" by (auto simp: snapshotUnknown_def split: sum.splits if_splits)
    with f1 show ?thesis by simp
  next
    case True
    then obtain sn where sn: "r = Inr sn" "validateRouteSnapshot (rj_codec p) sn x held = None" by blast
    let ?s = "rp_state (rn_projection sn)"
    have key: "rp_tenant (rn_projection sn) = rf_tenant held" "rp_interaction (rn_projection sn) = rf_interaction held"
      using sn(2) by (auto simp: validateRouteSnapshot_def Let_def split: if_splits)
    obtain err2 w2 where b: "(if rt_visibility ?s = Visible then validateAuthorizationBindings (rj_store p) [snapshot_fact sn] w1 else (None, w1)) = (err2, w2)" by fastforce
    have f2: "fine w1 w2 \<and> (err2 = None \<longrightarrow> rt_visibility ?s = Visible \<longrightarrow>
        bound w2 (rx_tenant x) (rt_auth ?s) \<lparr>ab_interaction = rx_interaction x, ab_receipt = rt_receipt ?s\<rparr>)"
    proof (cases "rt_visibility ?s = Visible")
      case True
      with b have "validateAuthorizationBindings (rj_store p) [snapshot_fact sn] w1 = (err2, w2)" by simp
      from bindings_fine [OF fine_inv [OF f1] this] show ?thesis by (simp add: snapshot_fact_def Let_def key assms(3,4))
    next
      case False
      with b fine_inv [OF f1] show ?thesis by (simp add: fine_def later_refl)
    qed
    have f02: "fine w w2" using fine_trans [OF f1] f2 by blast
    show ?thesis
    proof (cases err2)
      case (Some e)
      with assms(2) a sn b have "w' = w2" by (simp add: snapshotUnknown_def)
      with f02 show ?thesis by simp
    next
      case None
      obtain r3 w3 where i: "rs_install_snapshot (rj_store p) w2 x sn held = (r3, w3)" by fastforce
      have "route_installed RAuditedUnknownHistory (r3, w3) = (res, err, w')" using assms(2) a sn b None i by (simp add: snapshotUnknown_def)
      from route_installed_fine [OF this] have "w' = w3" .
      with install_snapshot [OF fine_inv [OF f02] i] f2 None have "fine w2 w'" by (simp add: fine_def)
      with fine_trans [OF f02] show ?thesis by blast
    qed
  qed
qed

lemma reconcile_historical_fine:
  assumes "inv w" "reconcile_historical p x held replay w = (res, err, w')"
  shows "fine w w'"
proof -
  let ?f = "hd (ry_facts replay)"
  have w0: "fine w w" using assms(1) by (simp add: fine_def later_refl)
  obtain err2 w2 where b: "validateAuthorizationBindings (rj_store p) (ry_facts replay) w = (err2, w2)" by fastforce
  note f2 = conjunct1 [OF bindings_fine [OF assms(1) b]]
  obtain r3 w3 where i: "rs_install_historical (rj_store p) w2 x ?f = (r3, w3)" by fastforce
  have f3: "fine w w3" using install_historical [OF fine_inv [OF f2] i] fine_trans [OF f2] by (simp add: fine_def)
  from assms(2) b i consider "w' = w" | "poison_divergent p held w = (res, err, w')" | "w' = w2" | "route_installed RDuplicate (r3, w3) = (res, err, w')"
    by (auto simp: reconcile_historical_def Let_def split: if_splits option.splits)
  then show ?thesis
  proof cases
    case 2
    show ?thesis by (rule poison_fine [OF assms(1) 2])
  next
    case 4
    from route_installed_fine [OF this] f3 show ?thesis by simp
  qed (use w0 f2 in simp_all)
qed

lemma reconcile_gap_fine:
  assumes "inv w" "reconcile_gap p proj x held replay w = (res, err, w')" "rx_tenant x = rf_tenant held" "rx_interaction x = rf_interaction held"
  shows "fine w w'"
proof -
  let ?fs = "ry_facts replay"
  have w0: "fine w w" using assms(1) by (simp add: fine_def later_refl)
  obtain err2 w2 where b: "validateAuthorizationBindings (rj_store p) ?fs w = (err2, w2)" by fastforce
  note bf = bindings_fine [OF assms(1) b]
  note f2 = conjunct1 [OF bf]
  show ?thesis
  proof (cases "w' = w \<or> w' = w2")
    case True
    with w0 f2 show ?thesis by auto
  next
    case False
    with assms(2) b obtain s where s: "err2 = None" "FoldBatch (rj_codec p) proj ?fs = Inr s" "?fs \<noteq> []"
        "route_installed RApplied (rs_install_reconcile (rj_store p) w2 x ?fs s) = (res, err, w')"
        "\<not> list_ex (\<lambda>f. rf_tenant f \<noteq> rf_tenant held \<or> rf_interaction f \<noteq> rf_interaction held) ?fs"
      by (auto simp: reconcile_gap_def split: if_splits option.splits sum.splits)
    obtain r3 w3 where i: "rs_install_reconcile (rj_store p) w2 x ?fs s = (r3, w3)" by fastforce
    have "rt_visibility s = Visible \<longrightarrow> bound w2 (rx_tenant x) (rt_auth s) \<lparr>ab_interaction = rx_interaction x, ab_receipt = rt_receipt s\<rparr>"
    proof
      assume vis: "rt_visibility s = Visible"
      obtain t i where "fold_loop (rj_codec p) t i (rp_state proj) ?fs = Inr s" using s(2) by (auto simp: FoldBatch_def split: prod.splits)
      from fold_loop_visible [OF this s(3) vis] obtain f where f: "f \<in> set ?fs" "rf_kind f = FactRinging" "rt_auth s = rf_auth f" "rt_receipt s = rf_receipt f" by blast
      have "rf_tenant f = rf_tenant held" "rf_interaction f = rf_interaction held" using s(5) f(1) by (auto simp: list_ex_iff)
      with bf s(1) f assms(3,4) show "bound w2 (rx_tenant x) (rt_auth s) \<lparr>ab_interaction = rx_interaction x, ab_receipt = rt_receipt s\<rparr>" by auto
    qed
    from install_reconcile [OF fine_inv [OF f2] i this] have "fine w2 w3" by (simp add: fine_def)
    moreover have "w' = w3" using s(4) i route_installed_fine by simp
    ultimately show ?thesis using fine_trans [OF f2] by blast
  qed
qed

lemma route_reconcile_fine:
  assumes "inv w" "route_reconcile p proj held historical w = (res, err, w')"
  shows "fine w w'"
proof -
  obtain token w1 where t: "rj_ids p w = (token, w1)" by fastforce
  have f1: "fine w w1" using ids [OF assms(1) t] by (simp add: fine_def)
  define a where "a = (if historical then rf_version held else rt_version (rp_state proj) + 1)"
  define x where "x = \<lparr>rx_token = token, rx_tenant = rf_tenant held, rx_interaction = rf_interaction held,
      rx_observed = rt_version (rp_state proj), rx_from = a, rx_to = rf_version held, rx_event = rf_event held, rx_hash = HashRouteFact (rj_codec p) held\<rparr>"
  let ?who = "\<lparr>jp_service = ''relaypoint'', jp_tenant = rf_tenant held, jp_capability = CapabilityProjectionRead\<rparr>"
  obtain rb w2 where b: "rs_begin (rj_store p) w1 x = (rb, w2)" by fastforce
  note bl = begin_law [OF fine_inv [OF f1] b]
  have f2: "fine w w2" using bl fine_trans [OF f1] by (simp add: fine_def)
  obtain r3 w3 where r: "ro_replay (rj_router p) w2 ?who (rf_tenant held) (rf_interaction held) a (rf_version held) = (r3, w3)" by fastforce
  have f3: "fine w w3" using replay [OF fine_inv [OF f2] r] fine_trans [OF f2] by (simp add: fine_def)
  have re: "route_reconcile p proj held historical w =
      (if \<not> validUUIDv7 (rj_codec p) token then (RNone, Some RInvalidFact, w1)
       else (case rb of
               Inl e \<Rightarrow> (RNone, Some e, w2)
             | Inr (x', started) \<Rightarrow>
                 if \<not> started then (RCompareAndSetLost, None, w2)
                 else (case r3 of
                         Inl e \<Rightarrow> if e \<noteq> RUnknownHistory then (RNone, Some e, w3) else snapshotUnknown p ?who x' held w3
                       | Inr rp \<Rightarrow> if historical then reconcile_historical p x' held rp w3 else reconcile_gap p proj x' held rp w3)))"
    using t b r by (auto simp: route_reconcile_def Let_def x_def a_def split: sum.splits)
  show ?thesis
  proof (cases "w' = w1 \<or> w' = w2 \<or> w' = w3")
    case True
    with f1 f2 f3 show ?thesis by auto
  next
    case False
    note eq = re [symmetric, unfolded assms(2)]
    have v: "validUUIDv7 (rj_codec p) token" using eq False by (cases "validUUIDv7 (rj_codec p) token") simp_all
    obtain x' where x': "rb = Inr (x', True)" using eq False v by (cases rb) (auto split: if_splits)
    then have key: "rx_tenant x' = rf_tenant held" "rx_interaction x' = rf_interaction held" using bl by (auto simp: x_def)
    have "fine w3 w'"
    proof (cases r3)
      case (Inl e)
      then have "snapshotUnknown p ?who x' held w3 = (res, err, w')" using eq False v x' by (cases "e = RUnknownHistory") simp_all
      from snapshotUnknown_fine [OF fine_inv [OF f3] this key] show ?thesis .
    next
      case (Inr rp)
      show ?thesis
      proof (cases historical)
        case True
        then have "reconcile_historical p x' held rp w3 = (res, err, w')" using eq v x' Inr by simp
        from reconcile_historical_fine [OF fine_inv [OF f3] this] show ?thesis .
      next
        case False
        then have "reconcile_gap p proj x' held rp w3 = (res, err, w')" using eq v x' Inr by simp
        from reconcile_gap_fine [OF fine_inv [OF f3] this key] show ?thesis .
      qed
    qed
    with fine_trans [OF f3] show ?thesis by blast
  qed
qed

text \<open>\<open>Apply\<close> keeps the invariant, whatever it is given.\<close>

lemma route_Apply_fine:
  assumes "inv w" "route_Apply p f w = (res, err, w')"
  shows "fine w w'"
proof (cases "validateFact (rj_codec p) f")
  case (Some e)
  with assms show ?thesis by (simp add: route_Apply_def fine_def later_refl)
next
  case valid: None
  obtain r1 w1 where l: "rs_load (rj_store p) w (rf_tenant f) (rf_interaction f) (rf_version f) = (r1, w1)" by fastforce
  note ld = load [OF assms(1) l]
  have f1: "fine w w1" using ld by (simp add: fine_def)
  obtain err2 w2 where b: "validateAuthorizationBindings (rj_store p) [f] w1 = (err2, w2)" by fastforce
  note bf = bindings_fine [OF fine_inv [OF f1] b]
  have f2: "fine w w2" using bf fine_trans [OF f1] by blast
  show ?thesis
  proof (cases "w' = w1 \<or> w' = w2")
    case True
    with f1 f2 show ?thesis by auto
  next
    case False
    then obtain proj x where r1: "r1 = Inr (proj, x)" using assms(2) valid l by (auto simp: route_Apply_def split: sum.splits)
    from False assms(2) valid l r1 b consider hist where "route_reconcile p proj f hist w1 = (res, err, w')" | "poison_divergent p f w1 = (res, err, w')"
      | s where "err2 = None" "FoldBatch (rj_codec p) proj [f] = Inr s"
          "route_installed RApplied (rs_install (rj_store p) w2 (rt_version (rp_state proj)) [f] s) = (res, err, w')"
      by (auto simp: route_Apply_def split: sum.splits if_splits option.splits)
    then show ?thesis
    proof cases
      case 1
      from route_reconcile_fine [OF fine_inv [OF f1] 1] show ?thesis using fine_trans [OF f1] by blast
    next
      case 2
      from poison_fine [OF fine_inv [OF f1] 2] show ?thesis using fine_trans [OF f1] by blast
    next
      case (3 s)
      obtain r3 w3 where i: "rs_install (rj_store p) w2 (rt_version (rp_state proj)) [f] s = (r3, w3)" by fastforce
      have "rt_visibility s = Visible \<longrightarrow>
          bound w2 (rf_tenant (hd [f])) (rt_auth s) \<lparr>ab_interaction = rf_interaction (hd [f]), ab_receipt = rt_receipt s\<rparr>"
      proof
        assume vis: "rt_visibility s = Visible"
        have "s = fold_fact (rj_codec p) f (rp_state proj)" using 3(2) by (auto simp: FoldBatch_def split: if_splits)
        with fold_fact_visible [OF valid] vis have "rf_kind f = FactRinging" "rt_auth s = rf_auth f" "rt_receipt s = rf_receipt f" by auto
        with bf 3(1) show "bound w2 (rf_tenant (hd [f])) (rt_auth s) \<lparr>ab_interaction = rf_interaction (hd [f]), ab_receipt = rt_receipt s\<rparr>" by simp
      qed
      from install [OF fine_inv [OF f2] i this] have "fine w2 w3" by (simp add: fine_def)
      moreover have "w' = w3" using 3(3) i route_installed_fine by simp
      ultimately show ?thesis using fine_trans [OF f2] by blast
    qed
  qed
qed

end

section \<open>The Postgres store\<close>

definition auths_grow :: "ddb \<Rightarrow> ddb \<Rightarrow> bool" where
  "auths_grow db db' \<longleftrightarrow> (\<forall>k r. map_of (dd_auths db) k = Some r \<longrightarrow> map_of (dd_auths db') k = Some r)"

definition bound_in :: "ddb \<Rightarrow> string \<Rightarrow> string \<Rightarrow> auth_binding \<Rightarrow> bool" where
  "bound_in db t a b =
     (case map_of (dd_auths db) (t, a) of
        None \<Rightarrow> False
      | Some row \<Rightarrow> az_interaction row = ab_interaction b \<and> az_receipt row = ab_receipt b)"

lemma bound_in_iff: "bound_in db t a b \<longleftrightarrow>
    (\<exists>row. map_of (dd_auths db) (t, a) = Some row \<and> az_interaction row = ab_interaction b \<and> az_receipt row = ab_receipt b)"
  by (auto simp: bound_in_def split: option.splits)

definition head_bound :: "ddb \<Rightarrow> string \<times> string \<Rightarrow> route_head \<Rightarrow> bool" where
  "head_bound db k h \<longleftrightarrow> hd_visibility h = ''visible'' \<longrightarrow>
     bound_in db (fst k) (case_option '''' id (hd_auth h)) \<lparr>ab_interaction = snd k, ab_receipt = case_option '''' id (hd_receipt h)\<rparr>"

definition vis_ok :: "ddb \<Rightarrow> bool" where
  "vis_ok db \<longleftrightarrow> (\<forall>k h. map_of (dd_heads db) k = Some h \<longrightarrow> head_bound db k h)"

definition state_bound :: "ddb \<Rightarrow> string \<Rightarrow> string \<Rightarrow> route_state \<Rightarrow> bool" where
  "state_bound db t i s \<longleftrightarrow> (rt_visibility s = Visible \<longrightarrow> bound_in db t (rt_auth s) \<lparr>ab_interaction = i, ab_receipt = rt_receipt s\<rparr>)"

lemma auths_grow_refl [simp]: "auths_grow db db"
  by (simp add: auths_grow_def)

lemma auths_grow_trans: "auths_grow a b \<Longrightarrow> auths_grow b c \<Longrightarrow> auths_grow a c"
  unfolding auths_grow_def by blast

lemma same_delivery_auths: "same_delivery db db' \<Longrightarrow> auths_grow db db'"
  by (simp add: same_delivery_def auths_grow_def)

lemma bound_in_grows: "auths_grow db db' \<Longrightarrow> bound_in db t a b \<Longrightarrow> bound_in db' t a b"
  unfolding auths_grow_def bound_in_iff by blast

lemma state_bound_grows: "auths_grow db db' \<Longrightarrow> state_bound db t i s \<Longrightarrow> state_bound db' t i s"
  using bound_in_grows by (simp add: state_bound_def)

lemma vis_ok_heads: "vis_ok db \<Longrightarrow> auths_grow db db' \<Longrightarrow> dd_heads db' = dd_heads db \<Longrightarrow> vis_ok db'"
  using bound_in_grows [of db db'] by (simp add: vis_ok_def head_bound_def)

lemma lock_route_head_vis:
  assumes "lock_route_head t i db = (v, db')" "vis_ok db"
  shows "vis_ok db' \<and> auths_grow db db'"
proof -
  have g: "auths_grow db db'" by (rule same_delivery_auths [OF lock_route_head_same [OF assms(1)]])
  have "head_bound db' k h" if "map_of (dd_heads db') k = Some h" for k h
  proof (cases "map_of (dd_heads db) k = Some h")
    case True
    then show ?thesis using assms(2) bound_in_grows [OF g] unfolding vis_ok_def head_bound_def by blast
  next
    case False
    then have "h = new_route_head" using assms(1) that by (auto simp: lock_route_head_def split: option.splits if_splits)
    then show ?thesis by (simp add: head_bound_def new_route_head_def)
  qed
  with g show ?thesis by (simp add: vis_ok_def)
qed

lemma set_route_head_vis:
  assumes "set_route_head tz t i s db = Inr db'" "vis_ok db" "state_bound db t i s"
  shows "vis_ok db'"
proof -
  have g: "auths_grow db db'" by (rule same_delivery_auths [OF set_route_head_same [OF assms(1)]])
  have "head_bound db' k h" if "map_of (dd_heads db') k = Some h" for k h
  proof (cases "map_of (dd_heads db) k = Some h")
    case True
    then show ?thesis using assms(2) bound_in_grows [OF g] unfolding vis_ok_def head_bound_def by blast
  next
    case False
    then have h: "k = (t, i)" "h = route_head_of tz s" using assms(1) that by (auto simp: set_route_head_def split: if_splits)
    have "case_option '''' id (nullif x) = x" for x by (simp add: nullif_def)
    with state_bound_grows [OF g assms(3)] h show ?thesis
      by (simp add: head_bound_def route_head_of_def state_bound_def visibilityName_def)
  qed
  then show ?thesis by (simp add: vis_ok_def)
qed

lemma installBatchTx_vis:
  assumes "installBatchTx K tz t i e fs s token db = Inr (x, db')" "vis_ok db" "state_bound db t i s"
  shows "vis_ok db' \<and> auths_grow db db'"
proof -
  have g: "auths_grow db db'" by (rule same_delivery_auths [OF installBatchTx_same [OF assms(1)]])
  obtain v db1 where l: "lock_route_head t i db = (v, db1)" by fastforce
  note l1 = lock_route_head_vis [OF l assms(2)]
  from assms(1) l consider "db' = db1" | db2 db3 where "insert_facts K t fs db1 = Inr db2" "set_route_head tz t i s db2 = Inr db3"
      "db' = (if token \<noteq> '''' then set_route_intent t token ''installed'' db3 else db3)"
    by (auto simp: installBatchTx_def split: if_splits sum.splits)
  then have "vis_ok db'"
  proof cases
    case 2
    note i2 = insert_facts_same [OF 2(1)]
    then have a2: "auths_grow db1 db2" by (simp add: same_delivery_auths)
    have v2: "vis_ok db2" using vis_ok_heads [OF conjunct1 [OF l1] a2] i2 by simp
    have b2: "state_bound db2 t i s" by (rule state_bound_grows [OF auths_grow_trans [OF conjunct2 [OF l1] a2] assms(3)])
    have v3: "vis_ok db3" by (rule set_route_head_vis [OF 2(2) v2 b2])
    note si = set_route_intent_same [of db3 t token "''installed''"]
    have "vis_ok (set_route_intent t token ''installed'' db3)"
      by (rule vis_ok_heads [OF v3 same_delivery_auths [OF conjunct1 [OF si]] conjunct2 [OF si]])
    with 2(3) v3 show ?thesis by simp
  qed (use l1 in simp)
  with g show ?thesis by simp
qed

lemma lock_route_intent_vis: "lock_route_intent x db = (ok, db') \<Longrightarrow> vis_ok db \<Longrightarrow> vis_ok db' \<and> auths_grow db db'"
  by (auto simp: lock_route_intent_def split: prod.splits dest: lock_route_head_vis)

lemma tx_route_begin_vis:
  assumes "tx_route_begin x db = Inr (r, db')" "vis_ok db"
  shows "vis_ok db' \<and> auths_grow db db' \<and> rx_tenant (fst r) = rx_tenant x \<and> rx_interaction (fst r) = rx_interaction x"
proof -
  obtain v db1 where l: "lock_route_head (rx_tenant x) (rx_interaction x) db = (v, db1)" by fastforce
  have "dd_heads db' = dd_heads db1 \<and> same_delivery db1 db' \<and> rx_tenant (fst r) = rx_tenant x \<and> rx_interaction (fst r) = rx_interaction x" using assms(1) l
    by (auto simp: tx_route_begin_def same_delivery_def Let_def split: if_splits option.splits)
  moreover note l1 = lock_route_head_vis [OF l assms(2)]
  moreover have "auths_grow db1 db'" using calculation(1) by (simp add: same_delivery_auths)
  ultimately show ?thesis using vis_ok_heads [of db1 db'] auths_grow_trans [of db db1 db'] by simp
qed

lemma tx_install_identity_vis:
  assumes "tx_install_identity K x f db = Inr (r, db')" "vis_ok db"
  shows "vis_ok db' \<and> auths_grow db db'"
proof -
  obtain ok db1 where l: "lock_route_intent x db = (ok, db1)" by fastforce
  have "dd_heads db' = dd_heads db1 \<and> auths_grow db1 db'"
  proof (cases ok)
    case True
    then obtain db2 where d: "insertFactLedgers K (rx_tenant x) f db1 = Inr db2" "db' = set_route_intent (rx_tenant x) (rx_token x) ''installed'' db2"
      using assms l by (auto simp: tx_install_identity_def split: sum.splits)
    note a = insertFactLedgers_same [OF d(1)] and b = set_route_intent_same [of db2 "rx_tenant x" "rx_token x" "''installed''"]
    show ?thesis using same_delivery_auths [OF same_delivery_trans [OF conjunct1 [OF a] conjunct1 [OF b]]] a b d(2) by simp
  qed (use assms l in \<open>simp add: tx_install_identity_def\<close>)
  with lock_route_intent_vis [OF l assms(2)] vis_ok_heads [of db1 db'] auths_grow_trans [of db db1 db'] show ?thesis by simp
qed

lemma tx_install_route_snapshot_vis:
  assumes "tx_install_route_snapshot K tz x sn f db = Inr (r, db')" "vis_ok db" "state_bound db (rx_tenant x) (rx_interaction x) (rp_state (rn_projection sn))"
  shows "vis_ok db' \<and> auths_grow db db'"
proof -
  have g: "auths_grow db db'" by (rule same_delivery_auths [OF tx_install_route_snapshot_same [OF assms(1)]])
  obtain ok db1 where l: "lock_route_intent x db = (ok, db1)" by fastforce
  note l1 = lock_route_intent_vis [OF l assms(2)]
  from tx_install_route_snapshot_cases [OF assms(1) l]
  have "vis_ok db'"
  proof
    assume "\<exists>db2. set_route_head tz (rx_tenant x) (rx_interaction x) (rp_state (rn_projection sn)) db1 = Inr db2 \<and> same_delivery db2 db' \<and> dd_heads db' = dd_heads db2"
    then obtain db2 where d: "set_route_head tz (rx_tenant x) (rx_interaction x) (rp_state (rn_projection sn)) db1 = Inr db2" "same_delivery db2 db'" "dd_heads db' = dd_heads db2" by blast
    have "vis_ok db2" by (rule set_route_head_vis [OF d(1) conjunct1 [OF l1] state_bound_grows [OF conjunct2 [OF l1] assms(3)]])
    from vis_ok_heads [OF this same_delivery_auths [OF d(2)] d(3)] show ?thesis .
  qed (use l1 in simp)
  with g show ?thesis by simp
qed

section \<open>Other services\<close>

fun op_bound :: "ddb \<Rightarrow> dop \<Rightarrow> bool" where
  "op_bound db (OpInstall e fs s) = state_bound db (rf_tenant (hd fs)) (rf_interaction (hd fs)) s"
| "op_bound db (OpReconcile x fs s) = state_bound db (rx_tenant x) (rx_interaction x) s"
| "op_bound db (OpSnapshot x sn f) = state_bound db (rx_tenant x) (rx_interaction x) (rp_state (rn_projection sn))"
| "op_bound db _ = True"

lemma tx_append_vis:
  assumes "tx_append K c inp db = Inr (res, db')"
  shows "auths_grow db db' \<and> dd_heads db' = dd_heads db"
proof (cases "map_of (dd_auths db) (da_tenant (ai_auth inp), da_id (ai_auth inp))")
  case None
  with tx_append_new [OF None assms] show ?thesis by (auto simp: auths_grow_def)
next
  case (Some r)
  with assms tx_append_known [OF Some, of K c] show ?thesis by (auto split: if_splits)
qed

lemma outbox_only:
  "tx_claim c t token db = Inr (x, db') \<Longrightarrow> dd_auths db' = dd_auths db \<and> dd_heads db' = dd_heads db"
  "update_claimed t r token g db = Inr (y, db') \<Longrightarrow> dd_auths db' = dd_auths db \<and> dd_heads db' = dd_heads db"
  by (auto simp: tx_claim_def update_claimed_def Let_def split: option.splits if_splits)

lemma dop_vis:
  assumes "vis_ok db" "op_bound db op"
  shows "vis_ok (dop_step S op db) \<and> auths_grow db (dop_step S op db)"
proof -
  have same: "vis_ok db' \<and> auths_grow db db'" if "auths_grow db db' \<and> dd_heads db' = dd_heads db" for db'
    using that vis_ok_heads [OF assms(1)] by blast
  have upd: "auths_grow db db'" "vis_ok db'" if "dd_auths db' = dd_auths db" "dd_heads db' = dd_heads db" for db'
    using that vis_ok_heads [OF assms(1), of db'] by (simp_all add: auths_grow_def)
  show ?thesis
  proof (cases op)
    case (OpAppend c inp)
    then show ?thesis using assms(1) by (auto simp: committed_db_def split: sum.splits dest!: tx_append_vis intro: vis_ok_heads)
  next
    case (OpClaim c t token)
    then show ?thesis using assms(1) by (auto simp: committed_db_def split: sum.splits dest!: outbox_only intro: upd)
  next
    case (OpComplete t r token res)
    then show ?thesis using assms(1) by (auto simp: committed_db_def split: sum.splits dest!: tx_complete_Inr outbox_only(2) intro: upd)
  next
    case (OpRetry c t r token)
    then show ?thesis using assms(1) by (auto simp: committed_db_def tx_retry_def split: sum.splits dest!: outbox_only(2) intro: upd)
  next
    case (OpPoison f)
    then show ?thesis using assms(1) by (auto simp: committed_db_def split: sum.splits dest!: tx_route_poison_same intro!: same same_delivery_auths)
  qed (use assms in \<open>auto simp: committed_db_def tx_install_batch_def tx_install_reconcile_batch_def split: sum.splits
      dest: installBatchTx_vis tx_route_begin_vis tx_install_identity_vis tx_install_route_snapshot_vis\<close>)
qed

definition vis_peers :: "dg_env \<Rightarrow> bool" where
  "vis_peers E \<longleftrightarrow> (\<forall>n db. vis_ok db \<longrightarrow> vis_ok (de_others E n db) \<and> auths_grow db (de_others E n db))"

text \<open>The router and the source of tokens leave the tables alone.\<close>

definition quiet_router :: "dg_world router_port \<Rightarrow> bool" where
  "quiet_router R \<longleftrightarrow>
     (\<forall>w who t i m n r w'. ro_replay R w who t i m n = (r, w') \<longrightarrow> dg_db w' = dg_db w) \<and>
     (\<forall>w who t i r w'. ro_snapshot R w who t i = (r, w') \<longrightarrow> dg_db w' = dg_db w)"

definition quiet_tokens :: "(dg_world \<Rightarrow> string \<times> dg_world) \<Rightarrow> bool" where
  "quiet_tokens ids \<longleftrightarrow> (\<forall>w t w'. ids w = (t, w') \<longrightarrow> dg_db w' = dg_db w)"

lemma delivery_tx_vis:
  assumes "vis_peers E" "vis_ok (dg_db w)" "delivery_tx E err op w = (r, w')"
    and op: "\<And>c db x db'. vis_ok db \<Longrightarrow> auths_grow (dg_db w) db \<Longrightarrow> op c db = Inr (x, db') \<Longrightarrow> vis_ok db' \<and> auths_grow db db' \<and> Q x db'"
  shows "vis_ok (dg_db w') \<and> auths_grow (dg_db w) (dg_db w') \<and> (\<forall>x. r = Inr x \<longrightarrow> Q x (dg_db w'))"
proof -
  let ?db = "de_others E (dg_calls w) (dg_db w)"
  have o: "vis_ok ?db" "auths_grow (dg_db w) ?db" using assms(1,2) unfolding vis_peers_def by blast+
  have k: "vis_ok db' \<and> auths_grow (dg_db w) db' \<and> Q x db'" if "op (de_ctx E (dg_calls w)) ?db = Inr (x, db')" for x db'
    using op [OF o that] auths_grow_trans [OF o(2)] by blast
  show ?thesis
    using assms(3) o k by (auto simp: delivery_tx_def Let_def split: dtx_end.splits sum.splits)
qed

lemma unit_result_world: "unit_result r = (e, w') \<Longrightarrow> snd r = w'"
  by (auto simp: unit_result_def split: prod.splits sum.splits)

abbreviation pg_route_projector :: "rcodec \<Rightarrow> dg_env \<Rightarrow> dg_world router_port \<Rightarrow> (dg_world \<Rightarrow> string \<times> dg_world) \<Rightarrow> dg_world route_projector" where
  "pg_route_projector K E R ids \<equiv> \<lparr>rj_codec = K, rj_store = pg_route_store K E, rj_router = R, rj_ids = ids\<rparr>"

theorem pg_route_env:
  assumes "vis_peers E" "quiet_router R" "quiet_tokens ids"
  shows "route_env (pg_route_projector K E R ids) (\<lambda>w. vis_ok (dg_db w)) (\<lambda>w w'. auths_grow (dg_db w) (dg_db w')) (\<lambda>w. bound_in (dg_db w))"
proof (unfold_locales, goal_cases)
  case (2 w w1 w2)
  then show ?case by (rule auths_grow_trans)
next
  case (3 w w1 t a b)
  then show ?case by (rule bound_in_grows)
next
  case (4 w t i v r1 w')
  then have tx: "delivery_tx E ROther (\<lambda>c. tx_route_load c t i v) w = (r1, w')" by (simp add: pg_route_store_def)
  have "vis_ok (dg_db w') \<and> auths_grow (dg_db w) (dg_db w') \<and>
      (\<forall>x. r1 = Inr x \<longrightarrow> (\<lambda>x _. rp_tenant (fst x) = t \<and> rp_interaction (fst x) = i) x (dg_db w'))"
    by (rule delivery_tx_vis [OF assms(1) 4(1) tx])
      (auto simp: tx_route_load_def projection_of_def Let_def split: if_splits)
  then show ?case by auto
next
  case (5 w t a r2 w')
  then have tx: "delivery_tx E ROther (\<lambda>_. tx_authorization t a) w = (r2, w')" by (simp add: pg_route_store_def)
  have "vis_ok (dg_db w') \<and> auths_grow (dg_db w) (dg_db w') \<and>
      (\<forall>x. r2 = Inr x \<longrightarrow> (\<lambda>x db. \<forall>b. x = Some b \<longrightarrow> bound_in db t a b) x (dg_db w'))"
    by (rule delivery_tx_vis [OF assms(1) 5(1) tx]) (auto simp: tx_authorization_def bound_in_iff)
  then show ?case by auto
next
  case (6 w e fs s r3 w')
  show ?case
  proof (cases "fs = []")
    case True
    with 6 show ?thesis by (simp add: pg_route_store_def)
  next
    case False
    with 6 have tx: "delivery_tx E ROther (\<lambda>_. tx_install_batch K (de_timestamptz E) e fs s) w = (r3, w')" by (simp add: pg_route_store_def)
    have b: "state_bound (dg_db w) (rf_tenant (hd fs)) (rf_interaction (hd fs)) s" using 6(3) by (simp add: state_bound_def)
    have "vis_ok (dg_db w') \<and> auths_grow (dg_db w) (dg_db w') \<and> (\<forall>x. r3 = Inr x \<longrightarrow> (\<lambda>_ _. True) x (dg_db w'))"
      by (rule delivery_tx_vis [OF assms(1) 6(1) tx])
        (use installBatchTx_vis state_bound_grows [OF _ b] in \<open>simp add: tx_install_batch_def\<close>)
    then show ?thesis by simp
  qed
next
  case (7 w x r4 w')
  then have tx: "delivery_tx E ROther (\<lambda>_. tx_route_begin x) w = (r4, w')" by (simp add: pg_route_store_def)
  have "vis_ok (dg_db w') \<and> auths_grow (dg_db w) (dg_db w') \<and>
      (\<forall>y. r4 = Inr y \<longrightarrow> (\<lambda>y _. rx_tenant (fst y) = rx_tenant x \<and> rx_interaction (fst y) = rx_interaction x) y (dg_db w'))"
    by (rule delivery_tx_vis [OF assms(1) 7(1) tx]) (use tx_route_begin_vis in simp)
  then show ?case by auto
next
  case (8 w x fs s r5 w')
  show ?case
  proof (cases "fs = []")
    case True
    with 8 show ?thesis by (simp add: pg_route_store_def)
  next
    case False
    with 8 have tx: "delivery_tx E ROther (\<lambda>_. tx_install_reconcile_batch K (de_timestamptz E) x fs s) w = (r5, w')" by (simp add: pg_route_store_def)
    have b: "state_bound (dg_db w) (rx_tenant x) (rx_interaction x) s" using 8(3) by (simp add: state_bound_def)
    have "vis_ok (dg_db w') \<and> auths_grow (dg_db w) (dg_db w') \<and> (\<forall>x. r5 = Inr x \<longrightarrow> (\<lambda>_ _. True) x (dg_db w'))"
      by (rule delivery_tx_vis [OF assms(1) 8(1) tx])
        (use installBatchTx_vis state_bound_grows [OF _ b] in \<open>simp add: tx_install_reconcile_batch_def\<close>)
    then show ?thesis by simp
  qed
next
  case (9 w x f r6 w')
  then have tx: "delivery_tx E ROther (\<lambda>_. tx_install_identity K x f) w = (r6, w')" by (simp add: pg_route_store_def)
  have "vis_ok (dg_db w') \<and> auths_grow (dg_db w) (dg_db w') \<and> (\<forall>x. r6 = Inr x \<longrightarrow> (\<lambda>_ _. True) x (dg_db w'))"
    by (rule delivery_tx_vis [OF assms(1) 9(1) tx]) (use tx_install_identity_vis in simp)
  then show ?case by simp
next
  case (10 w x sn f r7 w')
  then have tx: "delivery_tx E ROther (\<lambda>_. tx_install_route_snapshot K (de_timestamptz E) x sn f) w = (r7, w')" by (simp add: pg_route_store_def)
  have b: "state_bound (dg_db w) (rx_tenant x) (rx_interaction x) (rp_state (rn_projection sn))" using 10(3) by (simp add: state_bound_def)
  have "vis_ok (dg_db w') \<and> auths_grow (dg_db w) (dg_db w') \<and> (\<forall>x. r7 = Inr x \<longrightarrow> (\<lambda>_ _. True) x (dg_db w'))"
    by (rule delivery_tx_vis [OF assms(1) 10(1) tx]) (use tx_install_route_snapshot_vis state_bound_grows [OF _ b] in simp)
  then show ?case by simp
next
  case (11 w f reason r8 w')
  show ?case
  proof (cases "json_time (rf_lease f)")
    case False
    with 11 show ?thesis by (simp add: pg_route_store_def)
  next
    case True
    obtain r where tx: "delivery_tx E ROther (\<lambda>_. tx_route_poison K f) w = (r, w')"
      using 11(2) True by (cases "delivery_tx E ROther (\<lambda>_. tx_route_poison K f) w") (auto simp: pg_route_store_def dest: unit_result_world)
    have "vis_ok (dg_db w') \<and> auths_grow (dg_db w) (dg_db w') \<and> (\<forall>x. r = Inr x \<longrightarrow> (\<lambda>_ _. True) x (dg_db w'))"
    proof (rule delivery_tx_vis [OF assms(1) 11(1) tx])
      fix db x db'
      assume "vis_ok db" "tx_route_poison K f db = Inr (x, db')"
      with tx_route_poison_same vis_ok_heads same_delivery_auths show "vis_ok db' \<and> auths_grow db db' \<and> True" by blast
    qed
    then show ?thesis by simp
  qed
next
  case (12 w token w')
  then show ?case using assms(3) by (simp add: quiet_tokens_def)
next
  case (13 w who t i m n r9 w')
  then have "dg_db w' = dg_db w" using assms(2) unfolding quiet_router_def by (metis route_projector.select_convs(3))
  with 13(1) show ?case by simp
next
  case (14 w who t i r10 w')
  then have "dg_db w' = dg_db w" using assms(2) unfolding quiet_router_def by (metis route_projector.select_convs(3))
  with 14(1) show ?case by simp
qed simp

section \<open>A fleet of services\<close>

text \<open>Other services run any transactions in between; a projector among them installs only what it found bound.\<close>

definition service_env :: "dsetup \<Rightarrow> (nat \<Rightarrow> dop list) \<Rightarrow> (nat \<Rightarrow> tx_ctx) \<Rightarrow> (nat \<Rightarrow> dtx_end) \<Rightarrow> dg_env" where
  "service_env S schedule ctx ends =
     \<lparr>de_others = (\<lambda>n. fold (\<lambda>op db. if op_bound db op then dop_step S op db else db) (schedule n)), de_ctx = ctx, de_end = ends,
      de_timestamptz = se_timestamptz S, de_uuid_text = se_uuid_text S\<rparr>"

definition answering_router ::
  "(projection_principal \<Rightarrow> string \<Rightarrow> string \<Rightarrow> nat \<Rightarrow> nat \<Rightarrow> rerr + route_replay) \<Rightarrow>
   (projection_principal \<Rightarrow> string \<Rightarrow> string \<Rightarrow> rerr + route_snapshot) \<Rightarrow> dg_world router_port" where
  "answering_router rep snap = \<lparr>ro_replay = (\<lambda>w who t i m n. (rep who t i m n, w)), ro_snapshot = (\<lambda>w who t i. (snap who t i, w))\<rparr>"

lemma service_vis: "vis_peers (service_env S schedule ctx ends)"
proof -
  have "vis_ok (fold (\<lambda>op db. if op_bound db op then dop_step S op db else db) ops db) \<and>
      auths_grow db (fold (\<lambda>op db. if op_bound db op then dop_step S op db else db) ops db)" if "vis_ok db" for ops db
    using that
  proof (induction ops arbitrary: db)
    case (Cons op ops)
    let ?db = "if op_bound db op then dop_step S op db else db"
    have "vis_ok ?db \<and> auths_grow db ?db" using dop_vis [OF Cons.prems, of op S] Cons.prems by simp
    with Cons.IH [of ?db] auths_grow_trans [of db ?db] show ?case by simp
  qed simp
  then show ?thesis by (simp add: vis_peers_def service_env_def)
qed

lemma answering_quiet: "quiet_router (answering_router rep snap)"
  by (simp add: quiet_router_def answering_router_def)

interpretation services: route_env
    "pg_route_projector K (service_env S schedule ctx ends) (answering_router rep snap) (\<lambda>w. (token (dg_calls w), w))"
    "\<lambda>w. vis_ok (dg_db w)" "\<lambda>w w'. auths_grow (dg_db w) (dg_db w')" "\<lambda>w. bound_in (dg_db w)"
  for K S schedule ctx ends rep snap token
  by (rule pg_route_env) (simp_all add: service_vis answering_quiet quiet_tokens_def)

end
