(* ===== verification/Delivery_Claims.thy ===== *)
theory Delivery_Claims
  imports Route_Laws
begin

text \<open>
  The properties of the delivery service, its acknowledgement worker and the route projection over
  Postgres, with other services running transactions in between.
\<close>

section \<open>The delivery store among other services\<close>

definition delivery_env :: "dsetup \<Rightarrow> (nat \<Rightarrow> dop list) \<Rightarrow> (nat \<Rightarrow> tx_ctx) \<Rightarrow> (nat \<Rightarrow> dtx_end) \<Rightarrow> dg_env" where
  "delivery_env S schedule ctx ends =
     \<lparr>de_others = (\<lambda>n. dops S (schedule n)), de_ctx = ctx, de_end = ends, de_timestamptz = se_timestamptz S, de_uuid_text = se_uuid_text S\<rparr>"

text \<open>A transaction that answers ran on the tables as others left them.\<close>

lemma delivery_tx_Inr:
  assumes "delivery_tx (delivery_env S schedule ctx ends) err op w = (Inr x, w')"
  shows "op (ctx (dg_calls w)) (dops S (schedule (dg_calls w)) (dg_db w)) = Inr (x, dg_db w')"
  using assms by (auto simp: delivery_tx_def delivery_env_def Let_def split: dtx_end.splits sum.splits)

lemma delivery_tx_commits:
  assumes "ends (dg_calls w) = DCommits"
  shows "fst (delivery_tx (delivery_env S schedule ctx ends) err op w) =
    (case op (ctx (dg_calls w)) (dops S (schedule (dg_calls w)) (dg_db w)) of Inl e \<Rightarrow> Inl e | Inr (x, _) \<Rightarrow> Inr x)"
  using assms by (auto simp: delivery_tx_def delivery_env_def Let_def split: sum.splits)

lemma dops_append: "dops S ops' (dops S ops db) = dops S (ops @ ops') db"
  by simp

lemma dops_keep:
  assumes "delivery_ok (se_codec S) db"
  shows "delivery_ok (se_codec S) (dops S ops db) \<and> tables_grow db (dops S ops db)"
  using delivery_ok_dops [OF assms] dops_grow assms by (simp add: delivery_ok_def)

section \<open>Accepting\<close>

text \<open>What the tables hold after a delivery was accepted.\<close>

lemma tx_append_accepted:
  assumes "tx_append K c inp db = Inr (res, db')"
  shows "\<exists>row. map_of (dd_auths db') (da_tenant (ai_auth inp), da_id (ai_auth inp)) = Some row \<and> az_hash row = ai_hash inp \<and> result_of_row row = res"
proof (cases "map_of (dd_auths db) (da_tenant (ai_auth inp), da_id (ai_auth inp))")
  case None
  from tx_append_new [OF None assms] show ?thesis by (auto simp: fresh_auth_def result_of_row_def)
next
  case (Some row)
  with assms tx_append_known [OF Some, of K c] show ?thesis by (auto split: if_splits)
qed

lemma HashAuthorization_Inr:
  assumes "validateAuthorization K (Some a) = None"
  shows "HashAuthorization K (Some a) = (case authorizationHashAndBody K (a\<lparr>da_unknown := []\<rparr>) of Inl e \<Rightarrow> Inl e | Inr (h, _) \<Rightarrow> Inr h)"
  using normalize_valid [OF assms] assms by (simp add: HashAuthorization_def)

lemma HashAuthorization_valid: "HashAuthorization K (Some a) = Inr h \<Longrightarrow> validateAuthorization K (Some a) = None"
  by (auto simp: HashAuthorization_def split: option.splits)

lemma AcceptDelivery_accepted:
  assumes "AcceptDelivery (se_codec S) (pg_dstore (se_codec S) (delivery_env S schedule ctx ends)) ids who (Some a) w = (Inr r, w1)"
    and "quiet_tokens ids" "delivery_ok (se_codec S) (dg_db w)"
  shows "\<exists>row h. map_of (dd_auths (dg_db w1)) (da_tenant a, da_id a) = Some row \<and> HashAuthorization (se_codec S) (Some a) = Inr h \<and> az_hash row = h \<and>
    r = receipt_of (se_codec S) (a\<lparr>da_unknown := []\<rparr>) issuerServiceID (result_of_row row) \<and> delivery_ok (se_codec S) (dg_db w1)"
proof -
  obtain hash body res rid v where a: "validateAuthorization (se_codec S) (Some a) = None" "authorizationHashAndBody (se_codec S) (a\<lparr>da_unknown := []\<rparr>) = Inr (hash, body)"
      "ids w = (rid, v)" "ds_append (pg_dstore (se_codec S) (delivery_env S schedule ctx ends)) v \<lparr>ai_auth = a\<lparr>da_unknown := []\<rparr>, ai_receipt = rid, ai_issuer = issuerServiceID, ai_hash = hash, ai_body = body\<rparr> = (Inr res, w1)"
      "r = receipt_of (se_codec S) (a\<lparr>da_unknown := []\<rparr>) issuerServiceID res"
    using AcceptDelivery_Inr [OF assms(1)] by auto
  let ?inp = "\<lparr>ai_auth = a\<lparr>da_unknown := []\<rparr>, ai_receipt = rid, ai_issuer = issuerServiceID, ai_hash = hash, ai_body = body\<rparr>"
  have "tx_append (se_codec S) (ctx (dg_calls v)) ?inp (dops S (schedule (dg_calls v)) (dg_db v)) = Inr (res, dg_db w1)"
    using delivery_tx_Inr [of S schedule ctx ends DOther "\<lambda>c. tx_append (se_codec S) c ?inp" v res w1] a(4) by (simp add: pg_dstore_def)
  from tx_append_accepted [OF this] delivery_ok_append [OF _ this] obtain row where
    "map_of (dd_auths (dg_db w1)) (da_tenant a, da_id a) = Some row" "az_hash row = hash" "result_of_row row = res"
    "delivery_ok (se_codec S) (dg_db w1)"
    using dops_keep [of S "dg_db v" "schedule (dg_calls v)"] assms(2,3) a(3) by (auto simp: quiet_tokens_def)
  then show ?thesis using a HashAuthorization_Inr [OF a(1)] by simp
qed

text \<open>An accepted authorization that comes again gets what its row says.\<close>

lemma AcceptDelivery_again:
  assumes "map_of (dd_auths (dg_db w)) (da_tenant b, da_id b) = Some row" "delivery_ok (se_codec S) (dg_db w)" "quiet_tokens ids"
    and "HashAuthorization (se_codec S) (Some b) = Inr h" "dp_service who = ''corex''" "CapabilityDeliveryWrite \<in> set (dp_capabilities who)"
    and "dp_tenant who = da_tenant b" "da_tenant b \<noteq> ''''" "requireUUIDv7 (se_codec S) (fst (ids w)) = None" "ends (dg_calls (snd (ids w))) = DCommits"
  shows "fst (AcceptDelivery (se_codec S) (pg_dstore (se_codec S) (delivery_env S schedule ctx ends)) ids who (Some b) w) =
    (if az_hash row = h then Inr (receipt_of (se_codec S) (b\<lparr>da_unknown := []\<rparr>) issuerServiceID (result_of_row row)) else Inl ErrIdempotencyConflict)"
proof -
  note v = HashAuthorization_valid [OF assms(4)]
  note n = normalize_valid [OF v]
  obtain body where hb: "authorizationHashAndBody (se_codec S) (b\<lparr>da_unknown := []\<rparr>) = Inr (h, body)"
    using assms(4) HashAuthorization_Inr [OF v] by (auto split: sum.splits)
  obtain rid w1 where i: "ids w = (rid, w1)" by fastforce
  let ?inp = "\<lparr>ai_auth = b\<lparr>da_unknown := []\<rparr>, ai_receipt = rid, ai_issuer = issuerServiceID, ai_hash = h, ai_body = body\<rparr>"
  let ?db = "dops S (schedule (dg_calls w1)) (dg_db w1)"
  have "map_of (dd_auths ?db) (da_tenant b, da_id b) = Some row"
    using dops_keep [OF assms(2), of "schedule (dg_calls w1)"] assms(1,3) i unfolding tables_grow_def quiet_tokens_def by metis
  then have tx: "tx_append (se_codec S) (ctx (dg_calls w1)) ?inp ?db = (if az_hash row = h then Inr (result_of_row row, ?db) else Inl ErrIdempotencyConflict)"
    by (subst tx_append_known) simp_all
  have "fst (ds_append (pg_dstore (se_codec S) (delivery_env S schedule ctx ends)) w1 ?inp) = (if az_hash row = h then Inr (result_of_row row) else Inl ErrIdempotencyConflict)"
    using assms(10) i by (simp add: pg_dstore_def delivery_tx_commits tx)
  with v n hb i assms(5-9) show ?thesis
    by (cases "az_hash row = h") (auto simp: AcceptDelivery_def hasCapability_set Let_def split: sum.splits prod.splits)
qed

text \<open>
  \<^bold>\<open>C14.\<close> Accepting a delivery authorization is idempotent. Once it was accepted, whatever other services then do,
  the same authorization gets the same receipt again, a different one under the same id is refused with
  \<open>ErrIdempotencyConflict\<close>, and the receipt is queued for acknowledgement.
\<close>

theorem accept_idempotent:
  assumes "AcceptDelivery (se_codec S) (pg_dstore (se_codec S) (delivery_env S schedule ctx ends)) ids who (Some a) w = (Inr r, w1)"
    and "delivery_ok (se_codec S) (dg_db w)" "quiet_tokens ids" "quiet_tokens ids'" "dg_db w2 = dops S ops (dg_db w1)"
    and "requireUUIDv7 (se_codec S) (fst (ids' w2)) = None" "ends' (dg_calls (snd (ids' w2))) = DCommits"
  shows "fst (AcceptDelivery (se_codec S) (pg_dstore (se_codec S) (delivery_env S schedule' ctx' ends')) ids' who (Some a) w2) = Inr r \<and>
    (\<forall>b h. da_tenant b = da_tenant a \<longrightarrow> da_id b = da_id a \<longrightarrow> HashAuthorization (se_codec S) (Some b) = Inr h \<longrightarrow> HashAuthorization (se_codec S) (Some a) \<noteq> Inr h \<longrightarrow>
       fst (AcceptDelivery (se_codec S) (pg_dstore (se_codec S) (delivery_env S schedule' ctx' ends')) ids' who (Some b) w2) = Inl ErrIdempotencyConflict) \<and>
    (\<exists>ob rc. map_of (dd_outbox (dg_db w2)) (da_tenant a, rc_receipt r) = Some ob \<and> receipt_in (se_codec S) (da_tenant a, rc_receipt r) ob rc \<and>
       rc_auth rc = da_id a \<and> rc_seq rc = rc_seq r)"
proof -
  obtain row h where row: "map_of (dd_auths (dg_db w1)) (da_tenant a, da_id a) = Some row" "HashAuthorization (se_codec S) (Some a) = Inr h" "az_hash row = h"
      "r = receipt_of (se_codec S) (a\<lparr>da_unknown := []\<rparr>) issuerServiceID (result_of_row row)" "delivery_ok (se_codec S) (dg_db w1)"
    using AcceptDelivery_accepted [OF assms(1,3,2)] by blast
  have d2: "delivery_ok (se_codec S) (dg_db w2)" "tables_grow (dg_db w1) (dg_db w2)" using dops_keep [OF row(5)] assms(5) by auto
  have row2: "map_of (dd_auths (dg_db w2)) (da_tenant a, da_id a) = Some row" using d2(2) row(1) unfolding tables_grow_def by blast
  have who: "dp_service who = ''corex''" "CapabilityDeliveryWrite \<in> set (dp_capabilities who)" "dp_tenant who = da_tenant a" "da_tenant a \<noteq> ''''"
    using assms(1) by (auto simp: AcceptDelivery_def hasCapability_set split: if_splits)
  have again: "fst (AcceptDelivery (se_codec S) (pg_dstore (se_codec S) (delivery_env S schedule' ctx' ends')) ids' who (Some b) w2) =
      (if az_hash row = h' then Inr (receipt_of (se_codec S) (b\<lparr>da_unknown := []\<rparr>) issuerServiceID (result_of_row row)) else Inl ErrIdempotencyConflict)"
    if "da_tenant b = da_tenant a" "da_id b = da_id a" "HashAuthorization (se_codec S) (Some b) = Inr h'" for b h'
    by (rule AcceptDelivery_again) (use that who row2 d2(1) assms(4,6,7) in simp_all)
  have "auth_queued (se_codec S) (da_tenant a, da_id a) row (dg_db w2)" using d2(1) row2 unfolding delivery_ok_def by blast
  then have q: "\<exists>ob rc. map_of (dd_outbox (dg_db w2)) (da_tenant a, rc_receipt r) = Some ob \<and> receipt_in (se_codec S) (da_tenant a, rc_receipt r) ob rc \<and>
       rc_auth rc = da_id a \<and> rc_seq rc = rc_seq r"
    using row(4) by (auto simp: auth_queued_def receipt_of_def result_of_row_def)
  show ?thesis using again [OF refl refl row(2)] row(2,3,4) q by (auto simp: again)
qed

section \<open>Acknowledging\<close>

fun completes :: "dsetup \<Rightarrow> string \<Rightarrow> string \<Rightarrow> dop \<Rightarrow> ddb \<Rightarrow> bool" where
  "completes S t r (OpComplete t' r' token res) db =
     (t' = t \<and> r' = r \<and> (case tx_complete (se_uuid_text S) t r token res db of Inl _ \<Rightarrow> False | Inr _ \<Rightarrow> True))"
| "completes S t r _ db = False"

text \<open>The number of times that a receipt is completed in an interleaving.\<close>

fun completions :: "dsetup \<Rightarrow> string \<Rightarrow> string \<Rightarrow> dop list \<Rightarrow> ddb \<Rightarrow> nat" where
  "completions S t r [] db = 0"
| "completions S t r (op # ops) db = (if completes S t r op db then 1 else 0) + completions S t r ops (dop_step S op db)"

fun claims_with :: "string \<Rightarrow> dop \<Rightarrow> bool" where
  "claims_with token (OpClaim _ _ token') = (token' = token)"
| "claims_with token _ = False"

definition completed_row :: "ddb \<Rightarrow> string \<times> string \<Rightarrow> bool" where
  "completed_row db k \<longleftrightarrow> (case map_of (dd_outbox db) k of None \<Rightarrow> False | Some ob \<Rightarrow> ob_status ob = ''completed'')"

lemma completed_refuses:
  assumes "completed_row db (t, r)"
  shows "update_claimed t r token f db = Inl DNoRows"
  using assms by (auto simp: completed_row_def update_claimed_def split: option.splits)

lemma completed_grows: "tables_grow db db' \<Longrightarrow> completed_row db k \<Longrightarrow> completed_row db' k"
proof -
  assume a: "tables_grow db db'" "completed_row db k"
  then obtain ob where ob: "map_of (dd_outbox db) k = Some ob" "ob_status ob = ''completed''" by (auto simp: completed_row_def split: option.splits)
  with a(1) obtain ob' where "map_of (dd_outbox db') k = Some ob'" "same_row ob ob'" unfolding tables_grow_def by blast
  with ob show ?thesis by (simp add: completed_row_def same_row_def)
qed

lemma completes_completes:
  assumes "completes S t r op db"
  shows "completed_row (dop_step S op db) (t, r)"
proof (cases op)
  case (OpComplete t' r' token res)
  then obtain x db' where c: "tx_complete (se_uuid_text S) t r token res db = Inr (x, db')" "t' = t" "r' = r"
    using assms by (auto split: sum.splits)
  from update_claimed_Inr [OF tx_complete_Inr [OF c(1)]] c OpComplete show ?thesis
    by (auto simp: completed_row_def committed_db_def)
qed (use assms in simp_all)

lemma completions_done:
  assumes "distinct (map fst (dd_outbox db))" "completed_row db (t, r)"
  shows "completions S t r ops db = 0"
  using assms
proof (induction ops arbitrary: db)
  case (Cons op ops)
  note g = dop_grows [OF Cons.prems(1), of S op]
  have "\<not> completes S t r op db"
    using completed_refuses [OF Cons.prems(2)] by (cases op) (auto simp: tx_complete_def split: sum.splits if_splits)
  moreover have "completions S t r ops (dop_step S op db) = 0"
    using Cons.IH g completed_grows [OF g Cons.prems(2)] Cons.prems(1) unfolding tables_grow_def by blast
  ultimately show ?case by simp
qed simp

lemma completions_once:
  assumes "distinct (map fst (dd_outbox db))"
  shows "completions S t r ops db \<le> 1"
  using assms
proof (induction ops arbitrary: db)
  case (Cons op ops)
  have d: "distinct (map fst (dd_outbox (dop_step S op db)))" using dop_grows [OF Cons.prems, of S op] Cons.prems by (simp add: tables_grow_def)
  show ?case
  proof (cases "completes S t r op db")
    case True
    with completions_done [OF d completes_completes [OF True]] show ?thesis by simp
  next
    case False
    with Cons.IH [OF d] show ?thesis by simp
  qed
qed simp


definition claim_held :: "ddb \<Rightarrow> string \<times> string \<Rightarrow> string \<Rightarrow> bool" where
  "claim_held db k token = (case map_of (dd_outbox db) k of None \<Rightarrow> False | Some ob \<Rightarrow> ob_token ob = Some token)"

lemma claim_held_update:
  "dd_outbox db' = AList.update k' ob (dd_outbox db) \<Longrightarrow> claim_held db' k token = (if k = k' then ob_token ob = Some token else claim_held db k token)"
  by (simp add: claim_held_def)

lemma claim_not_held_step:
  assumes "\<not> claim_held db k token" "\<not> claims_with token op" "distinct (map fst (dd_outbox db))"
  shows "\<not> claim_held (dop_step S op db) k token"
proof (cases op)
  case (OpAppend c inp)
  have "\<not> claim_held db' k token" if "tx_append (se_codec S) c inp db = Inr (res, db')" for res db'
  proof (cases "map_of (dd_auths db) (da_tenant (ai_auth inp), da_id (ai_auth inp))")
    case None
    from tx_append_new [OF None that] obtain body hash where
      "dd_outbox db' = AList.update (da_tenant (ai_auth inp), ar_receipt res) (fresh_outbox inp res body hash) (dd_outbox db)" by blast
    from claim_held_update [OF this] assms(1) show ?thesis by (simp add: fresh_outbox_def)
  next
    case (Some row)
    with that tx_append_known [OF Some, of "se_codec S" c] assms(1) show ?thesis by (auto split: if_splits)
  qed
  then show ?thesis using OpAppend assms(1) by (auto simp: committed_db_def split: sum.splits)
next
  case (OpClaim c t token')
  have "\<not> claim_held db' k token" if "tx_claim c t token' db = Inr (row', db')" for row' db'
    using tx_claim_Inr [OF that assms(3)] assms(1,2) OpClaim by (auto simp: claim_held_update split: if_splits)
  then show ?thesis using OpClaim assms(1) by (auto simp: committed_db_def split: sum.splits)
next
  case (OpComplete t r token' res)
  have "\<not> claim_held db' k token" if "tx_complete (se_uuid_text S) t r token' res db = Inr (x, db')" for x db'
    using update_claimed_Inr [OF tx_complete_Inr [OF that]] assms(1) by (auto simp: claim_held_update split: if_splits)
  then show ?thesis using OpComplete assms(1) by (auto simp: committed_db_def split: sum.splits)
next
  case (OpRetry c t r token')
  have "\<not> claim_held db' k token" if "tx_retry c t r token' db = Inr (x, db')" for x db'
    using update_claimed_Inr [OF that [unfolded tx_retry_def]] assms(1) by (auto simp: claim_held_update split: if_splits)
  then show ?thesis using OpRetry assms(1) by (auto simp: committed_db_def split: sum.splits)
qed (use projection_op_same [of op db S] assms(1) in \<open>auto simp: claim_held_def same_delivery_def\<close>)

lemma claim_not_held:
  assumes "\<not> claim_held db k token" "list_all (\<lambda>op. \<not> claims_with token op) ops" "distinct (map fst (dd_outbox db))"
  shows "\<not> claim_held (dops S ops db) k token"
  using assms
proof (induction ops arbitrary: db)
  case (Cons op ops)
  then have "\<not> claim_held (dop_step S op db) k token" by (intro claim_not_held_step) simp_all
  moreover have "distinct (map fst (dd_outbox (dop_step S op db)))" using dop_grows [OF Cons.prems(3), of S op] Cons.prems(3) by (simp add: tables_grow_def)
  ultimately show ?case using Cons by simp
qed simp

lemma not_held_refused: "\<not> claim_held db (t, r) token \<Longrightarrow> update_claimed t r token f db = Inl DNoRows"
  by (auto simp: claim_held_def update_claimed_def split: option.splits)

text \<open>
  \<^bold>\<open>C10.\<close> A receipt is acknowledged at most once: in every interleaving of the transactions of all services, at most one
  \<open>Complete\<close> of a receipt succeeds, and a worker whose claim was taken over can neither complete nor give back the receipt.
\<close>

theorem completed_once:
  assumes "distinct (map fst (dd_outbox db))"
  shows "completions S t r ops db \<le> 1 \<and>
    (\<not> claim_held db (t, r) token \<longrightarrow> list_all (\<lambda>op. \<not> claims_with token op) ops \<longrightarrow>
       \<not> completes S t r (OpComplete t r token res) (dops S ops db) \<and> tx_retry c t r token (dops S ops db) = Inl DNoRows)"
proof (intro conjI impI)
  show "completions S t r ops db \<le> 1" by (rule completions_once [OF assms])
  assume "\<not> claim_held db (t, r) token" "list_all (\<lambda>op. \<not> claims_with token op) ops"
  note n = not_held_refused [OF claim_not_held [OF this assms, of S]]
  show "\<not> completes S t r (OpComplete t r token res) (dops S ops db)" using n by (simp add: tx_complete_def)
  show "tx_retry c t r token (dops S ops db) = Inl DNoRows" using n by (simp add: tx_retry_def)
qed

text \<open>What a worker claims.\<close>

definition codec_inverse :: "dcodec \<Rightarrow> bool" where
  "codec_inverse K \<longleftrightarrow> (\<forall>rc b. dk_marshal_receipt K rc = Some b \<longrightarrow> dk_unmarshal_receipt K b = Some rc)"

definition accepted_receipt :: "ddb \<Rightarrow> dreceipt \<Rightarrow> bool" where
  "accepted_receipt db rc \<longleftrightarrow>
     (case map_of (dd_auths db) (rc_tenant rc, rc_auth rc) of
        None \<Rightarrow> False
      | Some row \<Rightarrow> az_receipt row = rc_receipt rc \<and> az_interaction row = rc_interaction rc)"

lemma accepted_grows: "tables_grow db db' \<Longrightarrow> accepted_receipt db rc \<Longrightarrow> accepted_receipt db' rc"
proof -
  assume a: "tables_grow db db'" "accepted_receipt db rc"
  then obtain row where row: "map_of (dd_auths db) (rc_tenant rc, rc_auth rc) = Some row" by (auto simp: accepted_receipt_def split: option.splits)
  with a(1) have "map_of (dd_auths db') (rc_tenant rc, rc_auth rc) = Some row" unfolding tables_grow_def by blast
  with row a(2) show ?thesis by (simp add: accepted_receipt_def)
qed

lemma copy32_exact: "length b = 32 \<Longrightarrow> copy32 b = b"
  by (simp add: copy32_def)

lemma pg_claim_Inr:
  assumes "pg_claim (se_codec S) (delivery_env S schedule ctx ends) ids w t = (Inr (Some claim), w1)"
    and "delivery_ok (se_codec S) (dg_db w)" "quiet_tokens ids" "codec_inverse (se_codec S)"
  shows "ack_hash (se_codec S) (claim_request claim) = Inr (kc_hash claim) \<and> accepted_receipt (dg_db w1) (kc_receipt claim) \<and>
    rc_tenant (kc_receipt claim) = t \<and> delivery_ok (se_codec S) (dg_db w1)"
proof -
  obtain token v where i: "ids w = (token, v)" by fastforce
  let ?db = "dops S (schedule (dg_calls v)) (dg_db v)"
  obtain row' where tx: "delivery_tx (delivery_env S schedule ctx ends) DOther (\<lambda>c. tx_claim c t token) v = (Inr row', w1)"
      and claim: "dk_unmarshal_receipt (se_codec S) (ob_body row') = Some (kc_receipt claim)" "kc_token claim = token"
        "kc_version claim = ob_version row'" "kc_fencing claim = ob_fencing row'" "kc_hash claim = copy32 (ob_hash row')"
    using assms(1) i by (auto simp: pg_claim_def Let_def split: sum.splits option.splits prod.splits if_splits)
  have ok: "delivery_ok (se_codec S) ?db" using dops_keep [OF assms(2)] assms(3) i unfolding quiet_tokens_def by metis
  note c = delivery_tx_Inr [OF tx]
  have d: "distinct (map fst (dd_outbox ?db))" using ok by (simp add: delivery_ok_def)
  from tx_claim_Inr [OF c d] obtain r row where row: "map_of (dd_outbox ?db) (t, r) = Some row"
      "row' = row\<lparr>ob_status := ''claimed'', ob_token := Some token, ob_until := Some (tc_now (ctx (dg_calls v)) + claimTTL)\<rparr>"
      "dg_db w1 = ?db\<lparr>dd_outbox := AList.update (t, r) row' (dd_outbox ?db)\<rparr>" by blast
  have "map_of (dd_outbox (dg_db w1)) (t, r) = Some row'" using row(3) by simp
  moreover have ok1: "delivery_ok (se_codec S) (dg_db w1)"
    using delivery_ok_step [OF ok, of "OpClaim (ctx (dg_calls v)) t token"] c by (simp add: committed_db_def)
  ultimately obtain rc ar where rc: "receipt_in (se_codec S) (t, r) row' rc" "map_of (dd_auths (dg_db w1)) (t, rc_auth rc) = Some ar" "az_receipt ar = r" "az_interaction ar = rc_interaction rc"
    unfolding delivery_ok_def by (metis fst_conv snd_conv)
  have "kc_receipt claim = rc" using rc(1) claim(1) assms(4) unfolding receipt_in_def codec_inverse_def by auto
  with claim rc(1) ok1 rc(2-4) row(2) show ?thesis
    by (auto simp: receipt_in_def accepted_receipt_def row_claim_def claim_request_def copy32_exact)
qed



abbreviation pg_ack_worker ::
  "dcodec \<Rightarrow> dg_env \<Rightarrow> (dg_world \<Rightarrow> string \<times> dg_world) \<Rightarrow> (dg_world \<Rightarrow> ack_request \<Rightarrow> (derr + ack_result) \<times> dg_world) \<Rightarrow> string \<Rightarrow> dg_world ack_worker" where
  "pg_ack_worker K E ids R t \<equiv> \<lparr>aw_codec = K, aw_store = pg_ack_store K E ids, aw_router = R, aw_tenant = t\<rparr>"

lemma ProcessOne_None:
  assumes "ProcessOne k w = (None, w')" "as_claim (aw_store k) w (aw_tenant k) = (Inr (Some claim), w1)"
  shows "\<exists>result w2. aw_router k w1 (claim_request claim) = (Inr result, w2) \<and>
    kr_disposition result \<in> {AckApplied, AckAlreadyApplied, AckTerminalExpired} \<and>
    as_complete (aw_store k) w2 (aw_tenant k) (kq_request (claim_request claim)) (kc_token claim) result = (None, w')"
proof -
  have gb: "give_back k c e v \<noteq> (None, w')" for c e v
    by (auto simp: give_back_def split: prod.splits option.splits)
  obtain r w2 where r: "aw_router k w1 (claim_request claim) = (r, w2)" by fastforce
  obtain hash where h: "ack_hash (aw_codec k) (claim_request claim) = Inr hash" "hash = kc_hash claim"
    using assms gb by (auto simp: ProcessOne_def Let_def split: sum.splits if_splits)
  obtain result where "r = Inr result" using assms gb r h by (cases r) (auto simp: ProcessOne_def Let_def)
  with assms gb r h show ?thesis by (auto simp: ProcessOne_def Let_def split: if_splits)
qed

lemma pg_complete_None:
  assumes "as_complete (pg_ack_store K (delivery_env S schedule ctx ends) ids) w t r token res = (None, w')"
  shows "tx_complete (se_uuid_text S) t r token res (dops S (schedule (dg_calls w)) (dg_db w)) = Inr ((), dg_db w')"
proof -
  have "delivery_tx (delivery_env S schedule ctx ends) DOther (\<lambda>_. tx_complete (se_uuid_text S) t r token res) w = (Inr (), w')"
    using assms by (auto simp: pg_ack_store_def unit_result_def delivery_env_def split: prod.splits sum.splits)
  from delivery_tx_Inr [OF this] show ?thesis .
qed

text \<open>
  \<^bold>\<open>C16.\<close> The worker acknowledges what was accepted. The hash that it recomputes from a claimed receipt is the stored one,
  the receipt is that of an accepted authorization, and when a turn succeeds with a claim the router has answered this request
  with a known disposition and the outbox row is completed with the answer.
\<close>

theorem acknowledged_as_accepted:
  assumes "delivery_ok (se_codec S) (dg_db w)" "quiet_tokens ids" "codec_inverse (se_codec S)"
    and "as_claim (pg_ack_store (se_codec S) (delivery_env S schedule ctx ends) ids) w t = (Inr (Some claim), w1)"
  shows "ack_hash (se_codec S) (claim_request claim) = Inr (kc_hash claim) \<and> accepted_receipt (dg_db w1) (kc_receipt claim) \<and> rc_tenant (kc_receipt claim) = t \<and>
    (\<forall>w'. ProcessOne (pg_ack_worker (se_codec S) (delivery_env S schedule ctx ends) ids R t) w = (None, w') \<longrightarrow>
       (\<exists>result w2 ob. R w1 (claim_request claim) = (Inr result, w2) \<and> kr_disposition result \<in> {AckApplied, AckAlreadyApplied, AckTerminalExpired} \<and>
          map_of (dd_outbox (dg_db w')) (t, rc_receipt (kc_receipt claim)) = Some ob \<and> ob_status ob = ''completed'' \<and>
          ob_result ob = Some (ackDisposition (kr_disposition result), kr_version result, kr_event result)))"
proof -
  let ?k = "pg_ack_worker (se_codec S) (delivery_env S schedule ctx ends) ids R t"
  have pc: "pg_claim (se_codec S) (delivery_env S schedule ctx ends) ids w t = (Inr (Some claim), w1)" using assms(4) by (simp add: pg_ack_store_def)
  note c = pg_claim_Inr [OF pc assms(1,2,3)]
  have "\<exists>result w2 ob. R w1 (claim_request claim) = (Inr result, w2) \<and> kr_disposition result \<in> {AckApplied, AckAlreadyApplied, AckTerminalExpired} \<and>
      map_of (dd_outbox (dg_db w')) (t, rc_receipt (kc_receipt claim)) = Some ob \<and> ob_status ob = ''completed'' \<and>
      ob_result ob = Some (ackDisposition (kr_disposition result), kr_version result, kr_event result)" if p: "ProcessOne ?k w = (None, w')" for w'
  proof -
    have cl: "as_claim (aw_store ?k) w (aw_tenant ?k) = (Inr (Some claim), w1)" using assms(4) by simp
    obtain result w2 where r: "R w1 (claim_request claim) = (Inr result, w2)" "kr_disposition result \<in> {AckApplied, AckAlreadyApplied, AckTerminalExpired}"
        "as_complete (pg_ack_store (se_codec S) (delivery_env S schedule ctx ends) ids) w2 t (rc_receipt (kc_receipt claim)) (kc_token claim) result = (None, w')"
      using ProcessOne_None [OF p cl] by (auto simp: claim_request_def)
    from update_claimed_Inr [OF tx_complete_Inr [OF pg_complete_None [OF r(3)]]] r(1,2) show ?thesis by auto
  qed
  with c show ?thesis by blast
qed


section \<open>Routes\<close>

lemma services_apply:
  assumes "vis_ok (dg_db w)" "p = pg_route_projector K (service_env S schedule ctx ends) (answering_router rep snap) (\<lambda>w. (token (dg_calls w), w))"
  shows "vis_ok (dg_db (fold (\<lambda>f w. snd (snd (route_Apply p f w))) fs w))"
  using assms(1)
proof (induction fs arbitrary: w)
  case (Cons f fs)
  obtain res err w' where a: "route_Apply p f w = (res, err, w')" by (metis prod_cases3)
  have "vis_ok (dg_db w')" using services.route_Apply_fine [OF Cons.prems a [unfolded assms(2)]] by (simp add: services.fine_def)
  with Cons.IH a show ?case by simp
qed simp

lemma service_tx_load:
  assumes "delivery_tx (service_env S schedule ctx ends) ROther (\<lambda>c. tx_route_load c t i 0) w = (Inr x, w')"
  shows "fst x = projection_of t i (tc_now (ctx (dg_calls w))) (map_of (dd_heads (dg_db w')) (t, i))"
  using assms by (auto simp: delivery_tx_def service_env_def tx_route_load_def Let_def split: dtx_end.splits)

text \<open>
  \<^bold>\<open>C9.\<close> A route is shown only under an accepted delivery authorization. After any sequence of route facts, whatever the router
  answers and whatever other services do in between, \<open>Visible\<close> answers true only when the head names an authorization that the
  delivery service accepted for this interaction with this receipt, and the database clock is before the end of the lease.
\<close>

theorem visible_authorised:
  assumes "p = pg_route_projector K (service_env S schedule ctx ends) (answering_router rep snap) (\<lambda>w. (token (dg_calls w), w))"
    and "vis_ok (dg_db w)" "w1 = fold (\<lambda>f w. snd (snd (route_Apply p f w))) fs w" "route_visible p t i w1 = (Inr True, w2)"
  shows "\<exists>h row. map_of (dd_heads (dg_db w2)) (t, i) = Some h \<and> hd_visibility h = ''visible'' \<and>
    tc_now (ctx (dg_calls w1)) < case_option 0 id (hd_lease h) \<and> map_of (dd_auths (dg_db w2)) (t, case_option '''' id (hd_auth h)) = Some row \<and>
    az_interaction row = i \<and> az_receipt row = case_option '''' id (hd_receipt h)"
proof -
  have v1: "vis_ok (dg_db w1)" using services_apply [OF assms(2,1)] assms(3) by simp
  obtain proj x where l: "rs_load (rj_store p) w1 t i 0 = (Inr (proj, x), w2)" "rt_visibility (rp_state proj) = Visible"
      "\<not> is_zero_time (rp_now proj)" "rp_now proj < rt_lease (rp_state proj)"
    using assms(4) by (auto simp: route_visible_def split: prod.splits sum.splits if_splits)
  have v2: "vis_ok (dg_db w2)" using services.load [OF v1 l(1) [unfolded assms(1)]] by simp
  have pr: "proj = projection_of t i (tc_now (ctx (dg_calls w1))) (map_of (dd_heads (dg_db w2)) (t, i))"
    using service_tx_load [of S schedule ctx ends t i w1 "(proj, x)" w2] l(1) assms(1) by (simp add: pg_route_store_def)
  obtain h where h1: "map_of (dd_heads (dg_db w2)) (t, i) = Some h"
    using l(2) unfolding pr by (cases "map_of (dd_heads (dg_db w2)) (t, i)") (simp_all add: projection_of_def Visible_def Hidden_def)
  have h2: "hd_visibility h = ''visible''" using l(2) unfolding pr h1 by (simp add: projection_of_def Visible_def Hidden_def split: if_splits)
  have h3: "tc_now (ctx (dg_calls w1)) < case_option 0 id (hd_lease h)" using l(4) unfolding pr h1 by (simp add: projection_of_def)
  note h = h1 h2 h3
  have "bound_in (dg_db w2) t (case_option '''' id (hd_auth h)) \<lparr>ab_interaction = i, ab_receipt = case_option '''' id (hd_receipt h)\<rparr>"
    using v2 [unfolded vis_ok_def head_bound_def, rule_format, OF h(1,2)] by simp
  then obtain row where "map_of (dd_auths (dg_db w2)) (t, case_option '''' id (hd_auth h)) = Some row" "az_interaction row = i" "az_receipt row = case_option '''' id (hd_receipt h)"
    by (auto simp: bound_in_iff)
  with h show ?thesis by blast
qed


text \<open>
  The reference for a batch, written from the meaning of the facts and not from the code. A fact is acceptable when its ids are
  canonical and its kind is one of three: a reservation, a ringing fact that carries its authorization, its receipt, its own
  version as generation and a lease, or a terminal fact that names an earlier generation. A batch is acceptable when all its
  facts belong to one interaction, the projection's if it has one, and their versions are the next ones.
\<close>

definition acceptable_fact :: "rcodec \<Rightarrow> route_fact \<Rightarrow> bool" where
  "acceptable_fact K f \<longleftrightarrow>
     validUUIDv7 K (rf_tenant f) \<and> validUUIDv7 K (rf_interaction f) \<and> validUUIDv7 K (rf_event f) \<and> 0 < rf_version f \<and>
     (rf_kind f = 1 \<or>
      rf_kind f = 2 \<and> validUUIDv7 K (rf_auth f) \<and> validUUIDv7 K (rf_receipt f) \<and> rf_generation f = rf_version f \<and> rf_lease f \<noteq> 0 \<or>
      rf_kind f = 3 \<and> 0 < rf_generation f \<and> rf_generation f < rf_version f)"

definition acceptable_batch :: "rcodec \<Rightarrow> projection \<Rightarrow> route_fact list \<Rightarrow> bool" where
  "acceptable_batch K p facts \<longleftrightarrow>
     (\<forall>f \<in> set facts. acceptable_fact K f) \<and>
     map rf_version facts = [Suc (rt_version (rp_state p))..<Suc (rt_version (rp_state p)) + length facts] \<and>
     (\<exists>t i. (\<forall>f \<in> set facts. rf_tenant f = t \<and> rf_interaction f = i) \<and>
            (rp_tenant p \<noteq> '''' \<longrightarrow> t = rp_tenant p \<and> i = rp_interaction p))"

text \<open>
  The state after a batch: version, event and hash are the last fact's, and the interaction is visible when that one rings; the
  authorization, receipt and generation are those of the last ringing fact, and the lease is the one of the last fact that
  is not a reservation, none if that one is terminal.
\<close>

definition batch_state :: "rcodec \<Rightarrow> route_state \<Rightarrow> route_fact list \<Rightarrow> route_state" where
  "batch_state K s facts =
     (if facts = [] then s
      else
        let f = last facts; rings = filter (\<lambda>f. rf_kind f = 2) facts; moves = filter (\<lambda>f. rf_kind f \<noteq> 1) facts
        in \<lparr>rt_version = rf_version f, rt_event = rf_event f, rt_hash = HashRouteFact K f,
            rt_visibility = (if rf_kind f = 2 then 1 else 0),
            rt_auth = (if rings = [] then rt_auth s else rf_auth (last rings)),
            rt_receipt = (if rings = [] then rt_receipt s else rf_receipt (last rings)),
            rt_generation = (if rings = [] then rt_generation s else rf_generation (last rings)),
            rt_lease = (if moves = [] then rt_lease s else if rf_kind (last moves) = 2 then rf_lease (last moves) else 0)\<rparr>)"

lemmas fact_kinds = FactReserved_def FactRinging_def FactTerminal_def Visible_def Hidden_def

lemma validateFact_acceptable: "validateFact K f = None \<longleftrightarrow> acceptable_fact K f"
  by (cases "rf_kind f = 1"; cases "rf_kind f = 2"; cases "rf_kind f = 3")
    (auto simp: validateFact_def acceptable_fact_def fact_kinds)

lemma fold_batch_state: "\<forall>f \<in> set fs. rf_kind f \<in> {1, 2, 3} \<Longrightarrow> fold (fold_fact K) fs s = batch_state K s fs"
proof (induction fs rule: rev_induct)
  case (snoc f fs)
  then have "fold (fold_fact K) (fs @ [f]) s = fold_fact K f (batch_state K s fs)" by simp
  also have "\<dots> = batch_state K s (fs @ [f])"
  proof -
    have "rf_kind f = 1 \<or> rf_kind f = 2 \<or> rf_kind f = 3" using snoc.prems by simp
    then show ?thesis by (cases "fs = []") (auto simp: batch_state_def fold_fact_def Let_def fact_kinds)
  qed
  finally show ?case .
qed (simp add: batch_state_def)

lemma fold_loop_reference:
  "fold_loop K t i s fs =
     (if list_all (\<lambda>f. acceptable_fact K f \<and> rf_tenant f = t \<and> rf_interaction f = i) fs \<and>
         map rf_version fs = [Suc (rt_version s)..<Suc (rt_version s) + length fs]
      then Inr (fold (fold_fact K) fs s) else Inl RInvalidReplay)"
proof (induction fs arbitrary: s)
  case (Cons f fs)
  have "[Suc v..<Suc v + length (f # fs)] = Suc v # [Suc (Suc v)..<Suc (Suc v) + length fs]" for v
    by (simp add: upt_conv_Cons del: upt_Suc)
  moreover have "rt_version (fold_fact K f s) = rf_version f" by (simp add: fold_fact_def Let_def)
  ultimately show ?case using Cons.IH [of "fold_fact K f s"] validateFact_acceptable [of K f]
    by (auto simp del: upt_Suc)
qed simp

lemma FoldBatch_loop: "rp_tenant p \<noteq> '''' \<Longrightarrow> FoldBatch K p fs = fold_loop K (rp_tenant p) (rp_interaction p) (rp_state p) fs"
  by (simp add: FoldBatch_def)

lemma FoldBatch_reference:
  "FoldBatch K p fs = (if acceptable_batch K p fs then Inr (batch_state K (rp_state p) fs) else Inl RInvalidReplay)"
proof (cases "fs = []")
  case True
  then show ?thesis by (auto simp: FoldBatch_def acceptable_batch_def batch_state_def)
next
  case False
  define t where "t = (if rp_tenant p = '''' then rf_tenant (hd fs) else rp_tenant p)"
  define i where "i = (if rp_tenant p = '''' then rf_interaction (hd fs) else rp_interaction p)"
  have "FoldBatch K p fs = fold_loop K t i (rp_state p) fs" using False by (simp add: FoldBatch_def t_def i_def)
  moreover have "list_all (\<lambda>f. acceptable_fact K f \<and> rf_tenant f = t \<and> rf_interaction f = i) fs \<and>
      map rf_version fs = [Suc (rt_version (rp_state p))..<Suc (rt_version (rp_state p)) + length fs] \<longleftrightarrow> acceptable_batch K p fs"
    using False hd_in_set [OF False] unfolding acceptable_batch_def list_all_iff t_def i_def by (auto simp del: upt_Suc)
  moreover have "acceptable_batch K p fs \<Longrightarrow> fold (fold_fact K) fs (rp_state p) = batch_state K (rp_state p) fs"
    by (rule fold_batch_state) (auto simp: acceptable_batch_def acceptable_fact_def)
  ultimately show ?thesis by (simp add: fold_loop_reference)
qed

text \<open>
  \<^bold>\<open>C40.\<close> \<open>FoldBatch\<close> computes the reference: it accepts exactly the batches whose facts are each acceptable, belong to one
  interaction (that of the projection, or of the first fact when the projection has none yet) and have the next versions, and
  its result is the state that the last facts of each kind determine; every other batch is refused. So folding a
  batch in two parts gives what folding it at once gives, once the projection has its interaction.
\<close>

theorem fold_batch_reference:
  "FoldBatch K p fs = (if acceptable_batch K p fs then Inr (batch_state K (rp_state p) fs) else Inl RInvalidReplay) \<and>
    (rp_tenant p \<noteq> '''' \<longrightarrow>
       FoldBatch K p (fs @ gs) = (case FoldBatch K p fs of Inl e \<Rightarrow> Inl e | Inr s \<Rightarrow> FoldBatch K (p\<lparr>rp_state := s\<rparr>) gs))"
proof (intro conjI impI)
  assume "rp_tenant p \<noteq> ''''"
  then have "FoldBatch K p hs = fold_loop K (rp_tenant p) (rp_interaction p) (rp_state p) hs"
      "FoldBatch K (p\<lparr>rp_state := s\<rparr>) hs = fold_loop K (rp_tenant p) (rp_interaction p) s hs" for s hs
    by (simp_all add: FoldBatch_loop)
  then show "FoldBatch K p (fs @ gs) = (case FoldBatch K p fs of Inl e \<Rightarrow> Inl e | Inr s \<Rightarrow> FoldBatch K (p\<lparr>rp_state := s\<rparr>) gs)"
    by (simp only: fold_loop_append)
qed (rule FoldBatch_reference)


section \<open>Witnesses\<close>

text \<open>A codec with the law that the worker relies on, and one authorization with its receipt.\<close>

definition ex_tenant :: string where "ex_tenant = ''018f5d9e-0000-7000-8000-00000000000a''"
definition ex_call :: string where "ex_call = ''018f5d9e-0000-7000-8000-00000000000b''"
definition ex_authorization :: string where "ex_authorization = ''018f5d9e-0000-7000-8000-00000000000c''"
definition ex_rid :: string where "ex_rid = ''018f5d9e-0000-7000-8000-00000000000d''"
definition ex_rid2 :: string where "ex_rid2 = ''018f5d9e-0000-7000-8000-00000000000e''"

definition ex_auth :: dauth where
  "ex_auth =
     \<lparr>da_id = ex_authorization, da_event = ''018f5d9e-0000-7000-8000-000000000001'', da_tenant = ex_tenant,
      da_reservation = ''018f5d9e-0000-7000-8000-000000000002'', da_interaction = ex_call, da_target = ''018f5d9e-0000-7000-8000-000000000003'',
      da_fencing = ''018f5d9e-0000-7000-8000-000000000004'', da_version = 1, da_deadline = Some (10, 0),
      da_traceparent = ''00-4bf92f3577b34da6a3ce929d0e0e4736-00f067aa0ba902b7-01'', da_unknown = []\<rparr>"

definition ex_receipt :: "string \<Rightarrow> nat \<Rightarrow> dreceipt" where
  "ex_receipt rid n =
     \<lparr>rc_receipt = rid, rc_auth = da_id ex_auth, rc_event = da_event ex_auth, rc_tenant = ex_tenant, rc_reservation = da_reservation ex_auth,
      rc_interaction = ex_call, rc_target = da_target ex_auth, rc_accepted = (5, 0), rc_deadline = Some (10, 0), rc_seq = n,
      rc_issuer = ''relaypoint'', rc_visibility = 1\<rparr>"

text \<open>The receipts of that authorization, written as sequence number and receipt id.\<close>

definition ex_codec :: dcodec where
  "ex_codec =
     \<lparr>dk_marshal_auth = (\<lambda>a. Some (da_id a @ da_traceparent a)),
      dk_marshal_receipt = (\<lambda>rc. if rc_seq rc < 256 \<and> rc = ex_receipt (rc_receipt rc) (rc_seq rc) then Some (char_of (rc_seq rc) # rc_receipt rc) else None),
      dk_unmarshal_receipt = (\<lambda>b. case b of [] \<Rightarrow> None | c # rid \<Rightarrow> Some (ex_receipt rid (of_char c))),
      dk_sha256 = (\<lambda>b. copy32 (rev b)),
      dk_uuid = (\<lambda>s. if length s = 36 then Some (7, True, s) else None),
      dk_deadline_valid = (\<lambda>(s, n). 0 \<le> n \<and> n < 1000000000),
      dk_timestamp = (\<lambda>t. (t, 0))\<rparr>"

definition ex_routes :: rcodec where
  "ex_routes = \<lparr>ru_uuid = dk_uuid ex_codec, ru_sha256 = dk_sha256 ex_codec\<rparr>"

definition ex_setup :: dsetup where
  "ex_setup = \<lparr>se_codec = ex_codec, se_rcodec = ex_routes, se_timestamptz = id, se_uuid_text = (\<lambda>s. length s = 36)\<rparr>"

definition ex_empty :: ddb where
  "ex_empty = \<lparr>dd_auths = [], dd_log = [], dd_outbox = [], dd_heads = [], dd_versions = [], dd_events = [], dd_intents = [], dd_dlq = [], dd_alerts = []\<rparr>"

definition ex_ctx :: "nat \<Rightarrow> tx_ctx" where
  "ex_ctx n = \<lparr>tc_now = 5, tc_seq = Suc n, tc_locked = (\<lambda>_. False)\<rparr>"

definition ex_who :: dprincipal where
  "ex_who = \<lparr>dp_service = ''corex'', dp_tenant = ex_tenant, dp_capabilities = [CapabilityDeliveryWrite]\<rparr>"

definition ex_world :: dg_world where "ex_world = \<lparr>dg_db = ex_empty, dg_calls = 0\<rparr>"

abbreviation ex_env :: dg_env where
  "ex_env \<equiv> delivery_env ex_setup (\<lambda>_. []) ex_ctx (\<lambda>_. DCommits)"

definition ex_first :: "(derr + dreceipt) \<times> dg_world" where
  "ex_first = AcceptDelivery ex_codec (pg_dstore ex_codec ex_env) (Pair ex_rid) ex_who (Some ex_auth) ex_world"

text \<open>The tables after it was accepted, and then claimed by a worker.\<close>

definition ex_accepted :: dg_world where "ex_accepted = snd ex_first"

definition ex_between :: "dop list" where
  "ex_between = [OpClaim (ex_ctx 1) ex_tenant ex_rid2]"

lemma ex_hash_length: "length (dk_sha256 ex_codec b) = 32"
  by (simp add: ex_codec_def copy32_def zero_hash_def)

lemma ex_auth_valid: "validateAuthorization ex_codec (Some ex_auth) = None"
  by code_simp

lemma ex_auth_normal: "normalizeAuthorization ex_codec ex_auth = ex_auth"
  using normalize_valid [OF ex_auth_valid] by (simp add: ex_auth_def)

lemma ex_marshal: "dk_marshal_receipt ex_codec (ex_receipt rid (Suc 0)) = Some (CHR 0x01 # rid)"
  by (simp add: ex_codec_def ex_receipt_def) code_simp

lemma ex_unmarshal: "dk_unmarshal_receipt ex_codec (CHR 0x01 # rid) = Some (ex_receipt rid (Suc 0))"
  by (simp add: ex_codec_def)

lemma ex_result: "receipt_of ex_codec ex_auth issuerServiceID \<lparr>ar_receipt = rid, ar_accepted = 5, ar_seq = Suc 0\<rparr> = ex_receipt rid (Suc 0)"
  by (simp add: receipt_of_def ex_receipt_def ex_codec_def ex_auth_def issuerServiceID_def PENDING_NOT_VISIBLE_def)

lemma ex_tx_append:
  assumes "length hash = 32"
  shows "\<exists>db h. tx_append ex_codec (ex_ctx 0) \<lparr>ai_auth = ex_auth, ai_receipt = rid, ai_issuer = issuerServiceID, ai_hash = hash, ai_body = body\<rparr> ex_empty =
    Inr (\<lparr>ar_receipt = rid, ar_accepted = 5, ar_seq = Suc 0\<rparr>, db) \<and>
    dd_outbox db = [((ex_tenant, rid), \<lparr>ob_version = 1, ob_fencing = da_fencing ex_auth, ob_body = CHR 0x01 # rid, ob_hash = h, ob_status = ''pending'',
      ob_token = None, ob_until = None, ob_attempts = 0, ob_next = 5, ob_result = None\<rparr>)]"
  using assms
  by (simp add: tx_append_def ex_ctx_def ex_result ex_marshal ack_hash_def ack_of_append_def ex_hash_length insert_delivery_log_def insert_authorization_def
      insert_outbox_def ex_empty_def pg_bigint_def Let_def)
    (simp add: ex_auth_def)

lemma ex_first_Inr: "\<exists>h. ex_first = (Inr (ex_receipt ex_rid (Suc 0)), ex_accepted) \<and>
    dd_outbox (dg_db ex_accepted) = [((ex_tenant, ex_rid), \<lparr>ob_version = 1, ob_fencing = da_fencing ex_auth, ob_body = CHR 0x01 # ex_rid, ob_hash = h, ob_status = ''pending'',
      ob_token = None, ob_until = None, ob_attempts = 0, ob_next = 5, ob_result = None\<rparr>)]"
proof -
  obtain hash body where h: "authorizationHashAndBody ex_codec ex_auth = Inr (hash, body)" "length hash = 32"
    by (simp add: authorizationHashAndBody_def ex_codec_def copy32_def zero_hash_def)
  let ?inp = "\<lparr>ai_auth = ex_auth, ai_receipt = ex_rid, ai_issuer = issuerServiceID, ai_hash = hash, ai_body = body\<rparr>"
  obtain db k where db: "tx_append ex_codec (ex_ctx 0) ?inp ex_empty = Inr (\<lparr>ar_receipt = ex_rid, ar_accepted = 5, ar_seq = Suc 0\<rparr>, db)"
      "dd_outbox db = [((ex_tenant, ex_rid), \<lparr>ob_version = 1, ob_fencing = da_fencing ex_auth, ob_body = CHR 0x01 # ex_rid, ob_hash = k, ob_status = ''pending'',
         ob_token = None, ob_until = None, ob_attempts = 0, ob_next = 5, ob_result = None\<rparr>)]"
    using ex_tx_append [OF h(2), of ex_rid body] by blast
  then have a: "ds_append (pg_dstore ex_codec ex_env) ex_world ?inp = (Inr \<lparr>ar_receipt = ex_rid, ar_accepted = 5, ar_seq = Suc 0\<rparr>, \<lparr>dg_db = db, dg_calls = 1\<rparr>)"
    by (simp add: pg_dstore_def delivery_tx_def delivery_env_def ex_world_def Let_def)
  have g: "dp_service ex_who = ''corex''" "hasCapability (dp_capabilities ex_who) CapabilityDeliveryWrite" "dp_tenant ex_who \<noteq> ''''" "dp_tenant ex_who = da_tenant ex_auth"
      "requireUUIDv7 ex_codec ex_rid = None"
    by code_simp+
  have e: "ex_first = (Inr (ex_receipt ex_rid (Suc 0)), \<lparr>dg_db = db, dg_calls = 1\<rparr>)" unfolding ex_first_def AcceptDelivery_def
    using g h a ex_auth_valid ex_auth_normal ex_result by simp
  show ?thesis unfolding ex_accepted_def e using db(2) by simp
qed

lemma ex_quiet: "quiet_tokens (Pair t)"
  by (simp add: quiet_tokens_def)

lemma ex_setup_codec: "se_codec ex_setup = ex_codec"
  by (simp add: ex_setup_def)

lemma ex_empty_ok: "delivery_ok K (dg_db ex_world)"
  by (simp add: delivery_ok_def ex_world_def ex_empty_def)

lemma ex_rid2_valid: "requireUUIDv7 ex_codec ex_rid2 = None"
  by code_simp

lemma ex_inverse: "codec_inverse ex_codec"
  by (auto simp: codec_inverse_def ex_codec_def split: if_splits)

theorem accept_idempotent_witness:
  "fst (AcceptDelivery ex_codec (pg_dstore ex_codec ex_env) (Pair ex_rid2) ex_who (Some ex_auth)
     (ex_accepted\<lparr>dg_db := dops ex_setup ex_between (dg_db ex_accepted)\<rparr>)) = Inr (ex_receipt ex_rid 1)"
proof -
  have f: "AcceptDelivery (se_codec ex_setup) (pg_dstore (se_codec ex_setup) ex_env) (Pair ex_rid) ex_who (Some ex_auth) ex_world = (Inr (ex_receipt ex_rid 1), ex_accepted)"
    using ex_first_Inr by (simp add: ex_first_def ex_setup_codec)
  show ?thesis
    using accept_idempotent [OF f ex_empty_ok ex_quiet ex_quiet, of "ex_accepted\<lparr>dg_db := dops ex_setup ex_between (dg_db ex_accepted)\<rparr>" ex_between ex_rid2
        "\<lambda>_. DCommits" "\<lambda>_. []" ex_ctx] ex_rid2_valid
    by (simp add: ex_setup_codec)
qed
lemma ex_accepted_ok: "delivery_ok ex_codec (dg_db ex_accepted)"
proof -
  have f: "AcceptDelivery (se_codec ex_setup) (pg_dstore (se_codec ex_setup) ex_env) (Pair ex_rid) ex_who (Some ex_auth) ex_world = (Inr (ex_receipt ex_rid 1), ex_accepted)"
    using ex_first_Inr by (simp add: ex_first_def ex_setup_codec)
  from AcceptDelivery_accepted [OF f ex_quiet ex_empty_ok] show ?thesis by (auto simp: ex_setup_codec)
qed

theorem acknowledged_as_accepted_witness:
  "\<exists>claim w1. as_claim (pg_ack_store ex_codec ex_env (Pair ex_rid2)) ex_accepted ex_tenant = (Inr (Some claim), w1) \<and>
     ack_hash ex_codec (claim_request claim) = Inr (kc_hash claim) \<and> accepted_receipt (dg_db w1) (kc_receipt claim)"
proof -
  obtain claim w1 where c: "as_claim (pg_ack_store (se_codec ex_setup) ex_env (Pair ex_rid2)) ex_accepted ex_tenant = (Inr (Some claim), w1)"
    using ex_first_Inr
    by (auto simp: pg_ack_store_def pg_claim_def delivery_tx_def delivery_env_def tx_claim_def claimable_def ex_ctx_def ex_unmarshal ex_setup_codec Let_def)
  from acknowledged_as_accepted [OF _ ex_quiet _ c] c ex_accepted_ok ex_inverse show ?thesis by (auto simp: ex_setup_codec)
qed

definition ex_outbox :: ddb where
  "ex_outbox = ex_empty\<lparr>dd_outbox := [((ex_tenant, ex_rid), \<lparr>ob_version = 1, ob_fencing = [], ob_body = [], ob_hash = [], ob_status = ''claimed'',
     ob_token = Some ex_rid2, ob_until = Some 35, ob_attempts = 0, ob_next = 5, ob_result = None\<rparr>)]\<rparr>"

definition ex_answer :: ack_result where "ex_answer = \<lparr>kr_disposition = AckApplied, kr_version = 2, kr_event = ''''\<rparr>"

text \<open>A worker that held the receipt under \<open>ex_call\<close> and was overtaken by one that holds it under \<open>ex_rid2\<close>.\<close>

definition ex_late :: "dop list" where
  "ex_late = [OpComplete ex_tenant ex_rid ex_call ex_answer, OpComplete ex_tenant ex_rid ex_rid2 ex_answer, OpComplete ex_tenant ex_rid ex_rid2 ex_answer]"

lemma ex_outbox_free: "distinct (map fst (dd_outbox ex_outbox)) \<and> \<not> claim_held ex_outbox (ex_tenant, ex_rid) ex_call \<and> list_all (\<lambda>op. \<not> claims_with ex_call op) ex_late"
  by code_simp

lemma ex_late_completes: "0 < completions ex_setup ex_tenant ex_rid ex_late ex_outbox"
  by (simp add: ex_late_def ex_setup_def ex_outbox_def ex_empty_def ex_answer_def tx_complete_def update_claimed_def pg_bigint_def committed_db_def ex_call_def ex_rid2_def)

theorem completed_once_witness:
  "completions ex_setup ex_tenant ex_rid ex_late ex_outbox = 1 \<and>
   \<not> completes ex_setup ex_tenant ex_rid (OpComplete ex_tenant ex_rid ex_call ex_answer) (dops ex_setup ex_late ex_outbox)"
  using completed_once [of ex_outbox ex_setup ex_tenant ex_rid ex_late ex_call ex_answer "ex_ctx 0"] ex_outbox_free ex_late_completes by simp


text \<open>A ringing fact under an accepted authorization, and the fact that ends it.\<close>

definition ex_ring :: route_fact where
  "ex_ring = \<lparr>rf_tenant = ex_tenant, rf_interaction = ex_call, rf_event = ''018f5d9e-0000-7000-8000-000000000005'', rf_version = 1, rf_kind = FactRinging,
     rf_auth = ex_authorization, rf_receipt = ex_rid, rf_generation = 1, rf_lease = 100\<rparr>"

definition ex_end :: route_fact where
  "ex_end = ex_ring\<lparr>rf_event := ''018f5d9e-0000-7000-8000-000000000006'', rf_version := 2, rf_kind := FactTerminal, rf_generation := 1, rf_lease := 0\<rparr>"

definition ex_bound :: dg_world where
  "ex_bound = ex_world\<lparr>dg_db := ex_empty\<lparr>dd_auths := [((ex_tenant, ex_authorization),
     \<lparr>az_event = [], az_interaction = ex_call, az_receipt = ex_rid, az_accepted = 5, az_seq = 1, az_hash = []\<rparr>)]\<rparr>\<rparr>"

abbreviation ex_services :: dg_env where
  "ex_services \<equiv> service_env ex_setup (\<lambda>_. []) ex_ctx (\<lambda>_. DCommits)"

definition ex_route :: "dg_world route_projector" where
  "ex_route = pg_route_projector ex_routes ex_services (answering_router (\<lambda>_ _ _ _ _. Inl RUnknownHistory) (\<lambda>_ _ _. Inl RUnknownHistory)) (\<lambda>w. (ex_rid2, w))"

lemma ex_facts_valid: "validateFact ex_routes ex_ring = None" "validateFact ex_routes ex_end = None"
  by code_simp+

definition ex_rung :: route_state where
  "ex_rung = \<lparr>rt_version = 1, rt_event = rf_event ex_ring, rt_hash = HashRouteFact ex_routes ex_ring, rt_visibility = Visible, rt_auth = ex_authorization,
     rt_receipt = ex_rid, rt_generation = 1, rt_lease = 100\<rparr>"

lemma ex_route_hash: "length (HashRouteFact ex_routes f) = 32"
  by (simp add: HashRouteFact_def ex_routes_def ex_hash_length)

lemma ex_vis: "vis_ok (dg_db ex_bound)"
  by (simp add: vis_ok_def ex_bound_def ex_empty_def)

lemma ex_fold: "FoldBatch ex_routes (projection_of ex_tenant ex_call 5 None) [ex_ring] = Inr ex_rung"
  using ex_facts_valid(1)
  by (simp add: FoldBatch_def projection_of_def ex_tenant_def) (simp add: ex_ring_def fold_fact_def ex_rung_def ex_tenant_def FactRinging_def)


definition ex_rung_world :: dg_world where
  "ex_rung_world = fold (\<lambda>f w. snd (snd (route_Apply ex_route f w))) [ex_ring] ex_bound"

lemma ex_load: "rs_load (rj_store ex_route) ex_bound ex_tenant ex_call 1 =
    (Inr (projection_of ex_tenant ex_call 5 None, None), ex_bound\<lparr>dg_calls := 1\<rparr>)"
  by (simp add: ex_route_def pg_route_store_def delivery_tx_def service_env_def ex_bound_def ex_world_def ex_empty_def ex_ctx_def tx_route_load_def pg_bigint_def Let_def)

lemma ex_binding: "validateAuthorizationBindings (rj_store ex_route) [ex_ring] (ex_bound\<lparr>dg_calls := 1\<rparr>) = (None, ex_bound\<lparr>dg_calls := 2\<rparr>)"
  by (simp add: ex_route_def pg_route_store_def delivery_tx_def service_env_def ex_bound_def ex_world_def ex_ring_def tx_authorization_def Let_def)

lemma ex_install: "\<exists>db. rs_install (rj_store ex_route) (ex_bound\<lparr>dg_calls := 2\<rparr>) 0 [ex_ring] ex_rung = (Inr True, \<lparr>dg_db = db, dg_calls = 3\<rparr>) \<and>
    map_of (dd_heads db) (ex_tenant, ex_call) = Some (route_head_of id ex_rung)"
  using ex_route_hash [of ex_ring]
  by (simp add: ex_route_def pg_route_store_def delivery_tx_def service_env_def ex_bound_def ex_world_def ex_empty_def ex_setup_def tx_install_batch_def installBatchTx_def
      lock_route_head_def new_route_head_def insertFactLedgers_def insert_route_version_def insert_route_event_def set_route_head_def pg_bigint_def json_time_def Let_def)
    (simp add: ex_ring_def ex_rung_def)

lemma ex_visible: "\<exists>w2. route_visible ex_route ex_tenant ex_call ex_rung_world = (Inr True, w2)"
proof -
  obtain db where i: "rs_install (rj_store ex_route) (ex_bound\<lparr>dg_calls := 2\<rparr>) 0 [ex_ring] ex_rung = (Inr True, \<lparr>dg_db = db, dg_calls = 3\<rparr>)"
      "map_of (dd_heads db) (ex_tenant, ex_call) = Some (route_head_of id ex_rung)" using ex_install by blast
  have f: "rf_tenant ex_ring = ex_tenant" "rf_interaction ex_ring = ex_call" "rf_version ex_ring = 1" "rj_codec ex_route = ex_routes"
      "rt_version (rp_state (projection_of ex_tenant ex_call 5 None)) = 0"
    by (simp_all add: ex_ring_def ex_route_def projection_of_def)
  have e: "ex_rung_world = \<lparr>dg_db = db, dg_calls = 3\<rparr>"
    using ex_facts_valid(1) ex_load ex_binding ex_fold i(1) by (simp add: ex_rung_world_def route_Apply_def f route_installed_def)
  show ?thesis unfolding e using i(2)
    by (simp add: route_visible_def ex_route_def pg_route_store_def delivery_tx_def service_env_def tx_route_load_def ex_ctx_def projection_of_def route_head_of_def
        ex_rung_def visibilityName_def nullableTime_def Visible_def Let_def)
qed

theorem visible_authorised_witness:
  "\<exists>w2 h row. route_visible ex_route ex_tenant ex_call ex_rung_world = (Inr True, w2) \<and> map_of (dd_heads (dg_db w2)) (ex_tenant, ex_call) = Some h \<and>
     map_of (dd_auths (dg_db w2)) (ex_tenant, case_option '''' id (hd_auth h)) = Some row \<and> az_interaction row = ex_call"
proof -
  obtain w2 where v: "route_visible ex_route ex_tenant ex_call ex_rung_world = (Inr True, w2)" using ex_visible by blast
  from visible_authorised [OF ex_route_def ex_vis ex_rung_world_def v] v show ?thesis by blast
qed

theorem fold_batch_reference_witness:
  "FoldBatch ex_routes (projection_of ex_tenant ex_call 5 None) [ex_ring, ex_end] = Inr (batch_state ex_routes ex_rung [ex_end]) \<and>
   rt_visibility (batch_state ex_routes ex_rung [ex_end]) = 0 \<and> rt_auth (batch_state ex_routes ex_rung [ex_end]) = ex_authorization \<and>
   FoldBatch ex_routes (projection_of ex_tenant ex_call 5 None) [ex_end] = Inl RInvalidReplay"
proof -
  let ?p = "projection_of ex_tenant ex_call 5 None"
  have p: "rp_tenant ?p = ex_tenant" "rp_interaction ?p = ex_call" "ex_tenant \<noteq> ''''" "rt_version (rp_state ?p) = 0"
    by (simp_all add: projection_of_def ex_tenant_def)
  have e: "rf_tenant ex_end = ex_tenant" "rf_interaction ex_end = ex_call" "rf_version ex_end = 2" "rt_version ex_rung = 1" "rf_kind ex_end = 3"
    by (simp_all add: ex_end_def ex_ring_def ex_rung_def fact_kinds)
  have a: "acceptable_fact ex_routes ex_end" using ex_facts_valid(2) by (simp only: validateFact_acceptable)
  have b: "acceptable_batch ex_routes (?p\<lparr>rp_state := ex_rung\<rparr>) [ex_end]" "\<not> acceptable_batch ex_routes ?p [ex_end]"
    using p e a by (simp_all add: acceptable_batch_def)
  have "FoldBatch ex_routes (?p\<lparr>rp_state := ex_rung\<rparr>) [ex_end] = Inr (batch_state ex_routes ex_rung [ex_end])"
    using fold_batch_reference [THEN conjunct1, of ex_routes "?p\<lparr>rp_state := ex_rung\<rparr>" "[ex_end]"] b(1) by simp
  then have "FoldBatch ex_routes ?p ([ex_ring] @ [ex_end]) = Inr (batch_state ex_routes ex_rung [ex_end])"
    using fold_batch_reference [THEN conjunct2, rule_format, of ?p ex_routes "[ex_ring]" "[ex_end]"] p ex_fold by simp
  moreover have "FoldBatch ex_routes ?p [ex_end] = Inl RInvalidReplay"
    using fold_batch_reference [THEN conjunct1, of ex_routes ?p "[ex_end]"] b(2) by simp
  ultimately show ?thesis by (simp add: batch_state_def Let_def e ex_rung_def)
qed

end
