(* ===== verification/Spec2Isabelle.thy ===== *)
theory Spec2Isabelle
  imports Router_Claims Signaling_Claims Projector_Claims Projector_Run_Claims Auth_Claims Obs_Trace Part_Claims Delivery_Claims
begin

text \<open>
  RelayPoint: a verification development of its Go services.
\<close>

end
